(* ===== verification/Prelude.thy ===== *)
theory Prelude
  imports Main "HOL-Library.Word"
begin

text \<open>
  Shared vocabulary of the development: the byte and identifier types, the part of
  \<^verbatim>\<open>std::string_view\<close>, \<^verbatim>\<open>std::from_chars\<close> and \<^verbatim>\<open>std::to_string\<close> that the server calls,
  \<^verbatim>\<open>std::unordered_map\<close> as an association list with distinct keys, and the exceptions that
  travel between the layers.  The lemmas here are the ones several components use.
\<close>

unbundle bit_operations_syntax

named_theorems string_simps \<open>searching and slicing of strings\<close>
named_theorems map_simps \<open>lookups in association lists after an update\<close>

type_synonym byte = "8 word"
type_synonym uuid = "128 word"
type_synonym headers = "(string \<times> string) list"

abbreviation nil_uuid :: uuid where "nil_uuid \<equiv> 0"

abbreviation CR :: char where "CR \<equiv> CHR 0x0D"
abbreviation LF :: char where "LF \<equiv> CHR 0x0A"
abbreviation crlf :: string where "crlf \<equiv> [CR, LF]"

section \<open>Exceptions\<close>

text \<open>
  The kinds of \<^verbatim>\<open>DatabaseError\<close>, and every exception class the modelled code throws or
  catches by name.  \<^verbatim>\<open>std::exception\<close> covers all of them.
\<close>

datatype DatabaseErrorKind = Connection | Query | Constraint | DataConversion

record DatabaseError =
  db_kind :: DatabaseErrorKind
  db_code :: string
  db_constraint :: "string option"

datatype DeviceRelationError = NoSuchDeviceRel | NotActivatedRel | NotYourDeviceRel

text \<open>The answers of the identity check of a session.\<close>

datatype IdentityState = IdentitySuccess | NoSuchDevice | NotActivated | NotYourDevice

datatype exn =
    DbExn DatabaseError
  | InvalidArgument string
  | RuntimeError string
  | JsonError string
  | LogicError string
  | OutOfRange string
  | SystemError string
  | DeviceRelationException DeviceRelationError

type_synonym 'a result = "exn + 'a"

section \<open>Strings\<close>

definition starts_with :: "string \<Rightarrow> string \<Rightarrow> bool" where
  "starts_with p s \<longleftrightarrow> take (length p) s = p"

text \<open>\<^verbatim>\<open>std::string_view::find\<close>: the first position at which the pattern occurs; \<open>None\<close> is \<^verbatim>\<open>npos\<close>.\<close>

fun find_sub :: "string \<Rightarrow> string \<Rightarrow> nat option" where
  "find_sub p [] = (if p = [] then Some 0 else None)"
| "find_sub p (c # cs) =
     (if starts_with p (c # cs) then Some 0 else map_option Suc (find_sub p cs))"

definition find_from :: "string \<Rightarrow> nat \<Rightarrow> string \<Rightarrow> nat option" where
  "find_from p pos s =
     (if pos \<le> length s then map_option (\<lambda>i. i + pos) (find_sub p (drop pos s)) else None)"

text \<open>Subtraction on \<^verbatim>\<open>std::size_t\<close> wraps around at 64 bits.\<close>

definition size_sub :: "nat \<Rightarrow> nat \<Rightarrow> nat" where
  "size_sub a b = (if b \<le> a then a - b else 2 ^ 64 + a - b)"

text \<open>\<^verbatim>\<open>substr(pos, n)\<close> for \<open>pos\<close> within the string: at most \<open>n\<close> characters.\<close>

definition substr :: "string \<Rightarrow> nat \<Rightarrow> nat \<Rightarrow> string" where
  "substr s pos n = take n (drop pos s)"

definition find_first_not_of :: "char list \<Rightarrow> string \<Rightarrow> nat option" where
  "find_first_not_of cs s =
     (let k = length (takeWhile (\<lambda>c. c \<in> set cs) s) in if k < length s then Some k else None)"

definition byte_of_char :: "char \<Rightarrow> byte" where
  "byte_of_char c = word_of_nat (of_char c)"

definition char_of_byte :: "byte \<Rightarrow> char" where
  "char_of_byte b = char_of (unat b)"

abbreviation to_bytes :: "string \<Rightarrow> byte list" where
  "to_bytes \<equiv> map byte_of_char"

abbreviation to_chars :: "byte list \<Rightarrow> string" where
  "to_chars \<equiv> map char_of_byte"

text \<open>\<^verbatim>\<open>std::tolower\<close> in the C locale.\<close>

definition tolower :: "char \<Rightarrow> char" where
  "tolower c = (let n = (of_char c :: nat) in if 65 \<le> n \<and> n \<le> 90 then char_of (n + 32) else c)"

definition equalsIgnoreCase :: "string \<Rightarrow> string \<Rightarrow> bool" where
  "equalsIgnoreCase l r \<longleftrightarrow> length l = length r \<and> map tolower l = map tolower r"

section \<open>Decimal numbers\<close>

definition is_digit :: "char \<Rightarrow> bool" where
  "is_digit c \<longleftrightarrow> 48 \<le> (of_char c :: nat) \<and> (of_char c :: nat) \<le> 57"

definition digit_val :: "char \<Rightarrow> nat" where
  "digit_val c = (of_char c :: nat) - 48"

definition dec_val :: "string \<Rightarrow> nat" where
  "dec_val s = foldl (\<lambda>a c. a * 10 + digit_val c) 0 s"

datatype errc = invalid_argument_errc | result_out_of_range_errc

text \<open>
  \<^verbatim>\<open>std::from_chars\<close> for an unsigned type of maximum \<open>maxv\<close>: the longest run of digits is
  the match; a value above the maximum is an error.  The result carries the value and the
  number of characters matched.
\<close>

definition from_chars_unsigned :: "nat \<Rightarrow> string \<Rightarrow> errc + (nat \<times> nat)" where
  "from_chars_unsigned maxv s =
     (let ds = takeWhile is_digit s in
      if ds = [] then Inl invalid_argument_errc
      else if dec_val ds > maxv then Inl result_out_of_range_errc
      else Inr (dec_val ds, length ds))"

text \<open>\<^verbatim>\<open>std::to_string\<close> of an unsigned number.\<close>

fun to_string_nat :: "nat \<Rightarrow> string" where
  "to_string_nat n =
     (if n < 10 then [char_of (48 + n)] else to_string_nat (n div 10) @ [char_of (48 + n mod 10)])"

declare to_string_nat.simps [simp del]

section \<open>Association lists\<close>

text \<open>
  \<^verbatim>\<open>std::unordered_map\<close>: an association list whose keys are distinct; its order stands for the
  iteration order, which the standard leaves open.  \<open>map_put\<close> is \<^verbatim>\<open>m[k] = v\<close> and
  \<open>insert_or_assign\<close>, \<open>map_erase\<close> is \<^verbatim>\<open>erase(k)\<close>.
\<close>

fun map_put :: "'k \<Rightarrow> 'v \<Rightarrow> ('k \<times> 'v) list \<Rightarrow> ('k \<times> 'v) list" where
  "map_put k v [] = [(k, v)]"
| "map_put k v ((k', v') # m) = (if k = k' then (k, v) # m else (k', v') # map_put k v m)"

definition map_erase :: "'k \<Rightarrow> ('k \<times> 'v) list \<Rightarrow> ('k \<times> 'v) list" where
  "map_erase k m = filter (\<lambda>(k', _). k' \<noteq> k) m"

abbreviation keys :: "('k \<times> 'v) list \<Rightarrow> 'k set" where
  "keys m \<equiv> fst ` set m"

abbreviation wf_map :: "('k \<times> 'v) list \<Rightarrow> bool" where
  "wf_map m \<equiv> distinct (map fst m)"

section \<open>Lemmas on strings\<close>

lemma starts_with_append [string_simps]: "starts_with p (p @ s)"
  by (simp add: starts_with_def)

lemma starts_with_mono: "starts_with p a \<Longrightarrow> starts_with p (a @ b)"
  by (metis append_assoc append_eq_conv_conj append_take_drop_id starts_with_def)

lemma find_sub_bound:
  assumes "find_sub p s = Some i"
  shows "i + length p \<le> length s"
  using assms
proof (induction p s arbitrary: i rule: find_sub.induct)
  case (2 p c cs)
  then show ?case
    by (auto simp: starts_with_def split: if_splits dest!: arg_cong [of "take _ _" _ length])
qed (auto split: if_splits)

lemma find_sub_mono:
  assumes "find_sub p a = Some i"
  shows "find_sub p (a @ b) = Some i"
  using assms
proof (induction p a arbitrary: i rule: find_sub.induct)
  case (1 p)
  then show ?case by (cases b) (auto simp: starts_with_def split: if_splits)
next
  case (2 p c cs)
  show ?case
  proof (cases "starts_with p (c # cs)")
    case True
    then have "starts_with p ((c # cs) @ b)" by (rule starts_with_mono)
    with True "2.prems" show ?thesis by simp
  next
    case False
    with "2.prems" obtain j where j: "find_sub p cs = Some j" "i = Suc j" by auto
    have "length p \<le> length (c # cs)" using find_sub_bound [OF j(1)] by simp
    then have "take (length p) ((c # cs) @ b) = take (length p) (c # cs)"
      by (simp del: append_Cons)
    with False have "\<not> starts_with p ((c # cs) @ b)" by (simp add: starts_with_def)
    with False "2.IH" j show ?thesis by simp
  qed
qed

lemma find_sub_single: "find_sub [c] s = (if c \<in> set s then Some (length (takeWhile (\<lambda>x. x \<noteq> c) s)) else None)"
  by (induction s) (auto simp: starts_with_def)

lemma find_crlf [string_simps]:
  assumes "CR \<notin> set l"
  shows "find_sub crlf (l @ CR # LF # r) = Some (length l)"
  using assms by (induction l) (auto simp: starts_with_def)

lemma find_from_bound:
  assumes "find_from p pos s = Some i"
  shows "pos \<le> i" "i + length p \<le> length s"
  using assms find_sub_bound [of p "drop pos s"] by (auto simp: find_from_def split: if_splits)

lemma find_from_mono:
  assumes "find_from p pos a = Some i"
  shows "find_from p pos (a @ b) = Some i"
proof -
  from assms obtain j where "pos \<le> length a" "find_sub p (drop pos a) = Some j" "i = j + pos"
    by (auto simp: find_from_def split: if_splits)
  then show ?thesis using find_sub_mono [of p "drop pos a" j b] by (simp add: find_from_def)
qed

lemma char_of_byte_of_char [simp]: "char_of_byte (byte_of_char c) = c"
  by (simp add: char_of_byte_def byte_of_char_def unat_of_nat)

lemma byte_of_char_of_byte [simp]: "byte_of_char (char_of_byte b) = b"
proof -
  have "unat b < 256" using unsigned_less [of b] by simp
  then show ?thesis by (simp add: char_of_byte_def byte_of_char_def of_char_of)
qed

lemma byte_char_comp [simp]: "byte_of_char \<circ> char_of_byte = id" "char_of_byte \<circ> byte_of_char = id"
  by (simp_all add: fun_eq_iff)

lemma to_bytes_to_chars [simp]: "to_bytes (to_chars bs) = bs"
  by (simp add: o_def)

lemma to_chars_to_bytes [simp]: "to_chars (to_bytes cs) = cs"
  by (simp add: o_def)

section \<open>Lemmas on decimal numbers\<close>

lemma digit_char:
  assumes "d < 10"
  shows "is_digit (char_of (48 + d))" "digit_val (char_of (48 + d)) = d"
  using assms by (simp_all add: is_digit_def digit_val_def of_char_of)

lemma dec_val_snoc: "dec_val (s @ [c]) = dec_val s * 10 + digit_val c"
  by (simp add: dec_val_def)

lemma to_string_nat_nonempty [simp]: "to_string_nat n \<noteq> []"
  by (subst to_string_nat.simps) simp

lemma to_string_nat_digits: "c \<in> set (to_string_nat n) \<Longrightarrow> is_digit c"
proof (induction n rule: to_string_nat.induct)
  case (1 n)
  then show ?case
    by (cases "n < 10") (auto simp: to_string_nat.simps [of n] digit_char)
qed

lemma dec_val_to_string_nat [simp]: "dec_val (to_string_nat n) = n"
proof (induction n rule: to_string_nat.induct)
  case (1 n)
  show ?case
  proof (cases "n < 10")
    case True
    then show ?thesis by (simp add: to_string_nat.simps [of n] dec_val_def digit_char)
  next
    case False
    with "1.IH" show ?thesis
      by (simp add: to_string_nat.simps [of n] dec_val_snoc digit_char)
  qed
qed

lemma takeWhile_to_string_nat [simp]: "takeWhile is_digit (to_string_nat n) = to_string_nat n"
  using to_string_nat_digits by (simp add: takeWhile_eq_all_conv)

lemma from_chars_to_string_nat [simp]:
  "from_chars_unsigned maxv (to_string_nat n) =
     (if n > maxv then Inl result_out_of_range_errc else Inr (n, length (to_string_nat n)))"
  by (simp add: from_chars_unsigned_def)

section \<open>Lemmas on association lists\<close>

lemma map_of_put [map_simps, simp]: "map_of (map_put k v m) = (map_of m)(k \<mapsto> v)"
  by (induction k v m rule: map_put.induct) auto

lemma keys_put [map_simps, simp]: "keys (map_put k v m) = insert k (keys m)"
  by (induction k v m rule: map_put.induct) auto

lemma wf_map_put [simp]: "wf_map m \<Longrightarrow> wf_map (map_put k v m)"
proof (induction k v m rule: map_put.induct)
  case (2 k v k' v' m)
  then show ?case using keys_put [of k v m] by auto
qed simp

lemma map_put_new: "k \<notin> keys m \<Longrightarrow> map_put k v m = m @ [(k, v)]"
  by (induction k v m rule: map_put.induct) auto

lemma map_of_erase [map_simps, simp]: "map_of (map_erase k m) = (map_of m)(k := None)"
  by (induction m) (auto simp: map_erase_def fun_eq_iff)

lemma keys_erase [map_simps, simp]: "keys (map_erase k m) = keys m - {k}"
  by (auto simp: map_erase_def)

lemma wf_map_erase [simp]: "wf_map m \<Longrightarrow> wf_map (map_erase k m)"
  by (induction m) (auto simp: map_erase_def)

lemma map_of_keys: "map_of m k = None \<longleftrightarrow> k \<notin> keys m"
  by (rule map_of_eq_None_iff)

section \<open>Lemmas on tables\<close>

text \<open>A table is a list of rows; a key is a column that is distinct.\<close>

lemma filter_key:
  assumes "distinct (map f xs)" "x \<in> set xs"
  shows "filter (\<lambda>y. f y = f x) xs = [x]"
  using assms by (induction xs) (auto simp: filter_empty_conv image_iff)

lemma filter_key_cases:
  assumes "distinct (map f xs)"
  obtains (None) "filter (\<lambda>y. f y = k) xs = []" "\<forall>y \<in> set xs. f y \<noteq> k"
  | (Some) x where "filter (\<lambda>y. f y = k) xs = [x]" "x \<in> set xs" "f x = k" "\<forall>y \<in> set xs. f y = k \<longrightarrow> y = x"
proof (cases "\<exists>x \<in> set xs. f x = k")
  case True
  then obtain x where x: "x \<in> set xs" "f x = k" by blast
  have "\<forall>y \<in> set xs. f y = k \<longrightarrow> y = x" using assms x by (auto simp: distinct_map inj_on_def)
  moreover have "filter (\<lambda>y. f y = k) xs = [x]" using filter_key [OF assms x(1)] x(2) by simp
  ultimately show thesis using Some x by blast
next
  case False
  then show thesis by (intro None) (auto simp: filter_empty_conv)
qed

end
