(* ===== verification/Incremental.thy ===== *)
theory Incremental
  imports Prelude
begin

text \<open>
  The contract shared by the two byte-stream parsers of the server, the HTTP request parser and
  the WebSocket frame parser.  Each is a loop over an iteration that either returns a status or
  consumes a prefix and goes on.  The callers append what the socket delivers to a buffer, call the
  loop on the whole buffer and drop the prefix it reports as consumed, so what matters is that the
  outcome does not depend on where the packets were cut.  That is proved here once, from the laws
  of the iteration.  The predicate \<open>ok\<close> marks the inputs on which an iteration is not disturbed by the
  bytes that follow.
\<close>

datatype ('r, 'p) iteration = Return 'r 'p | Continue nat 'p

locale incremental =
  fixes iter :: "'p \<Rightarrow> 'b list \<Rightarrow> ('r, 'p) iteration"
    and loop :: "'p \<Rightarrow> 'b list \<Rightarrow> nat \<Rightarrow> 'r \<times> nat \<times> 'p"
    and rank :: "'p \<Rightarrow> nat"
    and more :: "'r"
    and ok :: "'p \<Rightarrow> 'b list \<Rightarrow> bool"
  assumes loop_unfold:
      "loop p b c = (case iter p b of Return r q \<Rightarrow> (r, c, q)
                     | Continue n q \<Rightarrow> loop q (drop n b) (c + n))"
    and iter_bound: "iter p b = Continue n q \<Longrightarrow> n \<le> length b"
    and iter_progress: "iter p b = Continue n q \<Longrightarrow> 0 < n \<or> rank q < rank p"
    and iter_mono: "ok p a \<Longrightarrow> iter p a = Continue n q \<Longrightarrow> iter p (a @ b) = Continue n q"
    and iter_ok: "ok p a \<Longrightarrow> iter p a = Continue n q \<Longrightarrow> ok q (drop n a)"
    and iter_more: "iter p a = Return more q \<Longrightarrow> q = p"
begin

lemma loop_induct [case_names Ret Cont]:
  assumes ret: "\<And>p b r q. iter p b = Return r q \<Longrightarrow> P p b"
    and cont: "\<And>p b n q. iter p b = Continue n q \<Longrightarrow> P q (drop n b) \<Longrightarrow> P p b"
  shows "P p b"
proof -
  let ?R = "measures [\<lambda>(b :: 'b list, p). length b, \<lambda>(b, p). rank p]"
  have "case x of (b, p) \<Rightarrow> P p b" for x
  proof (induction x rule: wf_induct_rule [OF wf_measures [of "[\<lambda>(b :: 'b list, p). length b, \<lambda>(b, p). rank p]"]])
    case (1 x)
    obtain b p where x: "x = (b, p)" by (cases x)
    show ?case
    proof (cases "iter p b")
      case (Return r q)
      then show ?thesis by (simp add: x ret)
    next
      case (Continue n q)
      have "((drop n b, q), x) \<in> ?R"
        using iter_bound [OF Continue] iter_progress [OF Continue] by (cases "n = 0") (auto simp: x)
      from 1 [OF this] show ?thesis by (simp add: x cont [OF Continue])
    qed
  qed
  from this [of "(b, p)"] show ?thesis by simp
qed

lemma loop_shift: "loop p b (c + d) = (case loop p b c of (r, n, q) \<Rightarrow> (r, n + d, q))"
proof (induction p b arbitrary: c rule: loop_induct)
  case (Ret p b r q)
  then show ?case by (simp add: loop_unfold [of p b])
next
  case (Cont p b n q)
  from Cont(2) [of "c + n"] Cont(1) show ?case
    by (simp add: loop_unfold [of p b] add.assoc add.commute [of d n])
qed

lemma loop_bound: "loop p b c = (r, n, q) \<Longrightarrow> c \<le> n \<and> n \<le> c + length b"
proof (induction p b arbitrary: c rule: loop_induct)
  case (Ret p b r' q')
  then show ?case by (simp add: loop_unfold [of p b])
next
  case (Cont p b k q')
  then have "loop q' (drop k b) (c + k) = (r, n, q)" by (simp add: loop_unfold [of p b])
  from Cont(2) [OF this] iter_bound [OF Cont(1)] show ?case by auto
qed

text \<open>
  Resuming after \<open>more\<close> with the consumed prefix dropped and more bytes appended is the same as
  having had all the bytes from the start.
\<close>

theorem loop_resume:
  "ok p a \<Longrightarrow> loop p a c = (more, n, q) \<Longrightarrow> loop p (a @ b) c = loop q (drop (n - c) a @ b) n"
proof (induction p a arbitrary: c rule: loop_induct)
  case (Ret p a r q')
  then have "n = c" "q = p" using iter_more by (auto simp: loop_unfold [of p a])
  then show ?case by simp
next
  case (Cont p a k q')
  from Cont(1,4) have l: "loop q' (drop k a) (c + k) = (more, n, q)"
    by (simp add: loop_unfold [of p a])
  have k: "k \<le> length a" using iter_bound [OF Cont(1)] .
  have nk: "c + k \<le> n" using loop_bound [OF l] by simp
  have "loop p (a @ b) c = loop q' (drop k a @ b) (c + k)"
    using k by (simp add: loop_unfold [of p "a @ b"] iter_mono [OF Cont(3,1)])
  also have "\<dots> = loop q (drop (n - (c + k)) (drop k a) @ b) n"
    by (rule Cont(2) [OF iter_ok [OF Cont(3,1)] l])
  also have "drop (n - (c + k)) (drop k a) = drop (n - c) a"
    using nk by (simp add: add.commute)
  finally show ?case .
qed

text \<open>A status that an iteration returns whatever follows is final for the loop too.\<close>

theorem loop_final:
  assumes "\<And>p a b q. ok p a \<Longrightarrow> iter p a = Return r q \<Longrightarrow> iter p (a @ b) = Return r q"
    and "ok p a" and "loop p a c = (r, n, q)"
  shows "loop p (a @ b) c = (r, n, q)"
  using assms(2,3)
proof (induction p a arbitrary: c rule: loop_induct)
  case (Ret p a r' q')
  then show ?case using assms(1) [of p a q' b] by (simp add: loop_unfold [of p])
next
  case (Cont p a k q')
  then show ?case
    using iter_bound [OF Cont(1)]
    by (simp add: loop_unfold [of p] iter_mono [OF Cont(3,1)] iter_ok [OF Cont(3,1)])
qed

text \<open>An invariant of the iteration is an invariant of the loop.\<close>

lemma loop_invariant:
  assumes "\<And>p b n q. I p \<Longrightarrow> iter p b = Continue n q \<Longrightarrow> I q"
    and "\<And>p b r q. I p \<Longrightarrow> iter p b = Return r q \<Longrightarrow> I q"
    and "I p" and "loop p b c = (r, n, q)"
  shows "I q"
  using assms(3,4)
proof (induction p b arbitrary: c rule: loop_induct)
  case (Ret p b r' q')
  then show ?case using assms(2) by (auto simp: loop_unfold [of p])
next
  case (Cont p b k q')
  then show ?case using assms(1) by (simp add: loop_unfold [of p])
qed

end

end
