(* ===== verification/Http_Parse.thy ===== *)
theory Http_Parse
  imports Incremental
begin

text \<open>
  The incremental HTTP request parser, \<^verbatim>\<open>http/HttpParse.h\<close> and \<^verbatim>\<open>http/HttpParse.cpp\<close>.  The
  object is the record \<open>HttpParse\<close>: the request under construction, the protocol state and the
  announced body length.  Every member function takes the object and returns it updated.  The
  lemmas show that a call never consumes more than it was given, that the announced body stays
  within the limit, that the result does not depend on how the bytes were cut into packets (for a
  request line that has its two spaces), and that a printed request parses back to itself.
\<close>

section \<open>Data\<close>

datatype HttpMethod =
  GET | POST | PUT | DELETE | PATCH | HEAD | OPTIONS | TRACE | CONNECT | UNKNOWN

record HttpRequest =
  req_method :: HttpMethod
  req_host :: string
  req_path :: string
  req_version :: string
  req_headers :: headers
  req_body :: string

definition empty_request :: HttpRequest where
  "empty_request = \<lparr>req_method = UNKNOWN, req_host = '''', req_path = '''', req_version = '''',
     req_headers = [], req_body = ''''\<rparr>"

datatype ParseStatus = NeedMoreData | Complete | Error

datatype StepStatus = StepComplete | StepNeedMoreData | StepError

datatype State = RequestLine | Header | Body | CompleteState | ErrorState

record ParseResult =
  pr_status :: ParseStatus
  pr_consumed :: nat

record StepResult =
  sr_status :: StepStatus
  sr_consumed :: nat
  headersFinished :: bool

record HttpParse =
  request :: HttpRequest
  parse_state :: State
  content_length :: nat

definition new_parser :: HttpParse where
  "new_parser = \<lparr>request = empty_request, parse_state = RequestLine, content_length = 0\<rparr>"

section \<open>Operations\<close>

definition parseMethod :: "string \<Rightarrow> HttpMethod" where
  "parseMethod m =
     (if m = ''GET'' then GET
      else if m = ''POST'' then POST
      else if m = ''PUT'' then PUT
      else if m = ''DELETE'' then DELETE
      else if m = ''HEAD'' then HEAD
      else if m = ''OPTIONS'' then OPTIONS
      else if m = ''CONNECT'' then CONNECT
      else if m = ''TRACE'' then TRACE
      else if m = ''PATCH'' then PATCH
      else UNKNOWN)"

definition MaxBodySize :: nat where
  "MaxBodySize = 1024 * 1024"

definition parseContentLength :: "HttpParse \<Rightarrow> string \<Rightarrow> bool \<times> HttpParse" where
  "parseContentLength p text =
     (if text = [] then (False, p)
      else case from_chars_unsigned (2 ^ 64 - 1) text of
        Inl _ \<Rightarrow> (False, p)
      | Inr (len, line_end) \<Rightarrow>
          if line_end \<noteq> length text then (False, p)
          else if len > MaxBodySize then (False, p)
          else (True, p\<lparr>content_length := len\<rparr>))"

text \<open>
  The positions of the two spaces are searched in the whole input, not in the line.  A first
  search that fails is \<^verbatim>\<open>npos\<close>, and \<open>npos + 1\<close> is 0, so the second search starts at 0; the
  result is an error either way.
\<close>

definition parseRequestLine :: "HttpParse \<Rightarrow> string \<Rightarrow> StepResult \<times> HttpParse" where
  "parseRequestLine p input =
     (case find_sub crlf input of
        None \<Rightarrow> (\<lparr>sr_status = StepNeedMoreData, sr_consumed = 0, headersFinished = False\<rparr>, p)
      | Some line_end \<Rightarrow>
          let space_method = find_sub '' '' input;
              space_version =
                (case space_method of None \<Rightarrow> find_from '' '' 0 input
                 | Some sm \<Rightarrow> find_from '' '' (sm + 1) input)
          in case (space_method, space_version) of
               (Some sm, Some sv) \<Rightarrow>
                 (\<lparr>sr_status = StepComplete, sr_consumed = line_end + 2, headersFinished = True\<rparr>,
                  p\<lparr>request := (request p)\<lparr>
                      req_method := parseMethod (substr input 0 sm),
                      req_path := substr input (sm + 1) (size_sub (size_sub sv sm) 1),
                      req_version := substr input (sv + 1) (size_sub (size_sub line_end sv) 1)\<rparr>\<rparr>)
             | _ \<Rightarrow> (\<lparr>sr_status = StepError, sr_consumed = 0, headersFinished = False\<rparr>, p))"

text \<open>The header is stored before a \<^verbatim>\<open>Content-Length\<close> value is checked.\<close>

definition storeHeader :: "HttpParse \<Rightarrow> string \<Rightarrow> string \<Rightarrow> bool \<times> HttpParse" where
  "storeHeader p name value =
     (let p1 = p\<lparr>request := (request p)\<lparr>
                 req_headers := map_put name value (req_headers (request p))\<rparr>\<rparr>
      in if name = ''Content-Length'' then parseContentLength p1 value else (True, p1))"

definition parseHeader :: "HttpParse \<Rightarrow> string \<Rightarrow> StepResult \<times> HttpParse" where
  "parseHeader p input =
     (case find_sub crlf input of
        None \<Rightarrow> (\<lparr>sr_status = StepNeedMoreData, sr_consumed = 0, headersFinished = False\<rparr>, p)
      | Some lineEnd \<Rightarrow>
          if lineEnd = 0
          then (\<lparr>sr_status = StepComplete, sr_consumed = 2, headersFinished = True\<rparr>, p)
          else let line = substr input 0 lineEnd in
            case find_sub '':'' line of
              None \<Rightarrow> (\<lparr>sr_status = StepError, sr_consumed = 0, headersFinished = False\<rparr>, p)
            | Some separator \<Rightarrow>
                let name = substr line 0 separator in
                if name = []
                then (\<lparr>sr_status = StepError, sr_consumed = 0, headersFinished = False\<rparr>, p)
                else
                  let value = dropWhile (\<lambda>c. c = CHR '' '') (drop (separator + 1) line);
                      (ok, p2) = storeHeader p name value
                  in if ok
                     then (\<lparr>sr_status = StepComplete, sr_consumed = lineEnd + 2,
                            headersFinished = False\<rparr>, p2)
                     else (\<lparr>sr_status = StepError, sr_consumed = 0, headersFinished = False\<rparr>, p2))"

definition parseBody :: "HttpParse \<Rightarrow> string \<Rightarrow> StepResult \<times> HttpParse" where
  "parseBody p input =
     (if length input < content_length p
      then (\<lparr>sr_status = StepNeedMoreData, sr_consumed = 0, headersFinished = False\<rparr>, p)
      else (\<lparr>sr_status = StepComplete, sr_consumed = content_length p, headersFinished = False\<rparr>,
            p\<lparr>request := (request p)\<lparr>req_body := take (content_length p) input\<rparr>\<rparr>))"

definition reset :: "HttpParse \<Rightarrow> HttpParse" where
  "reset p = p\<lparr>request := empty_request, parse_state := RequestLine, content_length := 0\<rparr>"

definition takeRequest :: "HttpParse \<Rightarrow> (HttpRequest \<times> HttpParse) result" where
  "takeRequest p =
     (if parse_state p \<noteq> CompleteState then Inl (LogicError ''HTTP request is not complete'')
      else Inr (request p, reset p))"

text \<open>
  One iteration of the loop in \<^verbatim>\<open>parse\<close>: either the call returns a status, or the object
  moves on and some input is consumed.
\<close>

definition parse_iteration :: "HttpParse \<Rightarrow> string \<Rightarrow> (ParseStatus, HttpParse) iteration" where
  "parse_iteration p sub_buffer =
     (case parse_state p of
        RequestLine \<Rightarrow>
          (let (r, p') = parseRequestLine p sub_buffer in
           case sr_status r of
             StepNeedMoreData \<Rightarrow> Return NeedMoreData p'
           | StepError \<Rightarrow> Return Error (p'\<lparr>parse_state := ErrorState\<rparr>)
           | StepComplete \<Rightarrow> Continue (sr_consumed r) (p'\<lparr>parse_state := Header\<rparr>))
      | Header \<Rightarrow>
          (let (r, p') = parseHeader p sub_buffer in
           case sr_status r of
             StepNeedMoreData \<Rightarrow> Return NeedMoreData p'
           | StepError \<Rightarrow> Return Error (p'\<lparr>parse_state := ErrorState\<rparr>)
           | StepComplete \<Rightarrow>
               Continue (sr_consumed r)
                 (if headersFinished r
                  then p'\<lparr>parse_state := (if content_length p' = 0 then CompleteState else Body)\<rparr>
                  else p'))
      | Body \<Rightarrow>
          (let (r, p') = parseBody p sub_buffer in
           case sr_status r of
             StepNeedMoreData \<Rightarrow> Return NeedMoreData p'
           | StepError \<Rightarrow> Return Error (p'\<lparr>parse_state := ErrorState\<rparr>)
           | StepComplete \<Rightarrow> Continue (sr_consumed r) (p'\<lparr>parse_state := CompleteState\<rparr>))
      | CompleteState \<Rightarrow> Return Complete p
      | ErrorState \<Rightarrow> Return Error p)"

definition state_rank :: "HttpParse \<Rightarrow> nat" where
  "state_rank p = (case parse_state p of Body \<Rightarrow> 1 | _ \<Rightarrow> 0)"

text \<open>What an iteration that continues has consumed, needed for the termination of the loop.\<close>

lemma parse_iteration_progress:
  assumes "parse_iteration p b = Continue n p'"
  shows "n \<le> length b" "0 < n \<or> parse_state p = Body \<and> parse_state p' = CompleteState"
proof -
  have "n \<le> length b \<and> (0 < n \<or> parse_state p = Body \<and> parse_state p' = CompleteState)"
  proof (cases "parse_state p")
    case RequestLine
    then show ?thesis
      using assms find_sub_bound [of crlf b]
      by (auto simp: parse_iteration_def parseRequestLine_def Let_def split: option.splits)
  next
    case Header
    then show ?thesis
      using assms find_sub_bound [of crlf b]
      by (auto simp: parse_iteration_def parseHeader_def Let_def split: option.splits if_splits prod.splits)
  next
    case Body
    then show ?thesis
      using assms by (auto simp: parse_iteration_def parseBody_def split: if_splits)
  qed (use assms in \<open>auto simp: parse_iteration_def\<close>)
  then show "n \<le> length b" "0 < n \<or> parse_state p = Body \<and> parse_state p' = CompleteState" by auto
qed

text \<open>
  The loop of \<^verbatim>\<open>parse\<close>.  The second argument is \<^verbatim>\<open>buffer.substr(consumed)\<close>, the third is
  \<^verbatim>\<open>consumed\<close>.
\<close>

function parse_loop :: "HttpParse \<Rightarrow> string \<Rightarrow> nat \<Rightarrow> ParseResult \<times> HttpParse" where
  "parse_loop p sub_buffer consumed =
     (case parse_iteration p sub_buffer of
        Return st p' \<Rightarrow> (\<lparr>pr_status = st, pr_consumed = consumed\<rparr>, p')
      | Continue n p' \<Rightarrow> parse_loop p' (drop n sub_buffer) (consumed + n))"
  by pat_completeness auto
termination
proof (relation "measures [\<lambda>(p, b, c). length b, \<lambda>(p, b, c). state_rank p]", goal_cases)
  case 1
  show ?case by simp
next
  case (2 p b c n p')
  show ?case
  proof (cases "0 < n")
    case True
    with parse_iteration_progress(1) [OF 2] show ?thesis by auto
  next
    case False
    with parse_iteration_progress(2) [OF 2] show ?thesis by (auto simp: state_rank_def)
  qed
qed

declare parse_loop.simps [simp del]

definition parse :: "HttpParse \<Rightarrow> string \<Rightarrow> ParseResult \<times> HttpParse" where
  "parse p buffer = parse_loop p buffer 0"

text \<open>
  A client-side printer of a request, the reference the parser is measured against: request line,
  header lines, blank line, body.
\<close>

fun method_name :: "HttpMethod \<Rightarrow> string" where
  "method_name GET = ''GET''"
| "method_name POST = ''POST''"
| "method_name PUT = ''PUT''"
| "method_name DELETE = ''DELETE''"
| "method_name PATCH = ''PATCH''"
| "method_name HEAD = ''HEAD''"
| "method_name OPTIONS = ''OPTIONS''"
| "method_name TRACE = ''TRACE''"
| "method_name CONNECT = ''CONNECT''"
| "method_name UNKNOWN = ''UNKNOWN''"

definition print_header :: "string \<times> string \<Rightarrow> string" where
  "print_header h = fst h @ '': '' @ snd h @ crlf"

definition print_request :: "HttpRequest \<Rightarrow> string" where
  "print_request r =
     method_name (req_method r) @ '' '' @ req_path r @ '' '' @ req_version r @ crlf
     @ concat (map print_header (req_headers r)) @ crlf @ req_body r"

definition header_ok :: "string \<times> string \<Rightarrow> bool" where
  "header_ok h \<longleftrightarrow> fst h \<noteq> [] \<and> CHR '':'' \<notin> set (fst h) \<and> CR \<notin> set (fst h) \<and> CR \<notin> set (snd h)
     \<and> (snd h = [] \<or> hd (snd h) \<noteq> CHR '' '')"

text \<open>The requests the printer can print so that the parser accepts them.\<close>

definition request_ok :: "HttpRequest \<Rightarrow> bool" where
  "request_ok r \<longleftrightarrow>
     req_method r \<noteq> UNKNOWN \<and> req_host r = '''' \<and>
     CHR '' '' \<notin> set (req_path r) \<and> CR \<notin> set (req_path r) \<and> CR \<notin> set (req_version r) \<and>
     list_all header_ok (req_headers r) \<and> wf_map (req_headers r) \<and>
     (case map_of (req_headers r) ''Content-Length'' of
        None \<Rightarrow> req_body r = []
      | Some v \<Rightarrow> v = to_string_nat (length (req_body r)) \<and> length (req_body r) \<le> MaxBodySize)"

text \<open>A request line that is complete has its two spaces before the line end.\<close>

definition request_line_ok :: "string \<Rightarrow> bool" where
  "request_line_ok b =
     (case find_sub crlf b of None \<Rightarrow> True
      | Some e \<Rightarrow> 2 \<le> length (filter (\<lambda>c. c = CHR '' '') (take e b)))"

definition line_ok :: "HttpParse \<Rightarrow> string \<Rightarrow> bool" where
  "line_ok p b \<longleftrightarrow> (parse_state p = RequestLine \<longrightarrow> request_line_ok b)"

text \<open>The invariant of the parser object between calls.\<close>

definition parser_wf :: "HttpParse \<Rightarrow> bool" where
  "parser_wf p \<longleftrightarrow>
     content_length p \<le> MaxBodySize \<and> wf_map (req_headers (request p)) \<and>
     (parse_state p \<in> {RequestLine, Header, Body} \<longrightarrow> req_body (request p) = []) \<and>
     (parse_state p = RequestLine \<longrightarrow> content_length p = 0) \<and>
     (parse_state p = CompleteState \<longrightarrow> length (req_body (request p)) = content_length p)"

section \<open>One iteration\<close>

lemma two_spaces:
  assumes "2 \<le> length (filter (\<lambda>c. c = CHR '' '') l)"
  obtains sm sv where "find_sub '' '' l = Some sm" "find_from '' '' (sm + 1) l = Some sv"
    "sm < sv" "sv < length l"
proof -
  from assms have "filter (\<lambda>c. c = CHR '' '') l \<noteq> []" by auto
  then have "CHR '' '' \<in> set l" by (auto simp: filter_empty_conv)
  then obtain a l1 where l: "l = a @ CHR '' '' # l1" "CHR '' '' \<notin> set a"
    by (metis split_list_first)
  then have "filter (\<lambda>c. c = CHR '' '') a = []" by (auto simp: filter_empty_conv)
  with l assms have "filter (\<lambda>c. c = CHR '' '') l1 \<noteq> []" by auto
  then have "CHR '' '' \<in> set l1" by (auto simp: filter_empty_conv)
  then obtain b r where l1: "l1 = b @ CHR '' '' # r" "CHR '' '' \<notin> set b"
    by (metis split_list_first)
  have tw: "takeWhile (\<lambda>x. x \<noteq> CHR '' '') (u @ CHR '' '' # v) = u" if "CHR '' '' \<notin> set u" for u v
    using that by (subst takeWhile_append2) auto
  show thesis
    by (rule that [of "length a" "length a + length b + 1"])
       (use l l1 in \<open>auto simp: find_sub_single find_from_def tw\<close>)
qed

lemma request_line_stable:
  assumes "find_sub crlf a = Some e" "request_line_ok a"
  shows "parseRequestLine p (a @ b) = parseRequestLine p a"
    "sr_status (fst (parseRequestLine p a)) = StepComplete"
proof -
  from assms have "2 \<le> length (filter (\<lambda>c. c = CHR '' '') (take e a))"
    by (simp add: request_line_ok_def)
  then obtain sm sv where s: "find_sub '' '' (take e a) = Some sm"
    "find_from '' '' (sm + 1) (take e a) = Some sv" "sm < sv" "sv < length (take e a)"
    by (rule two_spaces)
  have e: "e + 2 \<le> length a" using find_sub_bound [OF assms(1)] by simp
  have fa: "find_sub '' '' (a @ c) = Some sm" "find_from '' '' (sm + 1) (a @ c) = Some sv" for c
    using find_sub_mono [OF s(1), of "drop e a @ c"] find_from_mono [OF s(2), of "drop e a @ c"]
    by (simp_all add: append.assoc [symmetric] del: append.assoc)
  note fa0 = fa [of "[]", simplified] and fs = fa [simplified]
  from e s(3,4) show "parseRequestLine p (a @ b) = parseRequestLine p a"
    by (simp add: parseRequestLine_def find_sub_mono [OF assms(1)] assms(1) fs fa0 substr_def
        size_sub_def)
  show "sr_status (fst (parseRequestLine p a)) = StepComplete"
    by (simp add: parseRequestLine_def assms(1) fa0 Let_def)
qed

lemma header_stable:
  assumes "find_sub crlf a = Some e"
  shows "parseHeader p (a @ b) = parseHeader p a"
proof -
  have "e + 2 \<le> length a" using find_sub_bound [OF assms] by simp
  then show ?thesis by (simp add: parseHeader_def assms find_sub_mono [OF assms] substr_def)
qed

lemma request_line_more:
  "find_sub crlf a = None \<Longrightarrow> parseRequestLine p a =
     (\<lparr>sr_status = StepNeedMoreData, sr_consumed = 0, headersFinished = False\<rparr>, p)"
  by (simp add: parseRequestLine_def)

lemma header_more:
  "find_sub crlf a = None \<Longrightarrow> parseHeader p a =
     (\<lparr>sr_status = StepNeedMoreData, sr_consumed = 0, headersFinished = False\<rparr>, p)"
  by (simp add: parseHeader_def)

lemma header_not_more:
  "find_sub crlf a = Some e \<Longrightarrow> sr_status (fst (parseHeader p a)) \<noteq> StepNeedMoreData"
  by (auto simp: parseHeader_def Let_def split: option.splits prod.splits)

lemma request_line_not_more:
  "find_sub crlf a = Some e \<Longrightarrow> sr_status (fst (parseRequestLine p a)) \<noteq> StepNeedMoreData"
  by (auto simp: parseRequestLine_def Let_def split: option.splits)

lemma parse_iteration_more:
  assumes "parse_iteration p a = Return NeedMoreData q"
  shows "q = p"
proof (cases "find_sub crlf a")
  case None
  with assms show ?thesis
    by (auto simp: parse_iteration_def request_line_more header_more parseBody_def
        split: State.splits if_splits)
next
  case (Some e)
  with assms request_line_not_more [OF Some, of p] header_not_more [OF Some, of p] show ?thesis
    by (auto simp: parse_iteration_def parseBody_def Let_def split: State.splits if_splits prod.splits
        StepStatus.splits)
qed

text \<open>Whatever an iteration decides, unless it asks for more, it decides again with bytes appended.\<close>

lemma parse_iteration_stable:
  assumes "line_ok p a" and "\<And>q. parse_iteration p a \<noteq> Return NeedMoreData q"
  shows "parse_iteration p (a @ b) = parse_iteration p a"
proof (cases "parse_state p")
  case RequestLine
  with assms obtain e where "find_sub crlf a = Some e"
    by (cases "find_sub crlf a") (auto simp: parse_iteration_def request_line_more)
  moreover have "request_line_ok a" using RequestLine assms(1) by (simp add: line_ok_def)
  ultimately show ?thesis using RequestLine
    by (simp add: parse_iteration_def request_line_stable(1))
next
  case Header
  with assms obtain e where "find_sub crlf a = Some e"
    by (cases "find_sub crlf a") (auto simp: parse_iteration_def header_more)
  with Header show ?thesis by (simp add: parse_iteration_def header_stable)
next
  case Body
  with assms(2) have "content_length p \<le> length a"
    by (cases "length a < content_length p") (auto simp: parse_iteration_def parseBody_def)
  with Body show ?thesis by (simp add: parse_iteration_def parseBody_def)
qed (simp_all add: parse_iteration_def)

lemma parseContentLength_state: "parse_state (snd (parseContentLength p v)) = parse_state p"
  by (simp add: parseContentLength_def split: sum.split)

lemma storeHeader_state: "parse_state (snd (storeHeader p n v)) = parse_state p"
  by (simp add: storeHeader_def parseContentLength_state Let_def)

lemma parseHeader_state: "parse_state (snd (parseHeader p a)) = parse_state p"
  by (simp add: parseHeader_def storeHeader_state Let_def split: option.split prod.split)
     (metis storeHeader_state snd_conv)

lemma parse_iteration_continue_state:
  assumes "parse_iteration p a = Continue n q"
  shows "parse_state q \<noteq> RequestLine"
proof (cases "parse_state p")
  case Header
  with assms parseHeader_state [of p a] show ?thesis
    by (auto simp: parse_iteration_def split: StepStatus.splits prod.splits if_splits)
qed (use assms in \<open>auto simp: parse_iteration_def split: StepStatus.splits prod.splits\<close>)

section \<open>The loop\<close>

interpretation http: incremental parse_iteration
  "\<lambda>p b c. case parse_loop p b c of (r, q) \<Rightarrow> (pr_status r, pr_consumed r, q)"
  state_rank NeedMoreData line_ok
proof
  fix p b c
  show "(case parse_loop p b c of (r, q) \<Rightarrow> (pr_status r, pr_consumed r, q)) =
    (case parse_iteration p b of Return r q \<Rightarrow> (r, c, q)
     | Continue n q \<Rightarrow> case parse_loop q (drop n b) (c + n) of (r, q) \<Rightarrow> (pr_status r, pr_consumed r, q))"
    by (simp add: parse_loop.simps [of p b c] split: iteration.splits)
next
  fix p b n q
  assume it: "parse_iteration p b = Continue n q"
  show "n \<le> length b" using parse_iteration_progress(1) [OF it] .
  show "0 < n \<or> state_rank q < state_rank p"
    using parse_iteration_progress(2) [OF it] by (auto simp: state_rank_def)
next
  fix p a b n q
  assume ok: "line_ok p a" and it: "parse_iteration p a = Continue n q"
  show "parse_iteration p (a @ b) = Continue n q"
    using parse_iteration_stable [OF ok] it by simp
  show "line_ok q (drop n a)"
    using parse_iteration_continue_state [OF it] by (simp add: line_ok_def)
next
  fix p a q
  show "parse_iteration p a = Return NeedMoreData q \<Longrightarrow> q = p" by (rule parse_iteration_more)
qed

lemma parse_eq: "(case parse p b of (r, q) \<Rightarrow> (pr_status r, pr_consumed r, q)) =
    (case parse_loop p b 0 of (r, q) \<Rightarrow> (pr_status r, pr_consumed r, q))"
  by (simp add: parse_def)

lemma parse_result_eqI:
  assumes "(case x of (r, q) \<Rightarrow> (pr_status r, pr_consumed r, q)) =
    (case y of (r, q) \<Rightarrow> (pr_status r, pr_consumed r, q))"
  shows "x = (y :: ParseResult \<times> HttpParse)"
  using assms by (cases x; cases y) (auto intro: ParseResult.equality)

section \<open>The invariant\<close>

lemma parser_wf_new: "parser_wf new_parser"
  by (simp add: parser_wf_def new_parser_def empty_request_def)

lemma parser_wf_reset: "parser_wf (reset p)"
  by (simp add: parser_wf_def reset_def empty_request_def)

lemma parseContentLength_wf:
  assumes "content_length p \<le> MaxBodySize"
  shows "content_length (snd (parseContentLength p v)) \<le> MaxBodySize"
    "request (snd (parseContentLength p v)) = request p"
  using assms by (auto simp: parseContentLength_def split: sum.split)

lemma storeHeader_wf:
  assumes "content_length p \<le> MaxBodySize" "wf_map (req_headers (request p))"
  shows "content_length (snd (storeHeader p n v)) \<le> MaxBodySize"
    "wf_map (req_headers (request (snd (storeHeader p n v))))"
    "req_body (request (snd (storeHeader p n v))) = req_body (request p)"
  using assms by (auto simp: storeHeader_def Let_def parseContentLength_wf)

lemma parseHeader_wf:
  assumes "content_length p \<le> MaxBodySize" "wf_map (req_headers (request p))"
  shows "content_length (snd (parseHeader p b)) \<le> MaxBodySize \<and>
    wf_map (req_headers (request (snd (parseHeader p b)))) \<and>
    req_body (request (snd (parseHeader p b))) = req_body (request p)"
proof (cases "snd (parseHeader p b) = p")
  case False
  then obtain n v where "snd (parseHeader p b) = snd (storeHeader p n v)"
    by (auto simp: parseHeader_def Let_def split: option.splits if_splits prod.splits)
       (metis snd_conv)+
  then show ?thesis using storeHeader_wf [OF assms] by simp
qed (use assms in simp)

lemma parseRequestLine_frame:
  "content_length (snd (parseRequestLine p b)) = content_length p"
  "req_headers (request (snd (parseRequestLine p b))) = req_headers (request p)"
  "req_body (request (snd (parseRequestLine p b))) = req_body (request p)"
  by (simp_all add: parseRequestLine_def Let_def split: option.split)

definition step_object :: "(ParseStatus, HttpParse) iteration \<Rightarrow> HttpParse" where
  "step_object it = (case it of Return _ q \<Rightarrow> q | Continue _ q \<Rightarrow> q)"

lemma parse_iteration_wf:
  assumes "parser_wf p"
  shows "parser_wf (step_object (parse_iteration p b))"
proof (cases "parse_state p")
  case RequestLine
  moreover obtain r q where "parseRequestLine p b = (r, q)" by fastforce
  moreover from this have "parse_state q = parse_state p"
    by (auto simp: parseRequestLine_def Let_def split: option.splits)
  ultimately show ?thesis
    using assms parseRequestLine_frame [of p b]
    by (auto simp: parse_iteration_def step_object_def parser_wf_def split: StepStatus.split)
next
  case Header
  moreover obtain r q where "parseHeader p b = (r, q)" by fastforce
  ultimately show ?thesis
    using assms parseHeader_state [of p b] parseHeader_wf [of p b]
    by (auto simp: parse_iteration_def step_object_def parser_wf_def split: StepStatus.split)
qed (use assms in \<open>auto simp: parse_iteration_def step_object_def parser_wf_def parseBody_def\<close>)

lemma parse_wf:
  assumes "parser_wf p"
  shows "parser_wf (snd (parse p b))"
proof -
  obtain r q where l: "parse_loop p b 0 = (r, q)" by fastforce
  have "parser_wf q"
  proof (rule http.loop_invariant [of parser_wf p b 0 "pr_status r" "pr_consumed r"])
    show "parser_wf q'" if "parser_wf p'" "parse_iteration p' b' = Continue n q'" for p' b' n q'
      using parse_iteration_wf [OF that(1), of b'] that(2) by (simp add: step_object_def)
    show "parser_wf q'" if "parser_wf p'" "parse_iteration p' b' = Return r' q'" for p' b' r' q'
      using parse_iteration_wf [OF that(1), of b'] that(2) by (simp add: step_object_def)
  qed (use assms l in simp_all)
  with l show ?thesis by (simp add: parse_def)
qed

section \<open>Printing and parsing\<close>

lemma parse_loop_continue:
  "parse_iteration p (a @ b) = Continue (length a) q \<Longrightarrow> parse_loop p (a @ b) c = parse_loop q b (c + length a)"
  by (simp add: parse_loop.simps [of p])

lemma method_name_facts:
  "CHR '' '' \<notin> set (method_name m)" "CR \<notin> set (method_name m)"
  "m \<noteq> UNKNOWN \<Longrightarrow> parseMethod (method_name m) = m"
  by (cases m; simp add: parseMethod_def)+

lemma takeWhile_upto: "c \<notin> set u \<Longrightarrow> takeWhile (\<lambda>x. x \<noteq> c) (u @ c # v) = u"
  by (subst takeWhile_append2) auto

lemma parse_printed_line:
  assumes "request_ok r" "parse_state p = RequestLine"
  shows "parse_iteration p (method_name (req_method r) @ '' '' @ req_path r @ '' '' @ req_version r @ crlf @ rest) =
    Continue (length (method_name (req_method r) @ '' '' @ req_path r @ '' '' @ req_version r @ crlf))
      (p\<lparr>request := (request p)\<lparr>req_method := req_method r, req_path := req_path r,
           req_version := req_version r\<rparr>, parse_state := Header\<rparr>)"
proof -
  let ?m = "method_name (req_method r)"
  let ?line = "?m @ '' '' @ req_path r @ '' '' @ req_version r"
  let ?in = "?line @ crlf @ rest"
  from assms have ok: "CHR '' '' \<notin> set (req_path r)" "CR \<notin> set (req_path r)" "CR \<notin> set (req_version r)"
    "parseMethod ?m = req_method r"
    by (auto simp: request_ok_def method_name_facts)
  have e: "find_sub crlf ?in = Some (length ?line)"
    using find_crlf [of ?line rest] ok method_name_facts(2) by simp
  have sm: "find_sub '' '' ?in = Some (length ?m)"
    by (simp add: find_sub_single takeWhile_upto method_name_facts)
  have sv: "find_from '' '' (Suc (length ?m)) ?in = Some (length ?m + 1 + length (req_path r))"
    by (simp add: find_from_def find_sub_single takeWhile_upto ok(1))
  have "parseRequestLine p ?in =
    (\<lparr>sr_status = StepComplete, sr_consumed = length ?line + 2, headersFinished = True\<rparr>,
     p\<lparr>request := (request p)\<lparr>req_method := req_method r, req_path := req_path r,
           req_version := req_version r\<rparr>\<rparr>)"
    using ok(4)
    by (simp add: parseRequestLine_def e [simplified] sm [simplified] sv [simplified] substr_def size_sub_def)
  then show ?thesis using assms(2) by (simp add: parse_iteration_def)
qed

lemma parse_printed_header:
  assumes "header_ok h"
  shows "parseHeader p (print_header h @ rest) =
    (case storeHeader p (fst h) (snd h) of (ok, p') \<Rightarrow>
       if ok then (\<lparr>sr_status = StepComplete, sr_consumed = length (print_header h), headersFinished = False\<rparr>, p')
       else (\<lparr>sr_status = StepError, sr_consumed = 0, headersFinished = False\<rparr>, p'))"
proof -
  let ?line = "fst h @ '': '' @ snd h"
  from assms have ok: "fst h \<noteq> []" "CHR '':'' \<notin> set (fst h)" "CR \<notin> set (fst h)" "CR \<notin> set (snd h)"
    by (auto simp: header_ok_def)
  have e: "find_sub crlf (?line @ crlf @ rest) = Some (length ?line)"
    using find_crlf [of ?line rest] ok by simp
  have sep: "find_sub '':'' ?line = Some (length (fst h))"
    by (simp add: find_sub_single takeWhile_upto ok)
  have v: "dropWhile (\<lambda>c. c = CHR '' '') (CHR '' '' # snd h) = snd h"
    using assms by (cases "snd h") (auto simp: header_ok_def)
  show ?thesis
    using ok(1) e sep v
    by (simp add: print_header_def parseHeader_def substr_def Let_def split: prod.split)
qed

lemma parseContentLength_print:
  assumes "n \<le> MaxBodySize"
  shows "parseContentLength p (to_string_nat n) = (True, p\<lparr>content_length := n\<rparr>)"
  using assms by (simp add: parseContentLength_def MaxBodySize_def)

lemma storeHeader_print:
  assumes "k \<notin> keys (req_headers (request p))"
    and "k = ''Content-Length'' \<Longrightarrow> v = to_string_nat n \<and> n \<le> MaxBodySize"
  shows "storeHeader p k v = (True, p\<lparr>request := (request p)\<lparr>req_headers := req_headers (request p) @ [(k, v)]\<rparr>,
    content_length := (if k = ''Content-Length'' then n else content_length p)\<rparr>)"
  using assms by (simp add: storeHeader_def map_put_new parseContentLength_print Let_def)

lemma parse_printed_headers:
  assumes "list_all header_ok hs" "wf_map (req_headers (request p) @ hs)" "parse_state p = Header"
    and "\<And>v. (''Content-Length'', v) \<in> set hs \<Longrightarrow> v = to_string_nat n \<and> n \<le> MaxBodySize"
  shows "parse_loop p (concat (map print_header hs) @ rest) c =
    parse_loop (p\<lparr>request := (request p)\<lparr>req_headers := req_headers (request p) @ hs\<rparr>,
        content_length := (if ''Content-Length'' \<in> keys hs then n else content_length p)\<rparr>)
      rest (c + length (concat (map print_header hs)))"
  using assms
proof (induction hs arbitrary: p c)
  case Nil
  then show ?case by simp
next
  case (Cons h hs)
  obtain k v where h: "h = (k, v)" by fastforce
  let ?p = "p\<lparr>request := (request p)\<lparr>req_headers := req_headers (request p) @ [(k, v)]\<rparr>,
    content_length := (if k = ''Content-Length'' then n else content_length p)\<rparr>"
  let ?rest = "concat (map print_header hs) @ rest"
  have st: "storeHeader p k v = (True, ?p)"
    by (rule storeHeader_print) (use Cons.prems h in auto)
  have "parse_iteration p (print_header h @ ?rest) = Continue (length (print_header h)) ?p"
    using Cons.prems(1,3) parse_printed_header [of h p ?rest] st h
    by (simp add: parse_iteration_def)
  then have "parse_loop p (print_header h @ ?rest) c = parse_loop ?p ?rest (c + length (print_header h))"
    by (simp add: parse_loop.simps [of p])
  also have "\<dots> = parse_loop (?p\<lparr>request := (request ?p)\<lparr>req_headers := req_headers (request ?p) @ hs\<rparr>,
        content_length := (if ''Content-Length'' \<in> keys hs then n else content_length ?p)\<rparr>)
      rest (c + length (print_header h) + length (concat (map print_header hs)))"
    by (rule Cons.IH) (use Cons.prems h in auto)
  finally show ?case using h by (simp add: add.assoc cong: if_cong)
qed

lemma parse_blank_line:
  assumes "parse_state p = Header"
  shows "parse_loop p (crlf @ rest) c =
    parse_loop (p\<lparr>parse_state := (if content_length p = 0 then CompleteState else Body)\<rparr>) rest (c + 2)"
proof -
  have "find_sub crlf (crlf @ rest) = Some 0" by (simp add: starts_with_def)
  then have "parse_iteration p (crlf @ rest) =
    Continue 2 (p\<lparr>parse_state := (if content_length p = 0 then CompleteState else Body)\<rparr>)"
    using assms by (simp add: parse_iteration_def parseHeader_def)
  then show ?thesis by (simp add: parse_loop.simps [of p])
qed

lemma parse_loop_complete:
  "parse_state p = CompleteState \<Longrightarrow> parse_loop p b c = (\<lparr>pr_status = Complete, pr_consumed = c\<rparr>, p)"
  by (simp add: parse_loop.simps [of p] parse_iteration_def)

lemma parse_loop_body:
  assumes "parse_state p = Body" "content_length p = length b"
  shows "parse_loop p (b @ rest) c = (\<lparr>pr_status = Complete, pr_consumed = c + length b\<rparr>,
    p\<lparr>request := (request p)\<lparr>req_body := b\<rparr>, parse_state := CompleteState\<rparr>)"
proof -
  have "parse_iteration p (b @ rest) = Continue (length b)
    (p\<lparr>request := (request p)\<lparr>req_body := b\<rparr>, parse_state := CompleteState\<rparr>)"
    using assms by (simp add: parse_iteration_def parseBody_def)
  then show ?thesis by (simp add: parse_loop.simps [of p] parse_loop_complete)
qed

lemma parse_print_aux:
  assumes ok: "request_ok r"
  shows "parse new_parser (print_request r @ rest) =
    (\<lparr>pr_status = Complete, pr_consumed = length (print_request r)\<rparr>,
     \<lparr>request = r, parse_state = CompleteState, content_length = length (req_body r)\<rparr>)"
proof -
  let ?hs = "concat (map print_header (req_headers r))"
  let ?line = "method_name (req_method r) @ '' '' @ req_path r @ '' '' @ req_version r @ crlf"
  let ?rest = "crlf @ req_body r @ rest"
  let ?n = "length (req_body r)"
  let ?q = "new_parser\<lparr>request := empty_request\<lparr>req_method := req_method r, req_path := req_path r,
     req_version := req_version r\<rparr>, parse_state := Header\<rparr>"
  let ?p = "?q\<lparr>request := (request ?q)\<lparr>req_headers := req_headers r\<rparr>, content_length := ?n\<rparr>"
  have cl: "(if ''Content-Length'' \<in> keys (req_headers r) then ?n else 0) = ?n"
    using ok map_of_keys [of "req_headers r" "''Content-Length''"]
    by (auto simp: request_ok_def split: option.splits)
  have it: "parse_iteration new_parser (?line @ ?hs @ ?rest) = Continue (length ?line) ?q"
    using parse_printed_line [OF ok, of new_parser "?hs @ ?rest"] by (simp add: new_parser_def)
  have "parse_loop new_parser (?line @ ?hs @ ?rest) 0 = parse_loop ?q (?hs @ ?rest) (length ?line)"
    using parse_loop_continue [OF it, of 0] by (simp only: add_0)
  also have "\<dots> = parse_loop (?q\<lparr>request := (request ?q)\<lparr>req_headers := req_headers (request ?q) @ req_headers r\<rparr>,
        content_length := (if ''Content-Length'' \<in> keys (req_headers r) then ?n else content_length ?q)\<rparr>)
      ?rest (length ?line + length ?hs)"
  proof (rule parse_printed_headers)
    show "v = to_string_nat ?n \<and> ?n \<le> MaxBodySize"
      if "(''Content-Length'', v) \<in> set (req_headers r)" for v
    proof -
      have "wf_map (req_headers r)" using ok by (simp add: request_ok_def)
      from map_of_is_SomeI [OF this that] show ?thesis using ok by (simp add: request_ok_def)
    qed
  qed (use ok in \<open>auto simp: request_ok_def new_parser_def empty_request_def\<close>)
  also have "\<dots> = parse_loop ?p ?rest (length ?line + length ?hs)"
    using cl by (auto simp: new_parser_def empty_request_def split: if_splits)
  also have "\<dots> = parse_loop (?p\<lparr>parse_state := (if ?n = 0 then CompleteState else Body)\<rparr>)
      (req_body r @ rest) (length ?line + length ?hs + 2)"
    using parse_blank_line [of ?p] by simp
  also have "\<dots> = (\<lparr>pr_status = Complete, pr_consumed = length ?line + length ?hs + 2 + ?n\<rparr>,
     \<lparr>request = r, parse_state = CompleteState, content_length = ?n\<rparr>)"
  proof (cases "?n = 0")
    case True
    then show ?thesis using ok
      by (simp add: parse_loop_complete new_parser_def empty_request_def request_ok_def)
  next
    case False
    then show ?thesis using ok parse_loop_body [of "?p\<lparr>parse_state := Body\<rparr>" "req_body r" rest]
      by (simp add: new_parser_def empty_request_def request_ok_def)
  qed
  finally show ?thesis by (simp add: parse_def print_request_def add.assoc)
qed

lemma parse_resume:
  assumes "line_ok p a" "parse p a = (r, q)" "pr_status r = NeedMoreData"
  shows "parse p (a @ b) =
    (case parse q (drop (pr_consumed r) a @ b) of
       (r', q') \<Rightarrow> (r'\<lparr>pr_consumed := pr_consumed r' + pr_consumed r\<rparr>, q'))"
proof (rule parse_result_eqI)
  have "(case parse_loop p a 0 of (r, q) \<Rightarrow> (pr_status r, pr_consumed r, q)) = (NeedMoreData, pr_consumed r, q)"
    using assms(2,3) by (simp add: parse_def)
  from http.loop_resume [OF assms(1) this, of b]
    http.loop_shift [of q "drop (pr_consumed r) a @ b" 0 "pr_consumed r"]
  show "(case parse p (a @ b) of (r, q) \<Rightarrow> (pr_status r, pr_consumed r, q)) =
    (case case parse q (drop (pr_consumed r) a @ b) of
       (r', q') \<Rightarrow> (r'\<lparr>pr_consumed := pr_consumed r' + pr_consumed r\<rparr>, q')
     of (r, q) \<Rightarrow> (pr_status r, pr_consumed r, q))"
    by (simp add: parse_def split: prod.splits)
qed

lemma parse_final:
  assumes "line_ok p a" "parse p a = (r, q)" "pr_status r \<noteq> NeedMoreData"
  shows "parse p (a @ b) = (r, q)"
proof (rule parse_result_eqI)
  have l: "(case parse_loop p a 0 of (r, q) \<Rightarrow> (pr_status r, pr_consumed r, q)) =
    (pr_status r, pr_consumed r, q)" using assms(2) by (simp add: parse_def)
  have "parse_iteration p' (a' @ b') = Return (pr_status r) q'"
    if "line_ok p' a'" "parse_iteration p' a' = Return (pr_status r) q'" for p' a' b' q'
    using parse_iteration_stable [OF that(1), of b'] that(2) assms(3) by simp
  from http.loop_final [OF this assms(1) l, of b]
  show "(case parse p (a @ b) of (r, q) \<Rightarrow> (pr_status r, pr_consumed r, q)) =
    (case (r, q) of (r, q) \<Rightarrow> (pr_status r, pr_consumed r, q))"
    by (simp add: parse_def split: prod.splits)
qed

section \<open>Properties\<close>

text \<open>
  C31.  A call of the parser never reports more bytes consumed than the buffer holds, keeps the
  object's invariant, and a request it completes carries a body of exactly the announced length, at
  most one mebibyte, with no header stored twice.
\<close>

theorem parse_safe:
  assumes "parser_wf p" "parse p b = (r, q)"
  shows "pr_consumed r \<le> length b \<and> parser_wf q \<and>
    (pr_status r = Complete \<longrightarrow> (\<exists>req q'. takeRequest q = Inr (req, q') \<and> parser_wf q' \<and>
       length (req_body req) \<le> MaxBodySize \<and> wf_map (req_headers req)))"
proof -
  have "(case parse_loop p b 0 of (r, q) \<Rightarrow> (pr_status r, pr_consumed r, q)) =
    (pr_status r, pr_consumed r, q)" using assms(2) by (simp add: parse_def)
  from http.loop_bound [OF this] have 1: "pr_consumed r \<le> length b" by simp
  have wf: "parser_wf q" using parse_wf [OF assms(1), of b] assms(2) by simp
  have "parse_state q = CompleteState" if "pr_status r = Complete"
  proof -
    have "pr_status (fst (parse_loop p b c)) = Complete \<Longrightarrow>
      parse_state (snd (parse_loop p b c)) = CompleteState" for c
    proof (induction p b c rule: parse_loop.induct)
      case (1 p b c)
      show ?case
      proof (cases "parse_iteration p b")
        case (Return st q')
        with "1.prems" have "parse_iteration p b = Return Complete q'"
          by (simp add: parse_loop.simps [of p])
        then have "parse_state q' = CompleteState"
          by (auto simp: parse_iteration_def split: State.splits StepStatus.splits prod.splits)
        with Return show ?thesis by (simp add: parse_loop.simps [of p])
      next
        case (Continue n q')
        with 1 show ?thesis by (simp add: parse_loop.simps [of p])
      qed
    qed
    from this [of 0] that assms(2) show ?thesis by (simp add: parse_def)
  qed
  then have "pr_status r = Complete \<Longrightarrow> takeRequest q = Inr (request q, reset q) \<and>
    length (req_body (request q)) \<le> MaxBodySize \<and> wf_map (req_headers (request q))"
    using wf by (auto simp: takeRequest_def parser_wf_def)
  with 1 wf parser_wf_reset [of q] show ?thesis by auto
qed

theorem parse_safe_witness:
  "pr_consumed (fst (parse new_parser ''GET / HTTP/1.1'')) \<le> length ''GET / HTTP/1.1''"
  using parse_safe [OF parser_wf_new, of "''GET / HTTP/1.1''"
      "fst (parse new_parser ''GET / HTTP/1.1'')" "snd (parse new_parser ''GET / HTTP/1.1'')"]
  by simp

text \<open>
  C32.  Every acceptable request, printed as a client prints it and followed by any bytes, is parsed
  in one call to exactly that request: method, path, version, all headers and the body; the call
  consumes exactly the printed bytes.
\<close>

theorem parse_print_roundtrip:
  assumes "request_ok r"
  shows "fst (parse new_parser (print_request r @ rest)) =
      \<lparr>pr_status = Complete, pr_consumed = length (print_request r)\<rparr> \<and>
    (\<exists>q. takeRequest (snd (parse new_parser (print_request r @ rest))) = Inr (r, q) \<and> q = new_parser)"
  using parse_print_aux [OF assms, of rest]
  by (simp add: takeRequest_def reset_def new_parser_def)

definition sample_request :: HttpRequest where
  "sample_request = \<lparr>req_method = POST, req_host = '''', req_path = ''/a'', req_version = ''HTTP/1.1'',
     req_headers = [(''Content-Length'', ''2''), (''Host'', ''h'')], req_body = ''hi''\<rparr>"

lemma sample_request_ok: "request_ok sample_request"
proof -
  have "to_string_nat (Suc (Suc 0)) = ''2''" by code_simp
  then show ?thesis
    by (simp add: request_ok_def sample_request_def header_ok_def MaxBodySize_def)
qed

theorem parse_print_roundtrip_witness:
  "fst (parse new_parser (print_request sample_request @ ''more'')) =
     \<lparr>pr_status = Complete, pr_consumed = length (print_request sample_request)\<rparr>"
  using parse_print_roundtrip [OF sample_request_ok] by blast

text \<open>
  The outcome of the parser does not depend on how the peer's bytes are cut: if a first part
  \<open>a\<close> leaves the parser waiting, then dropping what it consumed and adding \<open>b\<close> gives the result of
  having parsed \<open>a @ b\<close> at once; if \<open>a\<close> already settles the request, \<open>b\<close> changes nothing.  It holds
  for every input whose first line, once complete, contains its two spaces.
\<close>

theorem parse_independent_of_packets:
  assumes "line_ok p a"
  shows "parse p (a @ b) =
    (case parse p a of (r, q) \<Rightarrow>
       if pr_status r = NeedMoreData
       then (case parse q (drop (pr_consumed r) a @ b) of
               (r', q') \<Rightarrow> (r'\<lparr>pr_consumed := pr_consumed r' + pr_consumed r\<rparr>, q'))
       else (r, q))"
proof (cases "parse p a")
  case (Pair r q)
  then show ?thesis
    using parse_resume [OF assms Pair] parse_final [OF assms Pair] by simp
qed

theorem parse_independent_of_packets_witness:
  "parse new_parser (''GET / H'' @ ''TTP/1.1'' @ crlf @ crlf) =
    (case parse new_parser ''GET / H'' of (r, q) \<Rightarrow>
       if pr_status r = NeedMoreData
       then (case parse q (drop (pr_consumed r) ''GET / H'' @ ''TTP/1.1'' @ crlf @ crlf) of
               (r', q') \<Rightarrow> (r'\<lparr>pr_consumed := pr_consumed r' + pr_consumed r\<rparr>, q'))
       else (r, q))"
proof -
  have "line_ok new_parser ''GET / H''"
    by (simp add: line_ok_def request_line_ok_def starts_with_def)
  from parse_independent_of_packets [OF this] show ?thesis .
qed

text \<open>
  Without the two spaces the outcome does depend on the packets: the spaces are searched in the
  whole buffer, so a request line that has none is rejected when it arrives alone and accepted, with
  a path taken from the header that follows, when it arrives together with that header.
\<close>

theorem request_line_takes_spaces_from_headers:
  "pr_status (fst (parse new_parser (''GET'' @ crlf))) = Error \<and>
   pr_status (fst (parse new_parser (''GET'' @ crlf @ ''A: b c'' @ crlf @ crlf))) = Complete \<and>
   req_path (request (snd (parse new_parser (''GET'' @ crlf @ ''A: b c'' @ crlf @ crlf)))) = ''b''"
  by (simp add: parse_def parse_loop.simps parse_iteration_def new_parser_def parseRequestLine_def
      parseHeader_def storeHeader_def find_from_def starts_with_def substr_def size_sub_def empty_request_def
      Let_def)

end
