(* ===== verification/Unique_Fd.thy ===== *)
theory Unique_Fd
  imports Prelude
begin

text \<open>
  The RAII wrapper of a file descriptor, \<^verbatim>\<open>common/UniqueFd.h\<close> and \<^verbatim>\<open>common/UniqueFd.cpp\<close>.  Each
  member function is a function on the object that also returns the \<^verbatim>\<open>::close\<close> calls it made.  A
  program is any number of such objects (numbered slots) over a table of open descriptors; its steps
  are the member functions.  The invariant says that an open descriptor has exactly one owner, so no
  descriptor is closed twice and none is lost.
\<close>

record UniqueFd =
  fd_num :: int

definition invalid_fd :: int where
  "invalid_fd = -1"

section \<open>Member functions\<close>

definition UniqueFd_default :: UniqueFd where
  "UniqueFd_default = \<lparr>fd_num = -1\<rparr>"

definition UniqueFd_of :: "int \<Rightarrow> UniqueFd" where
  "UniqueFd_of fd = \<lparr>fd_num = fd\<rparr>"

text \<open>The call \<^verbatim>\<open>if (fd_ != -1) ::close(fd_)\<close>, as the list of descriptors it closes.\<close>

definition close_fd :: "int \<Rightarrow> int list" where
  "close_fd fd = (if fd \<noteq> -1 then [fd] else [])"

definition destroy :: "UniqueFd \<Rightarrow> int list" where
  "destroy u = close_fd (fd_num u)"

text \<open>The moved-to object and the moved-from object.\<close>

definition move_construct :: "UniqueFd \<Rightarrow> UniqueFd \<times> UniqueFd" where
  "move_construct other = (\<lparr>fd_num = fd_num other\<rparr>, other\<lparr>fd_num := -1\<rparr>)"

text \<open>The assigned object, the moved-from object and the calls of \<^verbatim>\<open>::close\<close>; \<open>same\<close> is \<^verbatim>\<open>this == &other\<close>.\<close>

definition move_assign :: "bool \<Rightarrow> UniqueFd \<Rightarrow> UniqueFd \<Rightarrow> UniqueFd \<times> UniqueFd \<times> int list" where
  "move_assign same this other =
     (if same then (this, other, [])
      else (\<lparr>fd_num = fd_num other\<rparr>, other\<lparr>fd_num := -1\<rparr>,
            close_fd (fd_num this)))"

definition get :: "UniqueFd \<Rightarrow> int" where
  "get u = fd_num u"

definition valid :: "UniqueFd \<Rightarrow> bool" where
  "valid u = (if fd_num u = -1 then False else True)"

definition release :: "UniqueFd \<Rightarrow> int \<times> UniqueFd" where
  "release u = (fd_num u, u\<lparr>fd_num := -1\<rparr>)"

definition reset_fd :: "int \<Rightarrow> UniqueFd \<Rightarrow> UniqueFd \<times> int list" where
  "reset_fd new_fd u = (u\<lparr>fd_num := new_fd\<rparr>, close_fd (fd_num u))"

section \<open>A program of owners\<close>

record fd_program =
  slots :: "nat \<Rightarrow> UniqueFd"
  open_fds :: "int set"
  released :: "int set"
  closes :: "int list"

definition fd_start :: fd_program where
  "fd_start = \<lparr>slots = (\<lambda>_. UniqueFd_default), open_fds = {}, released = {}, closes = []\<rparr>"

definition close_all :: "int list \<Rightarrow> fd_program \<Rightarrow> fd_program" where
  "close_all fs s = s\<lparr>open_fds := open_fds s - set fs, closes := closes s @ fs\<rparr>"

text \<open>
  The kernel hands out a descriptor that is not open (\<open>adopt\<close>); the other steps are the member
  functions.  \<open>reset\<close> with an argument takes over a descriptor the kernel just opened.
\<close>

inductive fd_step :: "fd_program \<Rightarrow> fd_program \<Rightarrow> bool" where
  adopt: "fd \<noteq> -1 \<Longrightarrow> fd \<notin> open_fds s \<Longrightarrow> fd_num (slots s i) = -1 \<Longrightarrow>
    fd_step s (s\<lparr>slots := (slots s)(i := UniqueFd_of fd), open_fds := insert fd (open_fds s)\<rparr>)"
| move_ctor: "i \<noteq> j \<Longrightarrow> fd_num (slots s i) = -1 \<Longrightarrow> move_construct (slots s j) = (u, v) \<Longrightarrow>
    fd_step s (s\<lparr>slots := (slots s)(i := u, j := v)\<rparr>)"
| move_asg: "move_assign (i = j) (slots s i) (slots s j) = (u, v, fs) \<Longrightarrow>
    fd_step s (close_all fs (s\<lparr>slots := (slots s)(i := u, j := v)\<rparr>))"
| release: "release (slots s i) = (fd, u) \<Longrightarrow>
    fd_step s (s\<lparr>slots := (slots s)(i := u), open_fds := open_fds s - {fd},
      released := (if fd = -1 then released s else insert fd (released s))\<rparr>)"
| reset_none: "reset_fd (-1) (slots s i) = (u, fs) \<Longrightarrow>
    fd_step s (close_all fs (s\<lparr>slots := (slots s)(i := u)\<rparr>))"
| reset_new: "fd \<noteq> -1 \<Longrightarrow> fd \<notin> open_fds s \<Longrightarrow> reset_fd fd (slots s i) = (u, fs) \<Longrightarrow>
    fd_step s ((close_all fs (s\<lparr>slots := (slots s)(i := u)\<rparr>))
      \<lparr>open_fds := insert fd (open_fds s - set fs)\<rparr>)"
| destructor: "fs = destroy (slots s i) \<Longrightarrow>
    fd_step s (close_all fs (s\<lparr>slots := (slots s)(i := UniqueFd_default)\<rparr>))"

inductive fd_reachable :: "fd_program \<Rightarrow> bool" where
  start: "fd_reachable fd_start"
| step: "fd_reachable s \<Longrightarrow> fd_step s t \<Longrightarrow> fd_reachable t"

text \<open>Every open descriptor has an owner and no two owners share one.\<close>

definition owned_once :: "(nat \<Rightarrow> int) \<Rightarrow> int set \<Rightarrow> bool" where
  "owned_once f A \<longleftrightarrow> A = range f - {-1} \<and> (\<forall>i j. f i \<noteq> -1 \<longrightarrow> f i = f j \<longrightarrow> i = j)"

definition fd_inv :: "fd_program \<Rightarrow> bool" where
  "fd_inv s \<longleftrightarrow> owned_once (fd_num \<circ> slots s) (open_fds s)"

lemmas fd_ops = UniqueFd_default_def UniqueFd_of_def destroy_def move_construct_def move_assign_def
  release_def reset_fd_def close_all_def

lemma owned_drop: "owned_once f A \<Longrightarrow> owned_once (f(i := -1)) (A - {f i})"
  by (auto simp: owned_once_def)

lemma owned_add:
  "owned_once f A \<Longrightarrow> f i = -1 \<Longrightarrow> x \<notin> A \<Longrightarrow> x \<noteq> -1 \<Longrightarrow> owned_once (f(i := x)) (insert x A)"
  by (auto simp: owned_once_def)

lemma owned_move:
  assumes "owned_once f A" "f i = -1" "i \<noteq> j"
  shows "owned_once (f(i := f j, j := -1)) A"
proof (cases "f j = -1")
  case True
  with assms have "f(i := f j, j := -1) = f" by (auto simp: fun_eq_iff)
  with assms show ?thesis by simp
next
  case False
  have "owned_once (f(j := -1)) (A - {f j})" using assms(1) by (rule owned_drop)
  from owned_add [OF this, of i "f j"] assms False
  have "owned_once ((f(j := -1))(i := f j)) (insert (f j) (A - {f j}))" by simp
  moreover have "f j \<in> A" using assms(1) False by (auto simp: owned_once_def)
  ultimately show ?thesis using assms(3) by (simp add: insert_absorb fun_upd_twist)
qed

lemma owned_minus_one: "owned_once f A \<Longrightarrow> -1 \<notin> A"
  by (auto simp: owned_once_def)

lemma owned_diff: "owned_once f A \<Longrightarrow> A - set (close_fd x) = A - {x}"
  using owned_minus_one [of f A] by (cases "x = -1") (simp_all add: close_fd_def)

lemma fd_inv_start: "fd_inv fd_start"
  by (auto simp: fd_inv_def fd_start_def owned_once_def fd_ops)

lemma fd_step_inv:
  assumes "fd_step s t" "fd_inv s"
  shows "fd_inv t"
  using assms
proof (induction rule: fd_step.induct)
  case (adopt fd s i)
  then show ?case by (simp add: fd_inv_def fun_upd_comp UniqueFd_of_def owned_add)
next
  case (move_ctor i j s u v)
  then show ?case
    using owned_move [of "fd_num \<circ> slots s" "open_fds s" i j]
    by (auto simp: fd_inv_def fun_upd_comp move_construct_def)
next
  case (move_asg i j s u v fs)
  let ?f = "fd_num \<circ> slots s"
  show ?case
  proof (cases "i = j")
    case True
    with move_asg show ?thesis by (auto simp: fd_inv_def move_assign_def close_all_def)
  next
    case False
    have o: "owned_once ?f (open_fds s)" using move_asg by (simp add: fd_inv_def)
    from owned_move [OF owned_drop [OF o, of i], of i j] False move_asg show ?thesis
      by (auto simp add: fd_inv_def fun_upd_comp move_assign_def close_all_def owned_diff [OF o])
  qed
next
  case (release s i fd u)
  then show ?case
    using owned_drop [of "fd_num \<circ> slots s" "open_fds s" i]
    by (auto simp: fd_inv_def fun_upd_comp release_def)
next
  case (reset_none s i u fs)
  then have o: "owned_once (fd_num \<circ> slots s) (open_fds s)" by (simp add: fd_inv_def)
  from owned_drop [OF o, of i] reset_none show ?case
    by (auto simp: fd_inv_def fun_upd_comp reset_fd_def close_all_def owned_diff [OF o])
next
  case (reset_new fd s i u fs)
  then have o: "owned_once (fd_num \<circ> slots s) (open_fds s)" by (simp add: fd_inv_def)
  from owned_add [OF owned_drop [OF o, of i], of i fd] reset_new show ?case
    by (auto simp: fd_inv_def fun_upd_comp reset_fd_def close_all_def owned_diff [OF o])
next
  case (destructor fs s i)
  then have o: "owned_once (fd_num \<circ> slots s) (open_fds s)" by (simp add: fd_inv_def)
  from owned_drop [OF o, of i] destructor show ?case
    by (simp add: fd_inv_def fun_upd_comp destroy_def close_all_def UniqueFd_default_def owned_diff [OF o])
qed

lemma fd_reachable_inv: "fd_reachable s \<Longrightarrow> fd_inv s"
  by (induction rule: fd_reachable.induct) (auto intro: fd_inv_start fd_step_inv)

lemma fd_step_closes:
  assumes "fd_step s t" "fd_inv s"
  obtains fs where "closes t = closes s @ fs" "set fs \<subseteq> open_fds s" "distinct fs"
proof -
  have held: "fd_num (slots s i) \<noteq> -1 \<Longrightarrow> fd_num (slots s i) \<in> open_fds s" for i
    using assms(2) by (auto simp: fd_inv_def owned_once_def)
  have "\<exists>fs. closes t = closes s @ fs \<and> set fs \<subseteq> open_fds s \<and> distinct fs"
    using assms(1)
    by (cases rule: fd_step.cases) (auto simp: fd_ops close_fd_def held split: if_splits)
  then show thesis using that by blast
qed

text \<open>
  In every program built from the wrapper's operations, an open descriptor is owned by exactly
  one wrapper and every descriptor a wrapper closes is open at that moment, so no descriptor is
  closed twice and none is lost.
\<close>

theorem fd_closed_once:
  assumes "fd_reachable s" "fd_step s t"
  shows "(\<exists>fs. closes t = closes s @ fs \<and> set fs \<subseteq> open_fds s \<and> distinct fs) \<and>
    (\<forall>fd \<in> open_fds t. \<exists>!i. get (slots t i) = fd) \<and> open_fds t = {get (slots t i) | i. valid (slots t i)}"
proof -
  have inv: "fd_inv s" "fd_inv t"
    using assms fd_reachable_inv fd_reachable.step by blast+
  obtain fs where "closes t = closes s @ fs" "set fs \<subseteq> open_fds s" "distinct fs"
    using fd_step_closes [OF assms(2) inv(1)] .
  then have "\<exists>fs. closes t = closes s @ fs \<and> set fs \<subseteq> open_fds s \<and> distinct fs" by blast
  moreover have "\<forall>fd \<in> open_fds t. \<exists>!i. get (slots t i) = fd"
    using inv(2) by (auto simp: fd_inv_def owned_once_def get_def)
  moreover have "open_fds t = {get (slots t i) | i. valid (slots t i)}"
    using inv(2) by (auto simp: fd_inv_def owned_once_def get_def valid_def)
  ultimately show ?thesis by blast
qed

definition fd_sample :: fd_program where
  "fd_sample = fd_start\<lparr>slots := (slots fd_start)(0 := UniqueFd_of 7), open_fds := insert 7 (open_fds fd_start)\<rparr>"

lemma fd_sample_reachable: "fd_reachable fd_sample"
  unfolding fd_sample_def
  by (rule fd_reachable.step [OF fd_reachable.start], rule fd_step.adopt) (auto simp: fd_start_def fd_ops)

theorem fd_closed_once_witness:
  "open_fds (close_all [7] (fd_sample\<lparr>slots := (slots fd_sample)(0 := UniqueFd_default)\<rparr>)) =
   {get (slots (close_all [7] (fd_sample\<lparr>slots := (slots fd_sample)(0 := UniqueFd_default)\<rparr>)) i) | i.
     valid (slots (close_all [7] (fd_sample\<lparr>slots := (slots fd_sample)(0 := UniqueFd_default)\<rparr>)) i)}"
proof -
  have "fd_step fd_sample (close_all [7] (fd_sample\<lparr>slots := (slots fd_sample)(0 := UniqueFd_default)\<rparr>))"
    by (rule fd_step.destructor) (simp add: fd_sample_def fd_start_def fd_ops close_fd_def)
  from fd_closed_once [OF fd_sample_reachable this] show ?thesis by blast
qed

end
