(* ===== verification/Conn.thy ===== *)
theory Conn
  imports Unique_Fd
begin

text \<open>
  A TCP connection, \<^verbatim>\<open>server/Connection.h\<close> and \<^verbatim>\<open>server/Connection.cpp\<close>: the owned descriptor, the
  input and output buffers and the open flag.  What the kernel answers to \<^verbatim>\<open>recv\<close> and \<^verbatim>\<open>send\<close> is a
  script of outcomes that the calls consume one by one; \<open>None\<close> is a call that is still blocked when
  the script ends.  The bytes the kernel accepted are recorded in \<open>wire\<close>.  The lemmas show that no
  byte is lost, duplicated or reordered between \<^verbatim>\<open>write\<close> and the wire, on success and on every error.
\<close>

datatype errno = EINTR | EAGAIN | EWOULDBLOCK | EOTHER

datatype recv_outcome = Recv string | RecvFail errno

datatype send_outcome = Sent nat | SendFail errno

text \<open>What a call returns: a positive count, 0, or -1 with \<^verbatim>\<open>errno\<close>.\<close>

datatype io_result = Count nat | Zero | Failed errno

record socket =
  rx :: "recv_outcome list"
  tx :: "send_outcome list"
  wire :: string

record Connection =
  conn_fd :: UniqueFd
  input_buffer :: string
  output_buffer :: string
  conn_state :: bool

section \<open>Member functions\<close>

definition Connection_of :: "UniqueFd \<Rightarrow> Connection" where
  "Connection_of fd = \<lparr>conn_fd = fd, input_buffer = '''', output_buffer = '''', conn_state = True\<rparr>"

text \<open>One \<^verbatim>\<open>recv\<close> fills at most 1024 bytes and leaves what else has arrived for the next one; an
  interrupted call is repeated.
\<close>

fun conn_read :: "Connection \<Rightarrow> recv_outcome list \<Rightarrow> (io_result \<times> Connection \<times> recv_outcome list) option" where
  "conn_read c [] = None"
| "conn_read c (Recv d # rs) =
     (if d \<noteq> [] then
        Some (Count (length (take 1024 d)), c\<lparr>input_buffer := input_buffer c @ take 1024 d\<rparr>,
          if drop 1024 d = [] then rs else Recv (drop 1024 d) # rs)
      else Some (Zero, c\<lparr>conn_state := False\<rparr>, rs))"
| "conn_read c (RecvFail e # rs) = (if e = EINTR then conn_read c rs else Some (Failed e, c, rs))"

definition conn_write :: "string \<Rightarrow> Connection \<Rightarrow> Connection" where
  "conn_write data c = c\<lparr>output_buffer := output_buffer c @ data\<rparr>"

text \<open>\<^verbatim>\<open>flush\<close> on a non-empty buffer: \<^verbatim>\<open>send\<close>, repeated when interrupted.\<close>

fun flush_send :: "Connection \<Rightarrow> send_outcome list \<Rightarrow> string
    \<Rightarrow> (io_result \<times> Connection \<times> send_outcome list \<times> string) option" where
  "flush_send c [] w = None"
| "flush_send c (Sent n # ts) w =
     (if 0 < n then Some (Count n, c\<lparr>output_buffer := drop n (output_buffer c)\<rparr>, ts,
        w @ take n (output_buffer c))
      else Some (Zero, c, ts, w))"
| "flush_send c (SendFail e # ts) w =
     (if e = EINTR then flush_send c ts w else Some (Failed e, c, ts, w))"

definition conn_flush :: "Connection \<Rightarrow> socket \<Rightarrow> (io_result \<times> Connection \<times> socket) option" where
  "conn_flush c k =
     (if output_buffer c = [] then Some (Zero, c, k)
      else case flush_send c (tx k) (wire k) of
        None \<Rightarrow> None
      | Some (n, c', ts, w) \<Rightarrow> Some (n, c', k\<lparr>tx := ts, wire := w\<rparr>))"

definition conn_consume :: "nat \<Rightarrow> Connection \<Rightarrow> Connection result" where
  "conn_consume n c =
     (if n > length (input_buffer c) then Inl (OutOfRange ''consume exceeds input buffer size'')
      else Inr (c\<lparr>input_buffer := drop n (input_buffer c)\<rparr>))"

definition conn_input :: "Connection \<Rightarrow> string" where
  "conn_input c = input_buffer c"

definition conn_is_open :: "Connection \<Rightarrow> bool" where
  "conn_is_open c \<longleftrightarrow> valid (conn_fd c) \<and> conn_state c"

definition conn_fd_num :: "Connection \<Rightarrow> int" where
  "conn_fd_num c = get (conn_fd c)"

text \<open>\<^verbatim>\<open>close\<close> also closes the descriptor.\<close>

definition conn_close :: "Connection \<Rightarrow> Connection \<times> int list" where
  "conn_close c = (let (u, fs) = reset_fd (-1) (conn_fd c) in (c\<lparr>conn_fd := u, conn_state := False\<rparr>, fs))"

lemma flush_send_shorter:
  "flush_send c ts w = Some (n, c', ts', w') \<Longrightarrow> length ts' < length ts"
  by (induction c ts w arbitrary: n rule: flush_send.induct) (auto split: if_splits)

lemma flush_shorter:
  assumes "conn_flush c k = Some (n, c', k')" "output_buffer c \<noteq> []"
  shows "length (tx k') < length (tx k)"
  using assms flush_send_shorter [of c "tx k" "wire k"] by (auto simp: conn_flush_def split: option.splits)

text \<open>
  The loop of \<^verbatim>\<open>sendAll\<close> after the data has been appended.  The result is the exception thrown, if
  any, with the connection and the socket as they are then.
\<close>

function send_pending :: "Connection \<Rightarrow> socket \<Rightarrow> (exn option \<times> Connection \<times> socket) option" where
  "send_pending c k =
     (if output_buffer c = [] then Some (None, c, k)
      else case conn_flush c k of
        None \<Rightarrow> None
      | Some (n, c', k') \<Rightarrow>
          (case n of
             Count _ \<Rightarrow> send_pending c' k'
           | Zero \<Rightarrow> Some (Some (RuntimeError ''socket closed while sending''), c', k')
           | Failed e \<Rightarrow>
               if e = EAGAIN \<or> e = EWOULDBLOCK
               then Some (Some (RuntimeError ''socket write timed out''), c', k')
               else Some (Some (RuntimeError ''send failed''), c', k')))"
  by pat_completeness auto
termination
  by (relation "measure (\<lambda>(c, k). length (tx k))") (auto dest: flush_shorter)

declare send_pending.simps [simp del]

definition sendAll :: "string \<Rightarrow> Connection \<Rightarrow> socket \<Rightarrow> (exn option \<times> Connection \<times> socket) option" where
  "sendAll data c k = send_pending (conn_write data c) k"

definition inputBuffer :: "Connection \<Rightarrow> string" where
  "inputBuffer c = input_buffer c"

definition hasPendingOutput :: "Connection \<Rightarrow> bool" where
  "hasPendingOutput c \<longleftrightarrow> output_buffer c \<noteq> []"

definition consumeInput :: "nat \<Rightarrow> Connection \<Rightarrow> Connection" where
  "consumeInput n c =
     (if n \<ge> length (input_buffer c) then c\<lparr>input_buffer := ''''\<rparr>
      else c\<lparr>input_buffer := drop n (input_buffer c)\<rparr>)"

section \<open>Lemmas\<close>

lemma consumeInput_drop [simp]:
  "input_buffer (consumeInput n c) = drop n (input_buffer c)"
  "conn_fd (consumeInput n c) = conn_fd c" "output_buffer (consumeInput n c) = output_buffer c"
  "conn_state (consumeInput n c) = conn_state c"
  by (simp_all add: consumeInput_def)

lemma conn_write_fields [simp]:
  "output_buffer (conn_write d c) = output_buffer c @ d" "input_buffer (conn_write d c) = input_buffer c"
  "conn_fd (conn_write d c) = conn_fd c" "conn_state (conn_write d c) = conn_state c"
  by (simp_all add: conn_write_def)

lemma flush_send_bytes:
  "flush_send c ts w = Some (n, c', ts', w') \<Longrightarrow>
     w' @ output_buffer c' = w @ output_buffer c \<and> conn_fd c' = conn_fd c \<and>
     conn_state c' = conn_state c \<and> input_buffer c' = input_buffer c"
  by (induction c ts w arbitrary: n rule: flush_send.induct) (auto split: if_splits)

lemma flush_bytes:
  "conn_flush c k = Some (n, c', k') \<Longrightarrow>
     wire k' @ output_buffer c' = wire k @ output_buffer c \<and> conn_fd c' = conn_fd c \<and>
     conn_state c' = conn_state c \<and> input_buffer c' = input_buffer c \<and> rx k' = rx k"
  using flush_send_bytes [of c "tx k" "wire k"] by (auto simp: conn_flush_def split: option.splits if_splits)

lemma flush_send_stuck:
  "flush_send c ts w = Some (n, c', ts', w') \<Longrightarrow> (\<And>m. n \<noteq> Count m) \<Longrightarrow> c' = c"
  by (induction c ts w arbitrary: n rule: flush_send.induct) (auto split: if_splits)

lemma flush_stuck:
  "conn_flush c k = Some (n, c', k') \<Longrightarrow> (\<And>m. n \<noteq> Count m) \<Longrightarrow> c' = c"
  using flush_send_stuck [of c "tx k" "wire k"] by (auto simp: conn_flush_def split: option.splits if_splits)

lemma send_pending_bytes:
  "send_pending c k = Some (e, c', k') \<Longrightarrow>
     wire k' @ output_buffer c' = wire k @ output_buffer c \<and> (e = None \<longleftrightarrow> output_buffer c' = []) \<and>
     conn_fd c' = conn_fd c \<and> conn_state c' = conn_state c \<and> input_buffer c' = input_buffer c \<and> rx k' = rx k"
proof (induction c k rule: send_pending.induct)
  case (1 c k)
  show ?case
  proof (cases "output_buffer c = []")
    case True
    with "1.prems" show ?thesis by (simp add: send_pending.simps [of c])
  next
    case False
    with "1.prems" obtain n c1 k1 where fl: "conn_flush c k = Some (n, c1, k1)"
      by (cases "conn_flush c k") (auto simp: send_pending.simps [of c])
    note fb = flush_bytes [OF fl]
    show ?thesis
    proof (cases n)
      case (Count m)
      with fl False "1.prems" have "send_pending c1 k1 = Some (e, c', k')"
        by (simp add: send_pending.simps [of c])
      with "1.IH" [OF False fl refl refl Count] fb show ?thesis by simp
    next
      case Zero
      with fl False "1.prems" fb flush_stuck [OF fl] show ?thesis
        by (auto simp: send_pending.simps [of c])
    next
      case (Failed er)
      with fl False "1.prems" fb flush_stuck [OF fl] show ?thesis
        by (auto simp: send_pending.simps [of c] split: if_splits)
    qed
  qed
qed

text \<open>
  A kernel that keeps accepting bytes: the outcomes up to some point are interruptions or positive
  counts that add up to at least \<open>n\<close> bytes.
\<close>

fun accepts :: "nat \<Rightarrow> send_outcome list \<Rightarrow> bool" where
  "accepts n [] \<longleftrightarrow> n = 0"
| "accepts n (Sent m # ts) \<longleftrightarrow> n = 0 \<or> (0 < m \<and> accepts (n - m) ts)"
| "accepts n (SendFail e # ts) \<longleftrightarrow> n = 0 \<or> (e = EINTR \<and> accepts n ts)"

lemma flush_send_accepts:
  assumes "accepts (length (output_buffer c)) ts" "output_buffer c \<noteq> []"
  shows "\<exists>m c' ts' w'. flush_send c ts w = Some (Count m, c', ts', w') \<and> accepts (length (output_buffer c')) ts'"
  using assms by (induction c ts w rule: flush_send.induct) auto

lemma send_pending_accepts:
  "accepts (length (output_buffer c)) (tx k) \<Longrightarrow> \<exists>c' k'. send_pending c k = Some (None, c', k')"
proof (induction c k rule: send_pending.induct)
  case (1 c k)
  show ?case
  proof (cases "output_buffer c = []")
    case True
    then show ?thesis by (simp add: send_pending.simps [of c])
  next
    case False
    obtain m c1 ts1 w1 where fs: "flush_send c (tx k) (wire k) = Some (Count m, c1, ts1, w1)"
      and a1: "accepts (length (output_buffer c1)) ts1"
      using flush_send_accepts [OF "1.prems" False] by blast
    define k1 where "k1 = k\<lparr>tx := ts1, wire := w1\<rparr>"
    have fl: "conn_flush c k = Some (Count m, c1, k1)"
      using fs False by (simp add: conn_flush_def k1_def)
    have "\<exists>c' k'. send_pending c1 k1 = Some (None, c', k')"
      using "1.IH" [OF False fl refl refl refl] a1 by (simp add: k1_def)
    with fl False show ?thesis by (simp add: send_pending.simps [of c])
  qed
qed

text \<open>How much the kernel can still deliver: the measure of the reading loops.\<close>

fun rx_size :: "recv_outcome list \<Rightarrow> nat" where
  "rx_size [] = 0"
| "rx_size (Recv d # rs) = Suc (length d) + rx_size rs"
| "rx_size (RecvFail e # rs) = Suc (rx_size rs)"

lemma conn_read_size: "conn_read c rs = Some (n, c', rs') \<Longrightarrow> rx_size rs' < rx_size rs"
  by (induction c rs arbitrary: n rule: conn_read.induct) (auto split: if_splits)

text \<open>The bytes the peer's script delivers before an end of stream or an error; interruptions are skipped.\<close>

fun arriving :: "recv_outcome list \<Rightarrow> string" where
  "arriving [] = []"
| "arriving (Recv d # rs) = (if d = [] then [] else d @ arriving rs)"
| "arriving (RecvFail e # rs) = (if e = EINTR then arriving rs else [])"

lemma conn_read_arriving:
  assumes "arriving rs \<noteq> []"
  shows "\<exists>d rs'. conn_read c rs = Some (Count (length d), c\<lparr>input_buffer := input_buffer c @ d\<rparr>, rs') \<and>
     d \<noteq> [] \<and> arriving rs = d @ arriving rs' \<and> rx_size rs' < rx_size rs"
  using assms
proof (induction c rs rule: conn_read.induct)
  case (2 c d rs)
  then have d: "d \<noteq> []" by (auto split: if_splits)
  let ?rs' = "if drop 1024 d = [] then rs else Recv (drop 1024 d) # rs"
  have "conn_read c (Recv d # rs) = Some (Count (length (take 1024 d)), c\<lparr>input_buffer := input_buffer c @ take 1024 d\<rparr>, ?rs')"
    using d by simp
  moreover have "arriving (Recv d # rs) = take 1024 d @ arriving ?rs'"
    using d by (cases "drop 1024 d = []") (auto simp flip: append_assoc)
  moreover have "take 1024 d \<noteq> []" using d by simp
  moreover have "rx_size ?rs' < rx_size (Recv d # rs)" using d by (auto simp: neq_Nil_conv)
  ultimately show ?case by blast
qed (auto split: if_splits)

section \<open>Properties\<close>

text \<open>
  C36. \<^verbatim>\<open>Connection::sendAll\<close> loses, repeats and reorders nothing, whatever the kernel answers: the bytes
  on the wire followed by the bytes still buffered are always the old wire, the old buffer and the new
  data in order; it returns normally exactly when everything has been sent.
\<close>

theorem sendAll_exact:
  assumes "sendAll data c k = Some (e, c', k')"
  shows "wire k' @ output_buffer c' = wire k @ output_buffer c @ data \<and>
    (e = None \<longleftrightarrow> \<not> hasPendingOutput c') \<and>
    (e = None \<longrightarrow> wire k' = wire k @ output_buffer c @ data) \<and>
    conn_fd c' = conn_fd c \<and> input_buffer c' = input_buffer c"
  using send_pending_bytes [of "conn_write data c" k e c' k'] assms
  by (auto simp: sendAll_def hasPendingOutput_def)

theorem sendAll_exact_witness:
  "\<exists>c' k'. sendAll ''abc'' (Connection_of (UniqueFd_of 5))
       \<lparr>rx = [], tx = [Sent 2, SendFail EINTR, SendFail EAGAIN], wire = ''''\<rparr>
     = Some (Some (RuntimeError ''socket write timed out''), c', k') \<and> wire k' @ output_buffer c' = ''abc'' \<and>
       hasPendingOutput c'"
proof -
  let ?c = "Connection_of (UniqueFd_of 5)"
  let ?k = "\<lparr>rx = [], tx = [Sent 2, SendFail EINTR, SendFail EAGAIN], wire = ''''\<rparr>"
  let ?c' = "?c\<lparr>output_buffer := ''c''\<rparr>"
  let ?k' = "?k\<lparr>tx := [], wire := ''ab''\<rparr>"
  have s: "sendAll ''abc'' ?c ?k = Some (Some (RuntimeError ''socket write timed out''), ?c', ?k')"
    by (simp add: sendAll_def Connection_of_def conn_write_def send_pending.simps conn_flush_def)
  from sendAll_exact [OF s] s show ?thesis by (auto simp: Connection_of_def)
qed

text \<open>
  \<^verbatim>\<open>Connection::sendAll\<close> returns, without an exception, whenever the kernel keeps accepting bytes,
  in pieces of any positive size and with any number of interrupted calls in between.
\<close>

theorem sendAll_returns:
  assumes "accepts (length (output_buffer c) + length data) (tx k)"
  shows "\<exists>c' k'. sendAll data c k = Some (None, c', k') \<and> wire k' = wire k @ output_buffer c @ data"
proof -
  obtain c' k' where s: "send_pending (conn_write data c) k = Some (None, c', k')"
    using send_pending_accepts [of "conn_write data c" k] assms by auto
  with send_pending_bytes [OF s] show ?thesis by (auto simp: sendAll_def)
qed

theorem sendAll_returns_witness:
  "\<exists>c' k'. sendAll ''abc'' (Connection_of (UniqueFd_of 5))
     \<lparr>rx = [], tx = [Sent 2, SendFail EINTR, Sent 1], wire = ''''\<rparr> = Some (None, c', k') \<and> wire k' = ''abc''"
  using sendAll_returns [of "Connection_of (UniqueFd_of 5)" "''abc''"
      "\<lparr>rx = [], tx = [Sent 2, SendFail EINTR, Sent 1], wire = ''''\<rparr>"]
  by (simp add: Connection_of_def)

end
