(* ===== verification/Json.thy ===== *)
theory Json
  imports Prelude
begin

text \<open>
  JSON values as the server handles them, and the functions of third-party libraries that the code
  calls: nlohmann::json's \<^verbatim>\<open>parse\<close> and \<^verbatim>\<open>dump\<close>, Boost's UUID reader and printer, jwt-cpp, libsodium's
  Base64 reader and printer, generic hash, password hash and random bytes, libpq's \<^verbatim>\<open>PQunescapeBytea\<close>, OpenSSL's digest.  None of them is under \<^verbatim>\<open>src/\<close>; they are fields of the
  record \<open>library\<close>, an argument of every definition that calls them.  What is assumed of them is the
  predicate \<open>uuid_lib_ok\<close>: printing a UUID and reading it back gives the same UUID in the 36-character form.
\<close>

section \<open>Values\<close>

text \<open>
  Numbers keep the library's three storage kinds: signed, unsigned and floating point (the last as its
  text, since the server never computes with it).  Objects are association lists with distinct keys.
\<close>

datatype json =
    JNull
  | JBool bool
  | JInt int
  | JUnsigned nat
  | JFloat string
  | JString string
  | JArray "json list"
  | JObject "(string \<times> json) list"

fun is_object :: "json \<Rightarrow> bool" where
  "is_object (JObject _) = True"
| "is_object _ = False"

fun is_string :: "json \<Rightarrow> bool" where
  "is_string (JString _) = True"
| "is_string _ = False"

text \<open>\<^verbatim>\<open>find\<close>: \<open>None\<close> is \<^verbatim>\<open>end()\<close>, also the answer for a value that is no object.\<close>

fun json_find :: "string \<Rightarrow> json \<Rightarrow> json option" where
  "json_find k (JObject m) = map_of m k"
| "json_find k _ = None"

text \<open>\<^verbatim>\<open>j[k] = v\<close> on an object, which is how the replies are completed.\<close>

fun json_set :: "string \<Rightarrow> json \<Rightarrow> json \<Rightarrow> json" where
  "json_set k v (JObject m) = JObject (map_put k v m)"
| "json_set k v j = j"

lemma json_find_set [simp]:
  "is_object j \<Longrightarrow> json_find k (json_set k' v j) = (if k = k' then Some v else json_find k j)"
  by (cases j) auto

lemma is_object_set [simp]: "is_object (json_set k v j) = is_object j"
  by (cases j) auto

section \<open>Results that may be exceptions\<close>

text \<open>Sequencing: an exception skips the rest.\<close>

fun ebind :: "'a result \<Rightarrow> ('a \<Rightarrow> 'b result) \<Rightarrow> 'b result" where
  "ebind (Inl e) f = Inl e"
| "ebind (Inr x) f = f x"

lemma ebind_Inr_iff: "ebind m f = Inr y \<longleftrightarrow> (\<exists>x. m = Inr x \<and> f x = Inr y)"
  by (cases m) auto

section \<open>Libraries\<close>

text \<open>A decoded token: the claims the server reads and the library's own representation for the verifier.\<close>

record jwt =
  jwt_expires_at :: "int option"
  jwt_subject :: "string option"
  jwt_issuer :: "string option"
  jwt_audience :: "string list"
  jwt_type :: "string option"
  jwt_token :: string

record library =
  json_parse :: "string \<Rightarrow> json option"
  json_dump :: "json \<Rightarrow> string option"
  string_generator :: "string \<Rightarrow> uuid option"
  uuid_to_string :: "uuid \<Rightarrow> string"
  jwt_decode :: "string \<Rightarrow> jwt result"
  jwt_verify :: "string \<Rightarrow> string \<Rightarrow> string \<Rightarrow> string \<Rightarrow> int \<Rightarrow> jwt \<Rightarrow> bool"
  jwt_sign :: "string \<Rightarrow> string \<Rightarrow> string \<Rightarrow> string \<Rightarrow> string \<Rightarrow> int \<Rightarrow> int \<Rightarrow> string"
  bin2base64_url :: "byte list \<Rightarrow> string"
  base642bin :: "nat \<Rightarrow> string \<Rightarrow> (byte list \<times> nat) option"
  sha1_base64 :: "string \<Rightarrow> string result"
  generichash_hex :: "string \<Rightarrow> string result"
  pwhash_str :: "string \<Rightarrow> string option"
  pwhash_str_verify :: "string \<Rightarrow> string \<Rightarrow> bool"
  randombytes :: "nat \<Rightarrow> byte list"
  unescape_bytea :: "string \<Rightarrow> byte list option"

text \<open>
  \<^verbatim>\<open>dump\<close> throws on a string that is not UTF-8, \<^verbatim>\<open>boost::uuids::string_generator\<close> on text that is no
  UUID (\<^verbatim>\<open>std::runtime_error\<close>).
\<close>

definition dump :: "library \<Rightarrow> json \<Rightarrow> string result" where
  "dump lib j = (case json_dump lib j of Some s \<Rightarrow> Inr s | None \<Rightarrow> Inl (JsonError ''type_error.316''))"

definition read_uuid :: "library \<Rightarrow> string \<Rightarrow> uuid result" where
  "read_uuid lib s = (case string_generator lib s of Some u \<Rightarrow> Inr u | None \<Rightarrow> Inl (RuntimeError ''invalid uuid string''))"

definition uuid_shape :: "string \<Rightarrow> bool" where
  "uuid_shape s \<longleftrightarrow> length s = 36 \<and> s ! 8 = CHR ''-'' \<and> s ! 13 = CHR ''-'' \<and> s ! 18 = CHR ''-'' \<and> s ! 23 = CHR ''-''"

definition uuid_lib_ok :: "library \<Rightarrow> bool" where
  "uuid_lib_ok lib \<longleftrightarrow> (\<forall>u. string_generator lib (uuid_to_string lib u) = Some u \<and> uuid_shape (uuid_to_string lib u))"

lemma read_uuid_to_string [simp]:
  "uuid_lib_ok lib \<Longrightarrow> read_uuid lib (uuid_to_string lib u) = Inr u"
  by (simp add: read_uuid_def uuid_lib_ok_def)

lemma uuid_to_string_shape: "uuid_lib_ok lib \<Longrightarrow> uuid_shape (uuid_to_string lib u)"
  by (simp add: uuid_lib_ok_def)

lemma uuid_to_string_inject:
  "uuid_lib_ok lib \<Longrightarrow> uuid_to_string lib u = uuid_to_string lib v \<longleftrightarrow> u = v"
  unfolding uuid_lib_ok_def by (metis option.inject)

end
