(* ===== verification/Http_Response.thy ===== *)
theory Http_Response
  imports Json Http_Parse
begin

text \<open>
  Responses, \<^verbatim>\<open>http/HttpResponse.h\<close>, \<^verbatim>\<open>http/HttpResponse.cpp\<close> and
  \<^verbatim>\<open>http/HttpResponseGenerator.cpp\<close>: status codes and reason phrases, the error body, and the bytes of a
  response.  The property is the framing: a client that reads the header block and then
  \<^verbatim>\<open>Content-Length\<close> bytes recovers status, headers and body.
\<close>

datatype HttpStatus =
    Ok | Created | Accepted | No_Content | Bad_Request | Unauthorized | Forbidden | Not_Found
  | Method_Not_Allowed | Request_Timeout | Internal_Server_Error | Service_Unavailable | Bad_Gateway
  | Conflict | Switching_Protocol

fun status_code :: "HttpStatus \<Rightarrow> nat" where
  "status_code Ok = 200"
| "status_code Created = 201"
| "status_code Accepted = 202"
| "status_code No_Content = 204"
| "status_code Bad_Request = 400"
| "status_code Unauthorized = 401"
| "status_code Forbidden = 403"
| "status_code Not_Found = 404"
| "status_code Method_Not_Allowed = 405"
| "status_code Request_Timeout = 408"
| "status_code Internal_Server_Error = 500"
| "status_code Service_Unavailable = 503"
| "status_code Bad_Gateway = 502"
| "status_code Conflict = 409"
| "status_code Switching_Protocol = 101"

fun reasonPhrase :: "HttpStatus \<Rightarrow> string" where
  "reasonPhrase Ok = ''OK''"
| "reasonPhrase Created = ''Created''"
| "reasonPhrase Accepted = ''Accepted''"
| "reasonPhrase No_Content = ''No Content''"
| "reasonPhrase Bad_Request = ''Bad Request''"
| "reasonPhrase Forbidden = ''Forbidden''"
| "reasonPhrase Not_Found = ''Not Found''"
| "reasonPhrase Method_Not_Allowed = ''Method Not Allowed''"
| "reasonPhrase Request_Timeout = ''Request Timeout''"
| "reasonPhrase Internal_Server_Error = ''Internal Server Error''"
| "reasonPhrase Bad_Gateway = ''Bad Gateway''"
| "reasonPhrase Service_Unavailable = ''Service Unavailable''"
| "reasonPhrase Conflict = ''Conflict''"
| "reasonPhrase Unauthorized = ''Unauthorized''"
| "reasonPhrase Switching_Protocol = ''Switching Protocols''"

record HttpResponse =
  rsp_status :: HttpStatus
  rsp_headers :: headers
  rsp_body :: string

definition empty_response :: HttpResponse where
  "empty_response = \<lparr>rsp_status = Ok, rsp_headers = [], rsp_body = ''''\<rparr>"

definition set_header :: "string \<Rightarrow> string \<Rightarrow> HttpResponse \<Rightarrow> HttpResponse" where
  "set_header k v r = r\<lparr>rsp_headers := map_put k v (rsp_headers r)\<rparr>"

definition ErrorResponseMaker :: "library \<Rightarrow> HttpStatus \<Rightarrow> string \<Rightarrow> string \<Rightarrow> HttpResponse result" where
  "ErrorResponseMaker lib status code message =
     (let body = JObject [(''error'', JObject [(''code'', JString code), (''message'', JString message)])];
          response = set_header ''Connection'' ''Close''
            (set_header ''Content-Type'' ''application/json'' (empty_response\<lparr>rsp_status := status\<rparr>))
      in ebind (dump lib body) (\<lambda>text. Inr (response\<lparr>rsp_body := text\<rparr>)))"

definition header_line :: "string \<times> string \<Rightarrow> string" where
  "header_line h = fst h @ '': '' @ snd h @ crlf"

definition generateHttpResponse :: "HttpResponse \<Rightarrow> string" where
  "generateHttpResponse r =
     ''HTTP/1.1 '' @ to_string_nat (status_code (rsp_status r)) @ '' '' @ reasonPhrase (rsp_status r) @ crlf
     @ concat (map header_line (rsp_headers r))
     @ (if length (rsp_body r) > 0
        then ''Content-Length: '' @ to_string_nat (length (rsp_body r)) @ crlf else '''')
     @ crlf @ rsp_body r"

section \<open>A client's view\<close>

text \<open>
  A reader of responses: the lines up to the empty one, then the body.  It is the reference the generator
  is compared with: split at the first empty line, read the length from the header block.
\<close>

fun read_headers :: "nat \<Rightarrow> string \<Rightarrow> ((string \<times> string) list \<times> string) option" where
  "read_headers 0 s = None"
| "read_headers (Suc n) s =
     (case find_sub crlf s of
        None \<Rightarrow> None
      | Some 0 \<Rightarrow> Some ([], drop 2 s)
      | Some i \<Rightarrow>
          (case find_sub '': '' (take i s) of
             None \<Rightarrow> None
           | Some j \<Rightarrow> map_option (\<lambda>(hs, rest). ((take j s, drop (j + 2) (take i s)) # hs, rest))
               (read_headers n (drop (i + 2) s))))"

definition read_response :: "string \<Rightarrow> (string \<times> (string \<times> string) list \<times> string) option" where
  "read_response s =
     (case find_sub crlf s of
        None \<Rightarrow> None
      | Some i \<Rightarrow>
          (case read_headers (length s) (drop (i + 2) s) of
             None \<Rightarrow> None
           | Some (hs, rest) \<Rightarrow>
               (let n = (case map_of hs ''Content-Length'' of Some v \<Rightarrow> dec_val v | None \<Rightarrow> 0)
                in if n \<le> length rest then Some (take i s, hs, take n rest) else None)))"

definition response_header_ok :: "string \<times> string \<Rightarrow> bool" where
  "response_header_ok h \<longleftrightarrow> fst h \<noteq> [] \<and> CHR '':'' \<notin> set (fst h) \<and> CR \<notin> set (fst h) \<and> CR \<notin> set (snd h) \<and>
     fst h \<noteq> ''Content-Length''"

section \<open>Lemmas\<close>

lemma find_colon_space:
  assumes "CHR '':'' \<notin> set l"
  shows "find_sub '': '' (l @ CHR '':'' # CHR '' '' # r) = Some (length l)"
  using assms by (induction l) (auto simp: starts_with_def)

lemma digit_not_CR: "is_digit c \<Longrightarrow> c \<noteq> CR"
  by (auto simp: is_digit_def)

lemma to_string_nat_no_CR: "CR \<notin> set (to_string_nat n)"
  using to_string_nat_digits digit_not_CR by blast

lemma read_header_line:
  assumes "fst h \<noteq> []" "CHR '':'' \<notin> set (fst h)" "CR \<notin> set (fst h)" "CR \<notin> set (snd h)"
  shows "read_headers (Suc n) (header_line h @ s) = map_option (\<lambda>(hs, rest). (h # hs, rest)) (read_headers n s)"
proof -
  let ?l = "fst h @ '': '' @ snd h"
  have i: "find_sub crlf (header_line h @ s) = Some (length ?l)"
    using find_crlf [of ?l s] assms by (simp add: header_line_def)
  have t: "take (length ?l) (header_line h @ s) = ?l" "drop (length ?l + 2) (header_line h @ s) = s"
    by (simp_all add: header_line_def numeral_eq_Suc)
  have j: "find_sub '': '' ?l = Some (length (fst h))"
    using find_colon_space [OF assms(2), of "snd h"] by simp
  have "take (length (fst h)) (header_line h @ s) = fst h" "drop (length (fst h) + 2) ?l = snd h"
    by (simp_all add: header_line_def)
  moreover have "length ?l = Suc (Suc (length (fst h) + length (snd h)))" by simp
  ultimately show ?thesis
    using i t j by (simp add: case_prod_unfold del: length_append append.simps(2))
qed

lemma read_header_lines:
  assumes "\<forall>h \<in> set hs. fst h \<noteq> [] \<and> CHR '':'' \<notin> set (fst h) \<and> CR \<notin> set (fst h) \<and> CR \<notin> set (snd h)"
    and "length hs < n"
  shows "read_headers n (concat (map header_line hs) @ crlf @ body) = Some (hs, body)"
  using assms
proof (induction hs arbitrary: n)
  case Nil
  then obtain m where "n = Suc m" by (cases n) auto
  then show ?case by (simp add: starts_with_def)
next
  case (Cons h hs)
  then obtain m where m: "n = Suc m" by (cases n) auto
  with Cons show ?case by (simp add: read_header_line del: read_headers.simps)
qed

definition content_length_header :: "string \<Rightarrow> headers" where
  "content_length_header b = (if length b > 0 then [(''Content-Length'', to_string_nat (length b))] else [])"

definition status_line :: "HttpStatus \<Rightarrow> string" where
  "status_line st = ''HTTP/1.1 '' @ to_string_nat (status_code st) @ '' '' @ reasonPhrase st"

lemma generate_lines:
  "generateHttpResponse r = status_line (rsp_status r) @ crlf
     @ concat (map header_line (rsp_headers r @ content_length_header (rsp_body r))) @ crlf @ rsp_body r"
  by (simp add: generateHttpResponse_def status_line_def content_length_header_def header_line_def)

lemma status_line_no_CR: "CR \<notin> set (status_line st)"
  using to_string_nat_digits digit_not_CR by (cases st) (auto simp: status_line_def)

section \<open>Properties\<close>


definition sample_response :: HttpResponse where
  "sample_response = \<lparr>rsp_status = Not_Found, rsp_headers = [(''Connection'', ''close'')], rsp_body = crlf @ crlf\<rparr>"


end
