(* ===== verification/Auth_Router.thy ===== *)
theory Auth_Router
  imports Http_Response
begin

text \<open>
  Access tokens, the authentication middleware and the router: \<^verbatim>\<open>Auth/AccessTokenService.cpp\<close>,
  \<^verbatim>\<open>http/AuthMiddleWare.cpp\<close> and \<^verbatim>\<open>handler/Router.cpp\<close>.  Handlers take the request and the server's
  state and return a response or an exception with the state after; the state type is a parameter.  Time
  is in seconds.  The main property is that a handler behind a protected route runs only for a request
  whose bearer token was signed with the server's secret, has not expired and names the user passed on.
\<close>

datatype AccessTokenError = InvalidToken | ExpiredToken

datatype AuthError = UnAuthorized | AuthExpired

text \<open>The subclasses of \<^verbatim>\<open>std::runtime_error\<close> among the exceptions.\<close>

fun is_runtime_error :: "exn \<Rightarrow> bool" where
  "is_runtime_error (DbExn _) = True"
| "is_runtime_error (RuntimeError _) = True"
| "is_runtime_error (SystemError _) = True"
| "is_runtime_error (DeviceRelationException _) = True"
| "is_runtime_error _ = False"

fun is_invalid_argument :: "exn \<Rightarrow> bool" where
  "is_invalid_argument (InvalidArgument _) = True"
| "is_invalid_argument _ = False"

section \<open>Tokens\<close>

definition generateAccessToken :: "library \<Rightarrow> string \<Rightarrow> int \<Rightarrow> string \<Rightarrow> string" where
  "generateAccessToken lib secret now userId =
     jwt_sign lib secret ''JWT'' ''cpp_backend_server'' ''cpp_backend_api'' userId now (now + 15 * 60)"

text \<open>The body of the \<^verbatim>\<open>try\<close> block.\<close>

definition verify_body :: "library \<Rightarrow> string \<Rightarrow> int \<Rightarrow> string \<Rightarrow> (AccessTokenError + uuid) result" where
  "verify_body lib secret now accessToken =
     ebind (jwt_decode lib accessToken) (\<lambda>decoded.
       case (jwt_expires_at decoded, jwt_subject decoded) of
         (Some expires, Some subject) \<Rightarrow>
           if \<not> jwt_verify lib secret ''cpp_backend_server'' ''cpp_backend_api'' ''JWT'' now decoded
           then Inr (Inl InvalidToken)
           else if now \<ge> expires then Inr (Inl ExpiredToken)
           else ebind (read_uuid lib subject) (\<lambda>userId. Inr (Inr userId))
       | _ \<Rightarrow> Inr (Inl InvalidToken))"

definition verify :: "library \<Rightarrow> string \<Rightarrow> int \<Rightarrow> string \<Rightarrow> (AccessTokenError + uuid) result" where
  "verify lib secret now accessToken =
     (case verify_body lib secret now accessToken of
        Inl e \<Rightarrow> if is_invalid_argument e \<or> is_runtime_error e then Inr (Inl InvalidToken) else Inl e
      | Inr r \<Rightarrow> Inr r)"

section \<open>Middleware\<close>

definition bearer :: string where
  "bearer = ''Bearer ''"

fun auth_of_token :: "AccessTokenError + uuid \<Rightarrow> AuthError + uuid" where
  "auth_of_token (Inl InvalidToken) = Inl UnAuthorized"
| "auth_of_token (Inl ExpiredToken) = Inl AuthExpired"
| "auth_of_token (Inr u) = Inr u"

definition authenticate :: "library \<Rightarrow> string \<Rightarrow> int \<Rightarrow> HttpRequest \<Rightarrow> (AuthError + uuid) result" where
  "authenticate lib secret now req =
     (let iterator = (case map_of (req_headers req) ''authorization'' of
                        None \<Rightarrow> map_of (req_headers req) ''Authorization''
                      | Some v \<Rightarrow> Some v)
      in case iterator of
           None \<Rightarrow> Inr (Inl UnAuthorized)
         | Some authorization \<Rightarrow>
             if \<not> starts_with bearer authorization then Inr (Inl UnAuthorized)
             else ebind (verify lib secret now (drop (length bearer) authorization))
                    (\<lambda>r. Inr (auth_of_token r)))"

definition authenticate_string :: "library \<Rightarrow> string \<Rightarrow> int \<Rightarrow> string \<Rightarrow> (AuthError + uuid) result" where
  "authenticate_string lib secret now authorization =
     (if \<not> starts_with bearer authorization \<or> length authorization = length bearer
      then Inr (Inl UnAuthorized)
      else ebind (verify lib secret now (drop (length bearer) authorization))
             (\<lambda>r. Inr (auth_of_token r)))"

section \<open>Router\<close>

type_synonym 's Handler = "HttpRequest \<Rightarrow> 's \<Rightarrow> HttpResponse result \<times> 's"
type_synonym 's Protected_Handler = "HttpRequest \<Rightarrow> uuid \<Rightarrow> 's \<Rightarrow> HttpResponse result \<times> 's"

record 's Router =
  routes :: "(HttpMethod \<times> string \<times> 's Handler) list"
  protected_routes :: "(HttpMethod \<times> string \<times> 's Protected_Handler) list"

definition addRoute :: "HttpMethod \<Rightarrow> string \<Rightarrow> 's Handler \<Rightarrow> 's Router \<Rightarrow> 's Router" where
  "addRoute m p h r = r\<lparr>routes := routes r @ [(m, p, h)]\<rparr>"

definition addProtectedRoute :: "HttpMethod \<Rightarrow> string \<Rightarrow> 's Protected_Handler \<Rightarrow> 's Router \<Rightarrow> 's Router" where
  "addProtectedRoute m p h r = r\<lparr>protected_routes := protected_routes r @ [(m, p, h)]\<rparr>"

definition matches :: "HttpRequest \<Rightarrow> HttpMethod \<times> string \<times> 'h \<Rightarrow> bool" where
  "matches req r \<longleftrightarrow> fst r = req_method req \<and> fst (snd r) = req_path req"

definition protected_route :: "library \<Rightarrow> string \<Rightarrow> int \<Rightarrow> 's Router \<Rightarrow> HttpRequest \<Rightarrow> 's \<Rightarrow> HttpResponse result \<times> 's" where
  "protected_route lib secret now router req s =
     (case find (matches req) (protected_routes router) of
        None \<Rightarrow> (ErrorResponseMaker lib Not_Found ''route_not_found'' ''Route not found'', s)
      | Some (_, _, handler) \<Rightarrow>
          (case authenticate lib secret now req of
             Inl e \<Rightarrow> (Inl e, s)
           | Inr (Inl UnAuthorized) \<Rightarrow>
               (ErrorResponseMaker lib Unauthorized ''invalid_access_token'' ''Invalid access token'', s)
           | Inr (Inl AuthExpired) \<Rightarrow>
               (ErrorResponseMaker lib Unauthorized ''access_token_expired'' ''Access token expired'', s)
           | Inr (Inr authId) \<Rightarrow> handler req authId s))"

definition route :: "library \<Rightarrow> string \<Rightarrow> int \<Rightarrow> 's Router \<Rightarrow> HttpRequest \<Rightarrow> 's \<Rightarrow> HttpResponse result \<times> 's" where
  "route lib secret now router req s =
     (case find (matches req) (routes router) of
        Some (_, _, handler) \<Rightarrow> handler req s
      | None \<Rightarrow> protected_route lib secret now router req s)"

section \<open>Lemmas\<close>

text \<open>A token the server accepts as \<open>u\<close>.\<close>

definition token_for :: "library \<Rightarrow> string \<Rightarrow> int \<Rightarrow> uuid \<Rightarrow> string \<Rightarrow> bool" where
  "token_for lib secret now u tok \<longleftrightarrow> (\<exists>decoded expires subject.
     jwt_decode lib tok = Inr decoded \<and> jwt_expires_at decoded = Some expires \<and> jwt_subject decoded = Some subject \<and>
     jwt_verify lib secret ''cpp_backend_server'' ''cpp_backend_api'' ''JWT'' now decoded \<and>
     now < expires \<and> string_generator lib subject = Some u)"

lemma verify_body_token_for: "verify_body lib secret now tok = Inr (Inr u) \<longleftrightarrow> token_for lib secret now u tok"
proof (cases "jwt_decode lib tok")
  case (Inr decoded)
  then show ?thesis
    by (cases "jwt_expires_at decoded"; cases "jwt_subject decoded")
       (auto simp: verify_body_def token_for_def read_uuid_def split: option.splits)
qed (simp add: verify_body_def token_for_def)

lemma verify_token_for: "verify lib secret now tok = Inr (Inr u) \<longleftrightarrow> token_for lib secret now u tok"
  unfolding verify_body_token_for [symmetric] by (auto simp: verify_def split: sum.splits)

lemma auth_of_token_Inr [simp]: "auth_of_token r = Inr u \<longleftrightarrow> r = Inr u"
  by (cases r rule: auth_of_token.cases) auto

lemma authenticate_Inr:
  assumes "authenticate lib secret now req = Inr (Inr u)"
  shows "\<exists>k tok. k \<in> {''authorization'', ''Authorization''} \<and>
     map_of (req_headers req) k = Some (bearer @ tok) \<and> token_for lib secret now u tok"
proof -
  from assms obtain k a where k: "k \<in> {''authorization'', ''Authorization''}" "map_of (req_headers req) k = Some a"
    and a: "starts_with bearer a" "verify lib secret now (drop (length bearer) a) = Inr (Inr u)"
    by (auto simp: authenticate_def Let_def ebind_Inr_iff split: option.splits if_splits)
  from a(1) have "a = bearer @ drop (length bearer) a"
    by (metis append_take_drop_id starts_with_def)
  with k a(2) show ?thesis unfolding verify_token_for by metis
qed

lemma authenticate_string_Inr:
  "authenticate_string lib secret now a = Inr (Inr u) \<longleftrightarrow>
     (\<exists>tok. a = bearer @ tok \<and> tok \<noteq> [] \<and> token_for lib secret now u tok)"
proof
  assume "authenticate_string lib secret now a = Inr (Inr u)"
  then have a: "starts_with bearer a" "length a \<noteq> length bearer"
      "token_for lib secret now u (drop (length bearer) a)"
    by (auto simp: authenticate_string_def ebind_Inr_iff verify_token_for split: if_splits)
  from a(1) have "a = bearer @ drop (length bearer) a"
    by (metis append_take_drop_id starts_with_def)
  with a show "\<exists>tok. a = bearer @ tok \<and> tok \<noteq> [] \<and> token_for lib secret now u tok"
    by (metis append_Nil2)
next
  assume "\<exists>tok. a = bearer @ tok \<and> tok \<noteq> [] \<and> token_for lib secret now u tok"
  then show "authenticate_string lib secret now a = Inr (Inr u)"
    by (auto simp: authenticate_string_def starts_with_append verify_token_for [symmetric])
qed

end
