(* ===== verification/Demo_Library.thy ===== *)
theory Demo_Library
  imports Auth_Router
begin

text \<open>
  A concrete instance of the third-party functions, for the theorems that assume something of them: UUIDs
  in the canonical 8-4-4-4-12 form, tokens that carry their claims in the clear.  It shows that the
  assumptions can hold together; it is no model of the libraries.
\<close>

section \<open>UUID text\<close>

definition hex_digit :: "uuid \<Rightarrow> char" where
  "hex_digit d = ''0123456789abcdef'' ! unat d"

definition hex_value :: "char \<Rightarrow> uuid" where
  "hex_value c = (let n = (of_char c :: nat) in word_of_nat (if n < 58 then n - 48 else n - 87))"

definition nibbles :: "uuid \<Rightarrow> uuid list" where
  "nibbles u = map (\<lambda>i. drop_bit (4 * i) u AND 15) (rev [0..<32])"

definition unnibble :: "uuid list \<Rightarrow> uuid" where
  "unnibble ds = foldl (\<lambda>a d. push_bit 4 a OR d) 0 ds"

definition print_uuid :: "uuid \<Rightarrow> string" where
  "print_uuid u =
     (let h = map hex_digit (nibbles u) in
      take 8 h @ ''-'' @ take 4 (drop 8 h) @ ''-'' @ take 4 (drop 12 h) @ ''-'' @ take 4 (drop 16 h) @ ''-'' @ drop 20 h)"

definition is_hex :: "char \<Rightarrow> bool" where
  "is_hex c \<longleftrightarrow> c \<in> set ''0123456789abcdef''"

definition scan_uuid :: "string \<Rightarrow> uuid option" where
  "scan_uuid s =
     (let h = filter (\<lambda>c. c \<noteq> CHR ''-'') s in
      if uuid_shape s \<and> length h = 32 \<and> list_all is_hex h then Some (unnibble (map hex_value h)) else None)"

lemma nibble_bound: "unat (w AND 15 :: uuid) < 16"
proof -
  have "w AND 15 = take_bit 4 w" by (simp add: take_bit_eq_mask mask_eq_exp_minus_1)
  then show ?thesis using take_bit_nat_less_exp [of 4 "unat w"] by (simp add: unsigned_take_bit_eq)
qed

lemma hex_digit_facts:
  assumes "unat d < 16"
  shows "hex_value (hex_digit d) = d" "is_hex (hex_digit d)" "hex_digit d \<noteq> CHR ''-''"
proof -
  have "\<And>n :: nat. n < 16 \<Longrightarrow> n \<in> {0,1,2,3,4,5,6,7,8,9,10,11,12,13,14,15}" by simp presburger
  then have n: "unat d \<in> {0,1,2,3,4,5,6,7,8,9,10,11,12,13,14,15}" using assms by blast
  from n show "hex_value (hex_digit d) = d"
    by (auto simp: hex_value_def hex_digit_def word_unat_eq_iff)
  from n show "is_hex (hex_digit d)" "hex_digit d \<noteq> CHR ''-''"
    by (auto simp: is_hex_def hex_digit_def)
qed

lemma nibble_step: "push_bit 4 (drop_bit (4 * Suc i) u) OR (drop_bit (4 * i) u AND 15) = drop_bit (4 * i) (u :: uuid)"
proof (rule bit_word_eqI)
  fix k assume k: "k < LENGTH(128)"
  have m: "(15 :: uuid) = mask 4" by (simp add: mask_eq_exp_minus_1)
  show "bit (push_bit 4 (drop_bit (4 * Suc i) u) OR (drop_bit (4 * i) u AND 15)) k = bit (drop_bit (4 * i) u) k"
    using k by (cases "k < 4") (auto simp: m bit_simps add.commute add.left_commute dest: bit_imp_le_length)
qed

lemma unnibble_prefix:
  "n \<le> 32 \<Longrightarrow> foldl (\<lambda>a d. push_bit 4 a OR d) (drop_bit (4 * n) u) (map (\<lambda>i. drop_bit (4 * i) u AND 15) (rev [0..<n])) = (u :: uuid)"
  by (induction n) (simp_all only: upt_Suc_append rev_append rev_singleton_conv list.map foldl.simps append_Cons append_Nil
      rev.simps nibble_step, simp_all)

lemma unnibble_nibbles: "unnibble (nibbles u) = u"
proof -
  have "drop_bit (4 * 32) u = 0" by (rule bit_word_eqI) (auto simp: bit_simps dest: bit_imp_le_length)
  then show ?thesis using unnibble_prefix [of 32 u] by (simp add: unnibble_def nibbles_def)
qed

lemma scan_print_uuid: "scan_uuid (print_uuid u) = Some u \<and> uuid_shape (print_uuid u)"
proof -
  define h where "h = map hex_digit (nibbles u)"
  have len: "length h = 32" by (simp add: h_def nibbles_def)
  have d: "\<forall>d \<in> set (nibbles u). unat d < 16" by (auto simp: nibbles_def nibble_bound)
  have hx: "list_all is_hex h" "\<forall>c \<in> set h. c \<noteq> CHR ''-''" "map hex_value h = nibbles u"
    using d hex_digit_facts by (auto simp: h_def list_all_iff o_def intro: map_idI)
  have nd: "filter (\<lambda>c. c \<noteq> CHR ''-'') xs = xs" if "set xs \<subseteq> set h" for xs
    using that hx(2) by (auto simp: filter_id_conv)
  have "filter (\<lambda>c. c \<noteq> CHR ''-'') (print_uuid u)
      = take 8 h @ take 4 (drop 8 h) @ take 4 (drop 12 h) @ take 4 (drop 16 h) @ drop 20 h"
    by (simp add: print_uuid_def h_def [symmetric] nd set_take_subset set_drop_subset
        order_trans [OF set_take_subset set_drop_subset])
  also have "\<dots> = h"
    using take_add [of 8 4 h] take_add [of 12 4 h] take_add [of 16 4 h] append_take_drop_id [of 20 h]
    by simp
  finally have f: "filter (\<lambda>c. c \<noteq> CHR ''-'') (print_uuid u) = h" .
  have shape: "uuid_shape (print_uuid u)"
    using len by (simp add: uuid_shape_def print_uuid_def h_def [symmetric] nth_append)
  with f len hx show ?thesis by (simp add: scan_uuid_def unnibble_nibbles)
qed

section \<open>The instance\<close>

definition demo_jwt :: "string \<Rightarrow> jwt result" where
  "demo_jwt tok =
     (if length tok \<le> 36 then Inl (RuntimeError ''invalid token supplied'')
      else Inr \<lparr>jwt_expires_at = Some (int (dec_val (drop 36 tok))), jwt_subject = Some (take 36 tok),
        jwt_issuer = None, jwt_audience = [], jwt_type = None, jwt_token = tok\<rparr>)"

definition demo_lib :: library where
  "demo_lib = \<lparr>json_parse = (\<lambda>s. None), json_dump = (\<lambda>j. Some ''{}''),
     string_generator = scan_uuid, uuid_to_string = print_uuid,
     jwt_decode = demo_jwt,
     jwt_verify = (\<lambda>secret iss aud typ now d. case jwt_expires_at d of Some e \<Rightarrow> now \<le> e | None \<Rightarrow> True),
     jwt_sign = (\<lambda>secret typ iss aud sub iat ex. sub @ to_string_nat (nat ex)),
     bin2base64_url = to_chars, base642bin = (\<lambda>n s. None), sha1_base64 = (\<lambda>s. Inr s), generichash_hex = (\<lambda>s. Inr (take 64 (rev s @ replicate 64 (CHR ''0'')))),
     pwhash_str = (\<lambda>s. if CHR 0x00 \<in> set s then None else Some (''$'' @ s)), pwhash_str_verify = (\<lambda>h s. h = ''$'' @ s), randombytes = (\<lambda>k. replicate 31 171 @ [word_of_nat k]),
     unescape_bytea = (\<lambda>s. Some (to_bytes s))\<rparr>"

lemma demo_uuid_ok: "uuid_lib_ok demo_lib"
  using scan_print_uuid by (simp add: uuid_lib_ok_def demo_lib_def)

lemma demo_dump [simp]: "dump demo_lib j = Inr ''{}''"
  by (simp add: dump_def demo_lib_def)

section \<open>Properties of tokens and routes\<close>

text \<open>
  C38. Nothing behind a protected route runs without a valid token: when no public route matches the
  request and routing changes the server's state, then the request carries \<^verbatim>\<open>Bearer\<close> and a token that
  decodes, passes the verifier with the server's secret, issuer, audience and type, expires in the future
  and names a user \<open>u\<close>; and what happened is exactly what a registered protected handler did for \<open>u\<close>.
\<close>

theorem protected_route_authenticated:
  assumes "find (matches req) (routes router) = None"
    and "route lib secret now router req s = (out, s')" and "s' \<noteq> s"
  shows "\<exists>k tok u handler. k \<in> {''authorization'', ''Authorization''} \<and>
    map_of (req_headers req) k = Some (bearer @ tok) \<and> token_for lib secret now u tok \<and>
    (req_method req, req_path req, handler) \<in> set (protected_routes router) \<and>
    handler req u s = (out, s')"
proof -
  from assms obtain m p h where f: "find (matches req) (protected_routes router) = Some (m, p, h)"
    by (auto simp: route_def protected_route_def split: option.splits)
  then have mem: "(m, p, h) \<in> set (protected_routes router)" "matches req (m, p, h)"
    by (auto simp: find_Some_iff)
  from assms f obtain u where u: "authenticate lib secret now req = Inr (Inr u)" "h req u s = (out, s')"
    by (auto simp: route_def protected_route_def split: sum.splits AuthError.splits)
  from authenticate_Inr [OF u(1)] mem u(2) show ?thesis by (auto simp: matches_def)
qed

definition sample_token :: string where
  "sample_token = print_uuid 7 @ to_string_nat 900"

definition sample_router :: "nat Router" where
  "sample_router = addProtectedRoute GET ''/me'' (\<lambda>req u s. (Inr empty_response, s + 1))
     \<lparr>routes = [], protected_routes = []\<rparr>"

definition sample_call :: HttpRequest where
  "sample_call = empty_request\<lparr>req_method := GET, req_path := ''/me'',
     req_headers := [(''Authorization'', bearer @ sample_token)]\<rparr>"

lemma length_print_uuid [simp]: "length (print_uuid u) = 36"
  using scan_print_uuid [of u] by (simp add: uuid_shape_def)

lemma sample_token_for: "now < 900 \<Longrightarrow> token_for demo_lib secret now 7 sample_token"
  using scan_print_uuid [of 7] by (simp add: token_for_def demo_lib_def demo_jwt_def sample_token_def)

theorem protected_route_authenticated_witness:
  "\<exists>k tok u. k \<in> {''authorization'', ''Authorization''} \<and> map_of (req_headers sample_call) k = Some (bearer @ tok) \<and>
     token_for demo_lib ''secret'' 100 u tok"
proof -
  have "verify demo_lib ''secret'' 100 sample_token = Inr (Inr 7)"
    using sample_token_for [of 100] by (simp add: verify_token_for)
  then have r: "route demo_lib ''secret'' 100 sample_router sample_call 0 = (Inr empty_response, 1)"
    by (simp add: route_def protected_route_def sample_router_def addProtectedRoute_def matches_def sample_call_def
        authenticate_def starts_with_append)
  show ?thesis
    using protected_route_authenticated [OF _ r] by (auto simp: sample_router_def addProtectedRoute_def)
qed

text \<open>
  What jwt-cpp documents: a signed token decodes to the claims it was signed with, and a verifier with the
  same secret and claims accepts it between its issue and its expiry; jwt-cpp's verifier checks \<^verbatim>\<open>exp\<close> itself.
\<close>

definition jwt_lib_ok :: "library \<Rightarrow> string \<Rightarrow> bool" where
  "jwt_lib_ok lib secret \<longleftrightarrow> (\<forall>u iat ex. 0 \<le> iat \<and> iat \<le> ex \<longrightarrow> (\<exists>d.
     jwt_decode lib (jwt_sign lib secret ''JWT'' ''cpp_backend_server'' ''cpp_backend_api'' (uuid_to_string lib u) iat ex) = Inr d \<and>
     jwt_expires_at d = Some ex \<and> jwt_subject d = Some (uuid_to_string lib u) \<and>
     (\<forall>now. iat \<le> now \<longrightarrow>
       jwt_verify lib secret ''cpp_backend_server'' ''cpp_backend_api'' ''JWT'' now d = (now \<le> ex))))"

text \<open>
  The life of an access token: it is accepted as its user for the 900 seconds after it was issued,
  and at no later time.  After its expiry the verifier already rejects it, so \<^verbatim>\<open>verify\<close> answers
  \<^verbatim>\<open>Invalid\<close>; \<^verbatim>\<open>Expired\<close> is the answer only in the very second of expiry.
\<close>

theorem access_token_lifetime:
  assumes "uuid_lib_ok lib" "jwt_lib_ok lib secret" "0 \<le> issued" "issued \<le> now"
  shows "verify lib secret now (generateAccessToken lib secret issued (uuid_to_string lib u)) =
    Inr (if now < issued + 900 then Inr u else if now = issued + 900 then Inl ExpiredToken else Inl InvalidToken)"
proof -
  obtain d where d: "jwt_decode lib (generateAccessToken lib secret issued (uuid_to_string lib u)) = Inr d"
    "jwt_expires_at d = Some (issued + 900)" "jwt_subject d = Some (uuid_to_string lib u)"
    "jwt_verify lib secret ''cpp_backend_server'' ''cpp_backend_api'' ''JWT'' now d = (now \<le> issued + 900)"
    using assms(2) [unfolded jwt_lib_ok_def, rule_format, of issued "issued + 900" u] assms(3,4)
    by (auto simp: generateAccessToken_def)
  with assms(1) show ?thesis by (simp add: verify_def verify_body_def)
qed

lemma demo_jwt_ok: "jwt_lib_ok demo_lib secret"
  by (auto simp: jwt_lib_ok_def demo_lib_def demo_jwt_def)

theorem access_token_lifetime_witness:
  "verify demo_lib ''secret'' 899 (generateAccessToken demo_lib ''secret'' 0 (uuid_to_string demo_lib 7)) = Inr (Inr 7) \<and>
   verify demo_lib ''secret'' 901 (generateAccessToken demo_lib ''secret'' 0 (uuid_to_string demo_lib 7)) = Inr (Inl InvalidToken)"
  using access_token_lifetime [OF demo_uuid_ok demo_jwt_ok, of 0 899 "''secret''" 7]
    access_token_lifetime [OF demo_uuid_ok demo_jwt_ok, of 0 901 "''secret''" 7] by simp

end
