(* ===== verification/Http_Session.thy ===== *)
theory Http_Session
  imports Auth_Router Conn Demo_Library
begin

text \<open>
  One HTTP connection, \<^verbatim>\<open>http/HttpSession.cpp\<close>: read, parse, recognise a WebSocket upgrade, route, answer,
  map exceptions to error responses.  The connection, the parser, the socket and the server's state are
  passed explicitly.  \<open>None\<close> is a call that is still blocked in \<^verbatim>\<open>recv\<close> or \<^verbatim>\<open>send\<close> when the kernel's script
  ends.  The main property joins the components: whatever the packets, a request is handled exactly once
  and its response reaches the wire.
\<close>

section \<open>Upgrade detection\<close>

definition is_blank :: "char \<Rightarrow> bool" where
  "is_blank c \<longleftrightarrow> c = CHR '' '' \<or> c = CHR 0x09"

definition trim :: "string \<Rightarrow> string" where
  "trim s = rev (dropWhile is_blank (rev (dropWhile is_blank s)))"

text \<open>The first header called \<^verbatim>\<open>Upgrade\<close>, in any case, decides.\<close>

definition websocketUpgrade :: "HttpRequest \<Rightarrow> bool" where
  "websocketUpgrade req =
     (case find (\<lambda>h. equalsIgnoreCase (fst h) ''Upgrade'') (req_headers req) of
        None \<Rightarrow> False
      | Some (_, rawValue) \<Rightarrow> equalsIgnoreCase (trim rawValue) ''websocket'')"

section \<open>The session\<close>

record PendingWebsocket =
  pw_connection :: Connection
  pw_request :: HttpRequest

datatype session_outcome = Returned "PendingWebsocket option" | Threw exn

record config =
  cfg_lib :: library
  cfg_secret :: string
  cfg_now :: int

type_synonym 's session_end = "(session_outcome \<times> Connection \<times> socket \<times> 's) option"

text \<open>\<^verbatim>\<open>sendAll\<close> of a generated response; an exception it throws leaves the function.\<close>

definition send_response :: "HttpResponse \<Rightarrow> Connection \<Rightarrow> socket \<Rightarrow> (exn option \<times> Connection \<times> socket) option" where
  "send_response r c k = sendAll (generateHttpResponse r) c k"

text \<open>What happens after the last response: return, or pass on what \<^verbatim>\<open>sendAll\<close> threw.\<close>

definition send_and_return :: "HttpResponse result \<Rightarrow> Connection \<Rightarrow> socket \<Rightarrow> 's \<Rightarrow> 's session_end" where
  "send_and_return response c k s =
     (case response of
        Inl e \<Rightarrow> Some (Threw e, c, k, s)
      | Inr r \<Rightarrow>
          (case send_response (set_header ''Connection'' ''close'' r) c k of
             None \<Rightarrow> None
           | Some (Some e, c', k') \<Rightarrow> Some (Threw e, c', k', s)
           | Some (None, c', k') \<Rightarrow> Some (Returned None, c', k', s)))"

text \<open>The two \<^verbatim>\<open>catch\<close> clauses: the response an exception is mapped to.\<close>

definition error_response :: "library \<Rightarrow> exn \<Rightarrow> HttpResponse result" where
  "error_response lib e =
     (case e of
        DbExn d \<Rightarrow>
          (case db_kind d of
             Connection \<Rightarrow> ErrorResponseMaker lib Service_Unavailable ''service_unavailable'' ''Service unavailable''
           | Query \<Rightarrow> ErrorResponseMaker lib Internal_Server_Error ''internal_server_error'' ''Internal server error''
           | _ \<Rightarrow> ErrorResponseMaker lib Internal_Server_Error ''internal_server_error'' ''Internal Server Error'')
      | _ \<Rightarrow> ErrorResponseMaker lib Internal_Server_Error ''internal_server_error'' ''Internal server error'')"

text \<open>
  The part of \<^verbatim>\<open>HandleHttpSession\<close> for a complete request.  \<^verbatim>\<open>sendAll\<close> is inside the \<^verbatim>\<open>try\<close>, so an
  exception of it is caught too and a second response is attempted.
\<close>

definition handle_request :: "config \<Rightarrow> 's Router \<Rightarrow> HttpRequest \<Rightarrow> Connection \<Rightarrow> socket \<Rightarrow> 's \<Rightarrow> 's session_end" where
  "handle_request cfg router req c k s =
     (if websocketUpgrade req
      then Some (Returned (Some \<lparr>pw_connection = c, pw_request = req\<rparr>),
             c\<lparr>conn_fd := UniqueFd_default, input_buffer := '''', output_buffer := ''''\<rparr>, k, s)
      else
        case route (cfg_lib cfg) (cfg_secret cfg) (cfg_now cfg) router req s of
          (Inl e, s') \<Rightarrow> send_and_return (error_response (cfg_lib cfg) e) c k s'
        | (Inr r, s') \<Rightarrow>
            (case send_response (set_header ''Connection'' ''close'' r) c k of
               None \<Rightarrow> None
             | Some (None, c', k') \<Rightarrow> Some (Returned None, c', k', s')
             | Some (Some e, c', k') \<Rightarrow> send_and_return (error_response (cfg_lib cfg) e) c' k' s'))"

function HandleHttpSession :: "config \<Rightarrow> 's Router \<Rightarrow> Connection \<Rightarrow> HttpParse \<Rightarrow> socket \<Rightarrow> 's \<Rightarrow> 's session_end" where
  "HandleHttpSession cfg router c p k s =
     (if \<not> conn_is_open c then Some (Returned None, c, k, s)
      else case conn_read c (rx k) of
        None \<Rightarrow> None
      | Some (n, c1, rs) \<Rightarrow>
          let k1 = k\<lparr>rx := rs\<rparr> in
          (case n of
             Zero \<Rightarrow> Some (Returned None, c1, k1, s)
           | Failed _ \<Rightarrow> Some (Threw (RuntimeError ''Failed to read from client''), c1, k1, s)
           | Count _ \<Rightarrow>
               let (r, p1) = parse p (inputBuffer c1);
                   c2 = (if pr_consumed r > 0 then consumeInput (pr_consumed r) c1 else c1)
               in case pr_status r of
                    NeedMoreData \<Rightarrow> HandleHttpSession cfg router c2 p1 k1 s
                  | Error \<Rightarrow>
                      send_and_return (ErrorResponseMaker (cfg_lib cfg) Bad_Request ''invalid_http_request'' ''Invalid HTTP request'')
                        c2 k1 s
                  | Complete \<Rightarrow>
                      (case takeRequest p1 of
                         Inl e \<Rightarrow> Some (Threw e, c2, k1, s)
                       | Inr (req, p2) \<Rightarrow> handle_request cfg router req c2 k1 s)))"
  by pat_completeness auto
termination
  by (relation "measure (\<lambda>(cfg, router, c, p, k, s). rx_size (rx k))") (auto dest: conn_read_size)

declare HandleHttpSession.simps [simp del]

section \<open>Lemmas\<close>

lemma request_line_ok_prefix:
  assumes "request_line_ok (a @ b)"
  shows "request_line_ok a"
proof (cases "find_sub crlf a")
  case (Some e)
  have "e \<le> length a" using find_sub_bound [OF Some] by simp
  with assms find_sub_mono [OF Some, of b] Some show ?thesis by (simp add: request_line_ok_def)
qed (simp add: request_line_ok_def)

lemma request_line_ok_print:
  assumes "request_ok r"
  shows "request_line_ok (print_request r @ rest)"
proof -
  let ?line = "method_name (req_method r) @ '' '' @ req_path r @ '' '' @ req_version r"
  have "CR \<notin> set (method_name (req_method r))" by (cases "req_method r") auto
  with assms have "CR \<notin> set ?line" by (auto simp: request_ok_def)
  from find_crlf [OF this, of "concat (map print_header (req_headers r)) @ crlf @ req_body r @ rest"]
  have "find_sub crlf (print_request r @ rest) = Some (length ?line)" by (simp add: print_request_def)
  moreover have "take (length ?line) (print_request r @ rest) = ?line" by (simp add: print_request_def)
  ultimately show ?thesis by (simp add: request_line_ok_def)
qed

text \<open>What the parser has made of a prefix of a printed request.\<close>

lemma parse_print_prefix:
  assumes "request_ok r" "a @ b = print_request r @ extra" "parse new_parser a = (st, q)" "pr_status st \<noteq> NeedMoreData"
  shows "pr_status st = Complete \<and> q = \<lparr>request = r, parse_state = CompleteState, content_length = length (req_body r)\<rparr>"
proof -
  have "line_ok new_parser a"
    using request_line_ok_prefix [of a b] request_line_ok_print [OF assms(1), of extra] assms(2)
    by (simp add: line_ok_def)
  from parse_final [OF this assms(3,4), of b] parse_print_aux [OF assms(1), of extra] assms(2)
  show ?thesis by auto
qed

lemma consume_if:
  "(if 0 < n then consumeInput n (c\<lparr>input_buffer := b\<rparr>) else c\<lparr>input_buffer := b\<rparr>) = c\<lparr>input_buffer := drop n b\<rparr>"
  by (cases c) (simp add: consumeInput_def)

lemma session_reads_request:
  assumes "request_ok req" "conn_is_open c"
    and "parse new_parser seen = (st, p)" "pr_status st = NeedMoreData" "pr_consumed st \<le> length seen"
    and "input_buffer c = drop (pr_consumed st) seen"
    and "seen @ arriving (rx k) = print_request req @ extra"
  shows "\<exists>buf rs. HandleHttpSession cfg router c p k s =
    handle_request cfg router req (c\<lparr>input_buffer := buf\<rparr>) (k\<lparr>rx := rs\<rparr>) s"
  using assms
proof (induction "rx_size (rx k)" arbitrary: seen st p c k rule: less_induct)
  case less
  have lok: "line_ok new_parser seen"
    using request_line_ok_prefix [of seen "arriving (rx k)"] request_line_ok_print [OF less(2), of extra] less(8)
    by (simp add: line_ok_def)
  have "arriving (rx k) \<noteq> []"
    using less(4,5,8) parse_print_aux [OF less(2), of extra] by (cases st) auto
  then obtain d rs where rd: "conn_read c (rx k) = Some (Count (length d), c\<lparr>input_buffer := input_buffer c @ d\<rparr>, rs)"
    and d: "arriving (rx k) = d @ arriving rs" "rx_size rs < rx_size (rx k)"
    using conn_read_arriving by blast
  let ?c1 = "c\<lparr>input_buffer := input_buffer c @ d\<rparr>"
  obtain r p1 where pr: "parse p (input_buffer c @ d) = (r, p1)" by (cases "parse p (input_buffer c @ d)")
  have all: "parse new_parser (seen @ d) = (r\<lparr>pr_consumed := pr_consumed r + pr_consumed st\<rparr>, p1)"
    using parse_resume [OF lok less(4,5), of d] pr less(7) by simp
  have bound: "pr_consumed r \<le> length (input_buffer c @ d)"
    using http.loop_bound [of p "input_buffer c @ d" 0] parse_eq [of p "input_buffer c @ d"] pr
    by (auto split: prod.splits)
  let ?c2 = "c\<lparr>input_buffer := drop (pr_consumed r) (input_buffer c @ d)\<rparr>"
  have step: "HandleHttpSession cfg router c p k s =
      (case pr_status r of
         NeedMoreData \<Rightarrow> HandleHttpSession cfg router ?c2 p1 (k\<lparr>rx := rs\<rparr>) s
       | Error \<Rightarrow> send_and_return (ErrorResponseMaker (cfg_lib cfg) Bad_Request ''invalid_http_request'' ''Invalid HTTP request'')
           ?c2 (k\<lparr>rx := rs\<rparr>) s
       | Complete \<Rightarrow> (case takeRequest p1 of Inl e \<Rightarrow> Some (Threw e, ?c2, k\<lparr>rx := rs\<rparr>, s)
           | Inr (req, p2) \<Rightarrow> handle_request cfg router req ?c2 (k\<lparr>rx := rs\<rparr>) s))"
    using less(3) rd pr
    by (simp add: HandleHttpSession.simps [of cfg router c] inputBuffer_def Let_def split del: if_split)
       (simp only: consume_if)
  show ?case
  proof (cases "pr_status r = NeedMoreData")
    case True
    have "\<exists>buf rs'. HandleHttpSession cfg router ?c2 p1 (k\<lparr>rx := rs\<rparr>) s =
        handle_request cfg router req (?c2\<lparr>input_buffer := buf\<rparr>) (k\<lparr>rx := rs\<rparr>\<lparr>rx := rs'\<rparr>) s"
    proof (rule less(1) [OF _ less(2) _ all])
      show "input_buffer ?c2 = drop (pr_consumed (r\<lparr>pr_consumed := pr_consumed r + pr_consumed st\<rparr>)) (seen @ d)"
        using less(6,7) by (simp add: add.commute drop_append)
      show "pr_consumed (r\<lparr>pr_consumed := pr_consumed r + pr_consumed st\<rparr>) \<le> length (seen @ d)"
        using bound less(6,7) by simp
    qed (use d less(3,8) True in \<open>simp_all add: conn_is_open_def\<close>)
    with step True show ?thesis by simp
  next
    case False
    with parse_print_prefix [OF less(2) _ all] d less(8)
    have "pr_status r = Complete" "p1 = \<lparr>request = req, parse_state = CompleteState, content_length = length (req_body req)\<rparr>"
      by auto
    with step show ?thesis by (auto simp: takeRequest_def)
  qed
qed

section \<open>Properties\<close>

text \<open>
  C1. A request is served whatever the packets: let a client's request arrive on a fresh connection, cut
  into any pieces, with interrupted system calls in between and any bytes after it; let the router answer
  it with a response, and let the kernel accept the response's bytes in any pieces.  Then
  \<^verbatim>\<open>HandleHttpSession\<close> returns without an exception, the server's state is the one the handler left, having
  run once on exactly that request, and the wire holds exactly the response, with \<^verbatim>\<open>Connection: close\<close>.
\<close>

theorem session_serves_request:
  assumes "request_ok req" "\<not> websocketUpgrade req"
    and "conn_is_open c" "input_buffer c = ''''" "output_buffer c = ''''"
    and "arriving (rx k) = print_request req @ extra"
    and "route (cfg_lib cfg) (cfg_secret cfg) (cfg_now cfg) router req s = (Inr rsp, s')"
    and "accepts (length (generateHttpResponse (set_header ''Connection'' ''close'' rsp))) (tx k)"
  shows "\<exists>c' k'. HandleHttpSession cfg router c new_parser k s = Some (Returned None, c', k', s') \<and>
    wire k' = wire k @ generateHttpResponse (set_header ''Connection'' ''close'' rsp)"
proof -
  let ?data = "generateHttpResponse (set_header ''Connection'' ''close'' rsp)"
  have "parse new_parser [] = (\<lparr>pr_status = NeedMoreData, pr_consumed = 0\<rparr>, new_parser)"
    by (simp add: parse_def parse_loop.simps parse_iteration_def new_parser_def parseRequestLine_def)
  then obtain buf rs where h: "HandleHttpSession cfg router c new_parser k s =
      handle_request cfg router req (c\<lparr>input_buffer := buf\<rparr>) (k\<lparr>rx := rs\<rparr>) s"
    using session_reads_request [OF assms(1,3), of "[]" "\<lparr>pr_status = NeedMoreData, pr_consumed = 0\<rparr>"
        new_parser k extra cfg router s] assms(4,6) by auto
  let ?c = "conn_write ?data (c\<lparr>input_buffer := buf\<rparr>)" and ?k = "k\<lparr>rx := rs\<rparr>"
  obtain c' k' where sp: "send_pending ?c ?k = Some (None, c', k')"
    using send_pending_accepts [of ?c ?k] assms(5,8) by auto
  have "wire k' = wire k @ ?data" using send_pending_bytes [OF sp] assms(5) by auto
  moreover have "handle_request cfg router req (c\<lparr>input_buffer := buf\<rparr>) ?k s = Some (Returned None, c', k', s')"
    using assms(2,7) sp by (simp add: handle_request_def send_response_def sendAll_def)
  ultimately show ?thesis using h by auto
qed

definition sample_config :: config where
  "sample_config = \<lparr>cfg_lib = demo_lib, cfg_secret = ''secret'', cfg_now = 100\<rparr>"

definition counting_router :: "nat Router" where
  "counting_router = addRoute POST ''/a'' (\<lambda>req s. (Inr (empty_response\<lparr>rsp_body := req_body req\<rparr>), s + 1))
     \<lparr>routes = [], protected_routes = []\<rparr>"

definition sample_answer :: string where
  "sample_answer = generateHttpResponse (set_header ''Connection'' ''close'' (empty_response\<lparr>rsp_body := ''hi''\<rparr>))"

lemma counting_route:
  "route lib secret now counting_router sample_request s = (Inr (empty_response\<lparr>rsp_body := ''hi''\<rparr>), s + 1)"
  by (simp add: route_def counting_router_def addRoute_def matches_def sample_request_def)

lemma sample_no_upgrade: "\<not> websocketUpgrade sample_request"
  by (simp add: websocketUpgrade_def sample_request_def equalsIgnoreCase_def)

lemma sample_open: "conn_is_open (Connection_of (UniqueFd_of 5))"
  by (simp add: conn_is_open_def Connection_of_def UniqueFd_of_def valid_def)

theorem session_serves_request_witness:
  "\<exists>c' k'. HandleHttpSession sample_config counting_router (Connection_of (UniqueFd_of 5)) new_parser
      \<lparr>rx = [Recv (take 7 (print_request sample_request)), RecvFail EINTR, Recv (drop 7 (print_request sample_request))],
        tx = [Sent (length sample_answer)], wire = ''''\<rparr> 0 = Some (Returned None, c', k', 1) \<and>
    wire k' = sample_answer"
proof -
  let ?k = "\<lparr>rx = [Recv (take 7 (print_request sample_request)), RecvFail EINTR, Recv (drop 7 (print_request sample_request))],
        tx = [Sent (length sample_answer)], wire = ''''\<rparr>"
  have "take 7 (print_request sample_request) \<noteq> []" "drop 7 (print_request sample_request) \<noteq> []"
    by (simp_all add: print_request_def sample_request_def)
  then have arr: "arriving (rx ?k) = print_request sample_request @ []" by simp
  have ne: "0 < length sample_answer" by (simp add: sample_answer_def generateHttpResponse_def)
  then have acc: "accepts (length (generateHttpResponse (set_header ''Connection'' ''close'' (empty_response\<lparr>rsp_body := ''hi''\<rparr>))))
      (tx ?k)" by (simp add: sample_answer_def [symmetric])
  show ?thesis
    using session_serves_request [OF sample_request_ok sample_no_upgrade sample_open _ _ arr counting_route
        acc, of sample_config 0]
    by (simp add: Connection_of_def sample_answer_def [symmetric])
qed

text \<open>
  A failed send is answered with a second response on the same connection: when \<^verbatim>\<open>send\<close> times out
  after part of the response has been sent and the kernel then accepts bytes again, the client receives the
  whole first response followed by a 500 response, because the \<^verbatim>\<open>sendAll\<close> call is inside the \<^verbatim>\<open>try\<close> block
  and the unsent rest stays in the output buffer.
\<close>

theorem failed_send_sends_two_responses:
  assumes "\<not> websocketUpgrade req" "output_buffer c = ''''"
    and "route (cfg_lib cfg) (cfg_secret cfg) (cfg_now cfg) router req s = (Inr rsp, s')"
    and "error_response (cfg_lib cfg) (RuntimeError ''socket write timed out'') = Inr err"
    and "data = generateHttpResponse (set_header ''Connection'' ''close'' rsp)"
    and "errData = generateHttpResponse (set_header ''Connection'' ''close'' err)"
    and "tx k = SendFail EAGAIN # ts" "accepts (length data + length errData) ts"
  shows "\<exists>c' k'. handle_request cfg router req c k s = Some (Returned None, c', k', s') \<and>
    wire k' = wire k @ data @ errData"
proof -
  let ?c = "conn_write data c" and ?k = "k\<lparr>tx := ts\<rparr>"
  have ne: "data \<noteq> []" by (simp add: assms(5) generateHttpResponse_def)
  then have first: "sendAll data c k = Some (Some (RuntimeError ''socket write timed out''), ?c, ?k)"
    using assms(7) by (simp add: sendAll_def send_pending.simps [of ?c] conn_flush_def)
  obtain c' k' where sp: "send_pending (conn_write errData ?c) ?k = Some (None, c', k')"
    using send_pending_accepts [of "conn_write errData ?c" ?k] assms(2,8) by auto
  have "handle_request cfg router req c k s = Some (Returned None, c', k', s')"
    using assms(1,3,4) first sp
    by (simp add: handle_request_def send_response_def send_and_return_def assms(5,6) [symmetric] sendAll_def)
  moreover have "wire k' = wire k @ data @ errData" using send_pending_bytes [OF sp] assms(2) by auto
  ultimately show ?thesis by blast
qed

theorem failed_send_sends_two_responses_witness:
  "\<exists>c' k' errData. handle_request sample_config counting_router sample_request (Connection_of (UniqueFd_of 5))
      \<lparr>rx = [], tx = SendFail EAGAIN # replicate 1000 (Sent 1), wire = ''''\<rparr> 0 = Some (Returned None, c', k', 1) \<and>
    wire k' = sample_answer @ errData \<and> errData \<noteq> []"
proof -
  obtain err where err: "error_response demo_lib (RuntimeError ''socket write timed out'') = Inr err"
      "err = set_header ''Connection'' ''Close'' (set_header ''Content-Type'' ''application/json''
          (empty_response\<lparr>rsp_status := Internal_Server_Error\<rparr>))\<lparr>rsp_body := ''{}''\<rparr>"
    by (simp add: error_response_def ErrorResponseMaker_def)
  let ?d2 = "generateHttpResponse (set_header ''Connection'' ''close'' err)"
  have digits: "to_string_nat 200 = ''200''" "to_string_nat 500 = ''500''" "to_string_nat (Suc (Suc 0)) = ''2''" by code_simp+
  have acc: "n \<le> m \<Longrightarrow> accepts n (replicate m (Sent 1))" for n m
    by (induction m arbitrary: n) auto
  have len: "length sample_answer + length ?d2 \<le> 1000"
    by (simp add: sample_answer_def err(2) generateHttpResponse_def set_header_def empty_response_def header_line_def
        digits)
  have "\<exists>c' k'. handle_request sample_config counting_router sample_request (Connection_of (UniqueFd_of 5))
      \<lparr>rx = [], tx = SendFail EAGAIN # replicate 1000 (Sent 1), wire = ''''\<rparr> 0 = Some (Returned None, c', k', 1) \<and>
    wire k' = '''' @ sample_answer @ ?d2"
    using failed_send_sends_two_responses [where req = sample_request and c = "Connection_of (UniqueFd_of 5)"
        and cfg = sample_config and router = counting_router and s = 0 and s' = 1 and err = err
        and rsp = "empty_response\<lparr>rsp_body := ''hi''\<rparr>" and data = sample_answer and errData = ?d2
        and ts = "replicate 1000 (Sent 1)"
        and k = "\<lparr>rx = [], tx = SendFail EAGAIN # replicate 1000 (Sent 1), wire = []\<rparr>"]
      sample_no_upgrade acc [OF len] counting_route [where s = 0] err(1) sample_answer_def
    by (simp add: sample_config_def Connection_of_def)
  moreover have "?d2 \<noteq> []" by (simp add: generateHttpResponse_def)
  ultimately show ?thesis by auto
qed

end
