(* ===== verification/Ws_Frame.thy ===== *)
theory Ws_Frame
  imports Incremental
begin

text \<open>
  The WebSocket frame codec of \<^verbatim>\<open>websocket/WebSocketSession.cpp\<close>: \<^verbatim>\<open>FrameParse\<close> and
  \<^verbatim>\<open>FrameEncoder\<close>.  Bytes are \<^typ>\<open>8 word\<close>, the payload length is the 64-bit number the code computes
  with shifts.  The parser's loop is an instance of the contract of \<open>Incremental\<close>.  The lemmas show that
  what a client sends (the encoder's bytes with the mask bit, a masking key and the masked payload) parses
  back to the frames it came from, that every frame delivered obeys the protocol limits, and that cutting
  the stream into packets changes nothing.
\<close>

section \<open>Data\<close>

datatype Opcode = Continuation | Text | Binary | Close | Ping | Pong

fun opcode_code :: "Opcode \<Rightarrow> byte" where
  "opcode_code Continuation = 0x0"
| "opcode_code Text = 0x1"
| "opcode_code Binary = 0x2"
| "opcode_code Close = 0x8"
| "opcode_code Ping = 0x9"
| "opcode_code Pong = 0xA"

record Frame =
  fr_fin :: bool
  fr_opcode :: Opcode
  fr_payload :: "byte list"

datatype FrameParseStatus = FrameSuccess | FrameError | FrameNeedMoreData

record FrameParseResult =
  fp_status :: FrameParseStatus
  fp_consumed :: nat
  fp_frames :: "Frame list"

section \<open>The parser\<close>

definition MaxPayloadSize :: "64 word" where
  "MaxPayloadSize = 1024 * 1024"

definition opcode_of :: "byte \<Rightarrow> Opcode option" where
  "opcode_of v =
     (if v = 0x0 then Some Continuation
      else if v = 0x1 then Some Text
      else if v = 0x2 then Some Binary
      else if v = 0x8 then Some Close
      else if v = 0x9 then Some Ping
      else if v = 0xA then Some Pong
      else None)"

text \<open>The shift loop that reads a length, most significant byte first.\<close>

definition read_be :: "byte list \<Rightarrow> 64 word" where
  "read_be bs = foldl (\<lambda>acc b. push_bit 8 acc OR ucast b) 0 bs"

text \<open>
  The outcome of the header part of an iteration: too few bytes so far, a protocol error, or the
  decoded header with its size.
\<close>

datatype header = NeedBytes | BadHeader | FrameHeader bool Opcode nat "64 word"

definition checkHeader :: "bool \<Rightarrow> byte \<Rightarrow> Opcode \<Rightarrow> nat \<Rightarrow> 64 word \<Rightarrow> header" where
  "checkHeader fin opcodeValue opcode headerSize payloadSize =
     (if (opcodeValue \<ge> 0x8 \<and> (\<not> fin \<or> payloadSize > 125)) \<or>
         (opcode = Close \<and> payloadSize = 1) \<or>
         payloadSize > MaxPayloadSize
      then BadHeader
      else FrameHeader fin opcode headerSize payloadSize)"

definition parseFrameHeader :: "byte list \<Rightarrow> header" where
  "parseFrameHeader b =
     (if length b < 2 then NeedBytes
      else
        let first = b ! 0; second = b ! 1;
            fin = (first AND 0x80 \<noteq> 0);
            reservedBitsSet = (first AND 0x70 \<noteq> 0);
            opcodeValue = first AND 0x0F;
            masked = (second AND 0x80 \<noteq> 0)
        in if reservedBitsSet \<or> \<not> masked then BadHeader
           else case opcode_of opcodeValue of
             None \<Rightarrow> BadHeader
           | Some opcode \<Rightarrow>
               let payloadSize = ucast (second AND 0x7F) in
               if payloadSize = (126 :: 64 word) then
                 (if length b < 4 then NeedBytes
                  else let n = push_bit 8 (ucast (b ! 2)) OR ucast (b ! 3) in
                    if n < 126 then BadHeader
                    else checkHeader fin opcodeValue opcode 4 n)
               else if payloadSize = 127 then
                 (if length b < 10 then NeedBytes
                  else if b ! 2 AND 0x80 \<noteq> 0 then BadHeader
                  else let n = read_be (take 8 (drop 2 b)) in
                    if n \<le> 65535 then BadHeader
                    else checkHeader fin opcodeValue opcode 10 n)
               else checkHeader fin opcodeValue opcode 2 payloadSize)"

text \<open>The unmasking loop: byte \<open>i\<close> is combined with byte \<open>i mod 4\<close> of the key.\<close>

definition unmask :: "byte list \<Rightarrow> byte list \<Rightarrow> byte list" where
  "unmask key bs = map (\<lambda>i. bs ! i XOR key ! (i mod 4)) [0..<length bs]"

datatype frame_stop = Incomplete | Malformed

definition MaskSize :: nat where
  "MaskSize = 4"

definition frame_iteration :: "Frame list \<Rightarrow> byte list \<Rightarrow> (frame_stop, Frame list) iteration" where
  "frame_iteration frames sub_buffer =
     (case parseFrameHeader sub_buffer of
        NeedBytes \<Rightarrow> Return Incomplete frames
      | BadHeader \<Rightarrow> Return Malformed []
      | FrameHeader fin opcode headerSize payloadSize \<Rightarrow>
          if length sub_buffer < headerSize + MaskSize then Return Incomplete frames
          else
            let frameSize = headerSize + MaskSize + unat payloadSize in
            if length sub_buffer < frameSize then Return Incomplete frames
            else
              let maskKey = take MaskSize (drop headerSize sub_buffer);
                  encoded = take (unat payloadSize) (drop (headerSize + MaskSize) sub_buffer)
              in Continue frameSize
                   (frames @ [\<lparr>fr_fin = fin, fr_opcode = opcode, fr_payload = unmask maskKey encoded\<rparr>]))"

lemma checkHeader_size:
  "checkHeader fin v opc h n = FrameHeader fin' opc' h' n' \<Longrightarrow> h' = h \<and> n' = n \<and> fin' = fin \<and> opc' = opc"
  by (auto simp: checkHeader_def split: if_splits)

lemma frame_iteration_bound:
  "frame_iteration fs b = Continue n fs' \<Longrightarrow> 0 < n \<and> n \<le> length b"
  by (auto simp: frame_iteration_def Let_def MaskSize_def split: header.splits if_splits)

text \<open>
  The loop of \<^verbatim>\<open>FrameParse\<close>: on an error the frames decoded before are dropped, an incomplete frame
  ends the call with the frames so far, and so does the end of the bytes.
\<close>

function FrameParse_loop :: "Frame list \<Rightarrow> byte list \<Rightarrow> nat \<Rightarrow> FrameParseResult" where
  "FrameParse_loop frames sub_buffer consumed =
     (case frame_iteration frames sub_buffer of
        Return Incomplete _ \<Rightarrow>
          \<lparr>fp_status = (if frames = [] then FrameNeedMoreData else FrameSuccess),
           fp_consumed = consumed, fp_frames = frames\<rparr>
      | Return Malformed _ \<Rightarrow> \<lparr>fp_status = FrameError, fp_consumed = consumed, fp_frames = []\<rparr>
      | Continue n frames' \<Rightarrow>
          if drop n sub_buffer = []
          then \<lparr>fp_status = FrameSuccess, fp_consumed = consumed + n, fp_frames = frames'\<rparr>
          else FrameParse_loop frames' (drop n sub_buffer) (consumed + n))"
  by pat_completeness auto
termination
  by (relation "measure (\<lambda>(fs, b, c). length b)") (auto dest: frame_iteration_bound)

declare FrameParse_loop.simps [simp del]

definition FrameParse :: "byte list \<Rightarrow> FrameParseResult" where
  "FrameParse bytes = FrameParse_loop [] bytes 0"

section \<open>The encoder\<close>

definition write_be64 :: "64 word \<Rightarrow> byte list" where
  "write_be64 n = map (\<lambda>shift. ucast (drop_bit shift n AND 0xFF)) [56, 48, 40, 32, 24, 16, 8, 0]"

text \<open>The first bytes of an encoded frame, up to the payload.\<close>

definition encodeHeader :: "Frame \<Rightarrow> byte list" where
  "encodeHeader frame =
     (let payloadSize = (word_of_nat (length (fr_payload frame)) :: 64 word) in
      ((if fr_fin frame then 0x80 else 0x00) OR opcode_code (fr_opcode frame)) #
      (if payloadSize \<le> 125 then [ucast payloadSize]
       else if payloadSize \<le> 65535
       then [126, ucast (drop_bit 8 payloadSize AND 0xFF), ucast (payloadSize AND 0xFF)]
       else 127 # write_be64 payloadSize))"

definition FrameEncoder :: "Frame \<Rightarrow> byte list" where
  "FrameEncoder frame = encodeHeader frame @ fr_payload frame"

section \<open>What a client sends\<close>

text \<open>
  RFC 6455, section 5: a client sets the mask bit of the second byte, puts the masking key after the
  header and combines the payload with it.  The header is otherwise the encoder's.
\<close>

definition client_frame :: "byte list \<Rightarrow> Frame \<Rightarrow> byte list" where
  "client_frame key frame =
     (encodeHeader frame)[1 := encodeHeader frame ! 1 OR 0x80] @ key @ unmask key (fr_payload frame)"

definition frame_ok :: "Frame \<Rightarrow> bool" where
  "frame_ok f \<longleftrightarrow> length (fr_payload f) \<le> 1048576 \<and>
     (fr_opcode f \<in> {Close, Ping, Pong} \<longrightarrow> fr_fin f \<and> length (fr_payload f) \<le> 125) \<and>
     (fr_opcode f = Close \<longrightarrow> length (fr_payload f) \<noteq> 1)"

definition key_ok :: "byte list \<Rightarrow> bool" where
  "key_ok key \<longleftrightarrow> length key = 4"

fun client_stream :: "(byte list \<times> Frame) list \<Rightarrow> byte list" where
  "client_stream [] = []"
| "client_stream ((key, f) # fs) = client_frame key f @ client_stream fs"

section \<open>Lemmas\<close>

lemma length_unmask [simp]: "length (unmask key bs) = length bs"
  by (simp add: unmask_def)

lemma unmask_unmask [simp]: "unmask key (unmask key bs) = bs"
  by (rule nth_equalityI) (simp_all add: unmask_def xor.assoc)

lemma read_be_step:
  fixes n :: "64 word"
  shows "push_bit 8 (drop_bit (s + 8) n) OR ucast (ucast (drop_bit s n AND 0xFF) :: byte) = drop_bit s n"
proof (rule bit_word_eqI)
  fix k assume k: "k < LENGTH(64)"
  have m: "(0xFF :: 64 word) = mask 8" by (simp add: mask_eq_exp_minus_1)
  show "bit (push_bit 8 (drop_bit (s + 8) n) OR ucast (ucast (drop_bit s n AND 0xFF) :: byte)) k
      = bit (drop_bit s n) k"
    using k by (cases "k < 8") (auto simp: m bit_simps add.commute add.left_commute dest: bit_imp_le_length)
qed

lemma read_write_be64 [simp]: "read_be (write_be64 n) = n"
proof -
  have z: "(0 :: 64 word) = drop_bit 64 n" by (rule bit_word_eqI) (auto simp: bit_simps dest: bit_imp_le_length)
  have "read_be (write_be64 n) = drop_bit 0 n"
    unfolding read_be_def write_be64_def
    apply (subst z)
    using read_be_step [of 56 n] read_be_step [of 48 n] read_be_step [of 40 n] read_be_step [of 32 n]
      read_be_step [of 24 n] read_be_step [of 16 n] read_be_step [of 8 n] read_be_step [of 0 n]
    by simp
  then show ?thesis by simp
qed

lemma length_write_be64 [simp]: "length (write_be64 n) = 8"
  by (simp add: write_be64_def)

lemma parseFrameHeader_mono:
  assumes need: "parseFrameHeader a \<noteq> NeedBytes"
  shows "parseFrameHeader (a @ b) = parseFrameHeader a"
proof -
  have len: "2 \<le> length a" using need by (cases "length a < 2") (simp_all add: parseFrameHeader_def)
  then have nth: "(a @ b) ! 0 = a ! 0" "(a @ b) ! 1 = a ! 1" by (auto simp: nth_append)
  define bad where "bad \<longleftrightarrow> a ! 0 AND 0x70 \<noteq> 0 \<or> \<not> a ! 1 AND 0x80 \<noteq> 0"
  define size7 :: "64 word" where "size7 = ucast (a ! 1 AND 0x7F)"
  note unf = parseFrameHeader_def Let_def nth bad_def [symmetric] size7_def [symmetric]
  show ?thesis
  proof (cases "bad \<or> opcode_of (a ! 0 AND 0x0F) = None")
    case True
    then show ?thesis using len unfolding unf by (cases bad) simp_all
  next
    case False
    then obtain opc where opc: "\<not> bad" "opcode_of (a ! 0 AND 0x0F) = Some opc" by auto
    show ?thesis
    proof (cases "size7 = 126 \<or> size7 = 127")
      case True
      have "4 \<le> length a" "size7 = 127 \<longrightarrow> 10 \<le> length a"
        using need len True opc unfolding unf by (auto simp: not_less split: if_splits)
      then show ?thesis
        using len opc True unfolding unf by (cases "size7 = 126") (simp_all add: nth_append)
    next
      case False
      then show ?thesis using len opc unfolding unf by simp
    qed
  qed
qed

lemma frame_iteration_mono:
  assumes "frame_iteration fs a \<noteq> Return Incomplete fs"
  shows "frame_iteration fs (a @ b) = frame_iteration fs a"
proof (cases "parseFrameHeader a")
  case NeedBytes
  with assms show ?thesis by (simp add: frame_iteration_def)
next
  case BadHeader
  then show ?thesis using parseFrameHeader_mono [of a b] by (simp add: frame_iteration_def)
next
  case (FrameHeader fin opc h n)
  then show ?thesis
    using assms parseFrameHeader_mono [of a b]
    by (auto simp: frame_iteration_def Let_def MaskSize_def split: if_splits)
qed

lemma frame_iteration_incomplete: "frame_iteration fs a = Return Incomplete q \<Longrightarrow> q = fs"
  by (auto simp: frame_iteration_def Let_def split: header.splits if_splits)

text \<open>The loop as the contract of \<open>Incremental\<close> sees it: its status without the distinction of empty results.\<close>

definition frame_loop :: "Frame list \<Rightarrow> byte list \<Rightarrow> nat \<Rightarrow> frame_stop \<times> nat \<times> Frame list" where
  "frame_loop fs b c = (let r = FrameParse_loop fs b c in
     (if fp_status r = FrameError then Malformed else Incomplete, fp_consumed r, fp_frames r))"

lemma frame_loop_unfold:
  "frame_loop fs b c = (case frame_iteration fs b of Return r q \<Rightarrow> (r, c, q)
     | Continue n q \<Rightarrow> frame_loop q (drop n b) (c + n))"
proof (cases "frame_iteration fs b")
  case (Return r q)
  then show ?thesis
    by (cases r)
       (auto simp: frame_loop_def FrameParse_loop.simps [of fs] frame_iteration_def Let_def
          split: header.splits if_splits)
next
  case (Continue n q)
  have "frame_iteration q [] = Return Incomplete q"
    by (simp add: frame_iteration_def parseFrameHeader_def)
  then have "frame_loop q [] (c + n) = (Incomplete, c + n, q)"
    by (simp add: frame_loop_def FrameParse_loop.simps [of q])
  with Continue show ?thesis
    by (cases "drop n b = []") (simp_all add: frame_loop_def FrameParse_loop.simps [of fs])
qed

interpretation ws: incremental frame_iteration frame_loop "\<lambda>_. 0" Incomplete "\<lambda>_ _. True"
proof unfold_locales
  fix p a b n and q :: "Frame list"
  show "frame_loop p b c = (case frame_iteration p b of Return r q \<Rightarrow> (r, c, q)
     | Continue n q \<Rightarrow> frame_loop q (drop n b) (c + n))" for c
    by (rule frame_loop_unfold)
  show "n \<le> length b" if "frame_iteration p b = Continue n q"
    using frame_iteration_bound [OF that] by simp
  show "0 < n \<or> (0 :: nat) < 0" if "frame_iteration p b = Continue n q"
    using frame_iteration_bound [OF that] by simp
  show "frame_iteration p (a @ b) = Continue n q" if "frame_iteration p a = Continue n q"
    using frame_iteration_mono [of p a b] that by simp
  show "q = p" if "frame_iteration p a = Return Incomplete q"
    using frame_iteration_incomplete [OF that] .
qed auto

text \<open>The frames already collected are only a prefix of the result.\<close>

lemma frame_iteration_prefix:
  "frame_iteration (gs @ fs) b =
     (case frame_iteration fs b of
        Return Incomplete q \<Rightarrow> Return Incomplete (gs @ q)
      | Return Malformed q \<Rightarrow> Return Malformed q
      | Continue n q \<Rightarrow> Continue n (gs @ q))"
  by (auto simp: frame_iteration_def Let_def split: header.splits)

lemma frame_loop_prefix:
  "frame_loop (gs @ fs) b c =
     (case frame_loop fs b c of (r, n, q) \<Rightarrow> (r, n, if r = Malformed then q else gs @ q))"
proof (induction fs b arbitrary: c rule: ws.loop_induct)
  case (Ret fs b r q)
  then show ?case
    by (cases r) (simp_all add: frame_loop_unfold [of _ b] frame_iteration_prefix)
next
  case (Cont fs b n q)
  from Cont(2) [of "c + n"] Cont(1) show ?case
    by (simp add: frame_loop_unfold [of _ b] frame_iteration_prefix)
qed

lemma FrameParse_frame_loop:
  "frame_loop [] b 0 = (if fp_status (FrameParse b) = FrameError then Malformed else Incomplete,
     fp_consumed (FrameParse b), fp_frames (FrameParse b))"
  by (simp add: frame_loop_def FrameParse_def Let_def)

text \<open>The status of a call that is no error follows from its frames.\<close>

lemma FrameParse_status:
  "fp_status (FrameParse_loop fs b c) \<noteq> FrameError \<Longrightarrow>
     fp_status (FrameParse_loop fs b c) =
       (if fp_frames (FrameParse_loop fs b c) = [] then FrameNeedMoreData else FrameSuccess)"
proof (induction fs b arbitrary: c rule: ws.loop_induct)
  case (Ret fs b r q)
  then show ?case by (cases r) (simp_all add: FrameParse_loop.simps [of fs])
next
  case (Cont fs b n q)
  have "q \<noteq> []" using Cont(1) by (auto simp: frame_iteration_def Let_def split: header.splits if_splits)
  with Cont(1,3) Cont(2) [of "c + n"] show ?case
    by (cases "drop n b = []") (simp_all add: FrameParse_loop.simps [of fs])
qed

lemma unat_size:
  assumes "L \<le> 1048576"
  shows "unat (word_of_nat L :: 64 word) = L"
  using assms by (simp add: unat_of_nat)

lemma size_le:
  assumes "L \<le> 1048576"
  shows "word_of_nat L \<le> (125 :: 64 word) \<longleftrightarrow> L \<le> 125" "word_of_nat L \<le> (65535 :: 64 word) \<longleftrightarrow> L \<le> 65535"
    "word_of_nat L < (126 :: 64 word) \<longleftrightarrow> L < 126" "(125 :: 64 word) < word_of_nat L \<longleftrightarrow> 125 < L"
    "word_of_nat L = (1 :: 64 word) \<longleftrightarrow> L = 1" "word_of_nat L \<le> MaxPayloadSize"
  using assms unat_size [OF assms]
  by (simp_all add: word_le_nat_alt word_less_nat_alt MaxPayloadSize_def word_unat_eq_iff)

lemma high_bits_zero:
  fixes w :: "64 word"
  assumes "unat w < 2 ^ s" "s < 64"
  shows "drop_bit s w = 0"
proof -
  have "unat (drop_bit s w) = drop_bit s (unat w)"
    using take_bit_nat_eq_self [of "unat w" 64] unsigned_less [of w, where 'a = nat] by (simp add: unsigned_drop_bit_eq)
  also have "\<dots> = 0" using assms by (simp add: drop_bit_eq_div)
  finally show ?thesis by (simp only: unat_eq_zero)
qed

lemma small_size_byte:
  assumes "L \<le> 125"
  shows "(ucast (word_of_nat L :: 64 word) OR 0x80 :: byte) AND 0x80 \<noteq> 0"
    "ucast ((ucast (word_of_nat L :: 64 word) OR 0x80 :: byte) AND 0x7F) = (word_of_nat L :: 64 word)"
proof -
  have "bit ((ucast (word_of_nat L :: 64 word) OR 0x80 :: byte) AND 0x80) 7"
    by (simp add: bit_simps)
  then show "(ucast (word_of_nat L :: 64 word) OR 0x80 :: byte) AND 0x80 \<noteq> 0" by auto
  have u: "(ucast (word_of_nat L :: 64 word) :: byte) = word_of_nat L"
    using assms by (simp add: word_unat_eq_iff unat_of_nat unsigned_ucast_eq take_bit_nat_eq_self_iff)
  have m: "(0x7F :: byte) = mask 7" by (simp add: mask_eq_exp_minus_1)
  have "(word_of_nat L OR 0x80 :: byte) AND 0x7F = take_bit 7 (word_of_nat L OR 0x80)"
    by (simp add: m take_bit_eq_mask)
  also have "\<dots> = take_bit 7 (word_of_nat L)" by (simp add: take_bit_or)
  also have "\<dots> = word_of_nat L"
    using assms by (simp add: word_unat_eq_iff unsigned_take_bit_eq unat_of_nat take_bit_nat_eq_self_iff)
  finally have b: "(word_of_nat L OR 0x80 :: byte) AND 0x7F = word_of_nat L" .
  show "ucast ((ucast (word_of_nat L :: 64 word) OR 0x80 :: byte) AND 0x7F) = (word_of_nat L :: 64 word)"
    unfolding u b
    using assms by (simp add: word_unat_eq_iff unat_of_nat unsigned_ucast_eq take_bit_nat_eq_self_iff)
qed

lemma first_byte:
  fixes fin :: bool and opc :: Opcode
  defines "v \<equiv> (if fin then 0x80 else 0x00) OR opcode_code opc :: byte"
  shows "v AND 0x70 = 0" "v AND 0x0F = opcode_code opc" "v AND 0x80 \<noteq> 0 \<longleftrightarrow> fin"
  unfolding v_def by (cases fin; cases opc; simp)+

lemma opcode_of_code [simp]: "opcode_of (opcode_code opc) = Some opc"
  by (cases opc) (simp_all add: opcode_of_def)

lemma opcode_of_SomeD: "opcode_of v = Some opc \<Longrightarrow> v = opcode_code opc"
  by (auto simp: opcode_of_def split: if_splits)

lemma control_code: "(8 :: byte) \<le> opcode_code opc \<longleftrightarrow> opc \<in> {Close, Ping, Pong}"
  by (cases opc) (simp_all add: word_le_nat_alt)

lemma checkHeader_ok:
  assumes "frame_ok f"
  shows "checkHeader (fr_fin f) (opcode_code (fr_opcode f)) (fr_opcode f) h (word_of_nat (length (fr_payload f)))
     = FrameHeader (fr_fin f) (fr_opcode f) h (word_of_nat (length (fr_payload f)))"
  using assms size_le [of "length (fr_payload f)"]
  by (auto simp: checkHeader_def frame_ok_def control_code not_less not_le)

lemma length_encodeHeader: "2 \<le> length (encodeHeader f)"
  by (simp add: encodeHeader_def Let_def)

lemma parse_client_header:
  assumes "frame_ok f"
  shows "parseFrameHeader ((encodeHeader f)[1 := encodeHeader f ! 1 OR 0x80] @ rest)
     = FrameHeader (fr_fin f) (fr_opcode f) (length (encodeHeader f)) (word_of_nat (length (fr_payload f)))"
proof -
  define L where "L = length (fr_payload f)"
  have L: "L \<le> 1048576" using assms by (simp add: frame_ok_def L_def)
  define w :: "64 word" where "w = word_of_nat L"
  note chk = checkHeader_ok [OF assms, folded L_def, folded w_def]
  note fb = first_byte [of "fr_fin f" "fr_opcode f"]
  note le = size_le [OF L, folded w_def] and uw = unat_size [OF L, folded w_def]
  consider "L \<le> 125" | "125 < L" "L \<le> 65535" | "65535 < L" by linarith
  then show ?thesis
  proof cases
    case 1
    then have "w \<noteq> 126" "w \<noteq> 127" using uw by (auto simp: word_unat_eq_iff)
    with 1 chk fb le small_size_byte [of L, folded w_def] show ?thesis
      by (simp add: parseFrameHeader_def encodeHeader_def Let_def L_def [symmetric] w_def [symmetric])
  next
    case 2
    have hi: "drop_bit 16 w = 0" using 2 by (intro high_bits_zero) (simp_all add: uw)
    from read_be_step [of 8 w] hi
    have b8: "ucast (ucast (drop_bit 8 w AND 0xFF) :: byte) = drop_bit 8 w" by simp
    from read_be_step [of 0 w]
    have "push_bit 8 (ucast (ucast (drop_bit 8 w AND 0xFF) :: byte)) OR ucast (ucast (w AND 0xFF) :: byte) = w"
      by (simp add: b8)
    with 2 chk fb le show ?thesis
      by (simp add: parseFrameHeader_def encodeHeader_def Let_def L_def [symmetric] w_def [symmetric])
  next
    case 3
    have hi: "drop_bit 56 w = 0" using L by (intro high_bits_zero) (simp_all add: uw)
    then have w0: "write_be64 w ! 0 AND 0x80 = 0" by (simp add: write_be64_def)
    with 3 chk fb le show ?thesis
      by (simp add: parseFrameHeader_def encodeHeader_def Let_def L_def [symmetric] w_def [symmetric] nth_append)
  qed
qed

lemma parse_client_frame:
  assumes "frame_ok f" "key_ok key"
  shows "frame_iteration fs (client_frame key f @ rest) = Continue (length (client_frame key f)) (fs @ [f])"
proof -
  let ?h = "(encodeHeader f)[1 := encodeHeader f ! 1 OR 0x80]"
  have L: "length (fr_payload f) \<le> 1048576" using assms(1) by (simp add: frame_ok_def)
  note hdr = parse_client_header [OF assms(1), of "key @ unmask key (fr_payload f) @ rest"]
  show ?thesis
    using assms(2) hdr unat_size [OF L]
    by (simp add: frame_iteration_def client_frame_def Let_def MaskSize_def key_ok_def)
qed

lemma client_frame_nonempty [simp]: "client_frame key f \<noteq> []"
  using length_encodeHeader [of f] by (auto simp: client_frame_def)

lemma parse_client_stream:
  assumes "\<forall>(key, f) \<in> set kfs. key_ok key \<and> frame_ok f"
  shows "frame_loop fs (client_stream kfs @ rest) c
     = frame_loop (fs @ map snd kfs) rest (c + length (client_stream kfs))"
  using assms
proof (induction kfs arbitrary: fs c)
  case (Cons kf kfs)
  obtain key f where kf: "kf = (key, f)" by (cases kf)
  with Cons.prems have "frame_iteration fs (client_frame key f @ client_stream kfs @ rest)
      = Continue (length (client_frame key f)) (fs @ [f])"
    by (intro parse_client_frame) auto
  with Cons kf show ?case by (simp add: frame_loop_unfold [of fs] add.assoc)
qed simp

lemma frame_loop_FrameParse:
  assumes "frame_loop [] b 0 = (Incomplete, n, fs)"
  shows "FrameParse b = \<lparr>fp_status = (if fs = [] then FrameNeedMoreData else FrameSuccess),
     fp_consumed = n, fp_frames = fs\<rparr>"
  using assms FrameParse_status [of "[]" b 0]
  by (auto simp: frame_loop_def FrameParse_def Let_def split: if_splits)

text \<open>Every frame the parser delivers obeys the limits.\<close>

lemma checkHeader_frame_ok:
  assumes "checkHeader fin (opcode_code opc) opc h n = FrameHeader fin' opc' h' n'" "length pl = unat n"
  shows "frame_ok \<lparr>fr_fin = fin', fr_opcode = opc', fr_payload = pl\<rparr>"
proof -
  from assms(1) have eq: "fin' = fin" "opc' = opc" using checkHeader_size by blast+
  with assms(1) have n: "n \<le> MaxPayloadSize" "opc \<in> {Close, Ping, Pong} \<longrightarrow> fin \<and> n \<le> 125" "opc = Close \<longrightarrow> n \<noteq> 1"
    by (auto simp: checkHeader_def control_code not_less split: if_splits)
  have "unat n \<noteq> 1" if "n \<noteq> 1" using that by (simp add: word_unat_eq_iff)
  with n eq assms(2) show ?thesis
    by (auto simp: frame_ok_def word_le_nat_alt MaxPayloadSize_def)
qed

lemma parseFrameHeader_checked:
  assumes "parseFrameHeader b = FrameHeader fin opc h n"
  shows "\<exists>fin' opc' h' n'. checkHeader fin' (opcode_code opc') opc' h' n' = FrameHeader fin opc h n"
proof -
  from assms obtain opc' where opc': "opcode_of (b ! 0 AND 0x0F) = Some opc'"
    by (auto simp: parseFrameHeader_def Let_def split: if_splits option.splits)
  then have "b ! 0 AND 0x0F = opcode_code opc'" by (rule opcode_of_SomeD)
  with assms opc' show ?thesis
    by (simp add: parseFrameHeader_def Let_def split: if_splits) blast+
qed

lemma frame_iteration_ok:
  assumes "frame_iteration fs b = Continue n fs'" "\<forall>f \<in> set fs. frame_ok f"
  shows "\<forall>f \<in> set fs'. frame_ok f"
proof -
  from assms(1) obtain fin opc h m where hd: "parseFrameHeader b = FrameHeader fin opc h m"
    and len: "h + MaskSize + unat m \<le> length b"
    and fs': "fs' = fs @ [\<lparr>fr_fin = fin, fr_opcode = opc,
       fr_payload = unmask (take MaskSize (drop h b)) (take (unat m) (drop (h + MaskSize) b))\<rparr>]"
    by (auto simp: frame_iteration_def Let_def not_less split: header.splits if_splits)
  obtain fin' opc' h' m' where chk: "checkHeader fin' (opcode_code opc') opc' h' m' = FrameHeader fin opc h m"
    using parseFrameHeader_checked [OF hd] by blast
  have "m' = m" using checkHeader_size [OF chk] by simp
  with checkHeader_frame_ok [OF chk] len assms(2) show ?thesis by (auto simp: fs')
qed

lemma frame_loop_ok:
  assumes "frame_loop [] b 0 = (r, n, fs)"
  shows "\<forall>f \<in> set fs. frame_ok f"
proof (rule ws.loop_invariant [where I = "\<lambda>fs. \<forall>f \<in> set fs. frame_ok f", OF _ _ _ assms])
  show "\<forall>f \<in> set q. frame_ok f" if "\<forall>f \<in> set p. frame_ok f" "frame_iteration p b = Continue n q" for p b n q
    using frame_iteration_ok that by blast
  show "\<forall>f \<in> set q. frame_ok f" if "\<forall>f \<in> set p. frame_ok f" "frame_iteration p b = Return r q" for p b r q
    using that by (auto simp: frame_iteration_def Let_def split: header.splits if_splits)
qed simp

lemma FrameParse_loop_error:
  "fp_status (FrameParse_loop fs b c) = FrameError \<Longrightarrow> fp_frames (FrameParse_loop fs b c) = []"
proof (induction fs b arbitrary: c rule: ws.loop_induct)
  case (Ret fs b r q)
  then show ?case by (cases r) (auto simp: FrameParse_loop.simps [of fs] split: if_splits)
next
  case (Cont fs b n q)
  from Cont(1,3) Cont(2) [of "c + n"] show ?case
    by (cases "drop n b = []") (simp_all add: FrameParse_loop.simps [of fs])
qed

lemma FrameParse_stream_aux:
  assumes "\<forall>(key, f) \<in> set kfs. key_ok key \<and> frame_ok f" "kfs \<noteq> []"
  shows "FrameParse (client_stream kfs) = \<lparr>fp_status = FrameSuccess,
     fp_consumed = length (client_stream kfs), fp_frames = map snd kfs\<rparr>"
proof -
  have "frame_loop [] (client_stream kfs @ []) 0 = frame_loop (map snd kfs) [] (length (client_stream kfs))"
    using parse_client_stream [OF assms(1), of "[]" "[]" 0] by simp
  also have "\<dots> = (Incomplete, length (client_stream kfs), map snd kfs)"
    by (simp add: frame_loop_unfold frame_iteration_def parseFrameHeader_def)
  finally show ?thesis using assms(2) frame_loop_FrameParse by fastforce
qed

lemma FrameParse_resume:
  fixes a b :: "byte list"
  assumes "fp_status (FrameParse a) \<noteq> FrameError"
  defines "r1 \<equiv> FrameParse a"
  defines "r2 \<equiv> FrameParse (drop (fp_consumed r1) a @ b)"
  shows "(fp_status (FrameParse (a @ b)) = FrameError \<longleftrightarrow> fp_status r2 = FrameError) \<and>
    fp_consumed (FrameParse (a @ b)) = fp_consumed r1 + fp_consumed r2 \<and>
    fp_frames (FrameParse (a @ b)) = (if fp_status r2 = FrameError then [] else fp_frames r1 @ fp_frames r2)"
proof -
  have l1: "frame_loop [] a 0 = (Incomplete, fp_consumed r1, fp_frames r1)"
    using assms(1) by (simp add: FrameParse_frame_loop r1_def)
  let ?b = "drop (fp_consumed r1) a @ b"
  have "frame_loop [] (a @ b) 0 = frame_loop (fp_frames r1) ?b (0 + fp_consumed r1)"
    using ws.loop_resume [OF TrueI l1, of b] by simp
  also have "\<dots> = (case frame_loop (fp_frames r1) ?b 0 of (r, n, q) \<Rightarrow> (r, n + fp_consumed r1, q))"
    by (rule ws.loop_shift)
  also have "frame_loop (fp_frames r1) ?b 0 =
      (case frame_loop [] ?b 0 of (r, n, q) \<Rightarrow> (r, n, if r = Malformed then q else fp_frames r1 @ q))"
    using frame_loop_prefix [of "fp_frames r1" "[]"] by simp
  finally have e: "frame_loop [] (a @ b) 0 = (if fp_status r2 = FrameError then Malformed else Incomplete,
      fp_consumed r1 + fp_consumed r2, if fp_status r2 = FrameError then fp_frames r2 else fp_frames r1 @ fp_frames r2)"
    by (simp add: FrameParse_frame_loop r2_def)
  have "fp_frames r2 = []" if "fp_status r2 = FrameError"
    using that FrameParse_loop_error by (simp add: r2_def FrameParse_def)
  with e show ?thesis by (auto simp: FrameParse_frame_loop split: if_splits)
qed

section \<open>Properties\<close>

text \<open>
  C33. \<^verbatim>\<open>FrameParse\<close> is safe on every byte string: it never reports more bytes than it was given, every
  frame it delivers obeys RFC 6455's limits and the 1 MiB limit of the server, and it delivers frames
  exactly when it reports success.
\<close>

theorem FrameParse_safe:
  "fp_consumed (FrameParse b) \<le> length b \<and> list_all frame_ok (fp_frames (FrameParse b)) \<and>
   (fp_status (FrameParse b) = FrameSuccess \<longleftrightarrow> fp_frames (FrameParse b) \<noteq> [])"
proof -
  obtain r n fs where l: "frame_loop [] b 0 = (r, n, fs)" by (cases "frame_loop [] b 0")
  from l have n: "fp_consumed (FrameParse b) = n" "fp_frames (FrameParse b) = fs"
    by (simp_all add: FrameParse_frame_loop)
  have "fp_status (FrameParse b) = FrameSuccess \<longleftrightarrow> fs \<noteq> []"
  proof (cases r)
    case Incomplete
    with frame_loop_FrameParse [of b n fs] l show ?thesis by simp
  next
    case Malformed
    with l have e: "fp_status (FrameParse b) = FrameError" by (simp add: FrameParse_frame_loop split: if_splits)
    with n FrameParse_loop_error [of "[]" b 0] show ?thesis by (simp add: FrameParse_def)
  qed
  with n frame_loop_ok [OF l] ws.loop_bound [OF l] show ?thesis by (simp add: list_all_iff)
qed

text \<open>
  C34. Round trip: any non-empty sequence of well-formed frames that a client encodes and masks, each with
  its own key, is decoded by one call of \<^verbatim>\<open>FrameParse\<close> to exactly those frames, and all bytes are consumed.
\<close>

theorem FrameParse_client_stream:
  assumes "\<forall>(key, f) \<in> set kfs. key_ok key \<and> frame_ok f" "kfs \<noteq> []"
  shows "FrameParse (client_stream kfs) = \<lparr>fp_status = FrameSuccess,
     fp_consumed = length (client_stream kfs), fp_frames = map snd kfs\<rparr>"
  using assms by (rule FrameParse_stream_aux)

definition sample_frames :: "(byte list \<times> Frame) list" where
  "sample_frames =
     [([1, 2, 3, 4], \<lparr>fr_fin = True, fr_opcode = Text, fr_payload = [104, 105]\<rparr>),
      ([5, 6, 7, 8], \<lparr>fr_fin = True, fr_opcode = Ping, fr_payload = []\<rparr>)]"

lemma sample_frames_ok: "\<forall>(key, f) \<in> set sample_frames. key_ok key \<and> frame_ok f"
  by (simp add: sample_frames_def key_ok_def frame_ok_def)

theorem FrameParse_client_stream_witness:
  "fp_frames (FrameParse (client_stream sample_frames)) = map snd sample_frames"
  using FrameParse_client_stream [OF sample_frames_ok] by (simp add: sample_frames_def)

text \<open>
  The frames do not depend on packet boundaries: parsing what has arrived, dropping what was consumed
  and parsing again with the bytes that follow delivers the same frames, consumes the same bytes and finds
  the same errors as parsing everything at once.
\<close>

theorem FrameParse_independent_of_packets:
  fixes a b :: "byte list"
  assumes "fp_status (FrameParse a) \<noteq> FrameError"
  defines "r1 \<equiv> FrameParse a"
  defines "r2 \<equiv> FrameParse (drop (fp_consumed r1) a @ b)"
  shows "(fp_status (FrameParse (a @ b)) = FrameError \<longleftrightarrow> fp_status r2 = FrameError) \<and>
    fp_consumed (FrameParse (a @ b)) = fp_consumed r1 + fp_consumed r2 \<and>
    fp_frames (FrameParse (a @ b)) = (if fp_status r2 = FrameError then [] else fp_frames r1 @ fp_frames r2)"
  using FrameParse_resume [OF assms(1), of b] unfolding r1_def r2_def .

theorem FrameParse_independent_of_packets_witness:
  "fp_frames (FrameParse (client_stream (take 1 sample_frames) @ client_stream (drop 1 sample_frames)))
     = map snd sample_frames"
proof -
  define A B where "A = take 1 sample_frames" and "B = drop 1 sample_frames"
  have AB: "A @ B = sample_frames" "A \<noteq> []" "B \<noteq> []" by (simp_all add: A_def B_def sample_frames_def)
  have ok: "\<forall>(key, f) \<in> set A. key_ok key \<and> frame_ok f" "\<forall>(key, f) \<in> set B. key_ok key \<and> frame_ok f"
    using sample_frames_ok AB(1) by (metis Un_iff set_append)+
  note p = FrameParse_stream_aux [OF ok(1) AB(2)] FrameParse_stream_aux [OF ok(2) AB(3)]
  have "fp_frames (FrameParse (client_stream A @ client_stream B)) = map snd A @ map snd B"
    using FrameParse_independent_of_packets [of "client_stream A" "client_stream B"] by (simp add: p)
  then show ?thesis unfolding map_append [symmetric] A_def B_def append_take_drop_id .
qed

end
