(* ===== verification/Ws_Session.thy ===== *)
theory Ws_Session
  imports Ws_Frame Conn Json
begin

text \<open>
  The WebSocket session object and the protocol handler of a readable socket:
  \<^verbatim>\<open>websocket/WebSocketSession.cpp\<close> (identity, heartbeat, \<^verbatim>\<open>ApplicationParse\<close>) and
  \<^verbatim>\<open>websocket/WebSocketHandler.cpp\<close>.  The clock's reading is an argument, one reading per event.  The main
  property is that draining a socket delivers the client's data frames in order and answers its pings in
  order, whatever the packets.
\<close>

section \<open>Session\<close>

type_synonym time = int

record WebSocketSession =
  ws_user_id :: uuid
  ws_device_id :: uuid
  ws_id :: nat
  ws_connection :: Connection
  last_activity :: time
  ping_sent_at :: time
  waiting_for_pong :: bool
  ping_id :: nat

definition WebSocketSession_of :: "time \<Rightarrow> nat \<Rightarrow> uuid \<Rightarrow> uuid \<Rightarrow> Connection \<Rightarrow> WebSocketSession" where
  "WebSocketSession_of now sid user_id device_id connection =
     \<lparr>ws_user_id = user_id, ws_device_id = device_id, ws_id = sid, ws_connection = connection,
      last_activity = now, ping_sent_at = 0, waiting_for_pong = False, ping_id = 0\<rparr>"

definition recordActivity :: "time \<Rightarrow> WebSocketSession \<Rightarrow> WebSocketSession" where
  "recordActivity now s = s\<lparr>last_activity := now\<rparr>"

definition handlePong :: "time \<Rightarrow> WebSocketSession \<Rightarrow> WebSocketSession" where
  "handlePong now s = s\<lparr>waiting_for_pong := False, last_activity := now\<rparr>"

definition getFd :: "WebSocketSession \<Rightarrow> int" where
  "getFd s = conn_fd_num (ws_connection s)"

definition shouldSendPing :: "time \<Rightarrow> time \<Rightarrow> WebSocketSession \<Rightarrow> bool" where
  "shouldSendPing now ping_interval s \<longleftrightarrow> \<not> waiting_for_pong s \<and> now - last_activity s > ping_interval"

definition PongTimeout :: "time \<Rightarrow> time \<Rightarrow> WebSocketSession \<Rightarrow> bool" where
  "PongTimeout now pong_timeout s \<longleftrightarrow> waiting_for_pong s \<and> now - ping_sent_at s \<ge> pong_timeout"

definition markPingSent :: "time \<Rightarrow> WebSocketSession \<Rightarrow> WebSocketSession" where
  "markPingSent now s = s\<lparr>waiting_for_pong := True, ping_sent_at := now, ping_id := (ping_id s + 1) mod 2 ^ 64\<rparr>"

text \<open>The result type is unsigned, so \<^verbatim>\<open>-1\<close> is the largest 64-bit number.\<close>

definition getFdByDeviceId :: "uuid \<Rightarrow> WebSocketSession \<Rightarrow> 64 word" where
  "getFdByDeviceId device_id s = (if ws_device_id s = device_id then word_of_int (getFd s) else - 1)"

text \<open>Writing encoded bytes to the session's connection.\<close>

definition session_write :: "byte list \<Rightarrow> WebSocketSession \<Rightarrow> WebSocketSession" where
  "session_write bs s = s\<lparr>ws_connection := conn_write (to_chars bs) (ws_connection s)\<rparr>"

section \<open>From frames to JSON\<close>

fun opcode_name :: "Opcode \<Rightarrow> string" where
  "opcode_name Continuation = ''continuation''"
| "opcode_name Text = ''text''"
| "opcode_name Binary = ''binary''"
| "opcode_name Close = ''close''"
| "opcode_name Ping = ''ping''"
| "opcode_name Pong = ''pong''"

definition ApplicationParse :: "library \<Rightarrow> Frame \<Rightarrow> json" where
  "ApplicationParse lib frame =
     (let header = JObject
            [(''fin'', JBool (fr_fin frame)),
             (''opcode'', JUnsigned (unat (opcode_code (fr_opcode frame)))),
             (''opcode_name'', JString (opcode_name (fr_opcode frame))),
             (''payload_length'', JUnsigned (length (fr_payload frame)))];
          result = JObject [(''header'', header)]
      in if fr_opcode frame = Text then
           (let text = to_chars (fr_payload frame) in
            case json_parse lib text of
              None \<Rightarrow> json_set ''payload'' (JString text) (json_set ''payload_format'' (JString ''text'') result)
            | Some parsed \<Rightarrow> json_set ''payload'' parsed (json_set ''payload_format'' (JString ''json'') result))
         else
           json_set ''payload'' (JArray (map (\<lambda>b. JUnsigned (unat b)) (fr_payload frame)))
             (json_set ''payload_format'' (JString ''bytes'') result))"

section \<open>The readable handler\<close>

datatype WebSocketHandleStatus = MessagesReady | HandleNeedMoreData | PeerClosed | ProtocolError | IoError

record WebSocketHandleResult =
  hr_status :: WebSocketHandleStatus
  hr_frames :: "Frame list"
  output_queued :: bool

definition control_reply :: "Opcode \<Rightarrow> byte list \<Rightarrow> Frame" where
  "control_reply opc pl = \<lparr>fr_fin = True, fr_opcode = opc, fr_payload = pl\<rparr>"

text \<open>The result is whether the caller goes on with the next frame.\<close>

definition handleFrame :: "time \<Rightarrow> WebSocketSession \<Rightarrow> Frame \<Rightarrow> WebSocketHandleResult
    \<Rightarrow> bool \<times> WebSocketSession \<times> WebSocketHandleResult" where
  "handleFrame now session frame result =
     (if fr_opcode frame = Text \<or> fr_opcode frame = Binary then
        (if \<not> fr_fin frame then (False, session, result\<lparr>hr_status := ProtocolError\<rparr>)
         else (True, session, result\<lparr>hr_frames := hr_frames result @ [frame]\<rparr>))
      else if fr_opcode frame = Ping then
        (True, session_write (FrameEncoder (control_reply Pong (fr_payload frame))) session,
         result\<lparr>output_queued := True\<rparr>)
      else if fr_opcode frame = Pong then (True, handlePong now session, result)
      else if fr_opcode frame = Close then
        (False, session_write (FrameEncoder (control_reply Close (fr_payload frame))) session,
         result\<lparr>output_queued := True, hr_status := PeerClosed\<rparr>)
      else (False, session, result\<lparr>hr_status := ProtocolError\<rparr>))"

fun handleFrames :: "time \<Rightarrow> WebSocketSession \<Rightarrow> Frame list \<Rightarrow> WebSocketHandleResult
    \<Rightarrow> bool \<times> WebSocketSession \<times> WebSocketHandleResult" where
  "handleFrames now session [] result = (True, session, result)"
| "handleFrames now session (f # fs) result =
     (case handleFrame now session f result of
        (False, session', result') \<Rightarrow> (False, session', result')
      | (True, session', result') \<Rightarrow> handleFrames now session' fs result')"

function handleReadable_loop :: "time \<Rightarrow> WebSocketSession \<Rightarrow> recv_outcome list \<Rightarrow> WebSocketHandleResult
    \<Rightarrow> (WebSocketHandleResult \<times> WebSocketSession \<times> recv_outcome list) option" where
  "handleReadable_loop now session rs result =
     (case conn_read (ws_connection session) rs of
        None \<Rightarrow> None
      | Some (bytesRead, c1, rs1) \<Rightarrow>
          let session1 = session\<lparr>ws_connection := c1\<rparr> in
          (case bytesRead of
             Count _ \<Rightarrow>
               let session2 = recordActivity now session1;
                   parsed = FrameParse (to_bytes (inputBuffer c1));
                   session3 = (if fp_consumed parsed > 0
                     then session2\<lparr>ws_connection := consumeInput (fp_consumed parsed) c1\<rparr> else session2)
               in if fp_status parsed = FrameError
                  then Some (result\<lparr>hr_status := ProtocolError\<rparr>, session3, rs1)
                  else (case handleFrames now session3 (fp_frames parsed) result of
                          (False, session4, result4) \<Rightarrow> Some (result4, session4, rs1)
                        | (True, session4, result4) \<Rightarrow> handleReadable_loop now session4 rs1 result4)
           | Zero \<Rightarrow> Some (result\<lparr>hr_status := PeerClosed\<rparr>, session1, rs1)
           | Failed e \<Rightarrow>
               if e = EAGAIN \<or> e = EWOULDBLOCK
               then Some (if hr_frames result \<noteq> [] then result\<lparr>hr_status := MessagesReady\<rparr> else result, session1, rs1)
               else Some (result\<lparr>hr_status := IoError\<rparr>, session1, rs1)))"
  by pat_completeness auto
termination
  by (relation "measure (\<lambda>(now, s, rs, r). rx_size rs)") (auto dest: conn_read_size)

declare handleReadable_loop.simps [simp del]

definition handler_start :: WebSocketHandleResult where
  "handler_start = \<lparr>hr_status = HandleNeedMoreData, hr_frames = [], output_queued = False\<rparr>"

definition handler_handleReadable :: "time \<Rightarrow> WebSocketSession \<Rightarrow> recv_outcome list
    \<Rightarrow> (WebSocketHandleResult \<times> WebSocketSession \<times> recv_outcome list) option" where
  "handler_handleReadable now session rs = handleReadable_loop now session rs handler_start"

section \<open>Lemmas\<close>

text \<open>Frames after which the handler goes on, and what it does for a sequence of them.\<close>

definition is_data :: "Frame \<Rightarrow> bool" where
  "is_data f \<longleftrightarrow> fr_opcode f = Text \<or> fr_opcode f = Binary"

definition flows :: "Frame \<Rightarrow> bool" where
  "flows f \<longleftrightarrow> is_data f \<and> fr_fin f \<or> fr_opcode f = Ping \<or> fr_opcode f = Pong"

definition pongs :: "Frame list \<Rightarrow> byte list" where
  "pongs fs = concat (map (\<lambda>f. FrameEncoder (control_reply Pong (fr_payload f))) (filter (\<lambda>f. fr_opcode f = Ping) fs))"

lemma pongs_append [simp]: "pongs (fs @ gs) = pongs fs @ pongs gs"
  by (simp add: pongs_def)

text \<open>The parts of a session that frame handling leaves alone.\<close>

definition same_session :: "WebSocketSession \<Rightarrow> WebSocketSession \<Rightarrow> bool" where
  "same_session s s' \<longleftrightarrow> ws_id s' = ws_id s \<and> ws_user_id s' = ws_user_id s \<and> ws_device_id s' = ws_device_id s \<and>
     conn_fd (ws_connection s') = conn_fd (ws_connection s) \<and> conn_state (ws_connection s') = conn_state (ws_connection s)"

lemma handleFrame_flows:
  assumes "flows f"
  shows "\<exists>s'. handleFrame now s f r =
     (True, s', r\<lparr>hr_frames := hr_frames r @ filter is_data [f], output_queued := output_queued r \<or> fr_opcode f = Ping\<rparr>) \<and>
     output_buffer (ws_connection s') = output_buffer (ws_connection s) @ to_chars (pongs [f]) \<and>
     input_buffer (ws_connection s') = input_buffer (ws_connection s) \<and> same_session s s'"
  using assms by (cases r) (auto simp: handleFrame_def flows_def is_data_def pongs_def session_write_def handlePong_def
      same_session_def)

lemma handleFrames_flow:
  assumes "list_all flows fs"
  shows "\<exists>s'. handleFrames now s fs r =
     (True, s', r\<lparr>hr_frames := hr_frames r @ filter is_data fs,
        output_queued := output_queued r \<or> (\<exists>f \<in> set fs. fr_opcode f = Ping)\<rparr>) \<and>
     output_buffer (ws_connection s') = output_buffer (ws_connection s) @ to_chars (pongs fs) \<and>
     input_buffer (ws_connection s') = input_buffer (ws_connection s) \<and> same_session s s'"
  using assms
proof (induction fs arbitrary: s r)
  case Nil
  then show ?case by (simp add: pongs_def same_session_def)
next
  case (Cons f fs)
  obtain s1 where s1: "handleFrame now s f r =
      (True, s1, r\<lparr>hr_frames := hr_frames r @ filter is_data [f], output_queued := output_queued r \<or> fr_opcode f = Ping\<rparr>)"
    "output_buffer (ws_connection s1) = output_buffer (ws_connection s) @ to_chars (pongs [f])"
    "input_buffer (ws_connection s1) = input_buffer (ws_connection s)" "same_session s s1"
    using handleFrame_flows [of f now s r] Cons.prems by auto
  let ?r1 = "r\<lparr>hr_frames := hr_frames r @ filter is_data [f], output_queued := output_queued r \<or> fr_opcode f = Ping\<rparr>"
  obtain s2 where "handleFrames now s1 fs ?r1 = (True, s2, ?r1\<lparr>hr_frames := hr_frames ?r1 @ filter is_data fs,
        output_queued := output_queued ?r1 \<or> (\<exists>f \<in> set fs. fr_opcode f = Ping)\<rparr>)"
    "output_buffer (ws_connection s2) = output_buffer (ws_connection s1) @ to_chars (pongs fs)"
    "input_buffer (ws_connection s2) = input_buffer (ws_connection s1)" "same_session s1 s2"
    using Cons.IH [of s1 ?r1] Cons.prems by auto
  with s1 pongs_append [of "[f]" fs] show ?case by (auto simp: same_session_def)
qed

text \<open>A socket that delivers bytes and then would block.\<close>

fun drains :: "recv_outcome list \<Rightarrow> bool" where
  "drains [] = False"
| "drains (Recv d # rs) = (d \<noteq> [] \<and> drains rs)"
| "drains (RecvFail e # rs) = (if e = EINTR then drains rs else e = EAGAIN \<or> e = EWOULDBLOCK)"

lemma conn_read_drained:
  assumes "drains rs" "arriving rs = []"
  shows "\<exists>e rs'. conn_read c rs = Some (Failed e, c, rs') \<and> (e = EAGAIN \<or> e = EWOULDBLOCK)"
  using assms by (induction rs rule: drains.induct) (auto split: if_splits)

lemma conn_read_drains:
  assumes "conn_read c rs = Some (Count n, c', rs')" "drains rs"
  shows "drains rs'"
  using assms by (induction c rs rule: conn_read.induct) (auto split: if_splits)

lemma FrameParse_prefix:
  assumes "fp_status (FrameParse (a @ b)) \<noteq> FrameError"
  shows "fp_status (FrameParse a) \<noteq> FrameError"
proof
  assume "fp_status (FrameParse a) = FrameError"
  then have "frame_loop [] a 0 = (Malformed, fp_consumed (FrameParse a), fp_frames (FrameParse a))"
    by (simp add: FrameParse_frame_loop)
  moreover have "frame_iteration p (a @ b) = Return Malformed q" if "frame_iteration p a = Return Malformed q" for p a b q
    using frame_iteration_mono [of p a b] that by simp
  ultimately have "frame_loop [] (a @ b) 0 = (Malformed, fp_consumed (FrameParse a), fp_frames (FrameParse a))"
    using ws.loop_final by blast
  with assms show False by (simp add: FrameParse_frame_loop)
qed

definition finish :: "WebSocketHandleResult \<Rightarrow> WebSocketHandleResult" where
  "finish r = (if hr_frames r \<noteq> [] then r\<lparr>hr_status := MessagesReady\<rparr> else r)"

lemma FrameParse_consumed: "fp_consumed (FrameParse b) \<le> length b"
  using ws.loop_bound [of "[]" b 0] by (simp add: FrameParse_frame_loop)

lemma consume_session:
  "(if 0 < n then (recordActivity now (s\<lparr>ws_connection := c\<lparr>input_buffer := b\<rparr>\<rparr>))\<lparr>ws_connection := consumeInput n (c\<lparr>input_buffer := b\<rparr>)\<rparr>
    else recordActivity now (s\<lparr>ws_connection := c\<lparr>input_buffer := b\<rparr>\<rparr>))
     = s\<lparr>last_activity := now, ws_connection := c\<lparr>input_buffer := drop n b\<rparr>\<rparr>"
  by (simp add: consumeInput_def recordActivity_def)

lemma handleReadable_step:
  assumes "conn_read (ws_connection s) rs = Some (Count n, (ws_connection s)\<lparr>input_buffer := b\<rparr>, rs')"
    and "fp_status (FrameParse (to_bytes b)) \<noteq> FrameError"
  shows "handleReadable_loop now s rs r =
    (case handleFrames now (s\<lparr>last_activity := now, ws_connection := (ws_connection s)\<lparr>input_buffer :=
        drop (fp_consumed (FrameParse (to_bytes b))) b\<rparr>\<rparr>) (fp_frames (FrameParse (to_bytes b))) r of
       (False, s', r') \<Rightarrow> Some (r', s', rs')
     | (True, s', r') \<Rightarrow> handleReadable_loop now s' rs' r')"
proof -
  define P where "P = FrameParse (to_bytes b)"
  from assms show ?thesis
    unfolding P_def [symmetric]
    by (subst handleReadable_loop.simps)
       (simp add: inputBuffer_def Let_def P_def [symmetric] consume_session cong: if_cong split del: if_split)
qed

lemma handleReadable_drains:
  assumes "drains rs" "seen @ to_bytes (arriving rs) = whole" "fp_status (FrameParse whole) \<noteq> FrameError"
    and "to_bytes (input_buffer (ws_connection s)) = drop (fp_consumed (FrameParse seen)) seen"
    and "fp_frames (FrameParse whole) = fp_frames (FrameParse seen) @ rest" "list_all flows rest"
  shows "\<exists>s' rs'. handleReadable_loop now s rs r =
      Some (finish (r\<lparr>hr_frames := hr_frames r @ filter is_data rest,
        output_queued := output_queued r \<or> (\<exists>f \<in> set rest. fr_opcode f = Ping)\<rparr>), s', rs') \<and>
    output_buffer (ws_connection s') = output_buffer (ws_connection s) @ to_chars (pongs rest) \<and>
    to_bytes (input_buffer (ws_connection s')) = drop (fp_consumed (FrameParse whole)) whole \<and> same_session s s'"
  using assms
proof (induction "rx_size rs" arbitrary: rs seen s r rest rule: less_induct)
  case less
  show ?case
  proof (cases "arriving rs = []")
    case True
    then obtain e rs' where e: "conn_read (ws_connection s) rs = Some (Failed e, ws_connection s, rs')" "e = EAGAIN \<or> e = EWOULDBLOCK"
      using conn_read_drained less(2) by blast
    have sw: "seen = whole" using less(3) True by simp
    with less(6) have "rest = []" by simp
    with e sw less(5) show ?thesis
      by (simp add: handleReadable_loop.simps [of now s] finish_def pongs_def same_session_def)
  next
    case False
    let ?c = "ws_connection s" and ?r0 = "FrameParse seen"
    obtain d rs' where rd: "conn_read ?c rs = Some (Count (length d), ?c\<lparr>input_buffer := input_buffer ?c @ d\<rparr>, rs')"
      and d: "arriving rs = d @ arriving rs'" "rx_size rs' < rx_size rs"
      using conn_read_arriving [OF False] by blast
    let ?b = "input_buffer ?c @ d"
    let ?seen = "seen @ to_bytes d" and ?p = "FrameParse (to_bytes ?b)"
    have split: "?seen @ to_bytes (arriving rs') = whole" using less(3) d by simp
    have ok1: "fp_status ?r0 \<noteq> FrameError" using FrameParse_prefix less(3,4) by blast
    have ok2: "fp_status (FrameParse ?seen) \<noteq> FrameError" using FrameParse_prefix split less(4) by metis
    have res: "fp_status ?p \<noteq> FrameError" "fp_consumed (FrameParse ?seen) = fp_consumed ?r0 + fp_consumed ?p"
        "fp_frames (FrameParse ?seen) = fp_frames ?r0 @ fp_frames ?p"
      using FrameParse_resume [OF ok1, of "to_bytes d"] ok2 less(5) by auto
    have "fp_frames (FrameParse whole) = fp_frames (FrameParse ?seen) @
        fp_frames (FrameParse (drop (fp_consumed (FrameParse ?seen)) ?seen @ to_bytes (arriving rs')))"
      using FrameParse_resume [OF ok2, of "to_bytes (arriving rs')"] split less(4) by auto
    then obtain rest' where r': "fp_frames (FrameParse whole) = fp_frames (FrameParse ?seen) @ rest'" by blast
    with less(6) res(3) have rest: "rest = fp_frames ?p @ rest'" by simp
    let ?s1 = "s\<lparr>last_activity := now, ws_connection := ?c\<lparr>input_buffer := drop (fp_consumed ?p) ?b\<rparr>\<rparr>"
    have fl: "list_all flows (fp_frames ?p)" "list_all flows rest'" using less(7) rest by simp_all
    let ?r1 = "r\<lparr>hr_frames := hr_frames r @ filter is_data (fp_frames ?p),
        output_queued := output_queued r \<or> (\<exists>f \<in> set (fp_frames ?p). fr_opcode f = Ping)\<rparr>"
    obtain s2 where s2: "handleFrames now ?s1 (fp_frames ?p) r = (True, s2, ?r1)"
      "output_buffer (ws_connection s2) = output_buffer ?c @ to_chars (pongs (fp_frames ?p))"
      "input_buffer (ws_connection s2) = drop (fp_consumed ?p) ?b" "same_session ?s1 s2"
      using handleFrames_flow [OF fl(1), of now ?s1 r] by auto
    have step: "handleReadable_loop now s rs r = handleReadable_loop now s2 rs' ?r1"
      using handleReadable_step [OF rd res(1), of now r] s2(1) by simp
    have b: "to_bytes ?b = drop (fp_consumed ?r0) ?seen"
      using FrameParse_consumed [of seen] less(5) by simp
    have "to_bytes (input_buffer (ws_connection s2)) = drop (fp_consumed ?p) (to_bytes ?b)"
      unfolding s2(3) by (simp only: drop_map)
    then have "to_bytes (input_buffer (ws_connection s2)) = drop (fp_consumed (FrameParse ?seen)) ?seen"
      unfolding res(2) by (simp only: b drop_drop add.commute)
    from less(1) [OF d(2) conn_read_drains [OF rd less(2)] split less(4) this r' fl(2), of ?r1]
    obtain s3 rs3 where s3: "handleReadable_loop now s2 rs' ?r1 =
        Some (finish (?r1\<lparr>hr_frames := hr_frames ?r1 @ filter is_data rest',
          output_queued := output_queued ?r1 \<or> (\<exists>f \<in> set rest'. fr_opcode f = Ping)\<rparr>), s3, rs3)"
      "output_buffer (ws_connection s3) = output_buffer (ws_connection s2) @ to_chars (pongs rest')"
      "to_bytes (input_buffer (ws_connection s3)) = drop (fp_consumed (FrameParse whole)) whole" "same_session s2 s3"
      by blast
    have "?r1\<lparr>hr_frames := hr_frames ?r1 @ filter is_data rest',
          output_queued := output_queued ?r1 \<or> (\<exists>f \<in> set rest'. fr_opcode f = Ping)\<rparr>
        = r\<lparr>hr_frames := hr_frames r @ filter is_data rest,
            output_queued := output_queued r \<or> (\<exists>f \<in> set rest. fr_opcode f = Ping)\<rparr>"
      by (simp only: rest filter_append set_append bex_Un) simp
    with step s3 s2 rest show ?thesis by (intro exI [of _ s3] exI [of _ rs3]) (simp add: same_session_def)
  qed
qed

section \<open>Properties\<close>

text \<open>
  C35. Draining a socket: let a client's frames (text and binary messages, pings and pongs, each masked with
  its own key) arrive on a session with empty buffers, cut into any packets, before the socket would block.
  Then one call of \<^verbatim>\<open>handleReadable\<close> delivers exactly the messages, in order, queues exactly one pong per
  ping, in order and with the ping's payload, leaves no byte in the input buffer and does not touch the
  session's identity.
\<close>

theorem handleReadable_delivers:
  assumes "\<forall>(key, f) \<in> set kfs. key_ok key \<and> frame_ok f \<and> flows f" "kfs \<noteq> []"
    and "drains rs" "to_bytes (arriving rs) = client_stream kfs"
    and "input_buffer (ws_connection s) = ''''" "output_buffer (ws_connection s) = ''''"
  shows "\<exists>s' rs'. handler_handleReadable now s rs =
      Some (\<lparr>hr_status = (if filter is_data (map snd kfs) = [] then HandleNeedMoreData else MessagesReady),
             hr_frames = filter is_data (map snd kfs),
             output_queued = (\<exists>f \<in> set (map snd kfs). fr_opcode f = Ping)\<rparr>, s', rs') \<and>
    to_bytes (output_buffer (ws_connection s')) = pongs (map snd kfs) \<and>
    input_buffer (ws_connection s') = '''' \<and> same_session s s'"
proof -
  have whole: "FrameParse (client_stream kfs) = \<lparr>fp_status = FrameSuccess,
      fp_consumed = length (client_stream kfs), fp_frames = map snd kfs\<rparr>"
    using assms(1,2) by (intro FrameParse_stream_aux) auto
  have empty: "FrameParse [] = \<lparr>fp_status = FrameNeedMoreData, fp_consumed = 0, fp_frames = []\<rparr>"
    by (simp add: FrameParse_def FrameParse_loop.simps frame_iteration_def parseFrameHeader_def)
  have fl: "list_all flows (map snd kfs)" using assms(1) by (auto simp: list_all_iff)
  obtain s' rs' where "handleReadable_loop now s rs handler_start =
      Some (finish (handler_start\<lparr>hr_frames := hr_frames handler_start @ filter is_data (map snd kfs),
        output_queued := output_queued handler_start \<or> (\<exists>f \<in> set (map snd kfs). fr_opcode f = Ping)\<rparr>), s', rs')"
    "output_buffer (ws_connection s') = to_chars (pongs (map snd kfs))"
    "to_bytes (input_buffer (ws_connection s')) = []" "same_session s s'"
    using handleReadable_drains [OF assms(3), of "[]" "client_stream kfs" s "map snd kfs" now handler_start]
      assms(4-6) fl by (auto simp: whole empty)
  then show ?thesis by (auto simp: handler_handleReadable_def handler_start_def finish_def)
qed

definition sample_session :: WebSocketSession where
  "sample_session = WebSocketSession_of 0 1 7 8 (Connection_of (UniqueFd_of 5))"

theorem handleReadable_delivers_witness:
  "\<exists>s' rs'. handler_handleReadable 3 sample_session
      [Recv (take 3 (to_chars (client_stream sample_frames))), RecvFail EINTR,
       Recv (drop 3 (to_chars (client_stream sample_frames))), RecvFail EAGAIN] =
    Some (\<lparr>hr_status = MessagesReady, hr_frames = [snd (hd sample_frames)], output_queued = True\<rparr>, s', rs') \<and>
    to_bytes (output_buffer (ws_connection s')) = [0x8A, 0]"
proof -
  let ?st = "to_chars (client_stream sample_frames)"
  let ?rs = "[Recv (take 3 ?st), RecvFail EINTR, Recv (drop 3 ?st), RecvFail EAGAIN]"
  have len: "length (client_stream sample_frames) = 14"
    by (simp add: sample_frames_def client_frame_def encodeHeader_def)
  then have ne: "take 3 ?st \<noteq> []" "drop 3 ?st \<noteq> []" by (auto simp: take_map drop_map simp flip: length_greater_0_conv)
  then have dr: "drains ?rs" by simp
  have arr: "to_bytes (arriving ?rs) = client_stream sample_frames"
    using ne by (simp add: o_def flip: map_append)
  have kfs: "\<forall>(key, f) \<in> set sample_frames. key_ok key \<and> frame_ok f \<and> flows f"
    by (simp add: sample_frames_def key_ok_def frame_ok_def flows_def is_data_def)
  show ?thesis
    using handleReadable_delivers [OF kfs _ dr arr, of sample_session 3]
    by (simp add: sample_frames_def sample_session_def WebSocketSession_of_def Connection_of_def is_data_def
        pongs_def FrameEncoder_def encodeHeader_def control_reply_def) auto
qed

end
