(* ===== verification/Ws_Pool.thy ===== *)
theory Ws_Pool
  imports Json
begin

text \<open>
  The WebSocket pool, \<^verbatim>\<open>websocket/WebSocketPool.cpp\<close>: the directory of online devices and the choice of
  workers.  Every member function runs under the pool's mutex, so each is one atomic operation on the
  record \<open>WebSocketPool\<close>; what it does to workers is returned as the list of calls made on them.  The
  directory's contract is the locale \<open>online_directory\<close>, which the worker's lemmas rely on.
\<close>

record OnlineConnection =
  oc_worker :: nat
  oc_fd :: int
  oc_session :: nat
  oc_user :: uuid

record WebSocketPoolConfig =
  min_capacity :: int
  max_task_capacity :: int

record WebSocketPool =
  online_connections :: "(uuid \<times> OnlineConnection) list"
  pool_config :: WebSocketPoolConfig
  worker_count :: nat
  initialized :: bool
  stopping :: bool
  next_worker :: nat

text \<open>A push that a worker is asked to queue: \<^verbatim>\<open>enqueuePush(fd, session_id, device_id, message)\<close>.\<close>

record push_call =
  pc_worker :: nat
  pc_fd :: int
  pc_session :: nat
  pc_device :: uuid
  pc_message :: json

section \<open>Operations\<close>

definition WebSocketPool_of :: "WebSocketPoolConfig \<Rightarrow> WebSocketPool" where
  "WebSocketPool_of config = \<lparr>online_connections = [], pool_config = config, worker_count = 0,
     initialized = False, stopping = True, next_worker = 0\<rparr>"

text \<open>
  \<^verbatim>\<open>init\<close>: the workers are constructed outside the lock; \<open>constructed\<close> is whether all constructors succeeded.
\<close>

definition pool_init :: "bool \<Rightarrow> WebSocketPool \<Rightarrow> bool result \<times> WebSocketPool" where
  "pool_init constructed p =
     (if initialized p \<or> worker_count p \<noteq> 0 then (Inr False, p)
      else if max_task_capacity (pool_config p) \<le> 0 \<or> min_capacity (pool_config p) \<le> 0
      then (Inl (InvalidArgument ''WebSocket Configuration must be positive''), p)
      else if \<not> constructed then (Inr False, p)
      else (Inr True, p\<lparr>worker_count := nat (min_capacity (pool_config p)), next_worker := 0,
              stopping := False, initialized := True\<rparr>))"

text \<open>\<^verbatim>\<open>forward_connections\<close>: the worker that gets the connection, if any.\<close>

definition forward_connections :: "WebSocketPool \<Rightarrow> nat option \<times> WebSocketPool" where
  "forward_connections p =
     (if \<not> initialized p \<or> stopping p \<or> worker_count p = 0 then (None, p)
      else (Some (next_worker p mod worker_count p), p\<lparr>next_worker := (next_worker p + 1) mod 2 ^ 64\<rparr>))"

definition pool_close :: "WebSocketPool \<Rightarrow> WebSocketPool" where
  "pool_close p =
     (if stopping p \<and> worker_count p = 0 then p
      else p\<lparr>stopping := True, initialized := False, next_worker := 0, online_connections := [], worker_count := 0\<rparr>)"

definition addIndex :: "uuid \<Rightarrow> uuid \<Rightarrow> nat \<Rightarrow> int \<Rightarrow> nat \<Rightarrow> WebSocketPool \<Rightarrow> WebSocketPool" where
  "addIndex device_id user_id worker_id fd session_id p =
     (if stopping p \<or> \<not> initialized p \<or> worker_id \<ge> worker_count p then p
      else p\<lparr>online_connections := map_put device_id
             \<lparr>oc_worker = worker_id, oc_fd = fd, oc_session = session_id, oc_user = user_id\<rparr> (online_connections p)\<rparr>)"

definition removeIndex :: "uuid \<Rightarrow> nat \<Rightarrow> int \<Rightarrow> nat \<Rightarrow> WebSocketPool \<Rightarrow> WebSocketPool" where
  "removeIndex device_id worker_id fd session_id p =
     (case map_of (online_connections p) device_id of
        None \<Rightarrow> p
      | Some connection \<Rightarrow>
          if oc_worker connection = worker_id \<and> oc_fd connection = fd \<and> oc_session connection = session_id
          then p\<lparr>online_connections := map_erase device_id (online_connections p)\<rparr>
          else p)"

definition push_To_Device :: "uuid \<Rightarrow> json \<Rightarrow> WebSocketPool \<Rightarrow> push_call list" where
  "push_To_Device device_id message p =
     (if stopping p \<or> \<not> initialized p then []
      else case map_of (online_connections p) device_id of
        None \<Rightarrow> []
      | Some connection \<Rightarrow>
          if oc_worker connection \<ge> worker_count p then []
          else [\<lparr>pc_worker = oc_worker connection, pc_fd = oc_fd connection, pc_session = oc_session connection,
                 pc_device = device_id, pc_message = message\<rparr>])"

definition push_To_User :: "uuid \<Rightarrow> json \<Rightarrow> WebSocketPool \<Rightarrow> push_call list" where
  "push_To_User user_id message p =
     (if stopping p \<or> \<not> initialized p then []
      else map (\<lambda>(device_id, connection).
              \<lparr>pc_worker = oc_worker connection, pc_fd = oc_fd connection, pc_session = oc_session connection,
               pc_device = device_id, pc_message = message\<rparr>)
            (filter (\<lambda>(device_id, connection). oc_user connection = user_id \<and> oc_worker connection < worker_count p)
               (online_connections p)))"

text \<open>
  \<^verbatim>\<open>closeSession\<close>: every worker is asked to revoke; \<open>revoke i\<close> is whether worker \<open>i\<close> queued the request and
  completed it before the deadline.  The answer is whether all did.
\<close>

definition pool_closeSession :: "(nat \<Rightarrow> bool) \<Rightarrow> WebSocketPool \<Rightarrow> bool \<times> nat list" where
  "pool_closeSession revoke p =
     (if stopping p \<or> \<not> initialized p then (False, [])
      else (list_all revoke [0..<worker_count p], [0..<worker_count p]))"

section \<open>The directory as an interface\<close>

text \<open>
  What a worker relies on when it registers and removes its sessions: lookups after \<open>add\<close> and \<open>remove\<close>, where
  \<open>remove\<close> only deletes an entry that is exactly the one named.
\<close>

locale online_directory =
  fixes lookup :: "'p \<Rightarrow> uuid \<Rightarrow> OnlineConnection option"
    and add :: "uuid \<Rightarrow> OnlineConnection \<Rightarrow> 'p \<Rightarrow> 'p"
    and remove :: "uuid \<Rightarrow> nat \<Rightarrow> int \<Rightarrow> nat \<Rightarrow> 'p \<Rightarrow> 'p"
    and live :: "'p \<Rightarrow> nat \<Rightarrow> bool"
  assumes lookup_add: "lookup (add d e p) d' = (if d' = d \<and> live p (oc_worker e) then Some e else lookup p d')"
    and lookup_remove: "lookup (remove d w fd sid p) d' =
      (if d' = d \<and> (\<exists>e. lookup p d = Some e \<and> oc_worker e = w \<and> oc_fd e = fd \<and> oc_session e = sid)
       then None else lookup p d')"
begin

lemma remove_other:
  assumes "lookup p d = Some e" "oc_session e \<noteq> sid"
  shows "lookup (remove d' w fd sid p) d = Some e"
  using assms by (auto simp: lookup_remove)

lemma remove_none: "lookup (remove d w fd sid p) d' = Some e \<Longrightarrow> lookup p d' = Some e"
  by (simp add: lookup_remove split: if_splits)

lemma removed:
  assumes "lookup (remove d w fd sid p) d = Some e"
  shows "oc_worker e \<noteq> w \<or> oc_fd e \<noteq> fd \<or> oc_session e \<noteq> sid"
  using assms by (auto simp: lookup_remove split: if_splits)

lemma remove_add_same: "lookup p d = None \<Longrightarrow>
    lookup (remove d (oc_worker e) (oc_fd e) (oc_session e) (add d e p)) d' = lookup p d'"
  by (simp add: lookup_remove lookup_add)

end

definition online :: "WebSocketPool \<Rightarrow> uuid \<Rightarrow> OnlineConnection option" where
  "online p d = map_of (online_connections p) d"

interpretation dir: online_directory online
  "\<lambda>d e. addIndex d (oc_user e) (oc_worker e) (oc_fd e) (oc_session e)"
  removeIndex "\<lambda>p w. \<not> stopping p \<and> initialized p \<and> w < worker_count p"
  by unfold_locales (auto simp: online_def addIndex_def removeIndex_def split: option.splits)

lemma pool_frame [simp]:
  "stopping (removeIndex d w fd sid p) = stopping p" "initialized (removeIndex d w fd sid p) = initialized p"
  "worker_count (removeIndex d w fd sid p) = worker_count p"
  "stopping (addIndex d u w fd sid p) = stopping p" "initialized (addIndex d u w fd sid p) = initialized p"
  "worker_count (addIndex d u w fd sid p) = worker_count p"
  by (auto simp: removeIndex_def addIndex_def split: option.splits)

lemma online_addIndex:
  "online (addIndex d u w fd sid p) d' =
     (if d' = d \<and> \<not> stopping p \<and> initialized p \<and> w < worker_count p
      then Some \<lparr>oc_worker = w, oc_fd = fd, oc_session = sid, oc_user = u\<rparr> else online p d')"
  using dir.lookup_add [of d "\<lparr>oc_worker = w, oc_fd = fd, oc_session = sid, oc_user = u\<rparr>" p d'] by simp

section \<open>Properties\<close>

text \<open>
  A late cleanup never takes a device offline: after a device has connected again (a newer session has
  been registered for it, on any worker, even on the same descriptor), removing the index of its old session
  leaves the directory as it is.
\<close>

theorem stale_removal_harmless:
  assumes "\<not> stopping p" "initialized p" "w' < worker_count p" "sid' \<noteq> sid"
  shows "online (removeIndex d w fd sid (addIndex d u w' fd' sid' p)) d =
    Some \<lparr>oc_worker = w', oc_fd = fd', oc_session = sid', oc_user = u\<rparr>"
  using assms by (intro dir.remove_other) (simp_all add: online_addIndex)

theorem stale_removal_harmless_witness:
  "online (removeIndex 8 0 5 1 (addIndex 8 7 0 5 2
     \<lparr>online_connections = [], pool_config = \<lparr>min_capacity = 1, max_task_capacity = 1\<rparr>, worker_count = 1,
      initialized = True, stopping = False, next_worker = 0\<rparr>)) 8 =
   Some \<lparr>oc_worker = 0, oc_fd = 5, oc_session = 2, oc_user = 7\<rparr>"
  using stale_removal_harmless [of "\<lparr>online_connections = [], pool_config = \<lparr>min_capacity = 1, max_task_capacity = 1\<rparr>,
      worker_count = 1, initialized = True, stopping = False, next_worker = 0\<rparr>" 0 2 1 8 0 5 7 5] by simp

end
