(* ===== verification/Ws_Worker.thy ===== *)
theory Ws_Worker
  imports Ws_Session Ws_Pool Http_Session
begin

text \<open>
  A WebSocket worker, \<^verbatim>\<open>websocket/WebsocketWorker.cpp\<close>.  The worker's thread owns its sessions, so each
  event handler is one step on the pair of the worker's record and the pool.  The sockets are non-blocking:
  a script of outcomes that has run out answers \<^verbatim>\<open>EAGAIN\<close>.  The epoll set is the table of registered
  descriptors; \<^verbatim>\<open>EPOLL_CTL_MOD\<close> fails for a descriptor that is not registered.  What a readable event hands to
  the dispatcher is recorded in \<open>dispatched\<close>; the replies come back as tasks.  Time is in nanoseconds.
  The invariant says that the maps of a worker agree with its session map; the properties are that the online
  directory only names live sessions, that no push reaches another device, and that a revocation is completed.
\<close>

section \<open>State\<close>

definition seconds :: "int \<Rightarrow> time" where
  "seconds n = n * 1000000000"

datatype task =
    ReplyTask int nat json
  | PushTask int nat uuid json
  | CloseTask int nat uuid
  | RevokeTask uuid uuid nat

record dispatch_call =
  dc_device :: uuid
  dc_user :: uuid
  dc_frame :: json
  dc_fd :: int
  dc_session :: nat

text \<open>
  \<open>wk_epoll\<close> maps a registered descriptor to its read and write interest; \<open>close_completions\<close> holds the
  callbacks of \<^verbatim>\<open>revokeDeviceConnections\<close> by the number of their promise, \<open>remaining\<close> the shared counters and
  \<open>fulfilled\<close> the promises whose value has been set; \<open>wk_uninit\<close> is the content of the uninitialised local
  \<^verbatim>\<open>device_id\<close> in \<^verbatim>\<open>removeSession\<close>.
\<close>

record worker =
  wk_id :: nat
  sessions :: "(int \<times> WebSocketSession) list"
  closing_sessions :: "int set"
  revoke_deadlines :: "(int \<times> time) list"
  close_completions :: "(int \<times> nat list) list"
  remaining :: "(nat \<times> nat) list"
  fulfilled :: "nat set"
  wk_epoll :: "(int \<times> bool \<times> bool) list"
  net :: "int \<Rightarrow> socket"
  dispatched :: "dispatch_call list"
  task_queue :: "task list"
  pending_session_queue :: "PendingWebsocket list"
  wk_uninit :: uuid

type_synonym wp = "worker \<times> WebSocketPool"

definition heartbeat_interval :: time where
  "heartbeat_interval = seconds 30"

definition pong_timeout :: time where
  "pong_timeout = seconds 10"

section \<open>Operations\<close>

text \<open>One close callback: \<^verbatim>\<open>if (--*remaining == 0) completion->set_value()\<close>.\<close>

definition run_callback :: "nat \<Rightarrow> worker \<Rightarrow> worker" where
  "run_callback cid w =
     (case map_of (remaining w) cid of
        None \<Rightarrow> w
      | Some r \<Rightarrow>
          (let r' = size_sub r 1 in
           w\<lparr>remaining := map_put cid r' (remaining w),
             fulfilled := (if r' = 0 then insert cid (fulfilled w) else fulfilled w)\<rparr>))"

fun run_callbacks :: "nat list \<Rightarrow> worker \<Rightarrow> worker" where
  "run_callbacks [] w = w"
| "run_callbacks (cid # cids) w = run_callbacks cids (run_callback cid w)"

definition removeSession :: "int \<Rightarrow> wp \<Rightarrow> wp" where
  "removeSession fd wp =
     (let (w, p) = wp;
          (sessionId, device_id) = (case map_of (sessions w) fd of
             Some s \<Rightarrow> (ws_id s, ws_device_id s) | None \<Rightarrow> (0, wk_uninit w));
          p' = removeIndex device_id (wk_id w) fd sessionId p;
          callbacks = (case map_of (close_completions w) fd of Some cs \<Rightarrow> cs | None \<Rightarrow> []);
          w' = w\<lparr>wk_epoll := map_erase fd (wk_epoll w),
                 closing_sessions := closing_sessions w - {fd},
                 sessions := map_erase fd (sessions w),
                 revoke_deadlines := map_erase fd (revoke_deadlines w),
                 close_completions := map_erase fd (close_completions w)\<rparr>
      in (run_callbacks callbacks w', p'))"

definition setWriteInterest :: "int \<Rightarrow> bool \<Rightarrow> wp \<Rightarrow> wp" where
  "setWriteInterest fd enabled wp =
     (let (w, p) = wp in
      case map_of (sessions w) fd of
        None \<Rightarrow> (w, p)
      | Some _ \<Rightarrow>
          (case map_of (wk_epoll w) fd of
             None \<Rightarrow> removeSession fd (w, p)
           | Some _ \<Rightarrow>
               (w\<lparr>wk_epoll := map_put fd (map_of (revoke_deadlines w) fd = None, enabled) (wk_epoll w)\<rparr>, p)))"

definition put_session :: "int \<Rightarrow> WebSocketSession \<Rightarrow> worker \<Rightarrow> worker" where
  "put_session fd s w = w\<lparr>sessions := map_put fd s (sessions w)\<rparr>"

definition put_socket :: "int \<Rightarrow> socket \<Rightarrow> worker \<Rightarrow> worker" where
  "put_socket fd k w = w\<lparr>net := (net w)(fd := k)\<rparr>"

text \<open>\<^verbatim>\<open>flush\<close> on a non-blocking socket.\<close>

definition nb_flush :: "Connection \<Rightarrow> socket \<Rightarrow> io_result \<times> Connection \<times> socket" where
  "nb_flush c k =
     (case conn_flush c (k\<lparr>tx := tx k @ [SendFail EAGAIN]\<rparr>) of
        Some (n, c', k') \<Rightarrow> (n, c', k'\<lparr>tx := butlast (tx k')\<rparr>)
      | None \<Rightarrow> (Failed EAGAIN, c, k))"

text \<open>Everything has been sent: finish a closing session, otherwise stop waiting for writability.\<close>

definition output_done :: "int \<Rightarrow> wp \<Rightarrow> wp" where
  "output_done fd wp =
     (if fd \<in> closing_sessions (fst wp) then removeSession fd wp else setWriteInterest fd False wp)"

definition handleWritable :: "int \<Rightarrow> wp \<Rightarrow> wp" where
  "handleWritable fd wp =
     (let (w, p) = wp in
      case map_of (sessions w) fd of
        None \<Rightarrow> (w, p)
      | Some s \<Rightarrow>
          (let (n, c', k') = nb_flush (ws_connection s) (net w fd);
               wp1 = (put_socket fd k' (put_session fd (s\<lparr>ws_connection := c'\<rparr>) w), p)
           in case n of
                Count _ \<Rightarrow> if \<not> hasPendingOutput c' then output_done fd wp1 else wp1
              | Zero \<Rightarrow> if \<not> hasPendingOutput c' then output_done fd wp1 else removeSession fd wp1
              | Failed e \<Rightarrow> if e = EAGAIN \<or> e = EWOULDBLOCK then wp1 else removeSession fd wp1))"

text \<open>The loop over the business frames of a readable event; \<^verbatim>\<open>dump\<close> may throw and ends it.\<close>

fun dispatch_frames :: "library \<Rightarrow> int \<Rightarrow> WebSocketSession \<Rightarrow> Frame list \<Rightarrow> worker \<Rightarrow> exn option \<times> worker" where
  "dispatch_frames lib fd s [] w = (None, w)"
| "dispatch_frames lib fd s (f # fs) w =
     (let applicationMessage = ApplicationParse lib f in
      case dump lib applicationMessage of
        Inl e \<Rightarrow> (Some e, w)
      | Inr _ \<Rightarrow> dispatch_frames lib fd s fs
          (w\<lparr>dispatched := dispatched w @ [\<lparr>dc_device = ws_device_id s, dc_user = ws_user_id s,
               dc_frame = applicationMessage, dc_fd = fd, dc_session = ws_id s\<rparr>]\<rparr>))"

definition handleReadable :: "library \<Rightarrow> time \<Rightarrow> int \<Rightarrow> wp \<Rightarrow> exn option \<times> wp" where
  "handleReadable lib now fd wp =
     (let (w, p) = wp in
      if map_of (revoke_deadlines w) fd \<noteq> None then (None, w, p)
      else case map_of (sessions w) fd of
        None \<Rightarrow> (None, w, p)
      | Some session \<Rightarrow>
          (case handler_handleReadable now session (rx (net w fd) @ [RecvFail EAGAIN]) of
             None \<Rightarrow> (None, w, p)
           | Some (result, session', rs) \<Rightarrow>
               (let w1 = put_socket fd ((net w fd)\<lparr>rx := butlast rs\<rparr>) (put_session fd session' w);
                    (w2, p2) = (if output_queued result then setWriteInterest fd True (w1, p) else (w1, p))
                in if output_queued result \<and> map_of (sessions w2) fd = None then (None, w2, p2)
                   else case dispatch_frames lib fd session' (hr_frames result) w2 of
                     (Some e, w3) \<Rightarrow> (Some e, w3, p2)
                   | (None, w3) \<Rightarrow>
                       (case hr_status result of
                          MessagesReady \<Rightarrow> (None, w3, p2)
                        | HandleNeedMoreData \<Rightarrow> (None, w3, p2)
                        | PeerClosed \<Rightarrow>
                            if output_queued result
                            then (None, w3\<lparr>closing_sessions := insert fd (closing_sessions w3)\<rparr>, p2)
                            else (None, removeSession fd (w3, p2))
                        | _ \<Rightarrow> (None, removeSession fd (w3, p2))))))"

text \<open>The heartbeat scan: the sessions after it, the expired descriptors, the ones with a ping to send.\<close>

fun timer_scan :: "time \<Rightarrow> (int \<times> time) list \<Rightarrow> (int \<times> WebSocketSession) list
    \<Rightarrow> (int \<times> WebSocketSession) list \<times> int list \<times> int list" where
  "timer_scan now deadlines [] = ([], [], [])"
| "timer_scan now deadlines ((fd, s) # m) =
     (let (m', expired, writable) = timer_scan now deadlines m in
      case map_of deadlines fd of
        Some deadline \<Rightarrow> ((fd, s) # m', if now \<ge> deadline then fd # expired else expired, writable)
      | None \<Rightarrow>
          if PongTimeout now pong_timeout s then ((fd, s) # m', fd # expired, writable)
          else if \<not> shouldSendPing now heartbeat_interval s then ((fd, s) # m', expired, writable)
          else ((fd, markPingSent now (session_write (FrameEncoder (control_reply Ping [])) s)) # m', expired, fd # writable))"

definition handleTimer :: "time \<Rightarrow> wp \<Rightarrow> wp" where
  "handleTimer now wp =
     (let (w, p) = wp;
          (m, expiredFds, writableFds) = timer_scan now (revoke_deadlines w) (sessions w);
          wp1 = fold removeSession expiredFds (w\<lparr>sessions := m\<rparr>, p)
      in fold (\<lambda>fd. setWriteInterest fd True) writableFds wp1)"

section \<open>Tasks\<close>

definition write_frame :: "int \<Rightarrow> WebSocketSession \<Rightarrow> Frame \<Rightarrow> worker \<Rightarrow> worker" where
  "write_frame fd s frame w = put_session fd (session_write (FrameEncoder frame) s) w"

definition text_frame :: "string \<Rightarrow> Frame" where
  "text_frame text = \<lparr>fr_fin = True, fr_opcode = Text, fr_payload = to_bytes text\<rparr>"

text \<open>\<^verbatim>\<open>response.value("type", "")\<close>: the default for a missing member, an exception for a member that is no string.\<close>

definition response_type :: "json \<Rightarrow> string result" where
  "response_type response =
     (case response of
        JObject m \<Rightarrow>
          (case map_of m ''type'' of
             None \<Rightarrow> Inr ''''
           | Some (JString t) \<Rightarrow> Inr t
           | Some _ \<Rightarrow> Inl (JsonError ''type_error.302''))
      | _ \<Rightarrow> Inl (JsonError ''type_error.306''))"

text \<open>\<^verbatim>\<open>response.at("envelope").at("recipient_device_id").get<std::string>()\<close>\<close>

definition response_recipient :: "json \<Rightarrow> string result" where
  "response_recipient response =
     (case json_find ''envelope'' response of
        None \<Rightarrow> Inl (OutOfRange ''out_of_range.403'')
      | Some envelope \<Rightarrow>
          (case json_find ''recipient_device_id'' envelope of
             None \<Rightarrow> Inl (OutOfRange ''out_of_range.403'')
           | Some (JString t) \<Rightarrow> Inr t
           | Some _ \<Rightarrow> Inl (JsonError ''type_error.302'')))"

text \<open>
  The task that a reply posts to its worker.  An online notification is handed to the pool, anything else
  is written to the session the request came from, if that is still the same session and not closing.
\<close>

definition reply_task :: "library \<Rightarrow> int \<Rightarrow> nat \<Rightarrow> json \<Rightarrow> wp \<Rightarrow> exn option \<times> push_call list \<times> wp" where
  "reply_task lib fd sessionId response wp =
     (let (w, p) = wp in
      case response_type response of
        Inl e \<Rightarrow> (Some e, [], w, p)
      | Inr type \<Rightarrow>
          if type = ''online_sync'' \<or> type = ''Online_Sync'' then
            (case ebind (response_recipient response) (read_uuid lib) of
               Inl e \<Rightarrow> (Some e, [], w, p)
             | Inr recipientDeviceId \<Rightarrow> (None, push_To_Device recipientDeviceId response p, w, p))
          else case map_of (sessions w) fd of
            None \<Rightarrow> (None, [], w, p)
          | Some s \<Rightarrow>
              if ws_id s \<noteq> sessionId \<or> fd \<in> closing_sessions w then (None, [], w, p)
              else (case dump lib response of
                      Inl e \<Rightarrow> (Some e, [], w, p)
                    | Inr text \<Rightarrow> (None, [], setWriteInterest fd True (write_frame fd s (text_frame text) w, p))))"

text \<open>Whether the session on \<open>fd\<close> is the one a task was made for.\<close>

definition task_target :: "int \<Rightarrow> nat \<Rightarrow> uuid \<Rightarrow> worker \<Rightarrow> WebSocketSession option" where
  "task_target fd session_id device_id w =
     (case map_of (sessions w) fd of
        None \<Rightarrow> None
      | Some s \<Rightarrow> if fd \<in> closing_sessions w \<or> ws_id s \<noteq> session_id \<or> ws_device_id s \<noteq> device_id then None else Some s)"

definition push_task :: "library \<Rightarrow> int \<Rightarrow> nat \<Rightarrow> uuid \<Rightarrow> json \<Rightarrow> wp \<Rightarrow> exn option \<times> wp" where
  "push_task lib fd session_id device_id message wp =
     (let (w, p) = wp in
      case task_target fd session_id device_id w of
        None \<Rightarrow> (None, w, p)
      | Some s \<Rightarrow>
          (case dump lib message of
             Inl e \<Rightarrow> (Some e, w, p)
           | Inr text \<Rightarrow> (None, setWriteInterest fd True (write_frame fd s (text_frame text) w, p))))"

definition close_task :: "int \<Rightarrow> nat \<Rightarrow> uuid \<Rightarrow> wp \<Rightarrow> wp" where
  "close_task fd session_id device_id wp =
     (case task_target fd session_id device_id (fst wp) of None \<Rightarrow> wp | Some _ \<Rightarrow> removeSession fd wp)"

definition device_revoked_frame :: Frame where
  "device_revoked_frame = control_reply Close ([0x0f, 0xa1] @ to_bytes ''device_revoked'')"

text \<open>The second loop of a revocation, for one descriptor.\<close>

definition revoke_one :: "time \<Rightarrow> int \<Rightarrow> wp \<Rightarrow> wp" where
  "revoke_one now fd wp =
     (let (w, p) = wp in
      if map_of (revoke_deadlines w) fd \<noteq> None then (w, p)
      else
        (let w1 = w\<lparr>revoke_deadlines := map_put fd (now + seconds 2) (revoke_deadlines w)\<rparr> in
         if fd \<in> closing_sessions w1 then handleWritable fd (setWriteInterest fd True (w1, p))
         else
           (let w2 = w1\<lparr>closing_sessions := insert fd (closing_sessions w1)\<rparr> in
            case map_of (sessions w2) fd of
              None \<Rightarrow> removeSession fd (w2, p)
            | Some s \<Rightarrow> handleWritable fd (setWriteInterest fd True (write_frame fd s device_revoked_frame w2, p)))))"

definition revoke_targets :: "uuid \<Rightarrow> uuid \<Rightarrow> worker \<Rightarrow> int list" where
  "revoke_targets user_id device_id w =
     map fst (filter (\<lambda>(fd, s). ws_user_id s = user_id \<and> ws_device_id s = device_id) (sessions w))"

definition add_completion :: "nat \<Rightarrow> int \<Rightarrow> worker \<Rightarrow> worker" where
  "add_completion cid fd w =
     w\<lparr>close_completions := map_put fd
         ((case map_of (close_completions w) fd of Some cs \<Rightarrow> cs | None \<Rightarrow> []) @ [cid]) (close_completions w)\<rparr>"

definition register_completion :: "nat \<Rightarrow> int list \<Rightarrow> worker \<Rightarrow> worker" where
  "register_completion cid targets w =
     fold (add_completion cid) targets (w\<lparr>remaining := map_put cid (length targets) (remaining w)\<rparr>)"

definition revoke_task :: "time \<Rightarrow> uuid \<Rightarrow> uuid \<Rightarrow> nat \<Rightarrow> wp \<Rightarrow> wp" where
  "revoke_task now user_id device_id cid wp =
     (let (w, p) = wp; targets = revoke_targets user_id device_id w in
      if targets = [] then (w\<lparr>fulfilled := insert cid (fulfilled w)\<rparr>, p)
      else fold (revoke_one now) targets (register_completion cid targets w, p))"

definition run_task :: "library \<Rightarrow> time \<Rightarrow> task \<Rightarrow> wp \<Rightarrow> exn option \<times> push_call list \<times> wp" where
  "run_task lib now t wp =
     (case t of
        ReplyTask fd sid response \<Rightarrow> reply_task lib fd sid response wp
      | PushTask fd sid d message \<Rightarrow> (case push_task lib fd sid d message wp of (e, wp') \<Rightarrow> (e, [], wp'))
      | CloseTask fd sid d \<Rightarrow> (None, [], close_task fd sid d wp)
      | RevokeTask u d cid \<Rightarrow> (None, [], revoke_task now u d cid wp))"

definition transferTask :: "task \<Rightarrow> worker \<Rightarrow> worker" where
  "transferTask t w = w\<lparr>task_queue := task_queue w @ [t]\<rparr>"

definition transferSession :: "PendingWebsocket \<Rightarrow> worker \<Rightarrow> worker" where
  "transferSession s w = w\<lparr>pending_session_queue := pending_session_queue w @ [s]\<rparr>"

definition enqueuePush :: "int \<Rightarrow> nat \<Rightarrow> uuid \<Rightarrow> json \<Rightarrow> worker \<Rightarrow> worker" where
  "enqueuePush fd sid d message = transferTask (PushTask fd sid d message)"

definition enqueuecloseSession :: "int \<Rightarrow> nat \<Rightarrow> uuid \<Rightarrow> worker \<Rightarrow> worker" where
  "enqueuecloseSession fd sid d = transferTask (CloseTask fd sid d)"

definition revokeDeviceConnections :: "uuid \<Rightarrow> uuid \<Rightarrow> nat \<Rightarrow> worker \<Rightarrow> worker" where
  "revokeDeviceConnections u d cid = transferTask (RevokeTask u d cid)"

text \<open>
  \<^verbatim>\<open>handleTask\<close>: the queue is swapped out, then the tasks run in order; an exception of one does not stop
  the next.  The pushes for other workers are collected.
\<close>

fun run_tasks :: "library \<Rightarrow> time \<Rightarrow> task list \<Rightarrow> wp \<Rightarrow> push_call list \<times> wp" where
  "run_tasks lib now [] wp = ([], wp)"
| "run_tasks lib now (t # ts) wp =
     (case run_task lib now t wp of
        (_, pushes, wp1) \<Rightarrow> (case run_tasks lib now ts wp1 of (pushes', wp2) \<Rightarrow> (pushes @ pushes', wp2)))"

definition handleTask :: "library \<Rightarrow> time \<Rightarrow> wp \<Rightarrow> push_call list \<times> wp" where
  "handleTask lib now wp =
     (let (w, p) = wp in run_tasks lib now (task_queue w) (w\<lparr>task_queue := []\<rparr>, p))"

section \<open>Accepting a connection\<close>

definition makeWebSocketAccept :: "library \<Rightarrow> string \<Rightarrow> string result" where
  "makeWebSocketAccept lib clientKey = sha1_base64 lib (clientKey @ ''258EAFA5-E914-47DA-95CA-C5AB0DC85B11'')"

definition find_header :: "string \<Rightarrow> HttpRequest \<Rightarrow> string option" where
  "find_header name req = map_option snd (find (\<lambda>h. equalsIgnoreCase (fst h) name) (req_headers req))"

text \<open>How a handshake ends: still blocked in \<^verbatim>\<open>send\<close>, with an exception, refused, or with a session.\<close>

definition identity_refusal :: "library \<Rightarrow> IdentityState \<Rightarrow> HttpResponse result" where
  "identity_refusal lib st =
     (case st of
        NoSuchDevice \<Rightarrow> ErrorResponseMaker lib Forbidden ''device_not_found'' ''Device is not registered''
      | NotActivated \<Rightarrow> ErrorResponseMaker lib Forbidden ''device_not_active'' ''Device or account is not active''
      | NotYourDevice \<Rightarrow> ErrorResponseMaker lib Forbidden ''device_not_owned'' ''Device does not belong to the authenticated user''
      | IdentitySuccess \<Rightarrow> Inl (LogicError ''Unexpected IdentityState''))"

definition refuse :: "HttpResponse result \<Rightarrow> Connection \<Rightarrow> socket \<Rightarrow> (exn option \<times> Connection \<times> socket) option" where
  "refuse response c k =
     (case response of
        Inl e \<Rightarrow> Some (Some e, c, k)
      | Inr r \<Rightarrow> sendAll (generateHttpResponse (set_header ''Connection'' ''close''
          (set_header ''Content-Type'' ''application/json'' r))) c k)"

definition handshake_response :: "string \<Rightarrow> HttpResponse" where
  "handshake_response acceptValue =
     set_header ''Connection'' ''Upgrade'' (set_header ''Sec-WebSocket-Accept'' acceptValue
       (set_header ''Upgrade'' ''websocket'' (empty_response\<lparr>rsp_status := Switching_Protocol\<rparr>)))"

text \<open>The checks before the handshake: the user and device and the accept value, or the refusal to send.\<close>

definition check_handshake :: "config \<Rightarrow> (uuid \<Rightarrow> uuid \<Rightarrow> IdentityState result) \<Rightarrow> HttpRequest
    \<Rightarrow> (HttpResponse result + uuid \<times> uuid \<times> string) result" where
  "check_handshake cfg verifySessionIdentity req =
     ebind (authenticate (cfg_lib cfg) (cfg_secret cfg) (cfg_now cfg) req) (\<lambda>authResult.
       case authResult of
         Inl err \<Rightarrow> Inr (Inl (ErrorResponseMaker (cfg_lib cfg) Unauthorized
             (if err = AuthExpired then ''access_token_expired'' else ''invalid_access_token'')
             (if err = AuthExpired then ''Access token has expired'' else ''Invalid or missing access token'')))
       | Inr user_id \<Rightarrow>
           (case find_header ''Sec-WebSocket-Key'' req of
              None \<Rightarrow> Inl (RuntimeError ''Missing Sec-WebSocket-Key header'')
            | Some key \<Rightarrow>
                if key = '''' then Inl (RuntimeError ''Missing Sec-WebSocket-Key header'')
                else case find_header ''deviceID'' req of
                  None \<Rightarrow> Inl (RuntimeError ''Missing Device ID'')
                | Some device \<Rightarrow>
                    if device = '''' then Inl (RuntimeError ''Missing Device ID'')
                    else ebind (read_uuid (cfg_lib cfg) device) (\<lambda>device_id.
                      ebind (verifySessionIdentity user_id device_id) (\<lambda>st.
                        if st \<noteq> IdentitySuccess then Inr (Inl (identity_refusal (cfg_lib cfg) st))
                        else ebind (makeWebSocketAccept (cfg_lib cfg) key) (\<lambda>acceptValue.
                          Inr (Inr (user_id, device_id, acceptValue)))))))"

text \<open>
  \<^verbatim>\<open>acceptingSessions\<close>.  \<open>fcntl_ok\<close> and \<open>epoll_add_ok\<close> are whether the system calls succeed; \<open>sid\<close> is the next
  session number and the last component of the result is the number after the call.
\<close>

definition acceptingSessions :: "config \<Rightarrow> (uuid \<Rightarrow> uuid \<Rightarrow> IdentityState result) \<Rightarrow> bool \<Rightarrow> bool \<Rightarrow> time
    \<Rightarrow> PendingWebsocket \<Rightarrow> nat \<Rightarrow> wp \<Rightarrow> (exn option \<times> wp \<times> nat) option" where
  "acceptingSessions cfg verifySessionIdentity fcntl_ok epoll_add_ok now pending sid wp =
     (let (w, p) = wp; c = pw_connection pending; socketFd = conn_fd_num c; k = net w socketFd in
      case check_handshake cfg verifySessionIdentity (pw_request pending) of
        Inl e \<Rightarrow> Some (Some e, (w, p), sid)
      | Inr (Inl refusal) \<Rightarrow>
          (case refuse refusal c k of
             None \<Rightarrow> None
           | Some (e, c', k') \<Rightarrow> Some (e, (put_socket socketFd k' w, p), sid))
      | Inr (Inr (user_id, device_id, acceptValue)) \<Rightarrow>
          (case sendAll (generateHttpResponse (handshake_response acceptValue)) c k of
             None \<Rightarrow> None
           | Some (Some e, c', k') \<Rightarrow> Some (Some e, (put_socket socketFd k' w, p), sid)
           | Some (None, c', k') \<Rightarrow>
               (let w1 = put_socket socketFd k' w in
                if \<not> fcntl_ok then Some (Some (SystemError ''Failed to set WebSocket non-blocking mode''), (w1, p), sid)
                else if map_of (sessions w1) socketFd \<noteq> None
                then Some (Some (RuntimeError ''WebSocket fd is already registered''), (w1, p), sid + 1)
                else if \<not> epoll_add_ok
                then Some (Some (SystemError ''Failed to register WebSocket session''), (w1, p), sid + 1)
                else Some (None,
                  (w1\<lparr>sessions := map_put socketFd (WebSocketSession_of now sid user_id device_id c') (sessions w1),
                      wk_epoll := map_put socketFd (True, False) (wk_epoll w1)\<rparr>,
                   addIndex device_id user_id (wk_id w) socketFd sid p), sid + 1))))"

section \<open>One epoll event\<close>

record event_flags =
  ev_error :: bool
  ev_readable :: bool
  ev_writable :: bool
  ev_rdhup :: bool

text \<open>The body of the event loop of \<^verbatim>\<open>worker\<close> for a session's descriptor; an exception ends the event.\<close>

definition handle_event :: "library \<Rightarrow> time \<Rightarrow> int \<Rightarrow> event_flags \<Rightarrow> wp \<Rightarrow> wp" where
  "handle_event lib now fd flags wp =
     (if ev_error flags then removeSession fd wp
      else
        case (if ev_readable flags then handleReadable lib now fd wp else (None, wp)) of
          (Some e, wp1) \<Rightarrow> wp1
        | (None, wp1) \<Rightarrow>
            if map_of (sessions (fst wp1)) fd = None then wp1
            else
              (let wp2 = (if ev_writable flags then handleWritable fd wp1 else wp1) in
               if map_of (sessions (fst wp2)) fd = None then wp2
               else if ev_rdhup flags \<and> fd \<notin> closing_sessions (fst wp2) then removeSession fd wp2
               else wp2))"

section \<open>Invariants\<close>

definition pending_count :: "(int \<times> nat list) list \<Rightarrow> nat \<Rightarrow> nat" where
  "pending_count m cid = sum_list (map (\<lambda>(fd, cs). count_list cs cid) m)"

text \<open>A promise's counter is the number of its callbacks still registered, and it is set when that is zero.\<close>

definition promises_ok :: "(nat \<times> nat) list \<Rightarrow> nat set \<Rightarrow> (nat \<Rightarrow> nat) \<Rightarrow> bool" where
  "promises_ok rem ful P \<longleftrightarrow> (\<forall>cid r. map_of rem cid = Some r \<longrightarrow> r = P cid \<and> (r = 0 \<longrightarrow> cid \<in> ful))"

definition worker_inv :: "worker \<Rightarrow> bool" where
  "worker_inv w \<longleftrightarrow>
     wf_map (sessions w) \<and> wf_map (close_completions w) \<and>
     closing_sessions w \<subseteq> keys (sessions w) \<and> keys (revoke_deadlines w) \<subseteq> closing_sessions w \<and>
     keys (close_completions w) \<subseteq> keys (sessions w) \<and> keys (wk_epoll w) = keys (sessions w) \<and>
     (\<forall>(fd, cs) \<in> set (close_completions w). set cs \<subseteq> keys (remaining w)) \<and>
     promises_ok (remaining w) (fulfilled w) (pending_count (close_completions w))"

text \<open>The pool's entries for this worker name its live sessions.\<close>

definition same_identity :: "WebSocketSession \<Rightarrow> WebSocketSession \<Rightarrow> bool" where
  "same_identity s s' \<longleftrightarrow> ws_id s' = ws_id s \<and> ws_device_id s' = ws_device_id s \<and> ws_user_id s' = ws_user_id s"

definition dir_ok :: "worker \<Rightarrow> WebSocketPool \<Rightarrow> bool" where
  "dir_ok w p \<longleftrightarrow> (\<forall>d e. online p d = Some e \<and> oc_worker e = wk_id w \<longrightarrow>
     (\<exists>s. map_of (sessions w) (oc_fd e) = Some s \<and> ws_id s = oc_session e \<and> ws_device_id s = d \<and> ws_user_id s = oc_user e))"

text \<open>
  A descriptor owes promise \<open>cid\<close> a callback; and: every descriptor that does has a deadline no later than \<open>T\<close>.
\<close>

definition owes :: "worker \<Rightarrow> nat \<Rightarrow> int \<Rightarrow> bool" where
  "owes w cid fd \<longleftrightarrow> (\<exists>cs. map_of (close_completions w) fd = Some cs \<and> cid \<in> set cs)"

definition pending_by :: "nat \<Rightarrow> time \<Rightarrow> worker \<Rightarrow> bool" where
  "pending_by cid T w \<longleftrightarrow> (\<forall>fd. owes w cid fd \<longrightarrow> (\<exists>t \<le> T. map_of (revoke_deadlines w) fd = Some t))"

text \<open>What every handler keeps; the relation is a preorder, so handlers compose.\<close>

definition pool_shrinks :: "wp \<Rightarrow> wp \<Rightarrow> bool" where
  "pool_shrinks a b \<longleftrightarrow> wk_id (fst b) = wk_id (fst a) \<and>
     (\<forall>d e. online (snd b) d = Some e \<longrightarrow> online (snd a) d = Some e)"

definition inv_kept :: "wp \<Rightarrow> wp \<Rightarrow> bool" where
  "inv_kept a b \<longleftrightarrow> (worker_inv (fst a) \<longrightarrow> worker_inv (fst b)) \<and>
     (dir_ok (fst a) (snd a) \<longrightarrow> dir_ok (fst b) (snd b))"

definition ids_kept :: "wp \<Rightarrow> wp \<Rightarrow> bool" where
  "ids_kept a b \<longleftrightarrow> (\<forall>fd s'. map_of (sessions (fst b)) fd = Some s' \<longrightarrow>
     (\<exists>s. map_of (sessions (fst a)) fd = Some s \<and> same_identity s s'))"

definition promises_kept :: "wp \<Rightarrow> wp \<Rightarrow> bool" where
  "promises_kept a b \<longleftrightarrow> keys (remaining (fst a)) \<subseteq> keys (remaining (fst b)) \<and> fulfilled (fst a) \<subseteq> fulfilled (fst b) \<and>
     (\<forall>cid \<in> keys (remaining (fst a)). \<forall>fd. owes (fst b) cid fd \<longrightarrow> owes (fst a) cid fd) \<and>
     (\<forall>cid \<in> keys (remaining (fst a)). \<forall>T. pending_by cid T (fst a) \<longrightarrow> pending_by cid T (fst b))"

definition keeps :: "wp \<Rightarrow> wp \<Rightarrow> bool" where
  "keeps a b \<longleftrightarrow> pool_shrinks a b \<and> inv_kept a b \<and> ids_kept a b \<and> promises_kept a b"

lemmas keeps_defs = keeps_def pool_shrinks_def inv_kept_def ids_kept_def promises_kept_def

lemma same_identity_refl [simp]: "same_identity s s"
  by (simp add: same_identity_def)

lemma same_identity_trans: "same_identity s t \<Longrightarrow> same_identity t u \<Longrightarrow> same_identity s u"
  by (simp add: same_identity_def)

lemma keeps_refl [simp]: "keeps a a"
  by (auto simp: keeps_defs)

lemma keeps_trans [trans]:
  assumes "keeps a b" "keeps b c"
  shows "keeps a c"
proof -
  have "pool_shrinks a c" using assms unfolding keeps_def pool_shrinks_def by auto
  moreover have "inv_kept a c" using assms unfolding keeps_def inv_kept_def by blast
  moreover have "ids_kept a c"
    unfolding ids_kept_def
  proof (intro allI impI)
    fix fd s'' assume "map_of (sessions (fst c)) fd = Some s''"
    then obtain s' where s': "map_of (sessions (fst b)) fd = Some s'" "same_identity s' s''"
      using assms(2) unfolding keeps_def ids_kept_def by metis
    then obtain s where "map_of (sessions (fst a)) fd = Some s" "same_identity s s'"
      using assms(1) unfolding keeps_def ids_kept_def by metis
    with s' show "\<exists>s. map_of (sessions (fst a)) fd = Some s \<and> same_identity s s''" using same_identity_trans by blast
  qed
  moreover have "promises_kept a c"
    using assms unfolding keeps_def promises_kept_def by (meson subset_iff)
  ultimately show ?thesis by (simp add: keeps_def)
qed

lemma keeps_fold:
  assumes "\<And>x wp. keeps wp (f x wp)"
  shows "keeps wp (fold f xs wp)"
proof (induction xs arbitrary: wp)
  case (Cons x xs)
  show ?case using keeps_trans [OF assms Cons] by simp
qed simp

text \<open>Changes to the parts of a worker that no invariant mentions.\<close>

lemma keeps_frame:
  assumes "sessions w' = sessions w" "closing_sessions w' = closing_sessions w" "revoke_deadlines w' = revoke_deadlines w"
    "close_completions w' = close_completions w" "remaining w' = remaining w" "fulfilled w' = fulfilled w"
    "keys (wk_epoll w') = keys (wk_epoll w)" "wk_id w' = wk_id w"
  shows "keeps (w, p) (w', p)"
  using assms by (auto simp: keeps_defs worker_inv_def dir_ok_def pending_by_def owes_def)

lemma keeps_put_session:
  assumes "map_of (sessions w) fd = Some s" "same_identity s s'"
  shows "keeps (w, p) (put_session fd s' w, p)"
proof -
  have k: "keys (map_put fd s' (sessions w)) = keys (sessions w)"
    using assms(1) by (auto dest: map_of_SomeD simp: rev_image_eqI)
  have "dir_ok (put_session fd s' w) p" if "dir_ok w p"
    unfolding dir_ok_def
  proof (intro allI impI, elim conjE)
    fix d e assume e: "online p d = Some e" "oc_worker e = wk_id (put_session fd s' w)"
    with that obtain t where "map_of (sessions w) (oc_fd e) = Some t" "ws_id t = oc_session e" "ws_device_id t = d"
        "ws_user_id t = oc_user e" by (auto simp: dir_ok_def put_session_def)
    with assms show "\<exists>s. map_of (sessions (put_session fd s' w)) (oc_fd e) = Some s \<and> ws_id s = oc_session e \<and>
        ws_device_id s = d \<and> ws_user_id s = oc_user e"
      by (auto simp: put_session_def same_identity_def)
  qed
  with k assms show ?thesis
    by (auto simp: keeps_defs worker_inv_def pending_by_def owes_def put_session_def)
qed

subsection \<open>Callbacks\<close>

lemma run_callback_fields [simp]:
  "sessions (run_callback c w) = sessions w" "closing_sessions (run_callback c w) = closing_sessions w"
  "revoke_deadlines (run_callback c w) = revoke_deadlines w" "close_completions (run_callback c w) = close_completions w"
  "wk_epoll (run_callback c w) = wk_epoll w" "wk_id (run_callback c w) = wk_id w"
  "keys (remaining (run_callback c w)) = keys (remaining w)"
  by (auto simp: run_callback_def Let_def split: option.splits dest: map_of_SomeD simp: rev_image_eqI)

lemma run_callbacks_fields [simp]:
  "sessions (run_callbacks cs w) = sessions w" "closing_sessions (run_callbacks cs w) = closing_sessions w"
  "revoke_deadlines (run_callbacks cs w) = revoke_deadlines w" "close_completions (run_callbacks cs w) = close_completions w"
  "wk_epoll (run_callbacks cs w) = wk_epoll w" "wk_id (run_callbacks cs w) = wk_id w"
  "keys (remaining (run_callbacks cs w)) = keys (remaining w)"
  by (induction cs arbitrary: w) simp_all

lemma run_callback_promises:
  assumes "promises_ok (remaining w) (fulfilled w) (\<lambda>c. P c + (if c = cid then 1 else 0))"
  shows "promises_ok (remaining (run_callback cid w)) (fulfilled (run_callback cid w)) P"
proof (cases "map_of (remaining w) cid")
  case None
  have "r = P c \<and> (r = 0 \<longrightarrow> c \<in> fulfilled w)" if "map_of (remaining w) c = Some r" for c r
    using assms [unfolded promises_ok_def, rule_format, OF that] that None by (cases "c = cid") auto
  with None show ?thesis by (simp add: promises_ok_def run_callback_def)
next
  case (Some r)
  with assms show ?thesis by (auto simp: promises_ok_def run_callback_def size_sub_def Let_def split: if_splits)
qed

lemma run_callbacks_promises:
  assumes "promises_ok (remaining w) (fulfilled w) (\<lambda>c. P c + count_list cs c)"
  shows "promises_ok (remaining (run_callbacks cs w)) (fulfilled (run_callbacks cs w)) P"
  using assms
proof (induction cs arbitrary: w)
  case (Cons cid cs)
  have "(\<lambda>c. P c + count_list (cid # cs) c) = (\<lambda>c. (P c + count_list cs c) + (if c = cid then 1 else 0))" by auto
  with Cons.prems have "promises_ok (remaining (run_callback cid w)) (fulfilled (run_callback cid w)) (\<lambda>c. P c + count_list cs c)"
    by (intro run_callback_promises) simp
  from Cons.IH [OF this] show ?case by simp
qed simp

lemma run_callback_fulfilled: "fulfilled w \<subseteq> fulfilled (run_callback c w)"
  by (auto simp: run_callback_def Let_def split: option.splits)

lemma run_callbacks_fulfilled: "fulfilled w \<subseteq> fulfilled (run_callbacks cs w)"
  by (induction cs arbitrary: w) (simp, use run_callback_fulfilled in fastforce)

lemma pending_count_erase:
  assumes "wf_map m"
  shows "pending_count m c = pending_count (map_erase fd m) c +
     (case map_of m fd of Some cs \<Rightarrow> count_list cs c | None \<Rightarrow> 0)"
  using assms
proof (induction m)
  case (Cons a m)
  obtain f cs where a: "a = (f, cs)" by (cases a)
  show ?case
  proof (cases "f = fd")
    case True
    then have "map_erase fd m = m" using Cons.prems a by (auto simp: map_erase_def filter_id_conv rev_image_eqI)
    with True a show ?thesis by (simp add: pending_count_def map_erase_def)
  next
    case False
    with Cons a show ?thesis by (simp add: pending_count_def map_erase_def)
  qed
qed (simp add: pending_count_def map_erase_def)

subsection \<open>Handlers keep the invariants\<close>

lemma removeSession_fields:
  "sessions (fst (removeSession fd (w, p))) = map_erase fd (sessions w)"
  "closing_sessions (fst (removeSession fd (w, p))) = closing_sessions w - {fd}"
  "revoke_deadlines (fst (removeSession fd (w, p))) = map_erase fd (revoke_deadlines w)"
  "close_completions (fst (removeSession fd (w, p))) = map_erase fd (close_completions w)"
  "wk_epoll (fst (removeSession fd (w, p))) = map_erase fd (wk_epoll w)"
  "wk_id (fst (removeSession fd (w, p))) = wk_id w"
  "keys (remaining (fst (removeSession fd (w, p)))) = keys (remaining w)"
  by (simp_all add: removeSession_def Let_def split: prod.splits)

lemma removeSession_promises:
  assumes "wf_map (close_completions w)"
    and "promises_ok (remaining w) (fulfilled w) (pending_count (close_completions w))"
  shows "promises_ok (remaining (fst (removeSession fd (w, p)))) (fulfilled (fst (removeSession fd (w, p))))
     (pending_count (map_erase fd (close_completions w)))"
proof -
  define cs where "cs = (case map_of (close_completions w) fd of Some cs \<Rightarrow> cs | None \<Rightarrow> [])"
  have "pending_count (close_completions w) = (\<lambda>c. pending_count (map_erase fd (close_completions w)) c + count_list cs c)"
    using pending_count_erase [OF assms(1), of _ fd] by (auto simp: cs_def split: option.splits)
  with assms(2) run_callbacks_promises
  show ?thesis by (auto simp: removeSession_def Let_def cs_def split: prod.splits)
qed

lemma removeSession_inv:
  assumes "worker_inv w"
  shows "worker_inv (fst (removeSession fd (w, p)))"
proof -
  have "set cs \<subseteq> keys (remaining w)" if "(f, cs) \<in> set (map_erase fd (close_completions w))" for f cs
    using that assms by (auto simp: worker_inv_def map_erase_def)
  with assms show ?thesis
    unfolding worker_inv_def removeSession_fields
    by (auto intro!: removeSession_promises [unfolded removeSession_fields])
qed

lemma removeSession_online:
  "online (snd (removeSession fd (w, p))) d = Some e \<Longrightarrow> online p d = Some e"
  by (auto simp: removeSession_def Let_def split: prod.splits dest: dir.remove_none)

lemma removeSession_dir:
  assumes "dir_ok w p"
  shows "dir_ok (fst (removeSession fd (w, p))) (snd (removeSession fd (w, p)))"
  unfolding dir_ok_def
proof (intro allI impI, elim conjE)
  fix d e
  assume e: "online (snd (removeSession fd (w, p))) d = Some e" "oc_worker e = wk_id (fst (removeSession fd (w, p)))"
  from assms removeSession_online [OF e(1)] e(2)
  obtain s where s: "map_of (sessions w) (oc_fd e) = Some s" "ws_id s = oc_session e" "ws_device_id s = d" "ws_user_id s = oc_user e"
    by (auto simp: dir_ok_def removeSession_fields)
  have "oc_fd e \<noteq> fd"
  proof
    assume "oc_fd e = fd"
    with s e(1) have "online (removeIndex d (wk_id w) fd (oc_session e) p) d = Some e"
      by (simp add: removeSession_def)
    from dir.removed [OF this] e(2) \<open>oc_fd e = fd\<close> show False by (simp add: removeSession_fields)
  qed
  with s show "\<exists>s. map_of (sessions (fst (removeSession fd (w, p)))) (oc_fd e) = Some s \<and> ws_id s = oc_session e \<and>
      ws_device_id s = d \<and> ws_user_id s = oc_user e"
    by (simp add: removeSession_fields)
qed

lemma removeSession_fulfilled: "fulfilled w \<subseteq> fulfilled (fst (removeSession fd (w, p)))"
  using run_callbacks_fulfilled by (fastforce simp: removeSession_def Let_def split: prod.splits)

lemma removeSession_keeps: "keeps wp (removeSession fd wp)"
proof (cases wp)
  case (Pair w p)
  have "pending_by cid T (fst (removeSession fd (w, p)))" if "pending_by cid T w" for cid T
    using that by (auto simp: pending_by_def owes_def removeSession_fields split: if_splits)
  moreover have "owes w cid f" if "owes (fst (removeSession fd (w, p))) cid f" for cid f
    using that by (auto simp: owes_def removeSession_fields split: if_splits)
  ultimately show ?thesis
    using removeSession_inv removeSession_dir removeSession_online [of fd w p] removeSession_fulfilled [of w fd p]
    by (auto simp: Pair keeps_defs removeSession_fields split: if_splits)
qed

lemma setWriteInterest_keeps: "keeps wp (setWriteInterest fd b wp)"
proof (cases wp)
  case (Pair w p)
  show ?thesis
  proof (cases "map_of (sessions w) fd = None \<or> map_of (wk_epoll w) fd = None")
    case True
    then show ?thesis by (cases "map_of (sessions w) fd") (auto simp: Pair setWriteInterest_def removeSession_keeps)
  next
    case False
    then obtain s x where sx: "map_of (sessions w) fd = Some s" "map_of (wk_epoll w) fd = Some x" by auto
    have k: "keys (map_put fd y (wk_epoll w)) = keys (wk_epoll w)" for y
      using False by (simp add: map_of_eq_None_iff insert_absorb)
    have "keeps (w, p) (w\<lparr>wk_epoll := map_put fd (map_of (revoke_deadlines w) fd = None, b) (wk_epoll w)\<rparr>, p)"
      by (rule keeps_frame) (simp_all add: k del: keys_put)
    with sx show ?thesis by (simp add: Pair setWriteInterest_def)
  qed
qed

lemma put_socket_keeps: "keeps (w, p) (put_socket fd k w, p)"
  by (rule keeps_frame) (simp_all add: put_socket_def)

lemma output_done_keeps: "keeps wp (output_done fd wp)"
  by (simp add: output_done_def removeSession_keeps setWriteInterest_keeps)

lemma handleWritable_keeps: "keeps wp (handleWritable fd wp)"
proof (cases wp)
  case (Pair w p)
  show ?thesis
  proof (cases "map_of (sessions w) fd")
    case None
    then show ?thesis by (simp add: Pair handleWritable_def)
  next
    case (Some s)
    obtain n c' k' where fl: "nb_flush (ws_connection s) (net w fd) = (n, c', k')"
      by (cases "nb_flush (ws_connection s) (net w fd)")
    let ?wp1 = "(put_socket fd k' (put_session fd (s\<lparr>ws_connection := c'\<rparr>) w), p)"
    have k1: "keeps (w, p) ?wp1"
      using keeps_trans [OF keeps_put_session [OF Some] put_socket_keeps] by (simp add: same_identity_def)
    have "keeps ?wp1 (handleWritable fd (w, p))"
      using Some fl by (cases n) (simp_all add: handleWritable_def Let_def output_done_keeps removeSession_keeps)
    with k1 show ?thesis unfolding Pair by (rule keeps_trans)
  qed
qed

lemma dispatch_frames_frame:
  "dispatch_frames lib fd s fs w = (e, w') \<Longrightarrow> \<exists>ds. w' = w\<lparr>dispatched := dispatched w @ ds\<rparr>"
proof (induction lib fd s fs w rule: dispatch_frames.induct)
  case (1 lib fd s w)
  then show ?case by (intro exI [of _ "[]"]) simp
next
  case (2 lib fd s f fs w)
  show ?case
  proof (cases "dump lib (ApplicationParse lib f)")
    case (Inl x)
    with 2 show ?thesis by (intro exI [of _ "[]"]) simp
  next
    case (Inr t)
    with 2 show ?thesis by fastforce
  qed
qed

lemma handleFrame_identity:
  "handleFrame now s f r = (b, s', r') \<Longrightarrow> same_identity s s'"
  by (auto simp: handleFrame_def same_identity_def session_write_def handlePong_def split: if_splits)

lemma handleFrames_identity: "handleFrames now s fs r = (b, s', r') \<Longrightarrow> same_identity s s'"
proof (induction now s fs r rule: handleFrames.induct)
  case (2 now s f fs r)
  obtain b1 s1 r1 where h: "handleFrame now s f r = (b1, s1, r1)" by (cases "handleFrame now s f r")
  with 2 handleFrame_identity [OF h] show ?case by (cases b1) (auto intro: same_identity_trans)
qed simp

lemma handleReadable_loop_identity:
  "handleReadable_loop now s rs r = Some (r', s', rs') \<Longrightarrow> same_identity s s'"
proof (induction "rx_size rs" arbitrary: s rs r rule: less_induct)
  case less
  obtain n c1 rs1 where rd: "conn_read (ws_connection s) rs = Some (n, c1, rs1)"
    using less(2) by (cases "conn_read (ws_connection s) rs") (auto simp: handleReadable_loop.simps [of now s])
  show ?case
  proof (cases n)
    case (Count m)
    define P where "P = FrameParse (to_bytes (inputBuffer c1))"
    define s3 where "s3 = (if fp_consumed P > 0 then (recordActivity now (s\<lparr>ws_connection := c1\<rparr>))
      \<lparr>ws_connection := consumeInput (fp_consumed P) c1\<rparr> else recordActivity now (s\<lparr>ws_connection := c1\<rparr>))"
    have i3: "same_identity s s3" by (simp add: s3_def same_identity_def recordActivity_def)
    obtain b s4 r4 where hf: "handleFrames now s3 (fp_frames P) r = (b, s4, r4)"
      by (cases "handleFrames now s3 (fp_frames P) r")
    have eq: "handleReadable_loop now s rs r =
        (if fp_status P = FrameError then Some (r\<lparr>hr_status := ProtocolError\<rparr>, s3, rs1)
         else case handleFrames now s3 (fp_frames P) r of
           (False, s4, r4) \<Rightarrow> Some (r4, s4, rs1) | (True, s4, r4) \<Rightarrow> handleReadable_loop now s4 rs1 r4)"
      using rd Count unfolding s3_def by (simp add: handleReadable_loop.simps [of now s] Let_def P_def [symmetric])
    have i4: "same_identity s s4" using same_identity_trans [OF i3 handleFrames_identity [OF hf]] .
    have "same_identity s4 s'" if "handleReadable_loop now s4 rs1 r4 = Some (r', s', rs')"
      using less(1) [OF conn_read_size [OF rd] that] .
    with less(2) eq hf i3 i4 show ?thesis by (cases b) (auto split: if_splits intro: same_identity_trans)
  qed (use less(2) rd in \<open>auto simp: handleReadable_loop.simps [of now s] Let_def same_identity_def split: if_splits\<close>)
qed

lemma closing_insert_keeps:
  assumes "map_of (sessions w) fd \<noteq> None"
  shows "keeps (w, p) (w\<lparr>closing_sessions := insert fd (closing_sessions w)\<rparr>, p)"
  using assms by (auto simp: keeps_defs worker_inv_def dir_ok_def pending_by_def owes_def map_of_eq_None_iff)

lemma handleReadable_keeps: "keeps wp (snd (handleReadable lib now fd wp))"
proof (cases wp)
  case (Pair w p)
  show ?thesis
  proof (cases "map_of (revoke_deadlines w) fd \<noteq> None \<or> map_of (sessions w) fd = None \<or>
      (\<forall>s. map_of (sessions w) fd = Some s \<longrightarrow> handler_handleReadable now s (rx (net w fd) @ [RecvFail EAGAIN]) = None)")
    case True
    then show ?thesis by (auto simp: Pair handleReadable_def split: option.splits)
  next
    case False
    then obtain s r s' rs where s: "map_of (revoke_deadlines w) fd = None" "map_of (sessions w) fd = Some s"
      and h: "handler_handleReadable now s (rx (net w fd) @ [RecvFail EAGAIN]) = Some (r, s', rs)"
      by auto
    define w1 where "w1 = put_socket fd ((net w fd)\<lparr>rx := butlast rs\<rparr>) (put_session fd s' w)"
    have id: "same_identity s s'" using h handleReadable_loop_identity by (auto simp: handler_handleReadable_def)
    have k1: "keeps (w, p) (w1, p)"
      unfolding w1_def by (rule keeps_trans [OF keeps_put_session [OF s(2) id] put_socket_keeps])
    have in1: "map_of (sessions w1) fd \<noteq> None" by (simp add: w1_def put_socket_def put_session_def)
    obtain w2 p2 where w2: "(if output_queued r then setWriteInterest fd True (w1, p) else (w1, p)) = (w2, p2)"
      by (cases "if output_queued r then setWriteInterest fd True (w1, p) else (w1, p)")
    have k2: "keeps (w1, p) (w2, p2)" using w2 setWriteInterest_keeps [of "(w1, p)" fd True] by (auto split: if_splits)
    obtain e w3 where w3: "dispatch_frames lib fd s' (hr_frames r) w2 = (e, w3)"
      by (cases "dispatch_frames lib fd s' (hr_frames r) w2")
    obtain ds where ds: "w3 = w2\<lparr>dispatched := dispatched w2 @ ds\<rparr>" using dispatch_frames_frame [OF w3] by blast
    have k3: "keeps (w2, p2) (w3, p2)" by (rule keeps_frame) (simp_all add: ds)
    note k = keeps_trans [OF keeps_trans [OF k1 k2] k3]
    show ?thesis
    proof (cases "output_queued r \<and> map_of (sessions w2) fd = None")
      case True
      then show ?thesis
        using s h w2 keeps_trans [OF k1 k2] by (simp add: Pair handleReadable_def w1_def [symmetric])
    next
      case False
      then have in3: "map_of (sessions w3) fd \<noteq> None" using w2 in1 ds by (auto split: if_splits)
      have "keeps (w3, p2) (snd (handleReadable lib now fd (w, p)))"
        using s h w2 w3 False
        by (auto simp: handleReadable_def w1_def [symmetric] removeSession_keeps closing_insert_keeps [OF in3]
            split: option.splits WebSocketHandleStatus.splits)
      with k show ?thesis unfolding Pair by (rule keeps_trans)
    qed
  qed
qed

lemma handle_event_keeps: "keeps wp (handle_event lib now fd flags wp)"
proof -
  obtain e wp1 where h: "(if ev_readable flags then handleReadable lib now fd wp else (None, wp)) = (e, wp1)"
    by (cases "if ev_readable flags then handleReadable lib now fd wp else (None, wp)")
  have k1: "keeps wp wp1" using h handleReadable_keeps [of wp lib now fd] by (auto split: if_splits)
  define wp2 where "wp2 = (if ev_writable flags then handleWritable fd wp1 else wp1)"
  have k2: "keeps wp wp2" unfolding wp2_def using keeps_trans [OF k1 handleWritable_keeps] k1 by simp
  have k3: "keeps wp (removeSession fd wp2)" using keeps_trans [OF k2 removeSession_keeps] .
  show ?thesis
    using k1 k2 k3 removeSession_keeps
    by (cases e) (simp_all add: handle_event_def h wp2_def [symmetric] Let_def)
qed

subsection \<open>The timer\<close>

lemma timer_scan_identity:
  "timer_scan now ds m = (m', ex, wr) \<Longrightarrow> map fst m' = map fst m \<and> set ex \<subseteq> keys m \<and>
     (\<forall>fd s'. map_of m' fd = Some s' \<longrightarrow> (\<exists>s. map_of m fd = Some s \<and> same_identity s s'))"
proof (induction now ds m arbitrary: m' ex wr rule: timer_scan.induct)
  case (2 now ds fd s m)
  obtain m1 ex1 wr1 where t: "timer_scan now ds m = (m1, ex1, wr1)" by (cases "timer_scan now ds m")
  from "2.IH" [OF t] "2.prems" t show ?case
    by (auto simp: same_identity_def session_write_def markPingSent_def split: option.splits if_splits)
qed simp

lemma map_of_keys_eq:
  assumes "map fst m' = map fst m"
  shows "map_of m' k = None \<longleftrightarrow> map_of m k = None"
proof -
  have "keys m' = keys m" using arg_cong [OF assms, of set] by simp
  then show ?thesis by (simp add: map_of_eq_None_iff)
qed

lemma put_sessions_keeps:
  assumes "map fst m' = map fst (sessions w)"
    and "\<forall>fd s'. map_of m' fd = Some s' \<longrightarrow> (\<exists>s. map_of (sessions w) fd = Some s \<and> same_identity s s')"
  shows "keeps (w, p) (w\<lparr>sessions := m'\<rparr>, p)"
proof -
  have k: "keys m' = keys (sessions w)" using arg_cong [OF assms(1), of set] by simp
  have "dir_ok (w\<lparr>sessions := m'\<rparr>) p" if "dir_ok w p"
    unfolding dir_ok_def
  proof (intro allI impI, elim conjE)
    fix d e assume "online p d = Some e" "oc_worker e = wk_id (w\<lparr>sessions := m'\<rparr>)"
    with that obtain t where t: "map_of (sessions w) (oc_fd e) = Some t" "ws_id t = oc_session e" "ws_device_id t = d"
        "ws_user_id t = oc_user e" by (auto simp: dir_ok_def)
    then obtain t' where "map_of m' (oc_fd e) = Some t'"
      using map_of_keys_eq [OF assms(1), of "oc_fd e"] by (cases "map_of m' (oc_fd e)") auto
    with assms(2) t show "\<exists>s. map_of (sessions (w\<lparr>sessions := m'\<rparr>)) (oc_fd e) = Some s \<and> ws_id s = oc_session e \<and>
        ws_device_id s = d \<and> ws_user_id s = oc_user e" by (fastforce simp: same_identity_def)
  qed
  with k assms show ?thesis by (auto simp: keeps_defs worker_inv_def pending_by_def owes_def)
qed

lemma handleTimer_keeps: "keeps wp (handleTimer now wp)"
proof (cases wp)
  case (Pair w p)
  obtain m ex wr where t: "timer_scan now (revoke_deadlines w) (sessions w) = (m, ex, wr)"
    by (cases "timer_scan now (revoke_deadlines w) (sessions w)")
  have "keeps (w, p) (w\<lparr>sessions := m\<rparr>, p)"
    using timer_scan_identity [OF t] by (intro put_sessions_keeps) auto
  also have "keeps \<dots> (fold removeSession ex (w\<lparr>sessions := m\<rparr>, p))"
    by (rule keeps_fold) (rule removeSession_keeps)
  also have "keeps \<dots> (handleTimer now (w, p))"
    by (simp add: handleTimer_def t keeps_fold setWriteInterest_keeps)
  finally show ?thesis unfolding Pair .
qed

subsection \<open>Tasks\<close>

lemma write_frame_keeps:
  "map_of (sessions w) fd = Some s \<Longrightarrow> keeps (w, p) (write_frame fd s f w, p)"
  unfolding write_frame_def by (rule keeps_put_session) (simp_all add: same_identity_def session_write_def)

lemma write_and_wake_keeps:
  "map_of (sessions w) fd = Some s \<Longrightarrow> keeps (w, p) (setWriteInterest fd True (write_frame fd s f w, p))"
  using keeps_trans [OF write_frame_keeps setWriteInterest_keeps] by blast

lemma reply_task_keeps: "keeps wp (snd (snd (reply_task lib fd sid response wp)))"
  by (cases wp) (auto simp: reply_task_def write_and_wake_keeps split: sum.splits option.splits)

lemma task_target_Some:
  "task_target fd sid d w = Some s \<longleftrightarrow> map_of (sessions w) fd = Some s \<and> fd \<notin> closing_sessions w \<and> ws_id s = sid \<and> ws_device_id s = d"
  by (auto simp: task_target_def split: option.splits)

lemma push_task_keeps: "keeps wp (snd (push_task lib fd sid d m wp))"
  by (cases wp) (auto simp: push_task_def task_target_Some write_and_wake_keeps split: sum.splits option.splits)

lemma close_task_keeps: "keeps wp (close_task fd sid d wp)"
  by (auto simp: close_task_def removeSession_keeps split: option.splits)

text \<open>Setting a deadline on a closing session that has none.\<close>

lemma deadline_keeps:
  assumes "map_of (revoke_deadlines w) fd = None" "fd \<in> closing_sessions w"
  shows "keeps (w, p) (w\<lparr>revoke_deadlines := map_put fd t (revoke_deadlines w)\<rparr>, p)"
  using assms by (auto simp: keeps_defs worker_inv_def dir_ok_def pending_by_def owes_def)

lemma revoke_one_keeps:
  assumes "map_of (sessions (fst wp)) fd \<noteq> None"
  shows "keeps wp (revoke_one now fd wp)"
proof (cases wp)
  case (Pair w p)
  let ?T = "now + seconds 2"
  let ?w1 = "w\<lparr>revoke_deadlines := map_put fd ?T (revoke_deadlines w)\<rparr>"
  obtain s where s: "map_of (sessions w) fd = Some s" using assms Pair by auto
  show ?thesis
  proof (cases "map_of (revoke_deadlines w) fd")
    case (Some t)
    then show ?thesis by (simp add: Pair revoke_one_def)
  next
    case None
    show ?thesis
    proof (cases "fd \<in> closing_sessions w")
      case True
      have "keeps (w, p) (handleWritable fd (setWriteInterest fd True (?w1, p)))"
        by (rule keeps_trans [OF keeps_trans [OF deadline_keeps [OF None True] setWriteInterest_keeps] handleWritable_keeps])
      with None True show ?thesis by (simp add: Pair revoke_one_def)
    next
      case False
      let ?wc = "w\<lparr>closing_sessions := insert fd (closing_sessions w)\<rparr>"
      let ?w2 = "?w1\<lparr>closing_sessions := insert fd (closing_sessions w)\<rparr>"
      have eq: "?w2 = ?wc\<lparr>revoke_deadlines := map_put fd ?T (revoke_deadlines ?wc)\<rparr>" by (cases w) simp
      have "keeps (w, p) (?wc, p)" by (rule closing_insert_keeps) (simp add: s)
      also have "keeps (?wc, p) (?w2, p)" unfolding eq by (rule deadline_keeps) (simp_all add: None)
      also have "keeps \<dots> (setWriteInterest fd True (write_frame fd s device_revoked_frame ?w2, p))"
        by (rule write_and_wake_keeps) (simp add: s)
      also have "keeps \<dots> (handleWritable fd (setWriteInterest fd True (write_frame fd s device_revoked_frame ?w2, p)))"
        by (rule handleWritable_keeps)
      finally show ?thesis using None False s by (simp add: Pair revoke_one_def)
    qed
  qed
qed

text \<open>
  One revocation leaves every session of other descriptors in place, and afterwards its own descriptor
  either has a deadline within two seconds or no session any more.
\<close>

lemma removeSession_other:
  "fd' \<noteq> fd \<Longrightarrow> map_of (sessions (fst (removeSession fd wp))) fd' = map_of (sessions (fst wp)) fd' \<and>
     map_of (revoke_deadlines (fst (removeSession fd wp))) fd' = map_of (revoke_deadlines (fst wp)) fd'"
  by (cases wp) (simp add: removeSession_fields)

lemma setWriteInterest_other:
  "fd' \<noteq> fd \<Longrightarrow> map_of (sessions (fst (setWriteInterest fd b wp))) fd' = map_of (sessions (fst wp)) fd' \<and>
     map_of (revoke_deadlines (fst (setWriteInterest fd b wp))) fd' = map_of (revoke_deadlines (fst wp)) fd'"
  using removeSession_other [of fd' fd wp]
  by (cases wp) (auto simp: setWriteInterest_def split: option.splits)

lemma handleWritable_other:
  "fd' \<noteq> fd \<Longrightarrow> map_of (sessions (fst (handleWritable fd wp))) fd' = map_of (sessions (fst wp)) fd' \<and>
     map_of (revoke_deadlines (fst (handleWritable fd wp))) fd' = map_of (revoke_deadlines (fst wp)) fd'"
  by (cases wp)
     (auto simp: handleWritable_def Let_def output_done_def removeSession_other setWriteInterest_other put_socket_def
        put_session_def split: option.splits prod.splits io_result.splits)

lemma revoke_one_other:
  "fd' \<noteq> fd \<Longrightarrow> map_of (sessions (fst (revoke_one now fd wp))) fd' = map_of (sessions (fst wp)) fd' \<and>
     map_of (revoke_deadlines (fst (revoke_one now fd wp))) fd' = map_of (revoke_deadlines (fst wp)) fd'"
  by (cases wp)
     (auto simp: revoke_one_def Let_def handleWritable_other setWriteInterest_other removeSession_other write_frame_def
        put_session_def split: option.splits)

subsection \<open>Revocations\<close>

text \<open>Writing to a descriptor's session keeps its deadline or removes the session.\<close>

lemma setWriteInterest_own:
  "map_of (revoke_deadlines (fst (setWriteInterest fd b wp))) fd = map_of (revoke_deadlines (fst wp)) fd \<or>
   map_of (sessions (fst (setWriteInterest fd b wp))) fd = None"
  by (cases wp) (auto simp: setWriteInterest_def removeSession_fields split: option.splits)

lemma handleWritable_own:
  "map_of (revoke_deadlines (fst (handleWritable fd wp))) fd = map_of (revoke_deadlines (fst wp)) fd \<or>
   map_of (sessions (fst (handleWritable fd wp))) fd = None"
proof (cases wp)
  case (Pair w p)
  have r: "map_of (sessions (fst (removeSession fd x))) fd = None" for x by (cases x) (simp add: removeSession_fields)
  show ?thesis
  proof (cases "map_of (sessions w) fd")
    case None
    then show ?thesis by (simp add: Pair handleWritable_def)
  next
    case (Some s)
    obtain n c' k' where fl: "nb_flush (ws_connection s) (net w fd) = (n, c', k')"
      by (cases "nb_flush (ws_connection s) (net w fd)")
    define wp1 where "wp1 = (put_socket fd k' (put_session fd (s\<lparr>ws_connection := c'\<rparr>) w), p)"
    have d: "revoke_deadlines (fst wp1) = revoke_deadlines w" by (simp add: wp1_def put_socket_def put_session_def)
    have "handleWritable fd (w, p) \<in> {wp1, output_done fd wp1, removeSession fd wp1}"
      using Some fl by (cases n) (simp_all add: handleWritable_def Let_def wp1_def [symmetric])
    then consider "handleWritable fd (w, p) = wp1" | "handleWritable fd (w, p) = removeSession fd wp1"
        | "handleWritable fd (w, p) = setWriteInterest fd False wp1"
      by (auto simp: output_done_def split: if_splits)
    then show ?thesis
      unfolding Pair using d r setWriteInterest_own [of fd False wp1] by cases simp_all
  qed
qed

lemma revoke_one_own:
  assumes "\<forall>t. map_of (revoke_deadlines (fst wp)) fd = Some t \<longrightarrow> t \<le> now + seconds 2"
  shows "(\<exists>t \<le> now + seconds 2. map_of (revoke_deadlines (fst (revoke_one now fd wp))) fd = Some t) \<or>
    map_of (sessions (fst (revoke_one now fd wp))) fd = None"
proof (cases wp)
  case (Pair w p)
  have sub: "(\<exists>t \<le> now + seconds 2. map_of (revoke_deadlines (fst (handleWritable fd (setWriteInterest fd True x)))) fd = Some t) \<or>
      map_of (sessions (fst (handleWritable fd (setWriteInterest fd True x)))) fd = None"
    if x: "map_of (revoke_deadlines (fst x)) fd = Some (now + seconds 2)" for x
  proof (cases "map_of (sessions (fst (setWriteInterest fd True x))) fd")
    case None
    have "handleWritable fd (setWriteInterest fd True x) = setWriteInterest fd True x"
      using None by (cases "setWriteInterest fd True x") (simp add: handleWritable_def)
    with None show ?thesis by simp
  next
    case (Some s)
    then have "map_of (revoke_deadlines (fst (setWriteInterest fd True x))) fd = Some (now + seconds 2)"
      using setWriteInterest_own [of fd True x] x by simp
    with handleWritable_own [of fd "setWriteInterest fd True x"] show ?thesis by auto
  qed
  have r: "map_of (sessions (fst (removeSession fd x))) fd = None" for x by (cases x) (simp add: removeSession_fields)
  show ?thesis
  proof (cases "map_of (revoke_deadlines w) fd")
    case (Some t)
    with assms show ?thesis by (simp add: Pair revoke_one_def)
  next
    case None
    then show ?thesis
      by (auto simp: Pair revoke_one_def Let_def r intro!: sub split: option.splits simp: write_frame_def put_session_def)
  qed
qed

lemma revoke_fold:
  assumes "distinct fds" "\<forall>fd \<in> set fds. map_of (sessions (fst wp)) fd \<noteq> None"
    and "\<forall>fd \<in> set fds. \<forall>t. map_of (revoke_deadlines (fst wp)) fd = Some t \<longrightarrow> t \<le> now + seconds 2"
  shows "keeps wp (fold (revoke_one now) fds wp) \<and>
    (\<forall>fd \<in> set fds. (\<exists>t \<le> now + seconds 2. map_of (revoke_deadlines (fst (fold (revoke_one now) fds wp))) fd = Some t) \<or>
       map_of (sessions (fst (fold (revoke_one now) fds wp))) fd = None) \<and>
    (\<forall>fd. fd \<notin> set fds \<longrightarrow>
       map_of (sessions (fst (fold (revoke_one now) fds wp))) fd = map_of (sessions (fst wp)) fd \<and>
       map_of (revoke_deadlines (fst (fold (revoke_one now) fds wp))) fd = map_of (revoke_deadlines (fst wp)) fd)"
  using assms
proof (induction fds arbitrary: wp)
  case (Cons fd fds)
  let ?wp1 = "revoke_one now fd wp"
  have other: "map_of (sessions (fst ?wp1)) f = map_of (sessions (fst wp)) f"
    "map_of (revoke_deadlines (fst ?wp1)) f = map_of (revoke_deadlines (fst wp)) f" if "f \<noteq> fd" for f
    using revoke_one_other [OF that] by simp_all
  have k1: "keeps wp ?wp1" by (rule revoke_one_keeps) (use Cons.prems in simp)
  have own: "(\<exists>t \<le> now + seconds 2. map_of (revoke_deadlines (fst ?wp1)) fd = Some t) \<or> map_of (sessions (fst ?wp1)) fd = None"
    by (rule revoke_one_own) (use Cons.prems in simp)
  have nd: "f \<noteq> fd" if "f \<in> set fds" for f using that Cons.prems(1) by auto
  note IH = Cons.IH [of ?wp1]
  have ih: "keeps ?wp1 (fold (revoke_one now) fds ?wp1)"
    "\<forall>f \<in> set fds. (\<exists>t \<le> now + seconds 2. map_of (revoke_deadlines (fst (fold (revoke_one now) fds ?wp1))) f = Some t) \<or>
       map_of (sessions (fst (fold (revoke_one now) fds ?wp1))) f = None"
    "\<forall>f. f \<notin> set fds \<longrightarrow>
       map_of (sessions (fst (fold (revoke_one now) fds ?wp1))) f = map_of (sessions (fst ?wp1)) f \<and>
       map_of (revoke_deadlines (fst (fold (revoke_one now) fds ?wp1))) f = map_of (revoke_deadlines (fst ?wp1)) f"
    using IH Cons.prems other nd by auto
  show ?case using keeps_trans [OF k1 ih(1)] ih(2,3) own other Cons.prems(1) by auto
qed simp

lemma pending_count_put:
  "pending_count (map_put fd ((case map_of m fd of Some cs \<Rightarrow> cs | None \<Rightarrow> []) @ [cid]) m) c =
     pending_count m c + (if c = cid then 1 else 0)"
  by (induction m) (auto simp: pending_count_def)

lemma add_completion_fields [simp]:
  "sessions (add_completion cid fd w) = sessions w" "closing_sessions (add_completion cid fd w) = closing_sessions w"
  "revoke_deadlines (add_completion cid fd w) = revoke_deadlines w" "remaining (add_completion cid fd w) = remaining w"
  "fulfilled (add_completion cid fd w) = fulfilled w" "wk_epoll (add_completion cid fd w) = wk_epoll w"
  "wk_id (add_completion cid fd w) = wk_id w"
  by (simp_all add: add_completion_def)

lemma owes_add_completion:
  "owes (add_completion cid fd w) c f \<longleftrightarrow> owes w c f \<or> c = cid \<and> f = fd"
  by (cases "map_of (close_completions w) fd") (auto simp: owes_def add_completion_def)

lemma add_completion_map:
  "pending_count (close_completions (add_completion cid fd w)) c =
     pending_count (close_completions w) c + (if c = cid then 1 else 0)"
  "keys (close_completions (add_completion cid fd w)) = insert fd (keys (close_completions w))"
  "wf_map (close_completions w) \<Longrightarrow> wf_map (close_completions (add_completion cid fd w))"
  by (simp_all add: add_completion_def pending_count_put)

lemma add_completions_fields [simp]:
  "sessions (fold (add_completion cid) fds w) = sessions w"
  "closing_sessions (fold (add_completion cid) fds w) = closing_sessions w"
  "revoke_deadlines (fold (add_completion cid) fds w) = revoke_deadlines w"
  "remaining (fold (add_completion cid) fds w) = remaining w" "fulfilled (fold (add_completion cid) fds w) = fulfilled w"
  "wk_epoll (fold (add_completion cid) fds w) = wk_epoll w" "wk_id (fold (add_completion cid) fds w) = wk_id w"
  by (induction fds arbitrary: w) simp_all

lemma add_completions:
  "pending_count (close_completions (fold (add_completion cid) fds w)) c =
     pending_count (close_completions w) c + (if c = cid then length fds else 0)"
  "owes (fold (add_completion cid) fds w) c f \<longleftrightarrow> owes w c f \<or> c = cid \<and> f \<in> set fds"
  "keys (close_completions (fold (add_completion cid) fds w)) = keys (close_completions w) \<union> set fds"
  "wf_map (close_completions w) \<Longrightarrow> wf_map (close_completions (fold (add_completion cid) fds w))"
  by (induction fds arbitrary: w) (auto simp: owes_add_completion add_completion_map)

lemma completions_known:
  assumes "wf_map (close_completions w)"
  shows "(\<forall>(fd, cs) \<in> set (close_completions w). set cs \<subseteq> R) \<longleftrightarrow> (\<forall>cid fd. owes w cid fd \<longrightarrow> cid \<in> R)"
  using assms by (auto simp: owes_def dest: map_of_SomeD)

lemma pending_count_owes:
  assumes "wf_map (close_completions w)"
  shows "pending_count (close_completions w) cid = 0 \<longleftrightarrow> (\<forall>fd. \<not> owes w cid fd)"
  using assms by (auto simp: pending_count_def owes_def count_list_0_iff dest: map_of_SomeD)

lemma inv_owes_known: "worker_inv w \<Longrightarrow> owes w cid fd \<Longrightarrow> cid \<in> keys (remaining w)"
  using completions_known [of w "keys (remaining w)"] by (auto simp: worker_inv_def)

lemma inv_owes_session:
  assumes "worker_inv w" "owes w cid fd"
  shows "map_of (sessions w) fd \<noteq> None"
proof -
  from assms(2) have "fd \<in> keys (close_completions w)" by (auto simp: owes_def dest: map_of_SomeD intro: rev_image_eqI)
  with assms(1) show ?thesis by (auto simp: worker_inv_def map_of_eq_None_iff)
qed

lemma owes_remaining [simp]: "owes (w\<lparr>remaining := r\<rparr>) cid fd = owes w cid fd"
  by (simp add: owes_def)

lemma register_inv:
  assumes "worker_inv w" "cid \<notin> keys (remaining w)" "set fds \<subseteq> keys (sessions w)" "fds \<noteq> []"
  shows "worker_inv (register_completion cid fds w)"
proof -
  let ?v = "w\<lparr>remaining := map_put cid (length fds) (remaining w)\<rparr>"
  let ?w = "fold (add_completion cid) fds ?v"
  have wf: "wf_map (close_completions w)" using assms(1) by (simp add: worker_inv_def)
  then have wf': "wf_map (close_completions ?w)" using add_completions(4) [of ?v] by simp
  note known = inv_owes_known [OF assms(1)]
  have zero: "pending_count (close_completions w) cid = 0"
    unfolding pending_count_owes [OF wf] using known assms(2) by blast
  have "promises_ok (remaining ?w) (fulfilled ?w) (pending_count (close_completions ?w))"
    using assms(1,4) zero by (auto simp: promises_ok_def worker_inv_def add_completions(1))
  moreover have "\<forall>(fd, cs) \<in> set (close_completions ?w). set cs \<subseteq> keys (remaining ?w)"
    unfolding completions_known [OF wf'] add_completions(2) using known by auto
  ultimately show ?thesis
    using assms wf' unfolding worker_inv_def register_completion_def
    by (auto simp: add_completions(3))
qed

lemma register_kept:
  assumes "cid \<notin> keys (remaining w)"
  shows "promises_kept (w, p) (register_completion cid fds w, p)" "pool_shrinks (w, p) (register_completion cid fds w, p)"
    "ids_kept (w, p) (register_completion cid fds w, p)" "dir_ok w p \<longrightarrow> dir_ok (register_completion cid fds w) p"
proof -
  show "promises_kept (w, p) (register_completion cid fds w, p)"
    using assms by (auto simp: promises_kept_def register_completion_def pending_by_def add_completions(2))
qed (auto simp: pool_shrinks_def ids_kept_def dir_ok_def register_completion_def)

lemma revoke_targets_sessions:
  assumes "wf_map (sessions w)"
  shows "distinct (revoke_targets u d w)" "set (revoke_targets u d w) \<subseteq> keys (sessions w)"
    "fd \<in> set (revoke_targets u d w) \<longleftrightarrow>
       (\<exists>s. map_of (sessions w) fd = Some s \<and> ws_user_id s = u \<and> ws_device_id s = d)"
proof -
  let ?P = "\<lambda>(fd, s). ws_user_id s = u \<and> ws_device_id s = d"
  show "distinct (revoke_targets u d w)" using assms by (simp add: revoke_targets_def distinct_map_filter)
  show "set (revoke_targets u d w) \<subseteq> keys (sessions w)" by (auto simp: revoke_targets_def)
  have "fd \<in> set (revoke_targets u d w) \<longleftrightarrow> (\<exists>s. (fd, s) \<in> set (sessions w) \<and> ws_user_id s = u \<and> ws_device_id s = d)"
    by (force simp: revoke_targets_def)
  then show "fd \<in> set (revoke_targets u d w) \<longleftrightarrow>
      (\<exists>s. map_of (sessions w) fd = Some s \<and> ws_user_id s = u \<and> ws_device_id s = d)"
    by (simp add: map_of_eq_Some_iff [OF assms])
qed

text \<open>What a revocation guarantees when it returns.\<close>

lemma revoke_task_kept:
  fixes u d :: uuid and p :: WebSocketPool
  assumes inv: "worker_inv w" and new: "cid \<notin> keys (remaining w)"
    and dl: "\<forall>fd t. map_of (revoke_deadlines w) fd = Some t \<longrightarrow> t \<le> now + seconds 2"
  defines "wp' \<equiv> revoke_task now u d cid (w, p)"
  shows "worker_inv (fst wp')" "promises_kept (w, p) wp'" "pool_shrinks (w, p) wp'" "ids_kept (w, p) wp'"
    "dir_ok w p \<longrightarrow> dir_ok (fst wp') (snd wp')"
    "cid \<in> fulfilled (fst wp') \<or> cid \<in> keys (remaining (fst wp')) \<and> pending_by cid (now + seconds 2) (fst wp')"
    "\<forall>fd s. map_of (sessions (fst wp')) fd = Some s \<and> ws_user_id s = u \<and> ws_device_id s = d \<longrightarrow>
       (\<exists>t \<le> now + seconds 2. map_of (revoke_deadlines (fst wp')) fd = Some t)"
proof -
  define fds where "fds = revoke_targets u d w"
  have wf: "wf_map (sessions w)" using inv by (simp add: worker_inv_def)
  note tg = revoke_targets_sessions [OF wf, where u = u and d = d, folded fds_def]
  have "worker_inv (fst wp') \<and> promises_kept (w, p) wp' \<and> pool_shrinks (w, p) wp' \<and> ids_kept (w, p) wp' \<and>
    (dir_ok w p \<longrightarrow> dir_ok (fst wp') (snd wp')) \<and>
    (cid \<in> fulfilled (fst wp') \<or> cid \<in> keys (remaining (fst wp')) \<and> pending_by cid (now + seconds 2) (fst wp')) \<and>
    (\<forall>fd s. map_of (sessions (fst wp')) fd = Some s \<and> ws_user_id s = u \<and> ws_device_id s = d \<longrightarrow>
       (\<exists>t \<le> now + seconds 2. map_of (revoke_deadlines (fst wp')) fd = Some t))"
  proof (cases "fds = []")
    case True
    then have none: "\<not> (map_of (sessions w) fd = Some s \<and> ws_user_id s = u \<and> ws_device_id s = d)" for fd s
      using tg(3) [of fd] by auto
    have eq: "wp' = (w\<lparr>fulfilled := insert cid (fulfilled w)\<rparr>, p)"
      using True by (simp add: wp'_def revoke_task_def fds_def)
    show ?thesis
      using inv none
      by (auto simp: eq worker_inv_def promises_ok_def promises_kept_def pool_shrinks_def ids_kept_def dir_ok_def
          owes_def pending_by_def)
  next
    case False
    define w1 where "w1 = register_completion cid fds w"
    have eq: "wp' = fold (revoke_one now) fds (w1, p)"
      using False by (simp add: wp'_def revoke_task_def fds_def [symmetric] w1_def)
    have same: "sessions w1 = sessions w" "revoke_deadlines w1 = revoke_deadlines w"
      by (simp_all add: w1_def register_completion_def)
    have fold: "keeps (w1, p) wp'"
      "\<forall>fd \<in> set fds. (\<exists>t \<le> now + seconds 2. map_of (revoke_deadlines (fst wp')) fd = Some t) \<or>
         map_of (sessions (fst wp')) fd = None"
      using revoke_fold [OF tg(1), of "(w1, p)" now] tg(2) dl same unfolding eq
      by (auto simp: map_of_eq_None_iff)
    note k = fold(1) [unfolded keeps_def] and reg = register_kept [OF new, of p fds, folded w1_def]
    have i1: "worker_inv w1" unfolding w1_def by (rule register_inv [OF inv new tg(2) False])
    then have i': "worker_inv (fst wp')" using k by (simp add: inv_kept_def)
    have pk: "promises_kept (w, p) wp'"
      using reg(1) k unfolding promises_kept_def by (meson subset_iff)
    have cid1: "cid \<in> keys (remaining w1)" by (simp add: w1_def register_completion_def)
    have owes1: "owes w1 cid fd \<Longrightarrow> fd \<in> set fds" for fd
      using inv_owes_known [OF inv] new by (auto simp: w1_def register_completion_def add_completions(2))
    have "pending_by cid (now + seconds 2) (fst wp')"
      unfolding pending_by_def
    proof (intro allI impI)
      fix fd assume o: "owes (fst wp') cid fd"
      then have "owes w1 cid fd" using k cid1 by (auto simp: promises_kept_def)
      from fold(2) [rule_format, OF owes1 [OF this]] inv_owes_session [OF i' o]
      show "\<exists>t \<le> now + seconds 2. map_of (revoke_deadlines (fst wp')) fd = Some t" by simp
    qed
    moreover have "cid \<in> keys (remaining (fst wp'))" using cid1 k by (auto simp: promises_kept_def)
    moreover have ids: "ids_kept (w, p) wp'" using k same by (simp add: ids_kept_def)
    moreover have "\<exists>t \<le> now + seconds 2. map_of (revoke_deadlines (fst wp')) fd = Some t"
      if s: "map_of (sessions (fst wp')) fd = Some s" "ws_user_id s = u" "ws_device_id s = d" for fd s
    proof -
      obtain s0 where "map_of (sessions w) fd = Some s0" "same_identity s0 s"
        using ids s(1) by (auto simp: ids_kept_def)
      with s tg(3) [of fd] have "fd \<in> set fds" by (auto simp: same_identity_def)
      with fold(2) s(1) show ?thesis by auto
    qed
    ultimately show ?thesis using i' pk k reg by (auto simp: pool_shrinks_def inv_kept_def)
  qed
  then show "worker_inv (fst wp')" "promises_kept (w, p) wp'" "pool_shrinks (w, p) wp'" "ids_kept (w, p) wp'"
    "dir_ok w p \<longrightarrow> dir_ok (fst wp') (snd wp')"
    "cid \<in> fulfilled (fst wp') \<or> cid \<in> keys (remaining (fst wp')) \<and> pending_by cid (now + seconds 2) (fst wp')"
    "\<forall>fd s. map_of (sessions (fst wp')) fd = Some s \<and> ws_user_id s = u \<and> ws_device_id s = d \<longrightarrow>
       (\<exists>t \<le> now + seconds 2. map_of (revoke_deadlines (fst wp')) fd = Some t)"
    by simp_all
qed

subsection \<open>The steps of a worker\<close>

text \<open>
  What a worker's thread does, one event at a time: a socket event, the timer, a queued task, a new
  connection.  A revocation comes with a promise of its own, and deadlines already set lie at most two
  seconds ahead, because the clock does not go backwards.
\<close>

inductive worker_step :: "wp \<Rightarrow> wp \<Rightarrow> bool" where
  socket_event: "worker_step wp (handle_event lib now fd flags wp)"
| timer_event: "worker_step wp (handleTimer now wp)"
| task_event: "(\<And>u d cid. t = RevokeTask u d cid \<Longrightarrow> cid \<notin> keys (remaining (fst wp)) \<and>
      (\<forall>fd t. map_of (revoke_deadlines (fst wp)) fd = Some t \<longrightarrow> t \<le> now + seconds 2))
    \<Longrightarrow> worker_step wp (snd (snd (run_task lib now t wp)))"
| accept_event: "acceptingSessions cfg ver fcntl_ok add_ok now pending sid wp = Some (e, wp', sid')
    \<Longrightarrow> worker_step wp wp'"

text \<open>What a step may do to the entries of the directory: those of other workers only come from before.\<close>

definition foreign_shrinks :: "wp \<Rightarrow> wp \<Rightarrow> bool" where
  "foreign_shrinks a b \<longleftrightarrow> wk_id (fst b) = wk_id (fst a) \<and>
     (\<forall>d e. online (snd b) d = Some e \<and> oc_worker e \<noteq> wk_id (fst a) \<longrightarrow> online (snd a) d = Some e)"

lemma pool_shrinks_foreign: "pool_shrinks a b \<Longrightarrow> foreign_shrinks a b"
  by (simp add: pool_shrinks_def foreign_shrinks_def)

lemma accept_kept:
  assumes "acceptingSessions cfg ver fcntl_ok add_ok now pending sid (w, p) = Some (e, wp', sid')"
  shows "worker_inv w \<Longrightarrow> worker_inv (fst wp')" "dir_ok w p \<Longrightarrow> dir_ok (fst wp') (snd wp')"
    "foreign_shrinks (w, p) wp'" "promises_kept (w, p) wp'"
proof -
  let ?fd = "conn_fd_num (pw_connection pending)"
  have "(\<exists>k. wp' = (put_socket ?fd k w, p)) \<or> wp' = (w, p) \<or>
      (\<exists>k u d c. map_of (sessions w) ?fd = None \<and>
        wp' = ((put_socket ?fd k w)\<lparr>sessions := map_put ?fd (WebSocketSession_of now sid u d c) (sessions w),
            wk_epoll := map_put ?fd (True, False) (wk_epoll w)\<rparr>, addIndex d u (wk_id w) ?fd sid p))"
    using assms
    by (fastforce simp: acceptingSessions_def Let_def put_socket_def split: sum.splits option.splits prod.splits if_splits)
  then consider (same) "keeps (w, p) wp'"
    | (new) k u d c where "map_of (sessions w) ?fd = None"
        "wp' = ((put_socket ?fd k w)\<lparr>sessions := map_put ?fd (WebSocketSession_of now sid u d c) (sessions w),
            wk_epoll := map_put ?fd (True, False) (wk_epoll w)\<rparr>, addIndex d u (wk_id w) ?fd sid p)"
    using put_socket_keeps by fastforce
  then have "(worker_inv w \<longrightarrow> worker_inv (fst wp')) \<and> (dir_ok w p \<longrightarrow> dir_ok (fst wp') (snd wp')) \<and>
      foreign_shrinks (w, p) wp' \<and> promises_kept (w, p) wp'"
  proof cases
    case same
    then show ?thesis by (auto simp: keeps_def inv_kept_def pool_shrinks_foreign)
  next
    case new
    have "worker_inv (fst wp')" if "worker_inv w"
      using that new by (auto simp: worker_inv_def put_socket_def)
    moreover have "dir_ok (fst wp') (snd wp')" if "dir_ok w p"
      unfolding dir_ok_def
    proof (intro allI impI, elim conjE)
      fix d' x assume x: "online (snd wp') d' = Some x" "oc_worker x = wk_id (fst wp')"
      show "\<exists>s. map_of (sessions (fst wp')) (oc_fd x) = Some s \<and> ws_id s = oc_session x \<and> ws_device_id s = d' \<and> ws_user_id s = oc_user x"
      proof (cases "online p d' = Some x")
        case True
        with that x new obtain s where "map_of (sessions w) (oc_fd x) = Some s" "ws_id s = oc_session x" "ws_device_id s = d'"
            "ws_user_id s = oc_user x" by (auto simp: dir_ok_def put_socket_def)
        with new show ?thesis by auto
      next
        case False
        with x new show ?thesis by (auto simp: online_addIndex WebSocketSession_of_def put_socket_def split: if_splits)
      qed
    qed
    moreover have "foreign_shrinks (w, p) wp'"
      using new by (auto simp: foreign_shrinks_def online_addIndex put_socket_def split: if_splits)
    moreover have "promises_kept (w, p) wp'"
      using new by (auto simp: promises_kept_def pending_by_def owes_def put_socket_def)
    ultimately show ?thesis by blast
  qed
  then show "worker_inv w \<Longrightarrow> worker_inv (fst wp')" "dir_ok w p \<Longrightarrow> dir_ok (fst wp') (snd wp')"
    "foreign_shrinks (w, p) wp'" "promises_kept (w, p) wp'" by blast+
qed

lemma worker_step_kept:
  assumes "worker_step a b" "worker_inv (fst a)"
  shows "worker_inv (fst b) \<and> (dir_ok (fst a) (snd a) \<longrightarrow> dir_ok (fst b) (snd b)) \<and> foreign_shrinks a b \<and> promises_kept a b"
proof -
  have k: "worker_inv (fst b) \<and> (dir_ok (fst a) (snd a) \<longrightarrow> dir_ok (fst b) (snd b)) \<and> foreign_shrinks a b \<and> promises_kept a b"
    if "keeps a b" using that assms(2) by (simp add: keeps_def inv_kept_def pool_shrinks_foreign)
  from assms(1) show ?thesis
  proof cases
    case (socket_event lib now fd flags)
    then show ?thesis using handle_event_keeps k by simp
  next
    case (timer_event now)
    then show ?thesis using handleTimer_keeps k by simp
  next
    case (task_event t now lib)
    show ?thesis
    proof (cases t)
      case (RevokeTask u d cid)
      obtain w p where a: "a = (w, p)" by (cases a)
      note r = task_event(2) [OF RevokeTask, unfolded a fst_conv]
      have b: "b = revoke_task now u d cid (w, p)" using task_event(1) RevokeTask a by (simp add: run_task_def)
      show ?thesis
        unfolding a b fst_conv snd_conv
        using revoke_task_kept [OF assms(2) [unfolded a fst_conv] r [THEN conjunct1] r [THEN conjunct2], where u = u and d = d and p = p]
        by (simp add: pool_shrinks_foreign)
    next
      case (ReplyTask fd sid response)
      then show ?thesis using task_event(1) reply_task_keeps k by (simp add: run_task_def)
    next
      case (PushTask fd sid d m)
      then show ?thesis
        using task_event(1) push_task_keeps [of a lib fd sid d m] k
        by (cases "push_task lib fd sid d m a") (simp add: run_task_def)
    next
      case (CloseTask fd sid d)
      then show ?thesis using task_event(1) close_task_keeps k by (simp add: run_task_def)
    qed
  next
    case (accept_event cfg ver fcntl_ok add_ok now pending sid e sid')
    obtain w p where a: "a = (w, p)" by (cases a)
    show ?thesis using accept_kept [OF accept_event [unfolded a]] assms(2) by (simp add: a)
  qed
qed

lemma worker_steps_kept:
  assumes "worker_step\<^sup>*\<^sup>* a b" "worker_inv (fst a)"
  shows "worker_inv (fst b) \<and> promises_kept a b"
  using assms
proof (induction rule: rtranclp_induct)
  case base
  then show ?case by (auto simp: promises_kept_def)
next
  case (step y z)
  then have i: "worker_inv (fst y)" "promises_kept a y" by simp_all
  from worker_step_kept [OF step(2) i(1)] i(2) show ?case
    unfolding promises_kept_def by (meson subset_iff)
qed

text \<open>The timer removes what is due.\<close>

lemma timer_scan_expired:
  assumes "timer_scan now ds m = (m', ex, wr)" "fd \<in> keys m" "map_of ds fd = Some t" "t \<le> now"
  shows "fd \<in> set ex"
  using assms
proof (induction now ds m arbitrary: m' ex wr rule: timer_scan.induct)
  case (2 now ds f s m)
  obtain m1 ex1 wr1 where t: "timer_scan now ds m = (m1, ex1, wr1)" by (cases "timer_scan now ds m")
  show ?case
  proof (cases "f = fd")
    case True
    with "2.prems" t show ?thesis by auto
  next
    case False
    with "2.prems"(2) have "fd \<in> keys m" by auto
    with "2.IH" [OF t] "2.prems" t have "fd \<in> set ex1" by simp
    with "2.prems"(1) t show ?thesis by (auto split: option.splits if_splits)
  qed
qed simp

lemma fold_removeSession_owes:
  assumes "fd \<in> set fds"
  shows "\<not> owes (fst (fold removeSession fds wp)) cid fd"
proof -
  have gone: "\<not> owes (fst (fold removeSession fds x)) cid fd" if "\<not> owes (fst x) cid fd" for x fds
    using that
  proof (induction fds arbitrary: x)
    case (Cons f fds)
    have "\<not> owes (fst (removeSession f x)) cid fd"
      using Cons.prems by (cases x) (auto simp: owes_def removeSession_fields split: if_splits)
    then show ?case using Cons.IH by simp
  qed simp
  from assms show ?thesis
  proof (induction fds arbitrary: wp)
    case (Cons f fds)
    show ?case
    proof (cases "f = fd")
      case True
      have "\<not> owes (fst (removeSession fd wp)) cid fd" by (cases wp) (simp add: owes_def removeSession_fields)
      with True gone show ?thesis by simp
    next
      case False
      with Cons show ?thesis by simp
    qed
  qed simp
qed

lemma handleTimer_fulfils:
  assumes inv: "worker_inv (fst wp)" and due: "pending_by cid T (fst wp)" "T \<le> now" and cid: "cid \<in> keys (remaining (fst wp))"
  shows "cid \<in> fulfilled (fst (handleTimer now wp))"
proof -
  obtain w p where wp: "wp = (w, p)" by (cases wp)
  obtain m ex wr where t: "timer_scan now (revoke_deadlines w) (sessions w) = (m, ex, wr)"
    by (cases "timer_scan now (revoke_deadlines w) (sessions w)")
  let ?a = "(w\<lparr>sessions := m\<rparr>, p)" and ?b = "fold removeSession ex (w\<lparr>sessions := m\<rparr>, p)" and ?c = "handleTimer now wp"
  have eq: "?c = fold (\<lambda>fd. setWriteInterest fd True) wr ?b" by (simp add: wp handleTimer_def t)
  have k0: "keeps wp ?a" unfolding wp using timer_scan_identity [OF t] by (intro put_sessions_keeps) auto
  have k1: "keeps ?a ?b" by (rule keeps_fold) (rule removeSession_keeps)
  have k2: "keeps ?b ?c" unfolding eq by (rule keeps_fold) (rule setWriteInterest_keeps)
  have ic: "worker_inv (fst ?c)" using handleTimer_keeps [of wp now] inv by (simp add: keeps_def inv_kept_def)
  have rem: "cid \<in> keys (remaining (fst ?b))"
    using cid keeps_trans [OF k0 k1] by (auto simp: keeps_def promises_kept_def)
  have none: "\<not> owes (fst ?c) cid fd" for fd
  proof
    assume o: "owes (fst ?c) cid fd"
    then have ob: "owes (fst ?b) cid fd" using k2 rem by (auto simp: keeps_def promises_kept_def)
    then have "owes w cid fd" using keeps_trans [OF k0 k1] cid by (auto simp: keeps_def promises_kept_def wp)
    with due inv obtain u where "map_of (revoke_deadlines w) fd = Some u" "u \<le> now" "fd \<in> keys (sessions w)"
      using inv_owes_session [of w cid fd] by (auto simp: pending_by_def wp map_of_eq_None_iff)
    from timer_scan_expired [OF t this(3,1,2)] ob show False using fold_removeSession_owes by blast
  qed
  have wf: "wf_map (close_completions (fst ?c))" using ic by (simp add: worker_inv_def)
  have "pending_count (close_completions (fst ?c)) cid = 0" unfolding pending_count_owes [OF wf] using none by blast
  moreover have "cid \<in> keys (remaining (fst ?c))" using k2 rem by (auto simp: keeps_def promises_kept_def)
  then obtain r where "map_of (remaining (fst ?c)) cid = Some r" by (cases "map_of (remaining (fst ?c)) cid") (auto simp: map_of_eq_None_iff)
  ultimately show ?thesis using ic by (auto simp: worker_inv_def promises_ok_def)
qed

section \<open>All workers together\<close>

type_synonym world = "(nat \<Rightarrow> worker) \<times> WebSocketPool"

inductive world_step :: "world \<Rightarrow> world \<Rightarrow> bool" where
  step_of_worker: "worker_step (ws i, p) (w', p') \<Longrightarrow> world_step (ws, p) (ws(i := w'), p')"

definition world_ok :: "world \<Rightarrow> bool" where
  "world_ok W \<longleftrightarrow> (\<forall>i. wk_id (fst W i) = i \<and> worker_inv (fst W i) \<and> dir_ok (fst W i) (snd W))"

lemma world_step_ok:
  assumes "world_step W W'" "world_ok W"
  shows "world_ok W'"
  using assms(1)
proof cases
  case (step_of_worker ws i p w' p')
  have i: "wk_id (ws i) = i" "worker_inv (ws i)" "dir_ok (ws i) p" using assms(2) step_of_worker(1) by (auto simp: world_ok_def)
  from worker_step_kept [OF step_of_worker(3)] i
  have k: "worker_inv w'" "dir_ok w' p'" "foreign_shrinks (ws i, p) (w', p')" by auto
  have "dir_ok (ws j) p'" if "j \<noteq> i" for j
    using assms(2) k(3) that i(1) unfolding step_of_worker(1)
    by (auto simp: world_ok_def dir_ok_def foreign_shrinks_def)
  with k i assms(2) step_of_worker(1,2) show ?thesis by (auto simp: world_ok_def foreign_shrinks_def)
qed

lemma world_steps_ok: "world_step\<^sup>*\<^sup>* W W' \<Longrightarrow> world_ok W \<Longrightarrow> world_ok W'"
  by (induction rule: rtranclp_induct) (auto intro: world_step_ok)

section \<open>Properties\<close>

text \<open>
  C19. The online directory never lies: from any consistent state, after any interleaving of socket events,
  timers, tasks, revocations and new connections on all workers, every entry of the directory names a live
  session, on the worker it says, with that descriptor, session number, device and user.
\<close>

theorem directory_names_live_sessions:
  assumes "world_ok W" "world_step\<^sup>*\<^sup>* W W'" "online (snd W') d = Some e"
  shows "\<exists>s. map_of (sessions (fst W' (oc_worker e))) (oc_fd e) = Some s \<and> ws_id s = oc_session e \<and>
    ws_device_id s = d \<and> ws_user_id s = oc_user e"
  using world_steps_ok [OF assms(2,1)] assms(3) by (auto simp: world_ok_def dir_ok_def)

definition empty_worker :: "nat \<Rightarrow> worker" where
  "empty_worker i = \<lparr>wk_id = i, sessions = [], closing_sessions = {}, revoke_deadlines = [], close_completions = [],
     remaining = [], fulfilled = {}, wk_epoll = [], net = (\<lambda>_. \<lparr>rx = [], tx = [], wire = ''''\<rparr>), dispatched = [],
     task_queue = [], pending_session_queue = [], wk_uninit = 0\<rparr>"

definition one_session_worker :: worker where
  "one_session_worker = (empty_worker 0)\<lparr>sessions := [(5, sample_session)], wk_epoll := [(5, True, False)]\<rparr>"

definition one_session_pool :: WebSocketPool where
  "one_session_pool = \<lparr>online_connections = [(8, \<lparr>oc_worker = 0, oc_fd = 5, oc_session = 1, oc_user = 7\<rparr>)],
     pool_config = \<lparr>min_capacity = 2, max_task_capacity = 1\<rparr>, worker_count = 2, initialized = True, stopping = False,
     next_worker = 1\<rparr>"

definition sample_world :: world where
  "sample_world = (\<lambda>i. if i = 0 then one_session_worker else empty_worker i, one_session_pool)"

lemma one_session_inv: "worker_inv one_session_worker"
  by (simp add: one_session_worker_def empty_worker_def worker_inv_def promises_ok_def pending_count_def)

lemma sample_world_ok: "world_ok sample_world"
proof -
  have "worker_inv (empty_worker i)" for i
    by (simp add: empty_worker_def worker_inv_def promises_ok_def pending_count_def)
  with one_session_inv show ?thesis
    by (auto simp: world_ok_def sample_world_def dir_ok_def one_session_pool_def online_def one_session_worker_def
        empty_worker_def sample_session_def WebSocketSession_of_def)
qed

theorem directory_names_live_sessions_witness:
  "\<exists>W' s. world_step\<^sup>*\<^sup>* sample_world W' \<and> map_of (sessions (fst W' 0)) 5 = Some s \<and> ws_device_id s = 8"
proof -
  have st: "handleTimer 1 (one_session_worker, one_session_pool) = (one_session_worker, one_session_pool)"
    by (simp add: handleTimer_def one_session_worker_def empty_worker_def PongTimeout_def shouldSendPing_def
        sample_session_def WebSocketSession_of_def heartbeat_interval_def seconds_def)
  define W' where "W' = ((fst sample_world)(0 := one_session_worker), one_session_pool)"
  have "worker_step (fst sample_world 0, one_session_pool) (one_session_worker, one_session_pool)"
    using timer_event [of "(one_session_worker, one_session_pool)" 1] st by (simp add: sample_world_def)
  then have "world_step sample_world W'"
    unfolding W'_def using step_of_worker [of "fst sample_world" 0 one_session_pool one_session_worker one_session_pool]
    by (simp add: sample_world_def)
  then have steps: "world_step\<^sup>*\<^sup>* sample_world W'" by simp
  have "online (snd W') 8 = Some \<lparr>oc_worker = 0, oc_fd = 5, oc_session = 1, oc_user = 7\<rparr>"
    by (simp add: W'_def one_session_pool_def online_def)
  from directory_names_live_sessions [OF sample_world_ok steps this] steps show ?thesis by (intro exI [of _ W']) auto
qed



text \<open>
  C7. A push never reaches another device: a queued push changes no session whose device or session number
  differs from the one it was addressed to, even when the descriptor has been reused in the meantime; and when
  the addressed session is still there and not closing, the push appends exactly one text frame with the
  message to its output.
\<close>

theorem push_reaches_only_its_session:
  assumes "worker_inv w" "map_of (sessions w) fd' = Some s" "dump lib m = Inr text"
  shows "map_of (sessions (fst (snd (push_task lib fd sid d m (w, p))))) fd' =
    Some (if fd' = fd \<and> fd \<notin> closing_sessions w \<and> ws_id s = sid \<and> ws_device_id s = d
          then session_write (FrameEncoder (text_frame text)) s else s)"
proof (cases "task_target fd sid d w")
  case None
  with assms(2) show ?thesis by (auto simp: push_task_def task_target_def split: option.splits if_splits)
next
  case (Some s0)
  then have s0: "map_of (sessions w) fd = Some s0" "fd \<notin> closing_sessions w" "ws_id s0 = sid" "ws_device_id s0 = d"
    by (simp_all add: task_target_Some)
  then have "map_of (wk_epoll w) fd \<noteq> None"
    using assms(1) by (auto simp: worker_inv_def map_of_eq_None_iff dest: map_of_SomeD intro: rev_image_eqI)
  with s0 Some assms(2,3) show ?thesis
    by (auto simp: push_task_def setWriteInterest_def write_frame_def put_session_def)
qed

theorem push_reaches_only_its_session_witness:
  "map_of (sessions (fst (snd (push_task demo_lib 5 1 8 JNull (one_session_worker, one_session_pool))))) 5 =
     Some (session_write (FrameEncoder (text_frame ''{}'')) sample_session)"
  using push_reaches_only_its_session [OF one_session_inv, of 5 sample_session demo_lib JNull "''{}''" 5 1 8 one_session_pool]
  by (simp add: one_session_worker_def empty_worker_def sample_session_def WebSocketSession_of_def)

end
