(* ===== verification/Database.thy ===== *)
theory Database
  imports Prelude
begin

text \<open>
  One PostgreSQL connection (\<^verbatim>\<open>src/src/databases/DatabaseConnection.cpp\<close>, \<^verbatim>\<open>DatabaseConnection.h\<close>): statements,
  transactions and what becomes of both when the server refuses a statement or the network fails.

  libpq and the server are not under \<^verbatim>\<open>src/\<close>.  The content of the database is a type variable \<open>'d\<close>;
  a query is a function on it, written by the repository that sends the SQL text.  A \<open>PGconn\<close> carries the
  status libpq reports and the content to which the server returns when the open transaction ends without a
  commit.  What happens to the \<open>n\<close>-th statement sent is the parameter \<open>net n\<close>: delivered, refused by
  the server with an SQLSTATE, never sent, or lost with the connection before or after the server ran it.  A
  result that libpq makes up itself because the connection broke has no SQLSTATE.
\<close>

section \<open>libpq and the server\<close>

datatype transaction_status = PQTRANS_IDLE | PQTRANS_INTRANS | PQTRANS_INERROR | PQTRANS_UNKNOWN

datatype network =
    Delivered
  | Refused string string
  | NullResult
  | LostBefore
  | LostAfter

record 'd PGconn =
  conn_ok :: bool
  trans :: transaction_status
  before :: 'd

record 'd server =
  tables :: 'd
  sent :: nat

text \<open>The answer to a query: an SQLSTATE with the name of the violated constraint, or rows and the new content.\<close>

type_synonym ('d, 'a) query = "nat \<Rightarrow> 'd \<Rightarrow> (string \<times> string) + ('a \<times> 'd)"

datatype ('d, 'a) statement = Begin 'a | Commit 'a | Rollback 'a | Sql "('d, 'a) query"

datatype 'a pg_result = NoResult | ErrorResult "(string \<times> string) option" | TuplesOk 'a

text \<open>An open transaction that ends without a commit leaves the content as it was before.\<close>

definition in_block :: "'d PGconn \<Rightarrow> bool" where
  "in_block p \<longleftrightarrow> trans p = PQTRANS_INTRANS \<or> trans p = PQTRANS_INERROR"

definition undo :: "'d PGconn \<Rightarrow> 'd \<Rightarrow> 'd" where
  "undo p d = (if in_block p then before p else d)"

definition fail_block :: "'d PGconn \<Rightarrow> 'd PGconn" where
  "fail_block p = (if in_block p then p\<lparr>trans := PQTRANS_INERROR\<rparr> else p)"

fun server_run :: "nat \<Rightarrow> ('d, 'a) statement \<Rightarrow> 'd PGconn \<Rightarrow> 'd \<Rightarrow> 'a pg_result \<times> 'd PGconn \<times> 'd" where
  "server_run n (Begin x) p d =
     (if in_block p then (TuplesOk x, p, d) else (TuplesOk x, p\<lparr>trans := PQTRANS_INTRANS, before := d\<rparr>, d))"
| "server_run n (Commit x) p d =
     (TuplesOk x, p\<lparr>trans := PQTRANS_IDLE\<rparr>, if trans p = PQTRANS_INERROR then before p else d)"
| "server_run n (Rollback x) p d = (TuplesOk x, p\<lparr>trans := PQTRANS_IDLE\<rparr>, undo p d)"
| "server_run n (Sql q) p d =
     (if trans p = PQTRANS_INERROR then (ErrorResult (Some (''25P02'', [])), p, d)
      else case q n d of
             Inl e \<Rightarrow> (ErrorResult (Some e), fail_block p, d)
           | Inr (x, d') \<Rightarrow> (TuplesOk x, p, d'))"

text \<open>A statement the server refuses: a refused \<^verbatim>\<open>COMMIT\<close> or \<^verbatim>\<open>ROLLBACK\<close> ends the transaction, another one fails it.\<close>

fun server_refuse :: "('d, 'a) statement \<Rightarrow> 'd PGconn \<Rightarrow> 'd \<Rightarrow> 'd PGconn \<times> 'd" where
  "server_refuse (Begin x) p d = (p, d)"
| "server_refuse (Commit x) p d = (p\<lparr>trans := PQTRANS_IDLE\<rparr>, undo p d)"
| "server_refuse (Rollback x) p d = (p\<lparr>trans := PQTRANS_IDLE\<rparr>, undo p d)"
| "server_refuse (Sql q) p d = (fail_block p, d)"

definition broken :: "'d PGconn \<Rightarrow> 'd PGconn" where
  "broken p = p\<lparr>conn_ok := False, trans := PQTRANS_UNKNOWN\<rparr>"

definition PQexecParams ::
  "(nat \<Rightarrow> network) \<Rightarrow> ('d, 'a) statement \<Rightarrow> 'd PGconn \<Rightarrow> 'd server \<Rightarrow> 'a pg_result \<times> 'd PGconn \<times> 'd server" where
  "PQexecParams net st p s =
     (let n = sent s; d = tables s; s' = s\<lparr>sent := Suc n\<rparr> in
      case net n of
        Delivered \<Rightarrow> (case server_run n st p d of (r, p', d') \<Rightarrow> (r, p', s'\<lparr>tables := d'\<rparr>))
      | Refused code constraint \<Rightarrow>
          (case server_refuse st p d of (p', d') \<Rightarrow> (ErrorResult (Some (code, constraint)), p', s'\<lparr>tables := d'\<rparr>))
      | NullResult \<Rightarrow> (NoResult, p, s')
      | LostBefore \<Rightarrow> (ErrorResult None, broken p, s'\<lparr>tables := undo p d\<rparr>)
      | LostAfter \<Rightarrow>
          (case server_run n st p d of (r, p', d') \<Rightarrow> (ErrorResult None, broken p', s'\<lparr>tables := undo p' d'\<rparr>)))"

text \<open>\<^verbatim>\<open>PQfinish\<close> closes the connection; the server then drops an open transaction.\<close>

definition PQfinish :: "'d PGconn \<Rightarrow> 'd server \<Rightarrow> 'd server" where
  "PQfinish p s = s\<lparr>tables := undo p (tables s)\<rparr>"

section \<open>The connection class\<close>

record 'd DatabaseConnection =
  pg_connection :: "'d PGconn option"
  error_msg :: string
  last_active_time :: int

type_synonym 'd db_state = "'d DatabaseConnection \<times> 'd server"
type_synonym ('d, 'a) db = "'d db_state \<Rightarrow> 'a result \<times> 'd db_state"

definition db_return :: "'a \<Rightarrow> ('d, 'a) db" where
  "db_return x = (\<lambda>z. (Inr x, z))"

definition db_throw :: "exn \<Rightarrow> ('d, 'a) db" where
  "db_throw e = (\<lambda>z. (Inl e, z))"

definition db_bind :: "('d, 'a) db \<Rightarrow> ('a \<Rightarrow> ('d, 'b) db) \<Rightarrow> ('d, 'b) db" where
  "db_bind m f = (\<lambda>z. case m z of (Inl e, z') \<Rightarrow> (Inl e, z') | (Inr x, z') \<Rightarrow> f x z')"

lemma db_bind_assoc: "db_bind (db_bind f g) h = db_bind f (\<lambda>x. db_bind (g x) h)"
  by (auto simp: db_bind_def fun_eq_iff split: prod.splits sum.splits)

lemma db_bind_return: "db_bind (db_return x) g = g x"
  by (simp add: db_bind_def db_return_def)

lemma db_return_apply: "db_return x z = (Inr x, z)"
  by (simp add: db_return_def)

definition conn_error :: "DatabaseErrorKind \<Rightarrow> string \<Rightarrow> exn" where
  "conn_error k code = DbExn \<lparr>db_kind = k, db_code = code, db_constraint = None\<rparr>"

definition query_error :: "string \<Rightarrow> string \<Rightarrow> exn" where
  "query_error code constraint = DbExn \<lparr>db_kind = Query, db_code = code, db_constraint = Some constraint\<rparr>"

text \<open>\<^verbatim>\<open>connection_.reset()\<close> on the smart pointer: the deleter finishes the connection.\<close>

definition drop_connection :: "'d db_state \<Rightarrow> 'd db_state" where
  "drop_connection z =
     (case pg_connection (fst z) of
        None \<Rightarrow> z
      | Some p \<Rightarrow> ((fst z)\<lparr>pg_connection := None\<rparr>, PQfinish p (snd z)))"

text \<open>The constructor: \<^verbatim>\<open>PQconnectdb\<close> may return no object, or one that is not connected.\<close>

definition DatabaseConnection_of :: "(nat \<Rightarrow> network) \<Rightarrow> 'd server \<Rightarrow> 'd DatabaseConnection result \<times> 'd server" where
  "DatabaseConnection_of net s =
     (let n = sent s; s' = s\<lparr>sent := Suc n\<rparr> in
      case net n of
        NullResult \<Rightarrow> (Inl (conn_error Connection ''ALLOCATION_FAILED''), s')
      | Delivered \<Rightarrow>
          (Inr \<lparr>pg_connection = Some \<lparr>conn_ok = True, trans = PQTRANS_IDLE, before = tables s\<rparr>,
                error_msg = [], last_active_time = 0\<rparr>, s')
      | _ \<Rightarrow> (Inl (conn_error Connection ''CONNECTION_FAILED''), s'))"

definition setLastActiveTime :: "int \<Rightarrow> 'd DatabaseConnection \<Rightarrow> 'd DatabaseConnection" where
  "setLastActiveTime now c = c\<lparr>last_active_time := now\<rparr>"

definition isAlive :: "'d DatabaseConnection \<Rightarrow> bool" where
  "isAlive c \<longleftrightarrow> (case pg_connection c of None \<Rightarrow> False | Some p \<Rightarrow> conn_ok p)"

definition requireConnection :: "('d, unit) db" where
  "requireConnection z =
     (case pg_connection (fst z) of
        None \<Rightarrow> (Inl (conn_error Connection ''CONNECTION_UNAVAILABLE''), z)
      | Some p \<Rightarrow>
          if conn_ok p then (Inr (), z)
          else (Inl (conn_error Connection ''CONNECTION_FAILED''), drop_connection z))"

definition send_statement :: "(nat \<Rightarrow> network) \<Rightarrow> ('d, 'a) statement \<Rightarrow> ('d, 'a) db" where
  "send_statement net st z =
     (case pg_connection (fst z) of
        None \<Rightarrow> (Inl (conn_error Connection ''CONNECTION_UNAVAILABLE''), z)
      | Some p \<Rightarrow>
          (case PQexecParams net st p (snd z) of
             (r, p', s') \<Rightarrow>
               ((case r of
                   NoResult \<Rightarrow> Inl (conn_error Query ''NULL_RESULT'')
                 | ErrorResult None \<Rightarrow> Inl (query_error ''QUERY_FAILED'' [])
                 | ErrorResult (Some (code, constraint)) \<Rightarrow> Inl (query_error code constraint)
                 | TuplesOk x \<Rightarrow> Inr x),
                (fst z)\<lparr>pg_connection := Some p'\<rparr>, s')))"

definition execute :: "(nat \<Rightarrow> network) \<Rightarrow> ('d, 'a) statement \<Rightarrow> ('d, 'a) db" where
  "execute net st = db_bind requireConnection (\<lambda>_. send_statement net st)"

definition trans_status :: "'d db_state \<Rightarrow> transaction_status" where
  "trans_status z = (case pg_connection (fst z) of None \<Rightarrow> PQTRANS_UNKNOWN | Some p \<Rightarrow> trans p)"

definition beginTransaction :: "(nat \<Rightarrow> network) \<Rightarrow> ('d, unit) db" where
  "beginTransaction net = db_bind requireConnection (\<lambda>_ z.
     if trans_status z \<noteq> PQTRANS_IDLE then (Inl (query_error ''TRANSACTION_NOT_IDLE'' []), z)
     else case execute net (Begin ()) z of
            (Inl e, z') \<Rightarrow> (Inl e, drop_connection z')
          | (Inr _, z') \<Rightarrow> (Inr (), z'))"

definition commitTransaction :: "(nat \<Rightarrow> network) \<Rightarrow> ('d, unit) db" where
  "commitTransaction net = db_bind requireConnection (\<lambda>_ z.
     if trans_status z \<noteq> PQTRANS_INTRANS then (Inl (query_error ''TRANSACTION_NOT_COMMITTABLE'' []), z)
     else execute net (Commit ()) z)"

definition rollbackTransactionNoThrow :: "(nat \<Rightarrow> network) \<Rightarrow> 'd db_state \<Rightarrow> 'd db_state" where
  "rollbackTransactionNoThrow net z =
     (if pg_connection (fst z) = None then z
      else case execute net (Rollback ()) z of
             (Inl e, z') \<Rightarrow> drop_connection z'
           | (Inr _, z') \<Rightarrow>
               if \<not> isAlive (fst z') \<or> trans_status z' \<noteq> PQTRANS_IDLE then drop_connection z' else z')"

definition withTransaction :: "(nat \<Rightarrow> network) \<Rightarrow> ('d, 'a) db \<Rightarrow> ('d, 'a) db" where
  "withTransaction net operation = db_bind (beginTransaction net) (\<lambda>_ z.
     case db_bind operation (\<lambda>x. db_bind (commitTransaction net) (\<lambda>_. db_return x)) z of
       (Inl e, z') \<Rightarrow> (Inl e, rollbackTransactionNoThrow net z')
     | (Inr x, z') \<Rightarrow> (Inr x, z'))"

text \<open>\<^verbatim>\<open>close\<close> and \<^verbatim>\<open>reset\<close>, which the pool calls before it takes a connection back.\<close>

definition db_close :: "int \<Rightarrow> 'd db_state \<Rightarrow> 'd db_state" where
  "db_close now z =
     (if pg_connection (fst z) = None then z
      else (case drop_connection z of (c, s) \<Rightarrow> (setLastActiveTime now c, s)))"

definition db_reset :: "(nat \<Rightarrow> network) \<Rightarrow> int \<Rightarrow> 'd db_state \<Rightarrow> bool \<times> 'd db_state" where
  "db_reset net now z =
     (if \<not> isAlive (fst z) then (False, db_close now z)
      else if trans_status z \<in> {PQTRANS_IDLE, PQTRANS_INTRANS, PQTRANS_INERROR} then
        (let z' = (if trans_status z = PQTRANS_IDLE then z else rollbackTransactionNoThrow net z) in
         if \<not> isAlive (fst z') \<or> trans_status z' \<noteq> PQTRANS_IDLE then (False, db_close now z')
         else (True, setLastActiveTime now ((fst z')\<lparr>error_msg := []\<rparr>), snd z'))
      else (False, db_close now z))"

section \<open>Transactions are atomic\<close>

text \<open>
  The states of a connection around a transaction: ready for one, inside one that began at content \<open>b\<close>, and
  after one that can no longer commit.
\<close>

definition idle :: "'d db_state \<Rightarrow> bool" where
  "idle z \<longleftrightarrow> (case pg_connection (fst z) of None \<Rightarrow> False | Some p \<Rightarrow> conn_ok p \<and> trans p = PQTRANS_IDLE)"

definition in_tx :: "'d \<Rightarrow> 'd db_state \<Rightarrow> bool" where
  "in_tx b z \<longleftrightarrow>
     (case pg_connection (fst z) of
        None \<Rightarrow> False
      | Some p \<Rightarrow> conn_ok p \<and> trans p = PQTRANS_INTRANS \<and> before p = b)"

definition aborted :: "'d \<Rightarrow> 'd db_state \<Rightarrow> bool" where
  "aborted b z \<longleftrightarrow>
     (case pg_connection (fst z) of
        None \<Rightarrow> tables (snd z) = b
      | Some p \<Rightarrow> if conn_ok p then trans p = PQTRANS_INERROR \<and> before p = b
                  else trans p = PQTRANS_UNKNOWN \<and> tables (snd z) = b)"

text \<open>The connection a finished transaction leaves: ready for the next one, or given up.\<close>

definition settled :: "'d db_state \<Rightarrow> bool" where
  "settled z \<longleftrightarrow> pg_connection (fst z) = None \<or> idle z"

named_theorems db_defs \<open>the connection's operations and states\<close>

lemmas [db_defs] = db_bind_def db_return_def db_throw_def requireConnection_def send_statement_def execute_def
  trans_status_def drop_connection_def PQfinish_def isAlive_def

lemmas [db_defs] = idle_def in_tx_def aborted_def settled_def PQexecParams_def Let_def undo_def in_block_def
  fail_block_def broken_def

text \<open>What a transaction's body does to the content when it returns, statement by statement.\<close>

definition tx_spec :: "('d, 'a) db \<Rightarrow> ('d \<Rightarrow> 'a \<Rightarrow> 'd \<Rightarrow> bool) \<Rightarrow> bool" where
  "tx_spec f R \<longleftrightarrow>
     (\<forall>b z. in_tx b z \<longrightarrow>
        (case f z of
           (Inl e, z') \<Rightarrow> in_tx b z' \<or> aborted b z'
         | (Inr x, z') \<Rightarrow> in_tx b z' \<and> R (tables (snd z)) x (tables (snd z'))))"

lemma tx_spec_apply:
  assumes "tx_spec f R" "in_tx b z" "f z = (r, z')"
  shows "case r of Inl e \<Rightarrow> in_tx b z' \<or> aborted b z'
    | Inr x \<Rightarrow> in_tx b z' \<and> R (tables (snd z)) x (tables (snd z'))"
  using assms(1) [unfolded tx_spec_def, rule_format, OF assms(2)] assms(3) by simp

lemma tx_spec_return [intro]: "R' \<equiv> (\<lambda>d y d'. y = x \<and> d' = d) \<Longrightarrow> tx_spec (db_return x) R'"
  by (simp add: tx_spec_def db_return_def)

lemma tx_spec_throw [intro]: "tx_spec (db_throw e) R"
  by (simp add: tx_spec_def db_throw_def)

lemma tx_spec_weaken: "tx_spec f R \<Longrightarrow> (\<And>d x d'. R d x d' \<Longrightarrow> R' d x d') \<Longrightarrow> tx_spec f R'"
  by (fastforce simp: tx_spec_def split: sum.splits prod.splits)

lemma tx_spec_bind:
  assumes f: "tx_spec f R" and g: "\<And>x. tx_spec (g x) (S x)"
  shows "tx_spec (db_bind f g) (\<lambda>d y d'. \<exists>x u. R d x u \<and> S x u y d')"
proof -
  have "case db_bind f g z of
           (Inl e, z') \<Rightarrow> in_tx b z' \<or> aborted b z'
         | (Inr y, z') \<Rightarrow> in_tx b z' \<and> (\<exists>x u. R (tables (snd z)) x u \<and> S x u y (tables (snd z')))"
    if z: "in_tx b z" for b z
  proof (cases "f z" rule: prod.exhaust)
    case (Pair r z1)
    with f z have r: "case r of Inl e \<Rightarrow> in_tx b z1 \<or> aborted b z1
        | Inr x \<Rightarrow> in_tx b z1 \<and> R (tables (snd z)) x (tables (snd z1))"
      by (rule tx_spec_apply)
    show ?thesis
    proof (cases r)
      case (Inr x)
      obtain r2 z2 where gz: "g x z1 = (r2, z2)" by (cases "g x z1" rule: prod.exhaust)
      from r Inr have "in_tx b z1" by simp
      from tx_spec_apply [OF g this gz] r Inr Pair gz show ?thesis
        by (cases r2) (auto simp: db_bind_def)
    qed (use r Pair in \<open>simp add: db_bind_def\<close>)
  qed
  then show ?thesis by (simp add: tx_spec_def)
qed

lemma tx_spec_sql: "tx_spec (execute net (Sql q)) (\<lambda>d x d'. \<exists>n. q n d = Inr (x, d'))"
  unfolding tx_spec_def
proof (intro allI impI)
  fix b and z :: "'a db_state"
  assume "in_tx b z"
  then obtain p where p: "pg_connection (fst z) = Some p" "conn_ok p" "trans p = PQTRANS_INTRANS" "before p = b"
    by (auto simp: in_tx_def split: option.splits)
  then show "case execute net (Sql q) z of
           (Inl e, z') \<Rightarrow> in_tx b z' \<or> aborted b z'
         | (Inr x, z') \<Rightarrow> in_tx b z' \<and> (\<exists>n. q n (tables (snd z)) = Inr (x, tables (snd z')))"
    by (cases "net (sent (snd z))"; cases "q (sent (snd z)) (tables (snd z))") (auto simp: db_defs)
qed

lemma begin_idle:
  assumes "idle z"
  shows "case beginTransaction net z of
           (Inl e, z') \<Rightarrow> pg_connection (fst z') = None \<and> tables (snd z') = tables (snd z)
         | (Inr _, z') \<Rightarrow> in_tx (tables (snd z)) z' \<and> tables (snd z') = tables (snd z)"
  using assms
  by (cases "net (sent (snd z))") (auto simp: beginTransaction_def db_defs split: option.splits)

text \<open>What \<open>execute\<close> throws when the connection breaks: the result of libpq has no SQLSTATE.\<close>

definition answer_lost :: exn where
  "answer_lost = query_error ''QUERY_FAILED'' []"

lemma commit_in_tx:
  assumes "in_tx b z"
  shows "case commitTransaction net z of
           (Inl e, z') \<Rightarrow> in_tx b z' \<or> (settled z' \<and> tables (snd z') = b) \<or> aborted b z' \<or>
             (aborted (tables (snd z)) z' \<and> e = answer_lost)
         | (Inr _, z') \<Rightarrow> idle z' \<and> tables (snd z') = tables (snd z)"
  using assms
  by (cases "net (sent (snd z))") (auto simp: commitTransaction_def answer_lost_def db_defs split: option.splits)

lemma rollback_settles:
  assumes "in_tx b z \<or> aborted b z \<or> (settled z \<and> tables (snd z) = b)"
  shows "settled (rollbackTransactionNoThrow net z) \<and> tables (snd (rollbackTransactionNoThrow net z)) = b"
  using assms
  by (cases "net (sent (snd z))") (auto simp: rollbackTransactionNoThrow_def db_defs split: option.splits if_splits)

text \<open>
  Whatever the network and the server do, the body's effect is committed in full or not at all, and the
  connection is ready for another transaction or given up.  An exception can come with a committed body only when the
  answer to the commit was lost.
\<close>

lemma withTransaction_atomic:
  assumes f: "tx_spec f R" and z: "idle z"
  shows "case withTransaction net f z of
           (Inr x, z') \<Rightarrow> idle z' \<and> R (tables (snd z)) x (tables (snd z'))
         | (Inl e, z') \<Rightarrow> settled z' \<and>
             (tables (snd z') = tables (snd z) \<or> (e = answer_lost \<and> (\<exists>x. R (tables (snd z)) x (tables (snd z')))))"
proof (cases "beginTransaction net z" rule: prod.exhaust)
  case (Pair r z1)
  let ?b = "tables (snd z)"
  show ?thesis
  proof (cases r)
    case (Inl e)
    with Pair begin_idle [OF z, of net] show ?thesis
      by (simp add: withTransaction_def db_bind_def settled_def)
  next
    case (Inr x)
    with Pair begin_idle [OF z, of net] have z1: "in_tx ?b z1" "tables (snd z1) = ?b" by simp_all
    obtain r2 z2 where fz: "f z1 = (r2, z2)" by (cases "f z1" rule: prod.exhaust)
    show ?thesis
    proof (cases r2)
      case (Inl e)
      with tx_spec_apply [OF f z1(1) fz] have "in_tx ?b z2 \<or> aborted ?b z2" by simp
      with rollback_settles [of ?b z2 net] show ?thesis
        by (auto simp: withTransaction_def db_bind_def Pair \<open>r = Inr x\<close> fz Inl)
    next
      case (Inr y)
      with tx_spec_apply [OF f z1(1) fz] z1(2) have z2: "in_tx ?b z2" "R ?b y (tables (snd z2))" by simp_all
      obtain r3 z3 where cz: "commitTransaction net z2 = (r3, z3)" by (cases "commitTransaction net z2" rule: prod.exhaust)
      show ?thesis
      proof (cases r3)
        case (Inl e)
        with commit_in_tx [OF z2(1), of net] cz
        have "(in_tx ?b z3 \<or> aborted ?b z3 \<or> (settled z3 \<and> tables (snd z3) = ?b)) \<or>
            (aborted (tables (snd z2)) z3 \<and> e = answer_lost)"
          by auto
        then have "settled (rollbackTransactionNoThrow net z3) \<and>
            (tables (snd (rollbackTransactionNoThrow net z3)) = ?b \<or>
             (e = answer_lost \<and> tables (snd (rollbackTransactionNoThrow net z3)) = tables (snd z2)))"
          using rollback_settles [of ?b z3 net] rollback_settles [of "tables (snd z2)" z3 net] by blast
        with z2(2) show ?thesis
          by (auto simp: withTransaction_def db_bind_def db_return_def Pair \<open>r = Inr x\<close> fz Inr cz Inl)
      next
        case (Inr u)
        with commit_in_tx [OF z2(1), of net] cz z2(2) show ?thesis
          by (simp add: withTransaction_def db_bind_def db_return_def Pair \<open>r = Inr x\<close> fz \<open>r2 = Inr y\<close>)
      qed
    qed
  qed
qed

section \<open>Reading a transaction's body\<close>

text \<open>
  The runs of a body: what it can return from content \<open>d\<close>, and with which content.  A body built from statements,
  \<open>db_return\<close>, \<open>db_throw\<close> and \<open>db_bind\<close> is safe, and its runs are those of its parts.
\<close>

definition tx_safe :: "('d, 'a) db \<Rightarrow> bool" where
  "tx_safe f \<longleftrightarrow> tx_spec f (\<lambda>_ _ _. True)"

definition tx_runs :: "('d, 'a) db \<Rightarrow> 'd \<Rightarrow> 'a \<Rightarrow> 'd \<Rightarrow> bool" where
  "tx_runs f d x d' \<longleftrightarrow> (\<exists>b z z'. in_tx b z \<and> tables (snd z) = d \<and> f z = (Inr x, z') \<and> tables (snd z') = d')"

lemma tx_safe_return [simp, intro]: "tx_safe (db_return x)"
  by (simp add: tx_safe_def tx_spec_def db_return_def)

lemma tx_safe_throw [simp, intro]: "tx_safe (db_throw e)"
  by (simp add: tx_safe_def tx_spec_throw)

lemma tx_safe_sql [simp, intro]: "tx_safe (execute net (Sql q))"
  unfolding tx_safe_def by (rule tx_spec_weaken [OF tx_spec_sql]) simp

lemma tx_safe_bind [intro]: "tx_safe f \<Longrightarrow> (\<And>x. tx_safe (g x)) \<Longrightarrow> tx_safe (db_bind f g)"
  unfolding tx_safe_def by (rule tx_spec_weaken [OF tx_spec_bind]) auto

lemma tx_safe_if [intro]: "tx_safe f \<Longrightarrow> tx_safe g \<Longrightarrow> tx_safe (if c then f else g)"
  by simp

lemma tx_spec_runs:
  assumes "tx_safe f"
  shows "tx_spec f (tx_runs f)"
proof -
  have "case f z of (Inl e, z') \<Rightarrow> in_tx b z' \<or> aborted b z'
      | (Inr x, z') \<Rightarrow> in_tx b z' \<and> tx_runs f (tables (snd z)) x (tables (snd z'))" if z: "in_tx b z" for b z
  proof (cases "f z" rule: prod.exhaust)
    case (Pair r z')
    have "tx_runs f (tables (snd z)) x (tables (snd z'))" if "r = Inr x" for x
      unfolding tx_runs_def using Pair z that by blast
    with tx_spec_apply [OF assms [unfolded tx_safe_def] z Pair] Pair show ?thesis
      by (cases r) auto
  qed
  then show ?thesis by (simp add: tx_spec_def)
qed

lemma tx_runs_return [simp]: "tx_runs (db_return y) d x d' \<longleftrightarrow> x = y \<and> d' = d"
proof
  assume "x = y \<and> d' = d"
  moreover let ?z = "(\<lparr>pg_connection = Some \<lparr>conn_ok = True, trans = PQTRANS_INTRANS, before = d\<rparr>,
    error_msg = [], last_active_time = 0\<rparr>, \<lparr>tables = d, sent = 0\<rparr>)"
  have "in_tx d ?z" "tables (snd ?z) = d" by (simp_all add: in_tx_def)
  ultimately show "tx_runs (db_return y) d x d'"
    unfolding tx_runs_def db_return_def by blast
qed (auto simp: tx_runs_def db_return_def)

lemma tx_runs_throw [simp]: "\<not> tx_runs (db_throw e) d x d'"
  by (simp add: tx_runs_def db_throw_def)

lemma tx_runs_sql: "tx_runs (execute net (Sql q)) d x d' \<Longrightarrow> \<exists>n. q n d = Inr (x, d')"
  using tx_spec_apply [OF tx_spec_sql] unfolding tx_runs_def by fastforce

lemma tx_runs_bind:
  assumes "tx_runs (db_bind f g) d x d'" "tx_safe f"
  shows "\<exists>y u. tx_runs f d y u \<and> tx_runs (g y) u x d'"
proof -
  from assms(1) obtain b z z' where z: "in_tx b z" "tables (snd z) = d" "db_bind f g z = (Inr x, z')" "tables (snd z') = d'"
    by (auto simp: tx_runs_def)
  obtain r z1 where f: "f z = (r, z1)" by (cases "f z" rule: prod.exhaust)
  with z(3) obtain y where y: "r = Inr y" "g y z1 = (Inr x, z')" by (cases r) (auto simp: db_bind_def)
  with tx_spec_apply [OF assms(2) [unfolded tx_safe_def] z(1) f] have "in_tx b z1" by simp
  with z f y have "tx_runs f d y (tables (snd z1))" "tx_runs (g y) (tables (snd z1)) x d'"
    unfolding tx_runs_def by blast+
  then show ?thesis by blast
qed

lemma tx_runs_sql_bind:
  assumes "tx_runs (db_bind (execute net (Sql q)) g) d x d'"
  shows "\<exists>n y u. q n d = Inr (y, u) \<and> tx_runs (g y) u x d'"
  using tx_runs_bind [OF assms] tx_runs_sql [of net q d] by fastforce

section \<open>A transaction that sends a list of statements\<close>

type_synonym 'd update = "'d \<Rightarrow> (string \<times> string) + 'd"

fun run_all :: "(nat \<Rightarrow> network) \<Rightarrow> 'd update list \<Rightarrow> ('d, unit) db" where
  "run_all net [] = db_return ()"
| "run_all net (q # qs) =
     db_bind (execute net (Sql (\<lambda>n d. case q d of Inl e \<Rightarrow> Inl e | Inr d' \<Rightarrow> Inr ((), d')))) (\<lambda>_. run_all net qs)"

fun apply_all :: "'d update list \<Rightarrow> 'd \<Rightarrow> 'd option" where
  "apply_all [] d = Some d"
| "apply_all (q # qs) d = (case q d of Inl e \<Rightarrow> None | Inr d' \<Rightarrow> apply_all qs d')"

lemma run_all_spec: "tx_spec (run_all net qs) (\<lambda>d x d'. apply_all qs d = Some d')"
proof (induction qs)
  case Nil
  then show ?case by (simp add: tx_spec_def db_return_def)
next
  case (Cons q qs)
  show ?case
    unfolding run_all.simps
    by (rule tx_spec_weaken [OF tx_spec_bind [OF tx_spec_sql Cons]]) (auto split: sum.splits)
qed

text \<open>With nothing lost and nothing refused a body that always has a result to return commits it.\<close>

definition tx_total :: "('d, 'a) db \<Rightarrow> 'd \<Rightarrow> bool" where
  "tx_total f d \<longleftrightarrow>
     (\<forall>b c s. in_tx b (c, s) \<and> tables s = d \<longrightarrow>
        (\<exists>x d' k. f (c, s) = (Inr x, c, s\<lparr>sent := k, tables := d'\<rparr>)))"

lemma in_tx_server: "in_tx b (c, s) = in_tx b (c, s')"
  by (simp add: in_tx_def)

lemma tx_total_return [simp, intro]: "tx_total (db_return x) d"
  unfolding tx_total_def db_return_def
proof (intro allI impI)
  fix b c s
  show "\<exists>y d' k. (Inr x, c, s) = (Inr y, c, s\<lparr>sent := k, tables := d'\<rparr>)"
    by (rule exI [of _ x], rule exI [of _ "tables s"], rule exI [of _ "sent s"]) simp
qed

lemma tx_total_apply:
  assumes "tx_total f d" "in_tx b (c, s)" "tables s = d"
  shows "\<exists>x d' k. f (c, s) = (Inr x, c, s\<lparr>sent := k, tables := d'\<rparr>)"
  using assms unfolding tx_total_def by blast

lemma tx_total_sql:
  assumes "\<And>n. net n = Delivered" "\<And>n. \<exists>x d'. q n d = Inr (x, d')"
  shows "tx_total (execute net (Sql q)) d"
proof -
  have "\<exists>x d' k. execute net (Sql q) (c, s) = (Inr x, c, s\<lparr>sent := k, tables := d'\<rparr>)"
    if z: "in_tx b (c, s)" "tables s = d" for b c s
  proof -
    obtain x d' where "q (sent s) d = Inr (x, d')" using assms(2) by blast
    then have "execute net (Sql q) (c, s) = (Inr x, c, s\<lparr>sent := Suc (sent s), tables := d'\<rparr>)"
      using z assms(1) by (cases "pg_connection c") (auto simp: db_defs)
    then show ?thesis by blast
  qed
  then show ?thesis by (auto simp: tx_total_def)
qed

lemma tx_total_bind:
  assumes f: "tx_total f d" and g: "\<And>y u. tx_runs f d y u \<Longrightarrow> tx_total (g y) u"
  shows "tx_total (db_bind f g) d"
proof -
  have "\<exists>x d' k. db_bind f g (c, s) = (Inr x, c, s\<lparr>sent := k, tables := d'\<rparr>)"
    if z: "in_tx b (c, s)" "tables s = d" for b c s
  proof -
    obtain y u k where y: "f (c, s) = (Inr y, c, s\<lparr>sent := k, tables := u\<rparr>)" using tx_total_apply [OF f z] by blast
    with z have "tx_runs f d y u" unfolding tx_runs_def
      by (intro exI [of _ b] exI [of _ "(c, s)"] exI [of _ "(c, s\<lparr>sent := k, tables := u\<rparr>)"]) simp
    from tx_total_apply [OF g [OF this], of b c "s\<lparr>sent := k, tables := u\<rparr>"] z obtain x d' m where
      "g y (c, s\<lparr>sent := k, tables := u\<rparr>) = (Inr x, c, s\<lparr>sent := m, tables := d'\<rparr>)"
      using in_tx_server [of b c s "s\<lparr>sent := k, tables := u\<rparr>"] by auto
    with y show ?thesis by (auto simp: db_bind_def)
  qed
  then show ?thesis by (auto simp: tx_total_def)
qed

lemma tx_total_sql_bind:
  assumes "\<And>n. net n = Delivered" "\<And>n. \<exists>x d'. q n d = Inr (x, d')" "\<And>n y u. q n d = Inr (y, u) \<Longrightarrow> tx_total (g y) u"
  shows "tx_total (db_bind (execute net (Sql q)) g) d"
  by (rule tx_total_bind, rule tx_total_sql) (auto dest!: tx_runs_sql intro: assms)

lemma run_all_total:
  assumes net: "\<And>n. net n = Delivered"
  shows "apply_all qs d \<noteq> None \<Longrightarrow> tx_total (run_all net qs) d"
proof (induction qs arbitrary: d)
  case (Cons q qs)
  then obtain u where "q d = Inr u" "apply_all qs u \<noteq> None" by (auto split: sum.splits)
  with Cons.IH show ?case unfolding run_all.simps by (intro tx_total_sql_bind [of net, OF net]) auto
qed simp

lemma withTransaction_total:
  assumes net: "\<And>n. net n = Delivered" and z: "idle z" and f: "tx_total f (tables (snd z))"
  shows "\<exists>x z'. withTransaction net f z = (Inr x, z')"
proof -
  obtain c s p where z': "z = (c, s)" "pg_connection c = Some p" "conn_ok p" "trans p = PQTRANS_IDLE"
    using z by (cases z) (auto simp: idle_def split: option.splits)
  let ?c = "c\<lparr>pg_connection := Some (p\<lparr>trans := PQTRANS_INTRANS, before := tables s\<rparr>)\<rparr>"
  let ?s = "s\<lparr>sent := Suc (sent s)\<rparr>"
  have b: "beginTransaction net z = (Inr (), ?c, ?s)"
    using z' net by (simp add: beginTransaction_def db_defs)
  have "in_tx (tables s) (?c, ?s)" using z' by (simp add: in_tx_def)
  then obtain x d k where k: "f (?c, ?s) = (Inr x, ?c, ?s\<lparr>sent := k, tables := d\<rparr>)"
    using tx_total_apply [OF f, of "tables s" ?c ?s] z' by auto
  have "\<exists>z2. commitTransaction net (?c, s\<lparr>sent := k, tables := d\<rparr>) = (Inr (), z2)"
    using z' net by (simp add: commitTransaction_def db_defs)
  then show ?thesis
    unfolding withTransaction_def db_bind_def db_return_def b using k by auto
qed

text \<open>Step by step on an open transaction: one delivered statement, and a commit whose answer is lost.\<close>

definition open_tx :: "'d DatabaseConnection \<Rightarrow> bool" where
  "open_tx c \<longleftrightarrow> (case pg_connection c of None \<Rightarrow> False | Some p \<Rightarrow> conn_ok p \<and> trans p = PQTRANS_INTRANS)"

lemma execute_step:
  assumes "open_tx c" "net (sent s) = Delivered" "q (sent s) (tables s) = Inr (y, u)"
  shows "db_bind (execute net (Sql q)) g (c, s) = g y (c, s\<lparr>sent := Suc (sent s), tables := u\<rparr>)"
  using assms by (cases c) (auto simp: open_tx_def db_defs split: option.splits)

lemma commit_answer_lost:
  assumes z: "pg_connection c = Some p" "conn_ok p" "trans p = PQTRANS_IDLE" and b: "net (sent s) = Delivered"
    and f: "f (c\<lparr>pg_connection := Some (p\<lparr>trans := PQTRANS_INTRANS, before := tables s\<rparr>)\<rparr>, s\<lparr>sent := Suc (sent s)\<rparr>) =
      (Inr x, c\<lparr>pg_connection := Some (p\<lparr>trans := PQTRANS_INTRANS, before := tables s\<rparr>)\<rparr>, s\<lparr>sent := k, tables := d\<rparr>)"
    and l: "net k = LostAfter"
  shows "withTransaction net f (c, s) = (Inl answer_lost, c\<lparr>pg_connection := None\<rparr>, s\<lparr>sent := Suc k, tables := d\<rparr>)"
proof -
  have "beginTransaction net (c, s) = (Inr (), c\<lparr>pg_connection := Some (p\<lparr>trans := PQTRANS_INTRANS, before := tables s\<rparr>)\<rparr>,
      s\<lparr>sent := Suc (sent s)\<rparr>)"
    using z b by (simp add: beginTransaction_def db_defs)
  moreover have "commitTransaction net (c\<lparr>pg_connection := Some (p\<lparr>trans := PQTRANS_INTRANS, before := tables s\<rparr>)\<rparr>,
      s\<lparr>sent := k, tables := d\<rparr>) =
      (Inl answer_lost, c\<lparr>pg_connection := Some (broken (p\<lparr>trans := PQTRANS_IDLE, before := tables s\<rparr>))\<rparr>, s\<lparr>sent := Suc k, tables := d\<rparr>)"
    using z l by (simp add: commitTransaction_def answer_lost_def db_defs)
  ultimately show ?thesis
    using f by (simp add: withTransaction_def db_bind_def rollbackTransactionNoThrow_def execute_def requireConnection_def
        drop_connection_def PQfinish_def undo_def in_block_def broken_def)
qed

text \<open>
  C9. A transaction of any number of statements over an idle connection is all or nothing, whatever the server
  refuses and the network loses.  When it returns, every statement's effect is committed and the connection is idle.
  When it throws, the content is what it was before or, if only the answer to the commit was lost, the result of all
  statements; the connection is then idle or given up, never inside a transaction.  With nothing refused or lost it
  returns.
\<close>

theorem transaction_all_or_nothing:
  assumes "idle z"
  shows "(case withTransaction net (run_all net qs) z of
            (Inr _, z') \<Rightarrow> idle z' \<and> apply_all qs (tables (snd z)) = Some (tables (snd z'))
          | (Inl e, z') \<Rightarrow> settled z' \<and>
              (tables (snd z') = tables (snd z) \<or>
               (e = answer_lost \<and> apply_all qs (tables (snd z)) = Some (tables (snd z'))))) \<and>
         ((\<forall>n. net n = Delivered) \<and> apply_all qs (tables (snd z)) \<noteq> None \<longrightarrow>
            (\<exists>z'. withTransaction net (run_all net qs) z = (Inr (), z')))"
proof (intro conjI impI)
  show "case withTransaction net (run_all net qs) z of
            (Inr _, z') \<Rightarrow> idle z' \<and> apply_all qs (tables (snd z)) = Some (tables (snd z'))
          | (Inl e, z') \<Rightarrow> settled z' \<and>
              (tables (snd z') = tables (snd z) \<or>
               (e = answer_lost \<and> apply_all qs (tables (snd z)) = Some (tables (snd z'))))"
    using withTransaction_atomic [OF run_all_spec [of net qs] assms, of net] by (auto split: sum.splits prod.splits)
next
  assume a: "(\<forall>n. net n = Delivered) \<and> apply_all qs (tables (snd z)) \<noteq> None"
  then show "\<exists>z'. withTransaction net (run_all net qs) z = (Inr (), z')"
    using withTransaction_total [of net, OF _ assms run_all_total [of net]] by simp
qed

definition sample_connection :: "int DatabaseConnection" where
  "sample_connection =
     \<lparr>pg_connection = Some \<lparr>conn_ok = True, trans = PQTRANS_IDLE, before = 0\<rparr>, error_msg = [], last_active_time = 0\<rparr>"

theorem transaction_all_or_nothing_witness:
  "\<exists>z'. withTransaction (\<lambda>_. Delivered) (run_all (\<lambda>_. Delivered) [\<lambda>d. Inr (d + 1), \<lambda>d. Inr (d * 2)])
          (sample_connection, \<lparr>tables = 5, sent = 0\<rparr>) = (Inr (), z') \<and> idle z' \<and> tables (snd z') = 12"
proof -
  let ?z = "(sample_connection, \<lparr>tables = 5, sent = 0\<rparr>)"
  have "idle ?z" by (simp add: idle_def sample_connection_def)
  from transaction_all_or_nothing [OF this, where net = "\<lambda>_. Delivered" and qs = "[\<lambda>d. Inr (d + 1), \<lambda>d. Inr (d * 2)]"]
  show ?thesis by auto
qed

end
