(* ===== verification/Db_Pool.thy ===== *)
theory Db_Pool
  imports Database
begin

text \<open>
  The connection pool (\<^verbatim>\<open>src/src/databases/DatabasePool.cpp\<close>) and the scoped lease
  (\<^verbatim>\<open>include/databases/ConnectionLease.h\<close>).  Every critical section of the pool's mutex is one definition;
  \<^verbatim>\<open>getConnection\<close> has two, because it connects with the lock released.  A wait on the condition variable is
  modelled at the moment it ends: with its predicate true, or false after the timeout.  Threads are then sequences of
  these sections in any order (\<open>pool_step\<close>).
\<close>

section \<open>State\<close>

record DatabasePoolConfig =
  min_connections :: int
  max_connections :: int
  acquire_time :: int
  idle_time :: int
  check_interval :: int

record 'd DatabasePool =
  config_of :: DatabasePoolConfig
  DatabaseURL :: string
  idle_queue :: "'d DatabaseConnection list"
  total_connections :: int
  is_running :: bool
  initialized :: bool

section \<open>Operations\<close>

text \<open>\<^verbatim>\<open>init\<close>: the first failing connection throws and leaves the pool unchanged but for the URL and the configuration.\<close>

fun connect_many :: "(nat \<Rightarrow> network) \<Rightarrow> int \<Rightarrow> nat \<Rightarrow> 'd server \<Rightarrow> 'd DatabaseConnection list result \<times> 'd server" where
  "connect_many net now 0 s = (Inr [], s)"
| "connect_many net now (Suc k) s =
     (case DatabaseConnection_of net s of
        (Inl e, s') \<Rightarrow> (Inl e, s')
      | (Inr c, s') \<Rightarrow>
          (case connect_many net now k s' of
             (Inl e, s'') \<Rightarrow> (Inl e, s'')
           | (Inr cs, s'') \<Rightarrow> (Inr (setLastActiveTime now c # cs), s'')))"

definition dbpool_init ::
  "(nat \<Rightarrow> network) \<Rightarrow> int \<Rightarrow> bool \<Rightarrow> string \<Rightarrow> DatabasePoolConfig \<Rightarrow> 'd DatabasePool \<Rightarrow> 'd server
     \<Rightarrow> bool result \<times> 'd DatabasePool \<times> 'd server" where
  "dbpool_init net now thread_starts url cfg p s =
     (if initialized p then (Inr False, p, s)
      else let p1 = p\<lparr>DatabaseURL := url\<rparr> in
      if min_connections cfg < 0 \<or> max_connections cfg \<le> 0 \<or> min_connections cfg > max_connections cfg
      then (Inl (InvalidArgument ''Invalid DatabasePoolConfig''), p1, s)
      else let p2 = p1\<lparr>config_of := cfg\<rparr> in
      case connect_many net now (nat (min_connections cfg)) s of
        (Inl e, s') \<Rightarrow> (Inl e, p2, s')
      | (Inr cs, s') \<Rightarrow>
          if thread_starts
          then (Inr True, p2\<lparr>idle_queue := cs, total_connections := min_connections cfg,
                              is_running := True, initialized := True\<rparr>, s')
          else (Inl (SystemError ''thread''), p2\<lparr>total_connections := 0, is_running := False\<rparr>, s'))"

text \<open>\<^verbatim>\<open>getConnection\<close>, first section: an idle connection, or the right to make a new one.\<close>

datatype 'd acquired = Idle_connection "'d DatabaseConnection" | Must_connect

definition getConnection_enter :: "'d DatabasePool \<Rightarrow> 'd acquired result \<times> 'd DatabasePool" where
  "getConnection_enter p =
     (let ready = (\<not> is_running p \<or> idle_queue p \<noteq> [] \<or> total_connections p < max_connections (config_of p)) in
      if \<not> is_running p then (Inl (RuntimeError ''Connection pool is closed''), p)
      else if \<not> ready then (Inl (RuntimeError ''Timeout acquiring connection''), p)
      else case idle_queue p of
             c # q \<Rightarrow> (Inr (Idle_connection c), p\<lparr>idle_queue := q\<rparr>)
           | [] \<Rightarrow> (Inr Must_connect, p\<lparr>total_connections := total_connections p + 1\<rparr>))"

text \<open>Second section: the pool may have been closed while the connection was made.\<close>

definition getConnection_finish ::
  "'d DatabaseConnection result \<Rightarrow> 'd DatabasePool \<Rightarrow> 'd DatabaseConnection result \<times> 'd DatabasePool" where
  "getConnection_finish r p =
     (case r of
        Inl e \<Rightarrow> (Inl e, p\<lparr>total_connections := total_connections p - 1\<rparr>)
      | Inr c \<Rightarrow>
          if is_running p then (Inr c, p)
          else (Inl (RuntimeError ''Connection pool is closed''), p\<lparr>total_connections := total_connections p - 1\<rparr>))"

definition getConnection ::
  "(nat \<Rightarrow> network) \<Rightarrow> 'd DatabasePool \<Rightarrow> 'd server \<Rightarrow> 'd DatabaseConnection result \<times> 'd DatabasePool \<times> 'd server" where
  "getConnection net p s =
     (case getConnection_enter p of
        (Inl e, p1) \<Rightarrow> (Inl e, p1, s)
      | (Inr (Idle_connection c), p1) \<Rightarrow> (Inr c, p1, s)
      | (Inr Must_connect, p1) \<Rightarrow>
          (case DatabaseConnection_of net s of
             (r, s') \<Rightarrow> (case getConnection_finish r p1 of (r', p2) \<Rightarrow> (r', p2, s'))))"

definition releaseReturnedConnections ::
  "(nat \<Rightarrow> network) \<Rightarrow> int \<Rightarrow> 'd DatabaseConnection \<Rightarrow> 'd DatabasePool \<Rightarrow> 'd server \<Rightarrow> 'd DatabasePool \<times> 'd server" where
  "releaseReturnedConnections net now c p s =
     (case db_reset net now (c, s) of
        (ok, c', s') \<Rightarrow>
          if \<not> is_running p
          then (p\<lparr>total_connections := total_connections p - 1\<rparr>, snd (db_close now (c', s')))
          else if \<not> ok then (p\<lparr>total_connections := total_connections p - 1\<rparr>, s')
          else (p\<lparr>idle_queue := idle_queue p @ [c']\<rparr>, s'))"

text \<open>
  \<^verbatim>\<open>close\<close>: the idle connections are closed under the lock; the call then waits until the borrowed ones are back,
  that is until \<open>pool_closed\<close>.
\<close>

definition dbpool_close :: "'d DatabasePool \<Rightarrow> 'd DatabasePool" where
  "dbpool_close p =
     p\<lparr>is_running := False, idle_queue := [], total_connections := total_connections p - int (length (idle_queue p))\<rparr>"

definition pool_closed :: "'d DatabasePool \<Rightarrow> bool" where
  "pool_closed p \<longleftrightarrow> \<not> is_running p \<and> total_connections p = 0"

text \<open>
  One round of the maintenance thread.  The eviction loop compares its counter with the size of the queue it is
  shrinking, as the source does.
\<close>

function evict_loop ::
  "int \<Rightarrow> int \<Rightarrow> nat \<Rightarrow> int \<Rightarrow> 'd DatabaseConnection list \<Rightarrow> int \<Rightarrow> 'd DatabaseConnection list \<times> int" where
  "evict_loop now limit i exceed q tot =
     (if i < length q then
        (let c = hd q; q' = tl q in
         if exceed > 0 \<and> now - last_active_time c \<ge> limit
         then evict_loop now limit (Suc i) (exceed - 1) q' (tot - 1)
         else evict_loop now limit (Suc i) exceed (q' @ [c]) tot)
      else (q, tot))"
  by pat_completeness auto
termination by (relation "measure (\<lambda>(_, _, i, _, q, _). length q - i)") auto

declare evict_loop.simps [simp del]

text \<open>
  A dead idle connection is replaced; the constructor of the new one throws when the database is down, and nothing in
  the thread catches it (\<open>Inl\<close>: the process terminates).
\<close>

fun replace_dead ::
  "(nat \<Rightarrow> network) \<Rightarrow> int \<Rightarrow> 'd DatabaseConnection list \<Rightarrow> 'd server \<Rightarrow> 'd DatabaseConnection list result \<times> 'd server" where
  "replace_dead net now [] s = (Inr [], s)"
| "replace_dead net now (c # q) s =
     (if isAlive c
      then (case replace_dead net now q s of
              (Inl e, s') \<Rightarrow> (Inl e, s')
            | (Inr q', s') \<Rightarrow> (Inr (c # q'), s'))
      else case DatabaseConnection_of net s of
             (Inl e, s1) \<Rightarrow> (Inl e, s1)
           | (Inr d, s1) \<Rightarrow>
               (case replace_dead net now q s1 of
                  (Inl e, s') \<Rightarrow> (Inl e, s')
                | (Inr q', s') \<Rightarrow> (Inr (setLastActiveTime now d # q'), s')))"

definition maintenance_round ::
  "(nat \<Rightarrow> network) \<Rightarrow> int \<Rightarrow> 'd DatabasePool \<Rightarrow> 'd server \<Rightarrow> 'd DatabasePool result \<times> 'd server" where
  "maintenance_round net now p s =
     (if \<not> is_running p then (Inr p, s)
      else
        let exceed = total_connections p - min_connections (config_of p);
            (q1, t1) = (if exceed > 0
                        then evict_loop now (idle_time (config_of p)) 0 exceed (idle_queue p) (total_connections p)
                        else (idle_queue p, total_connections p))
        in case replace_dead net now q1 s of
             (Inl e, s1) \<Rightarrow> (Inl e, s1)
           | (Inr q2, s1) \<Rightarrow>
               if t1 < min_connections (config_of p)
               then (case DatabaseConnection_of net s1 of
                       (Inl e, s2) \<Rightarrow> (Inl e, s2)
                     | (Inr c, s2) \<Rightarrow>
                         (Inr (p\<lparr>idle_queue := q2 @ [setLastActiveTime now c], total_connections := t1 + 1\<rparr>), s2))
               else (Inr (p\<lparr>idle_queue := q2, total_connections := t1\<rparr>), s1))"

text \<open>\<^verbatim>\<open>ConnectionLease\<close>: borrow, run the scope, give back also when the scope throws.\<close>

definition with_lease ::
  "(nat \<Rightarrow> network) \<Rightarrow> int \<Rightarrow> ('d, 'a) db \<Rightarrow> 'd DatabasePool \<times> 'd server \<Rightarrow> 'a result \<times> 'd DatabasePool \<times> 'd server" where
  "with_lease net now body ps =
     (case getConnection net (fst ps) (snd ps) of
        (Inl e, p1, s1) \<Rightarrow> (Inl e, p1, s1)
      | (Inr c, p1, s1) \<Rightarrow>
          (case body (c, s1) of
             (r, c', s2) \<Rightarrow> (case releaseReturnedConnections net now c' p1 s2 of (p2, s3) \<Rightarrow> (r, p2, s3))))"

section \<open>Borrowers, the maintenance thread and close in any order\<close>

record 'd pool_world =
  pool_of :: "'d DatabasePool"
  server_of :: "'d server"
  leased :: "'d DatabaseConnection list"
  connecting :: nat

text \<open>A borrower may leave its connection in any state, open transaction included, and change the database.\<close>

inductive pool_step :: "(nat \<Rightarrow> network) \<Rightarrow> 'd pool_world \<Rightarrow> 'd pool_world \<Rightarrow> bool" for net where
  take_idle: "getConnection_enter (pool_of w) = (Inr (Idle_connection c), p) \<Longrightarrow>
     pool_step net w (w\<lparr>pool_of := p, leased := c # leased w\<rparr>)"
| start_connect: "getConnection_enter (pool_of w) = (Inr Must_connect, p) \<Longrightarrow>
     pool_step net w (w\<lparr>pool_of := p, connecting := Suc (connecting w)\<rparr>)"
| refuse_connection: "getConnection_enter (pool_of w) = (Inl e, p) \<Longrightarrow> pool_step net w (w\<lparr>pool_of := p\<rparr>)"
| end_connect: "connecting w = Suc k \<Longrightarrow> DatabaseConnection_of net (server_of w) = (r, s) \<Longrightarrow>
     getConnection_finish r (pool_of w) = (Inr c, p) \<Longrightarrow>
     pool_step net w (w\<lparr>pool_of := p, server_of := s, connecting := k, leased := c # leased w\<rparr>)"
| fail_connect: "connecting w = Suc k \<Longrightarrow> DatabaseConnection_of net (server_of w) = (r, s) \<Longrightarrow>
     getConnection_finish r (pool_of w) = (Inl e, p) \<Longrightarrow>
     pool_step net w (w\<lparr>pool_of := p, server_of := s, connecting := k\<rparr>)"
| use_connection: "leased w = xs @ c # ys \<Longrightarrow>
     pool_step net w (w\<lparr>server_of := s, leased := xs @ c' # ys\<rparr>)"
| give_back: "leased w = xs @ c # ys \<Longrightarrow>
     releaseReturnedConnections net now c (pool_of w) (server_of w) = (p, s) \<Longrightarrow>
     pool_step net w (w\<lparr>pool_of := p, server_of := s, leased := xs @ ys\<rparr>)"
| maintain: "maintenance_round net now (pool_of w) (server_of w) = (Inr p, s) \<Longrightarrow>
     pool_step net w (w\<lparr>pool_of := p, server_of := s\<rparr>)"
| close_pool: "pool_step net w (w\<lparr>pool_of := dbpool_close (pool_of w)\<rparr>)"

inductive pool_reaches :: "(nat \<Rightarrow> network) \<Rightarrow> 'd pool_world \<Rightarrow> 'd pool_world \<Rightarrow> bool" for net where
  pool_start: "pool_reaches net w w"
| pool_more: "pool_reaches net w w' \<Longrightarrow> pool_step net w' w'' \<Longrightarrow> pool_reaches net w w''"

text \<open>Connected, with no transaction open.\<close>

definition conn_ready :: "'d DatabaseConnection \<Rightarrow> bool" where
  "conn_ready c \<longleftrightarrow> (case pg_connection c of None \<Rightarrow> False | Some p \<Rightarrow> conn_ok p \<and> trans p = PQTRANS_IDLE)"

lemma idle_conn_ready: "idle z = conn_ready (fst z)"
  by (simp add: idle_def conn_ready_def)

lemma conn_ready_touch [simp]: "conn_ready (setLastActiveTime now c) = conn_ready c"
  by (simp add: conn_ready_def setLastActiveTime_def)

definition pool_inv :: "'d pool_world \<Rightarrow> bool" where
  "pool_inv w \<longleftrightarrow>
     (let p = pool_of w in
      total_connections p = int (length (idle_queue p)) + int (length (leased w)) + int (connecting w) \<and>
      total_connections p \<le> max_connections (config_of p) \<and>
      0 \<le> min_connections (config_of p) \<and> min_connections (config_of p) \<le> max_connections (config_of p) \<and>
      (\<forall>c \<in> set (idle_queue p). conn_ready c))"

lemma new_connection_ready: "DatabaseConnection_of net s = (Inr c, s') \<Longrightarrow> conn_ready c"
  by (cases "net (sent s)") (auto simp: DatabaseConnection_of_def conn_ready_def Let_def)

lemma connect_many_ready:
  "connect_many net now k s = (Inr cs, s') \<Longrightarrow> length cs = k \<and> (\<forall>c \<in> set cs. conn_ready c)"
  by (induction k arbitrary: s cs) (auto split: prod.splits sum.splits dest!: new_connection_ready)

lemma db_reset_ready:
  "db_reset net now z = (True, z') \<Longrightarrow> conn_ready (fst z')"
  by (auto simp: db_reset_def Let_def isAlive_def trans_status_def conn_ready_def setLastActiveTime_def
      split: if_splits option.splits)

lemma evict_loop_counts:
  "evict_loop now limit i exceed q tot = (q', tot') \<Longrightarrow>
     int (length q) - int (length q') = tot - tot' \<and> tot' \<le> tot \<and> set q' \<subseteq> set q"
proof (induction now limit i exceed q tot arbitrary: q' tot' rule: evict_loop.induct)
  case (1 now limit i exceed q tot)
  show ?case
  proof (cases "i < length q")
    case True
    then obtain c r where q: "q = c # r" by (cases q) auto
    show ?thesis
    proof (cases "exceed > 0 \<and> now - last_active_time c \<ge> limit")
      case evict: True
      with "1.prems" True q have "evict_loop now limit (Suc i) (exceed - 1) r (tot - 1) = (q', tot')"
        by (subst (asm) evict_loop.simps) (simp add: Let_def)
      with "1.IH"(1) [OF True refl refl] evict q show ?thesis by fastforce
    next
      case keep: False
      with "1.prems" True q have "evict_loop now limit (Suc i) exceed (r @ [c]) tot = (q', tot')"
        by (subst (asm) evict_loop.simps) (auto simp: Let_def)
      with "1.IH"(2) [OF True refl refl] keep q show ?thesis by fastforce
    qed
  qed (use "1.prems" in \<open>subst (asm) evict_loop.simps, simp\<close>)
qed

lemma replace_dead_ready:
  "replace_dead net now q s = (Inr q', s') \<Longrightarrow> (\<forall>c \<in> set q. conn_ready c) \<Longrightarrow>
     length q' = length q \<and> (\<forall>c \<in> set q'. conn_ready c)"
  by (induction net now q s arbitrary: q' s' rule: replace_dead.induct)
    (auto split: if_splits prod.splits sum.splits dest!: new_connection_ready)

lemma maintenance_round_inv:
  assumes inv: "pool_inv w" and m: "maintenance_round net now (pool_of w) (server_of w) = (Inr p, s)"
  shows "pool_inv (w\<lparr>pool_of := p, server_of := s\<rparr>)"
proof (cases "is_running (pool_of w)")
  case True
  let ?p = "pool_of w"
  let ?excess = "total_connections ?p - min_connections (config_of ?p)"
  obtain q tot where e: "(if ?excess > 0
      then evict_loop now (idle_time (config_of ?p)) 0 ?excess (idle_queue ?p) (total_connections ?p)
      else (idle_queue ?p, total_connections ?p)) = (q, tot)" by fastforce
  then have q: "int (length (idle_queue ?p)) - int (length q) = total_connections ?p - tot \<and>
      tot \<le> total_connections ?p \<and> set q \<subseteq> set (idle_queue ?p)"
    by (auto split: if_splits dest: evict_loop_counts)
  obtain r s1 where r: "replace_dead net now q (server_of w) = (r, s1)" by fastforce
  show ?thesis
  proof (cases r)
    case (Inl e)
    with m True e r show ?thesis by (simp add: maintenance_round_def Let_def)
  next
    case (Inr q2)
    with inv q r have q2: "length q2 = length q" "\<forall>c \<in> set q2. conn_ready c"
      by (auto simp: pool_inv_def Let_def dest!: replace_dead_ready)
    show ?thesis
    proof (cases "tot < min_connections (config_of ?p)")
      case False
      with m True e r Inr q q2 inv show ?thesis
        by (auto simp: maintenance_round_def pool_inv_def Let_def)
    next
      case True
      with m \<open>is_running ?p\<close> e r Inr q q2 inv show ?thesis
        by (auto simp: maintenance_round_def pool_inv_def Let_def split: prod.splits sum.splits dest!: new_connection_ready)
    qed
  qed
next
  case False
  with inv m show ?thesis by (auto simp: maintenance_round_def pool_inv_def)
qed

lemma release_inv:
  assumes inv: "pool_inv w" and l: "leased w = xs @ c # ys"
    and g: "releaseReturnedConnections net now c (pool_of w) (server_of w) = (p, s)"
  shows "pool_inv (w\<lparr>pool_of := p, server_of := s, leased := xs @ ys\<rparr>)"
proof -
  obtain ok c' s' where r: "db_reset net now (c, server_of w) = (ok, c', s')"
    by (cases "db_reset net now (c, server_of w)") auto
  then have "ok \<Longrightarrow> conn_ready c'" using db_reset_ready by fastforce
  with inv l g r show ?thesis
    by (auto simp: releaseReturnedConnections_def pool_inv_def Let_def split: if_splits)
qed

lemma pool_step_inv:
  assumes "pool_step net w w'" "pool_inv w"
  shows "pool_inv w'"
  using assms
proof (induction rule: pool_step.induct)
  case (take_idle w c p)
  then show ?case
    by (auto simp: getConnection_enter_def pool_inv_def Let_def split: if_splits list.splits)
next
  case (start_connect w p)
  then show ?case
    by (auto simp: getConnection_enter_def pool_inv_def Let_def split: if_splits list.splits)
next
  case (refuse_connection w e p)
  then show ?case
    by (auto simp: getConnection_enter_def pool_inv_def Let_def split: if_splits list.splits)
next
  case (end_connect w k r s c p)
  then show ?case
    by (auto simp: getConnection_finish_def pool_inv_def Let_def split: if_splits sum.splits)
next
  case (fail_connect w k r s e p)
  then show ?case
    by (auto simp: getConnection_finish_def pool_inv_def Let_def split: if_splits sum.splits)
next
  case (give_back w xs c ys now p s)
  then show ?case by (intro release_inv)
next
  case (maintain now w p s)
  then show ?case by (intro maintenance_round_inv)
qed (auto simp: pool_inv_def dbpool_close_def Let_def)

lemma pool_reaches_inv: "pool_reaches net w w' \<Longrightarrow> pool_inv w \<Longrightarrow> pool_inv w'"
  by (induction rule: pool_reaches.induct) (auto intro: pool_step_inv)

lemma init_inv:
  assumes "dbpool_init net now True url cfg p s = (Inr True, p', s')"
  shows "pool_inv \<lparr>pool_of = p', server_of = s', leased = [], connecting = 0\<rparr> \<and> config_of p' = cfg"
  using assms
  by (auto simp: dbpool_init_def pool_inv_def Let_def split: if_splits prod.splits sum.splits dest!: connect_many_ready)

lemma step_config: "pool_step net w w' \<Longrightarrow> config_of (pool_of w') = config_of (pool_of w)"
  by (induction rule: pool_step.induct)
    (auto simp: getConnection_enter_def getConnection_finish_def releaseReturnedConnections_def maintenance_round_def
      dbpool_close_def Let_def split: if_splits list.splits sum.splits prod.splits)

lemma reaches_config: "pool_reaches net w w' \<Longrightarrow> config_of (pool_of w') = config_of (pool_of w)"
  by (induction rule: pool_reaches.induct) (auto dest: step_config)

lemma nothing_counted: "int (length xs) + int (length ys) + int n = 0 \<Longrightarrow> ys = [] \<and> n = 0"
  by (cases ys) auto

text \<open>
  C10. From a successful \<^verbatim>\<open>init\<close> on, in every interleaving of borrowing, connecting, returning, maintenance and
  close, with borrowers leaving connections broken or inside a transaction: idle, borrowed and half-made connections
  together never exceed the configured maximum and are exactly what the counter says; every connection a borrower can
  be handed from the queue is connected and has no transaction open; and \<^verbatim>\<open>close\<close> stops waiting only when nothing is
  borrowed or being made.
\<close>

theorem pool_bounded_and_clean:
  assumes "dbpool_init net now True url cfg p s = (Inr True, p', s')"
    and "pool_reaches net \<lparr>pool_of = p', server_of = s', leased = [], connecting = 0\<rparr> w"
  shows "int (length (idle_queue (pool_of w)) + length (leased w) + connecting w) = total_connections (pool_of w) \<and>
         total_connections (pool_of w) \<le> max_connections cfg \<and>
         (\<forall>c \<in> set (idle_queue (pool_of w)). conn_ready c) \<and>
         (pool_closed (pool_of w) \<longrightarrow> leased w = [] \<and> connecting w = 0)"
proof -
  have "pool_inv w" using init_inv [OF assms(1)] pool_reaches_inv [OF assms(2)] by simp
  moreover have "config_of (pool_of w) = cfg"
    using reaches_config [OF assms(2)] init_inv [OF assms(1)] by simp
  ultimately show ?thesis by (auto simp: pool_inv_def pool_closed_def Let_def dest: nothing_counted)
qed

definition sample_pool_config :: DatabasePoolConfig where
  "sample_pool_config = \<lparr>min_connections = 1, max_connections = 2, acquire_time = 500, idle_time = 1000, check_interval = 100\<rparr>"

definition empty_pool :: "int DatabasePool" where
  "empty_pool = \<lparr>config_of = sample_pool_config, DatabaseURL = [], idle_queue = [], total_connections = 0,
     is_running = False, initialized = False\<rparr>"

definition dirty_connection :: "int DatabaseConnection" where
  "dirty_connection =
     \<lparr>pg_connection = Some \<lparr>conn_ok = True, trans = PQTRANS_INERROR, before = 3\<rparr>, error_msg = [], last_active_time = 0\<rparr>"

text \<open>Witness: the only connection is borrowed, left inside a failed transaction and given back.\<close>

theorem pool_bounded_and_clean_witness:
  "\<exists>w :: int pool_world. length (idle_queue (pool_of w)) = 1 \<and> leased w = [] \<and> tables (server_of w) = 3 \<and>
       (\<forall>c \<in> set (idle_queue (pool_of w)). conn_ready c) \<and> total_connections (pool_of w) = 1"
proof -
  let ?net = "\<lambda>_. Delivered"
  let ?c = "\<lparr>pg_connection = Some \<lparr>conn_ok = True, trans = PQTRANS_IDLE, before = 7\<rparr>, error_msg = [], last_active_time = 0\<rparr>"
  let ?p = "empty_pool\<lparr>idle_queue := [?c], total_connections := 1, is_running := True, initialized := True\<rparr>"
  let ?w = "\<lparr>pool_of = ?p, server_of = \<lparr>tables = 7, sent = 1\<rparr>, leased = [], connecting = 0\<rparr>"
  have i: "dbpool_init ?net 0 True [] sample_pool_config empty_pool \<lparr>tables = 7, sent = 0\<rparr> = (Inr True, ?p, \<lparr>tables = 7, sent = 1\<rparr>)"
    by (simp add: dbpool_init_def empty_pool_def sample_pool_config_def DatabaseConnection_of_def setLastActiveTime_def Let_def)
  have "getConnection_enter ?p = (Inr (Idle_connection ?c), ?p\<lparr>idle_queue := []\<rparr>)"
    by (simp add: getConnection_enter_def Let_def)
  from pool_more [OF pool_start take_idle, of ?w, simplified, OF this]
  have a1: "pool_reaches ?net ?w (?w\<lparr>pool_of := ?p\<lparr>idle_queue := []\<rparr>, leased := [?c]\<rparr>)" by simp
  have a2: "pool_reaches ?net ?w (?w\<lparr>pool_of := ?p\<lparr>idle_queue := []\<rparr>, server_of := \<lparr>tables = 9, sent = 5\<rparr>, leased := [dirty_connection]\<rparr>)"
    using pool_more [OF a1 use_connection [where xs = "[]" and c = ?c and ys = "[]" and c' = dirty_connection
      and s = "\<lparr>tables = 9, sent = 5\<rparr>"]] by simp
  let ?d = "dirty_connection\<lparr>pg_connection := Some \<lparr>conn_ok = True, trans = PQTRANS_IDLE, before = 3\<rparr>, last_active_time := 20\<rparr>"
  have "releaseReturnedConnections ?net 20 dirty_connection (?p\<lparr>idle_queue := []\<rparr>) \<lparr>tables = 9, sent = 5\<rparr> =
      (?p\<lparr>idle_queue := [?d]\<rparr>, \<lparr>tables = 3, sent = 6\<rparr>)"
    by (simp add: releaseReturnedConnections_def db_reset_def rollbackTransactionNoThrow_def db_defs
        dirty_connection_def setLastActiveTime_def)
  with pool_more [OF a2 give_back [where xs = "[]" and c = dirty_connection and ys = "[]" and now = 20]]
  have a3: "pool_reaches ?net ?w (?w\<lparr>pool_of := ?p\<lparr>idle_queue := [?d]\<rparr>, server_of := \<lparr>tables = 3, sent = 6\<rparr>\<rparr>)" by simp
  show ?thesis
    by (rule exI [of _ "?w\<lparr>pool_of := ?p\<lparr>idle_queue := [?d]\<rparr>, server_of := \<lparr>tables = 3, sent = 6\<rparr>\<rparr>"])
      (use pool_bounded_and_clean [OF i a3] in \<open>simp\<close>)
qed

section \<open>A transaction on a leased connection\<close>

text \<open>The condition on a pool under which a borrower gets a usable connection; every operation keeps it.\<close>

definition pool_clean :: "'d DatabasePool \<Rightarrow> bool" where
  "pool_clean p \<longleftrightarrow> (\<forall>c \<in> set (idle_queue p). conn_ready c)"

lemma connect_keeps_tables: "DatabaseConnection_of net s = (r, s') \<Longrightarrow> tables s' = tables s"
  by (cases "net (sent s)") (auto simp: DatabaseConnection_of_def Let_def)

lemma getConnection_clean:
  assumes "pool_clean p" "getConnection net p s = (r, p', s')"
  shows "pool_clean p' \<and> tables s' = tables s \<and> (\<forall>c. r = Inr c \<longrightarrow> conn_ready c)"
proof (cases "DatabaseConnection_of net s")
  case (Pair r1 s1)
  then have "tables s1 = tables s" "\<And>c. r1 = Inr c \<Longrightarrow> conn_ready c"
    using connect_keeps_tables [of net s] new_connection_ready [of net s] by auto
  with Pair assms show ?thesis
    by (auto simp: getConnection_def getConnection_enter_def getConnection_finish_def pool_clean_def Let_def
        split: if_splits list.splits sum.splits)
qed

lemma close_settled: "settled z \<Longrightarrow> tables (snd (db_close now z)) = tables (snd z)"
  by (cases z) (auto simp: db_close_def db_defs split: option.splits)

lemma reset_settled:
  assumes "settled z" "db_reset net now z = (ok, z')"
  shows "tables (snd z') = tables (snd z) \<and> settled z'"
  using assms
  by (cases z; cases "pg_connection (fst z)")
    (auto simp: db_reset_def db_close_def db_defs setLastActiveTime_def split: if_splits)

lemma release_settled:
  assumes "settled (c, s)" "pool_clean p" "releaseReturnedConnections net now c p s = (p', s')"
  shows "pool_clean p' \<and> tables s' = tables s"
proof -
  obtain ok c1 s1 where r: "db_reset net now (c, s) = (ok, c1, s1)" by (cases "db_reset net now (c, s)") auto
  from reset_settled [OF assms(1) r] have t: "tables s1 = tables s" "settled (c1, s1)" by simp_all
  have "ok \<Longrightarrow> conn_ready c1" using db_reset_ready [of net now "(c, s)" "(c1, s1)"] r by simp
  with t r assms(2,3) close_settled [OF t(2), of now] show ?thesis
    by (auto simp: releaseReturnedConnections_def pool_clean_def split: if_splits)
qed

lemma lease_transaction:
  assumes f: "tx_spec f R" and p: "pool_clean p"
  shows "case with_lease net now (withTransaction net f) (p, s) of
           (Inr x, p', s') \<Rightarrow> pool_clean p' \<and> R (tables s) x (tables s')
         | (Inl e, p', s') \<Rightarrow> pool_clean p' \<and>
             (tables s' = tables s \<or> (e = answer_lost \<and> (\<exists>x. R (tables s) x (tables s'))))"
proof -
  obtain r p1 s1 where g: "getConnection net p s = (r, p1, s1)" by (cases "getConnection net p s") auto
  note g' = getConnection_clean [OF p g]
  show ?thesis
  proof (cases r)
    case (Inl e)
    with g g' show ?thesis by (simp add: with_lease_def)
  next
    case (Inr c)
    with g' have i: "idle (c, s1)" by (simp add: idle_conn_ready)
    obtain r2 c2 s2 where w: "withTransaction net f (c, s1) = (r2, c2, s2)" by (cases "withTransaction net f (c, s1)") auto
    obtain p3 s3 where l: "releaseReturnedConnections net now c2 p1 s2 = (p3, s3)" by fastforce
    have "settled (c2, s2)" using withTransaction_atomic [OF f i, of net] w
      by (cases r2) (auto simp: settled_def)
    from release_settled [OF this _ l] g' have "pool_clean p3" "tables s3 = tables s2" by simp_all
    with withTransaction_atomic [OF f i, of net] w g g' Inr l show ?thesis
      by (cases r2) (auto simp: with_lease_def)
  qed
qed

text \<open>With nothing refused or lost and a connection to be had, the scope runs and its result is returned.\<close>

definition can_borrow :: "'d DatabasePool \<Rightarrow> bool" where
  "can_borrow p \<longleftrightarrow> is_running p \<and> total_connections p \<le> max_connections (config_of p) \<and>
     (idle_queue p \<noteq> [] \<or> total_connections p < max_connections (config_of p))"

lemma lease_can_borrow:
  assumes "can_borrow p"
  shows "can_borrow (fst (snd (with_lease net now body (p, s))))"
  using assms
  by (auto simp: with_lease_def getConnection_def getConnection_enter_def getConnection_finish_def can_borrow_def
      releaseReturnedConnections_def Let_def split: prod.splits sum.splits list.splits if_splits)

lemma lease_total:
  assumes net: "\<And>n. net n = Delivered" and p: "pool_clean p" "can_borrow p" and f: "tx_total f (tables s)"
  shows "\<exists>x p' s'. with_lease net now (withTransaction net f) (p, s) = (Inr x, p', s')"
proof -
  obtain r p1 s1 where g: "getConnection net p s = (r, p1, s1)" by (cases "getConnection net p s") auto
  note g' = getConnection_clean [OF p(1) g]
  have "\<exists>c. r = Inr c" using g p(2) net
    by (auto simp: getConnection_def getConnection_enter_def getConnection_finish_def can_borrow_def Let_def
        DatabaseConnection_of_def split: if_splits list.splits)
  then obtain c where c: "r = Inr c" by blast
  with g' have i: "idle (c, s1)" by (simp add: idle_conn_ready)
  from withTransaction_total [of net, OF net i, of f] f g' obtain x c2 s2 where
    "withTransaction net f (c, s1) = (Inr x, c2, s2)" by auto
  with g c show ?thesis by (simp add: with_lease_def split: prod.splits)
qed

end
