(* ===== verification/Tables.thy ===== *)
theory Tables
  imports Db_Pool Json
begin

text \<open>
  The tables of the database that the repositories read and write, as lists of rows; each repository's theory
  translates its SQL texts into functions on them.  UUID columns and parameters are UUIDs: Boost and PostgreSQL print the
  same canonical text.  Times are microseconds, the resolution of \<^verbatim>\<open>timestamptz\<close>.  Columns that no statement of the
  modelled repositories reads are left out.  \<open>gen_random_uuid()\<close> and the server's clock, read at the number
  of the statement, its conversions of text and the order of the database's collation, and the rows that other transactions have locked are parameters (\<open>pg_env\<close>).
\<close>

section \<open>Rows\<close>

text \<open>\<^verbatim>\<open>app.users\<close>, \<^verbatim>\<open>app.password_credentials\<close>, \<^verbatim>\<open>app.user_devices\<close>.\<close>

record user_row =
  us_id :: uuid
  us_is_active :: bool
  us_display_name :: string
  us_username :: string

record password_credential =
  pc_user_id :: uuid
  pc_login_email :: string
  pc_password_hash :: string

record user_device =
  ud_device_id :: uuid
  ud_user_id :: uuid
  ud_status :: string
  ud_device_name :: "string option"
  ud_identity_public_key :: "byte list"
  ud_protocol_suite :: string
  ud_created_at :: int

text \<open>\<^verbatim>\<open>app.login_tickets\<close>, \<^verbatim>\<open>app.refresh_tokens\<close>.\<close>

record login_ticket =
  lt_ticket_hash :: string
  lt_user_id :: uuid
  lt_expires_at :: int
  lt_consumed_at :: "int option"

record refresh_token =
  rt_id :: uuid
  rt_user_id :: uuid
  rt_device_id :: uuid
  rt_token_hash :: string
  rt_expires_at :: int
  rt_revoked_at :: "int option"
  rt_created_at :: int

text \<open>\<^verbatim>\<open>app.device_key_bundles\<close>, \<^verbatim>\<open>app.device_one_time_prekeys\<close>.\<close>

record key_bundle =
  kb_device_id :: uuid
  kb_signed_prekey_id :: int
  kb_signed_prekey_public :: "byte list"
  kb_signed_prekey_signature :: "byte list"
  kb_is_current :: bool
  kb_expires_at :: "int option"

record one_time_prekey =
  pk_device_id :: uuid
  pk_prekey_id :: int
  pk_public_key :: "byte list"
  pk_state :: string

text \<open>\<^verbatim>\<open>app.friend_request\<close>; \<^verbatim>\<open>app.friend_relation\<close> is a list of pairs.\<close>

record friend_request =
  fq_id :: uuid
  fq_requester_id :: uuid
  fq_recipient_id :: uuid
  fq_status :: string
  fq_message :: "string option"
  fq_created_at :: int

text \<open>\<^verbatim>\<open>app.message_envelopes\<close>: an envelope with the time of its acknowledgment.\<close>

record Envelope =
  envelope_id :: uuid
  message_id :: uuid
  sender_device_id :: uuid
  recipient_device_id :: uuid
  protocol_version :: string
  packet :: "byte list"
  seq :: int

record envelope_row =
  row_envelope :: Envelope
  received_at :: "int option"

record store =
  users :: "user_row list"
  password_credentials :: "password_credential list"
  user_devices :: "user_device list"
  friend_relation :: "(uuid \<times> uuid) list"
  friend_requests :: "friend_request list"
  login_tickets :: "login_ticket list"
  refresh_tokens :: "refresh_token list"
  key_bundles :: "key_bundle list"
  one_time_prekeys :: "one_time_prekey list"
  message_envelopes :: "envelope_row list"

record pg_env =
  gen_random_uuid :: "nat \<Rightarrow> uuid"
  current_timestamp :: "nat \<Rightarrow> int"
  bigint_in :: "string \<Rightarrow> int option"
  hex_in :: "string \<Rightarrow> byte list option"
  sql_lower :: "string \<Rightarrow> string"
  collate :: "string \<Rightarrow> nat list"
  text_length :: "string \<Rightarrow> nat"
  bytea_out :: "byte list \<Rightarrow> string"
  row_locked :: "nat \<Rightarrow> uuid \<Rightarrow> int \<Rightarrow> bool"

type_synonym store_world = "store DatabasePool \<times> store server"

section \<open>Queries\<close>

definition sql_nothing :: "(store, unit) query" where
  "sql_nothing n st = Inr ((), st)"

definition active_user :: "store \<Rightarrow> uuid \<Rightarrow> bool" where
  "active_user st u \<longleftrightarrow> (\<exists>r \<in> set (users st). us_id r = u \<and> us_is_active r)"

text \<open>A parameter is passed as a C string: it ends at the first NUL character.\<close>

definition c_str :: "string \<Rightarrow> string" where
  "c_str s = takeWhile (\<lambda>c. c \<noteq> CHR 0x00) s"

end
