(* ===== verification/Envelope_Store.thy ===== *)
theory Envelope_Store
  imports Tables "HOL-Library.Product_Lexorder"
begin

text \<open>
  The message store: \<^verbatim>\<open>src/src/repository/EnvelopeRepository.cpp\<close>.  A device sends an opaque packet to another
  device; the store numbers the packets of each unordered pair of devices, answers a repeated request with the envelope
  it already has, hands a device its envelopes page by page and records what the device acknowledged.

  Each SQL text of the source is one definition \<open>sql_...\<close> on the tables.  Comparing the texts of UUIDs is comparing
  UUIDs; other values are the text the result carries.  The advisory and row locks have no
  effect on the content: a transaction here runs alone, which is what the locks on the device pair and on the account
  and device rows provide for the rows it reads.
\<close>

section \<open>Data\<close>

record EnvelopePage =
  envelopes :: "Envelope list"
  has_more :: bool

record NewTextMessageRequest =
  nm_message_id :: uuid
  nm_recipient_device_id :: uuid
  nm_protocol_version :: string
  nm_packet :: "byte list"

record EnvelopeSyncCursor =
  peer_device_id :: uuid
  after_seq :: int

record SyncEnvelopeRequest =
  sy_device_id :: uuid
  cursors :: "EnvelopeSyncCursor list"

record AckEnvelopeRequest =
  ack_device_id :: uuid
  envelope_ids :: "uuid list"

datatype NewMessageStatus = Success | DuplicateRequest | PermissionDenied | MessageConflict

record NewMessageResult =
  nm_status :: NewMessageStatus
  nm_envelope :: "Envelope option"

section \<open>Numbers and bytes as text\<close>

definition int64_max :: int where "int64_max = 2 ^ 63 - 1"

text \<open>PostgreSQL's text of a \<^verbatim>\<open>bigint\<close>.\<close>

definition bigint_text :: "int \<Rightarrow> string" where
  "bigint_text i = (if i < 0 then CHR ''-'' # to_string_nat (nat (- i)) else to_string_nat (nat i))"

text \<open>\<^verbatim>\<open>std::from_chars\<close> for \<^verbatim>\<open>std::int64_t\<close>: an optional minus sign, then digits.\<close>

definition from_chars_int64 :: "string \<Rightarrow> errc + (int \<times> nat)" where
  "from_chars_int64 s =
     (case s of
        c # r \<Rightarrow>
          if c = CHR ''-'' then
            (case from_chars_unsigned (2 ^ 63) r of
               Inl e \<Rightarrow> Inl e | Inr (v, k) \<Rightarrow> Inr (- int v, Suc k))
          else (case from_chars_unsigned (2 ^ 63 - 1) s of Inl e \<Rightarrow> Inl e | Inr (v, k) \<Rightarrow> Inr (int v, k))
      | [] \<Rightarrow> Inl invalid_argument_errc)"

definition parseSeq :: "string \<Rightarrow> int result" where
  "parseSeq text =
     (case from_chars_int64 text of
        Inl _ \<Rightarrow> Inl (DbExn \<lparr>db_kind = DataConversion, db_code = [], db_constraint = None\<rparr>)
      | Inr (n, k) \<Rightarrow>
          if k \<noteq> length text \<or> n \<le> 0 then Inl (DbExn \<lparr>db_kind = DataConversion, db_code = [], db_constraint = None\<rparr>)
          else Inr n)"

text \<open>\<^verbatim>\<open>std::from_chars\<close> in base 16 takes digits of either case.\<close>

definition hex_digit_value :: "char \<Rightarrow> nat option" where
  "hex_digit_value c =
     (let n = (of_char c :: nat) in
      if 48 \<le> n \<and> n \<le> 57 then Some (n - 48)
      else if 97 \<le> n \<and> n \<le> 102 then Some (n - 87)
      else if 65 \<le> n \<and> n \<le> 70 then Some (n - 55) else None)"

fun hex_pair :: "char \<Rightarrow> char \<Rightarrow> byte option" where
  "hex_pair a b =
     (case (hex_digit_value a, hex_digit_value b) of
        (Some x, Some y) \<Rightarrow> Some (word_of_nat (16 * x + y))
      | _ \<Rightarrow> None)"

fun decode_pairs :: "string \<Rightarrow> byte list option" where
  "decode_pairs [] = Some []"
| "decode_pairs [a] = None"
| "decode_pairs (a # b # r) =
     (case hex_pair a b of
        None \<Rightarrow> None
      | Some x \<Rightarrow> map_option ((#) x) (decode_pairs r))"

definition decodePacketHex :: "string \<Rightarrow> byte list result" where
  "decodePacketHex hex =
     (if hex = [] \<or> length hex mod 2 \<noteq> 0 \<or> length hex > 2 * 65536
      then Inl (DbExn \<lparr>db_kind = DataConversion, db_code = [], db_constraint = None\<rparr>)
      else case decode_pairs hex of
             None \<Rightarrow> Inl (DbExn \<lparr>db_kind = DataConversion, db_code = [], db_constraint = None\<rparr>)
           | Some bs \<Rightarrow> Inr bs)"

definition hex_digits :: string where "hex_digits = ''0123456789abcdef''"

definition encodeHex :: "byte list \<Rightarrow> string" where
  "encodeHex bytes =
     concat (map (\<lambda>b. [hex_digits ! unat (drop_bit 4 b), hex_digits ! unat (b AND 15)]) bytes)"

section \<open>The statements\<close>

text \<open>
  The two devices of a message, of active accounts, the sender's owned by the requesting user, in the order of their
  identifiers.  \<^verbatim>\<open>app.users\<close> has one row per account.
\<close>

definition sql_message_devices :: "uuid \<Rightarrow> uuid \<Rightarrow> uuid \<Rightarrow> (store, (uuid \<times> uuid) list) query" where
  "sql_message_devices user sender recipient n st =
     Inr (sort_key fst
       (map (\<lambda>ud. (ud_device_id ud, ud_user_id ud))
         (filter (\<lambda>ud. ud_device_id ud \<in> {sender, recipient} \<and> ud_status ud = ''active'' \<and>
                       active_user st (ud_user_id ud) \<and> (ud_device_id ud \<noteq> sender \<or> ud_user_id ud = user))
           (user_devices st))), st)"

definition sql_friendships :: "uuid \<Rightarrow> uuid \<Rightarrow> (store, (uuid \<times> uuid) list) query" where
  "sql_friendships a b n st =
     Inr (filter (\<lambda>fr. fr = (a, b) \<or> fr = (b, a)) (friend_relation st), st)"

definition same_request :: "uuid \<Rightarrow> uuid \<Rightarrow> uuid \<Rightarrow> envelope_row \<Rightarrow> bool" where
  "same_request sender recipient msg r \<longleftrightarrow>
     sender_device_id (row_envelope r) = sender \<and> recipient_device_id (row_envelope r) = recipient \<and>
     message_id (row_envelope r) = msg"

definition sql_find_message ::
  "uuid \<Rightarrow> uuid \<Rightarrow> uuid \<Rightarrow> (store, (uuid \<times> string \<times> string \<times> string) list) query" where
  "sql_find_message sender recipient msg n st =
     Inr (map (\<lambda>r. (envelope_id (row_envelope r), bigint_text (seq (row_envelope r)),
                    protocol_version (row_envelope r), encodeHex (packet (row_envelope r))))
            (filter (same_request sender recipient msg) (message_envelopes st)), st)"

definition same_pair :: "uuid \<Rightarrow> uuid \<Rightarrow> envelope_row \<Rightarrow> bool" where
  "same_pair a b r \<longleftrightarrow>
     (let s = sender_device_id (row_envelope r); t = recipient_device_id (row_envelope r) in
      min s t = min a b \<and> max s t = max a b)"

definition pair_seqs :: "uuid \<Rightarrow> uuid \<Rightarrow> store \<Rightarrow> int list" where
  "pair_seqs a b st = map (\<lambda>r. seq (row_envelope r)) (filter (same_pair a b) (message_envelopes st))"

definition next_seq :: "uuid \<Rightarrow> uuid \<Rightarrow> store \<Rightarrow> int" where
  "next_seq a b st = (let xs = pair_seqs a b st in if xs = [] then 1 else Max (set xs) + 1)"

text \<open>
  The insertion with the table's constraints: the primary key, the number unique in the pair, one row per retry
  identifier.
\<close>

definition sql_insert_message ::
  "pg_env \<Rightarrow> uuid \<Rightarrow> uuid \<Rightarrow> uuid \<Rightarrow> string \<Rightarrow> string \<Rightarrow> (store, (uuid \<times> string) list) query" where
  "sql_insert_message env sender recipient msg version hex n st =
     (case decode_pairs hex of
        None \<Rightarrow> Inl (''22023'', [])
      | Some bytes \<Rightarrow>
          let s = next_seq sender recipient st;
              e = \<lparr>envelope_id = gen_random_uuid env n, message_id = msg, sender_device_id = sender,
                   recipient_device_id = recipient, protocol_version = version, packet = bytes, seq = s\<rparr>
          in if s > int64_max then Inl (''22003'', [])
             else if \<exists>r \<in> set (message_envelopes st). envelope_id (row_envelope r) = envelope_id e
             then Inl (''23505'', ''message_envelopes_pkey'')
             else if s \<in> set (pair_seqs sender recipient st) then Inl (''23505'', ''envelope_pair_seq_unique'')
             else if \<exists>r \<in> set (message_envelopes st). same_request sender recipient msg r
             then Inl (''23505'', ''envelope_retry_unique'')
             else Inr ([(envelope_id e, bigint_text s)],
                       st\<lparr>message_envelopes := message_envelopes st @ [\<lparr>row_envelope = e, received_at = None\<rparr>]\<rparr>))"

section \<open>Saving a message\<close>

definition denied :: NewMessageResult where
  "denied = \<lparr>nm_status = PermissionDenied, nm_envelope = None\<rparr>"

definition stored_result ::
  "NewMessageStatus \<Rightarrow> uuid \<Rightarrow> NewTextMessageRequest \<Rightarrow> uuid \<Rightarrow> string \<Rightarrow> (store, NewMessageResult) db" where
  "stored_result status sender req eid seq_text =
     (case parseSeq seq_text of
        Inl e \<Rightarrow> db_throw e
      | Inr n \<Rightarrow> db_return
          \<lparr>nm_status = status,
           nm_envelope = Some \<lparr>envelope_id = eid, message_id = nm_message_id req, sender_device_id = sender,
             recipient_device_id = nm_recipient_device_id req, protocol_version = nm_protocol_version req,
             packet = nm_packet req, seq = n\<rparr>\<rparr>)"

definition store_message ::
  "(nat \<Rightarrow> network) \<Rightarrow> pg_env \<Rightarrow> uuid \<Rightarrow> NewTextMessageRequest \<Rightarrow> (store, NewMessageResult) db" where
  "store_message net env sender req =
     (let recipient = nm_recipient_device_id req; hex = encodeHex (nm_packet req) in
      db_bind (execute net (Sql (sql_find_message sender recipient (nm_message_id req)))) (\<lambda>existing.
      case existing of
        (eid, n, version, stored) # _ \<Rightarrow>
          if version \<noteq> nm_protocol_version req \<or> stored \<noteq> hex
          then db_return \<lparr>nm_status = MessageConflict, nm_envelope = None\<rparr>
          else stored_result DuplicateRequest sender req eid n
      | [] \<Rightarrow>
          db_bind (execute net (Sql (sql_insert_message env sender recipient (nm_message_id req)
                    (c_str (nm_protocol_version req)) hex))) (\<lambda>inserted.
          case inserted of
            [(eid, n)] \<Rightarrow> stored_result Success sender req eid n
          | _ \<Rightarrow> db_throw (RuntimeError ''Insert returned unexpected row count''))))"

definition are_friends :: "(nat \<Rightarrow> network) \<Rightarrow> uuid \<Rightarrow> uuid \<Rightarrow> (store, bool) db" where
  "are_friends net user peer =
     (if peer = user then db_return True
      else db_bind (execute net (Sql (sql_friendships user peer))) (\<lambda>rows. db_return (length rows = 2)))"

definition save_body ::
  "(nat \<Rightarrow> network) \<Rightarrow> pg_env \<Rightarrow> uuid \<Rightarrow> uuid \<Rightarrow> NewTextMessageRequest \<Rightarrow> (store, NewMessageResult) db" where
  "save_body net env user sender req =
     (let recipient = nm_recipient_device_id req in
      db_bind (execute net (Sql sql_nothing)) (\<lambda>_.
      db_bind (execute net (Sql sql_nothing)) (\<lambda>_.
      db_bind (execute net (Sql (sql_message_devices user sender recipient))) (\<lambda>devices.
      if length devices \<noteq> 2 then db_return denied
      else case map snd (filter (\<lambda>d. fst d = recipient) devices) of
        [] \<Rightarrow> db_return denied
      | owners \<Rightarrow>
          db_bind (are_friends net user (last owners)) (\<lambda>ok.
          if ok then store_message net env sender req else db_return denied)))))"

definition saveNewMessage ::
  "(nat \<Rightarrow> network) \<Rightarrow> int \<Rightarrow> pg_env \<Rightarrow> uuid \<Rightarrow> uuid \<Rightarrow> NewTextMessageRequest \<Rightarrow> store_world
     \<Rightarrow> NewMessageResult result \<times> store_world" where
  "saveNewMessage net now env user sender req =
     with_lease net now (withTransaction net (save_body net env user sender req))"

section \<open>Synchronisation\<close>

text \<open>The loop that checks the cursors before any statement is sent.\<close>

fun check_cursors :: "uuid \<Rightarrow> uuid list \<Rightarrow> EnvelopeSyncCursor list \<Rightarrow> bool" where
  "check_cursors device seen [] = True"
| "check_cursors device seen (c # cs) =
     (if peer_device_id c = nil_uuid \<or> peer_device_id c = device \<or> after_seq c < 0 \<or> peer_device_id c \<in> set seen
      then False
      else check_cursors device (peer_device_id c # seen) cs)"

definition sql_own_device :: "uuid \<Rightarrow> uuid \<Rightarrow> (store, uuid list) query" where
  "sql_own_device user device n st =
     Inr (map ud_device_id
       (filter (\<lambda>ud. ud_user_id ud = user \<and> ud_device_id ud = device \<and> ud_status ud = ''active'' \<and>
                     active_user st (ud_user_id ud)) (user_devices st)), st)"

text \<open>
  \<^verbatim>\<open>COALESCE(cursor.after_seq, 0)\<close> after the left join; the cursors have distinct peers, so the join adds no rows.
\<close>

definition cursor_for :: "EnvelopeSyncCursor list \<Rightarrow> uuid \<Rightarrow> int" where
  "cursor_for cs peer = (case map_of (map (\<lambda>c. (peer_device_id c, after_seq c)) cs) peer of None \<Rightarrow> 0 | Some n \<Rightarrow> n)"

text \<open>\<^verbatim>\<open>ORDER BY env.sender_device_id, env.seq, env.envelope_id\<close>: lexicographic in the three columns.\<close>

definition sync_order :: "Envelope \<Rightarrow> uuid \<times> int \<times> uuid" where
  "sync_order e = (sender_device_id e, seq e, envelope_id e)"

definition page_order :: "Envelope list \<Rightarrow> Envelope list" where
  "page_order es = sort_key sync_order es"

definition pending :: "uuid \<Rightarrow> EnvelopeSyncCursor list \<Rightarrow> store \<Rightarrow> Envelope list" where
  "pending device cs st =
     filter (\<lambda>e. recipient_device_id e = device \<and> seq e > cursor_for cs (sender_device_id e))
       (map row_envelope (message_envelopes st))"

type_synonym envelope_columns = "Envelope \<times> string \<times> string"

text \<open>Each row comes with the two columns the code converts itself: the packet in hexadecimal and the number as text.\<close>

definition sql_pending :: "uuid \<Rightarrow> EnvelopeSyncCursor list \<Rightarrow> nat \<Rightarrow> (store, envelope_columns list) query" where
  "sql_pending device cs limit n st =
     Inr (map (\<lambda>e. (e, encodeHex (packet e), bigint_text (seq e))) (take limit (page_order (pending device cs st))), st)"

definition pageSize :: nat where "pageSize = 100"
definition pageWireBudget :: nat where "pageWireBudget = 512 * 1024"

definition estimatedRecordBytes :: "byte list \<Rightarrow> nat" where
  "estimatedRecordBytes p = 4 * ((length p + 2) div 3) + 2048"

fun page_loop :: "envelope_columns list \<Rightarrow> nat \<Rightarrow> Envelope list \<Rightarrow> EnvelopePage result" where
  "page_loop [] used acc = Inr \<lparr>envelopes = acc, has_more = False\<rparr>"
| "page_loop ((e, hex, n) # rows) used acc =
     (if length acc = pageSize then Inr \<lparr>envelopes = acc, has_more = True\<rparr>
      else ebind (decodePacketHex hex) (\<lambda>p.
        if estimatedRecordBytes p > pageWireBudget - used then Inr \<lparr>envelopes = acc, has_more = True\<rparr>
        else ebind (parseSeq n) (\<lambda>k.
          page_loop rows (used + estimatedRecordBytes p) (acc @ [e\<lparr>packet := p, seq := k\<rparr>]))))"

definition db_lift :: "'a result \<Rightarrow> ('d, 'a) db" where
  "db_lift r = (case r of Inl e \<Rightarrow> db_throw e | Inr x \<Rightarrow> db_return x)"

definition sync_body :: "(nat \<Rightarrow> network) \<Rightarrow> uuid \<Rightarrow> SyncEnvelopeRequest \<Rightarrow> (store, EnvelopePage option) db" where
  "sync_body net user req =
     db_bind (execute net (Sql (sql_own_device user (sy_device_id req)))) (\<lambda>device.
     if device = [] then db_return None
     else db_bind (execute net (Sql (sql_pending (sy_device_id req) (cursors req) (pageSize + 1)))) (\<lambda>rows.
       db_bind (db_lift (page_loop rows 0 [])) (\<lambda>page. db_return (Some page))))"

definition syncEnvelopeRecord ::
  "(nat \<Rightarrow> network) \<Rightarrow> int \<Rightarrow> uuid \<Rightarrow> SyncEnvelopeRequest \<Rightarrow> store_world \<Rightarrow> EnvelopePage option result \<times> store_world" where
  "syncEnvelopeRecord net now user req w =
     (if user = nil_uuid \<or> sy_device_id req = nil_uuid \<or> length (cursors req) > 1000
      then (Inl (InvalidArgument ''Invalid synchronization request''), w)
      else if \<not> check_cursors (sy_device_id req) [] (cursors req)
      then (Inl (InvalidArgument ''Invalid or duplicate synchronization cursor''), w)
      else with_lease net now (withTransaction net (sync_body net user req)) w)"

section \<open>Acknowledgment\<close>

fun check_ids :: "uuid list \<Rightarrow> uuid list \<Rightarrow> bool" where
  "check_ids seen [] = True"
| "check_ids seen (i # is) = (if i = nil_uuid \<or> i \<in> set seen then False else check_ids (i # seen) is)"

definition acknowledges :: "uuid \<Rightarrow> uuid list \<Rightarrow> envelope_row \<Rightarrow> bool" where
  "acknowledges device ids r \<longleftrightarrow>
     recipient_device_id (row_envelope r) = device \<and> envelope_id (row_envelope r) \<in> set ids"

text \<open>\<^verbatim>\<open>COALESCE(received_at, CURRENT_TIMESTAMP)\<close>: the first acknowledgment counts.\<close>

definition acked_row :: "int \<Rightarrow> uuid \<Rightarrow> uuid list \<Rightarrow> envelope_row \<Rightarrow> envelope_row" where
  "acked_row now device ids r =
     (if acknowledges device ids r
      then r\<lparr>received_at := Some (case received_at r of None \<Rightarrow> now | Some t \<Rightarrow> t)\<rparr> else r)"

definition sql_acknowledge :: "pg_env \<Rightarrow> uuid \<Rightarrow> uuid list \<Rightarrow> (store, uuid list) query" where
  "sql_acknowledge env device ids n st =
     Inr (map (\<lambda>r. envelope_id (row_envelope r)) (filter (acknowledges device ids) (message_envelopes st)),
          st\<lparr>message_envelopes := map (acked_row (current_timestamp env n) device ids) (message_envelopes st)\<rparr>)"

definition ack_body :: "(nat \<Rightarrow> network) \<Rightarrow> pg_env \<Rightarrow> uuid \<Rightarrow> AckEnvelopeRequest \<Rightarrow> (store, uuid list option) db" where
  "ack_body net env user req =
     db_bind (execute net (Sql (sql_own_device user (ack_device_id req)))) (\<lambda>device.
     if device = [] then db_return None
     else db_bind (execute net (Sql (sql_acknowledge env (ack_device_id req) (envelope_ids req)))) (\<lambda>ids.
       db_return (Some ids)))"

definition ackEnvelopes ::
  "(nat \<Rightarrow> network) \<Rightarrow> int \<Rightarrow> pg_env \<Rightarrow> uuid \<Rightarrow> AckEnvelopeRequest \<Rightarrow> store_world \<Rightarrow> uuid list option result \<times> store_world" where
  "ackEnvelopes net now env user req w =
     (if user = nil_uuid \<or> ack_device_id req = nil_uuid \<or> envelope_ids req = [] \<or> length (envelope_ids req) > 100
      then (Inl (InvalidArgument ''Invalid acknowledgment request''), w)
      else if \<not> check_ids [] (envelope_ids req)
      then (Inl (InvalidArgument ''Invalid or duplicate envelope identifier''), w)
      else with_lease net now (withTransaction net (ack_body net env user req)) w)"

section \<open>Text conversions\<close>

lemma is_digit_not_minus: "is_digit c \<Longrightarrow> c \<noteq> CHR ''-''"
  by (auto simp: is_digit_def)

lemma parseSeq_text [simp]:
  assumes "0 < n" "n \<le> int64_max"
  shows "parseSeq (bigint_text n) = Inr n"
proof -
  have t: "bigint_text n = to_string_nat (nat n)" using assms by (simp add: bigint_text_def)
  obtain c r where cr: "to_string_nat (nat n) = c # r" by (cases "to_string_nat (nat n)") auto
  have "is_digit c" using to_string_nat_digits [of c "nat n"] cr by simp
  then have "c \<noteq> CHR ''-''" by (rule is_digit_not_minus)
  moreover have "from_chars_unsigned (2 ^ 63 - 1) (c # r) = Inr (nat n, length (c # r))"
    using assms from_chars_to_string_nat [of "2 ^ 63 - 1" "nat n"] cr by (simp add: int64_max_def)
  ultimately have "from_chars_int64 (c # r) = Inr (n, length (c # r))"
    using assms(1) by (simp add: from_chars_int64_def)
  with assms show ?thesis by (simp add: parseSeq_def t cr)
qed

lemma hex_digit_value_nth: "d < 16 \<Longrightarrow> hex_digit_value (hex_digits ! d) = Some d"
proof -
  have "\<forall>d \<in> set [0..<16]. hex_digit_value (hex_digits ! d) = Some d" by code_simp
  then show "d < 16 \<Longrightarrow> hex_digit_value (hex_digits ! d) = Some d" by simp
qed

lemma byte_halves:
  fixes b :: byte
  shows "unat (drop_bit 4 b) < 16" "unat (b AND 15) < 16" "16 * unat (drop_bit 4 b) + unat (b AND 15) = unat b"
proof -
  have b: "unat b < 256" using unsigned_less [of b] by simp
  have d: "unat (drop_bit 4 b) = unat b div 16" by (simp add: drop_bit_eq_div unat_div)
  have "b AND 15 = take_bit 4 b" by (simp add: take_bit_eq_mask mask_eq_exp_minus_1)
  then have m: "unat (b AND 15) = unat b mod 16" by (simp add: take_bit_eq_mod unat_mod)
  from b d m show "unat (drop_bit 4 b) < 16" "unat (b AND 15) < 16" "16 * unat (drop_bit 4 b) + unat (b AND 15) = unat b"
    by simp_all
qed

lemma decode_encode_pairs [simp]: "decode_pairs (encodeHex bs) = Some bs"
proof (induction bs)
  case (Cons b bs)
  have "hex_pair (hex_digits ! unat (drop_bit 4 b)) (hex_digits ! unat (b AND 15)) = Some b"
    using byte_halves [of b] by (simp add: hex_digit_value_nth)
  with Cons show ?case by (simp add: encodeHex_def)
qed (simp add: encodeHex_def)

lemma length_encodeHex [simp]: "length (encodeHex bs) = 2 * length bs"
  by (induction bs) (simp_all add: encodeHex_def)

lemma decodePacketHex_encode: "0 < length bs \<Longrightarrow> length bs \<le> 65536 \<Longrightarrow> decodePacketHex (encodeHex bs) = Inr bs"
  by (auto simp: decodePacketHex_def dest: arg_cong [of _ _ length])

lemma encodeHex_inject [simp]: "encodeHex a = encodeHex b \<longleftrightarrow> a = b"
  by (metis decode_encode_pairs option.inject)

section \<open>Who may send\<close>

text \<open>
  The tables' keys: one row per device, one per ordered pair of friends, and so on.  Friends are friends in both
  directions; a refresh token belongs to a device of its user, and that device has not been revoked unless the token is.
\<close>

definition symmetric_relation :: "('a \<times> 'a) set \<Rightarrow> bool" where
  "symmetric_relation R \<longleftrightarrow> (\<forall>(a, b) \<in> R. a \<noteq> b \<and> (b, a) \<in> R)"

definition accounts_ok :: "store \<Rightarrow> bool" where
  "accounts_ok st \<longleftrightarrow>
     distinct (map us_id (users st)) \<and> distinct (map us_username (users st)) \<and>
     distinct (map fq_id (friend_requests st)) \<and> symmetric_relation (set (friend_relation st))"

definition credentials_ok :: "store \<Rightarrow> bool" where
  "credentials_ok st \<longleftrightarrow>
     distinct (map lt_ticket_hash (login_tickets st)) \<and>
     distinct (map rt_token_hash (refresh_tokens st)) \<and>
     distinct (map (\<lambda>p. (pk_device_id p, pk_prekey_id p)) (one_time_prekeys st)) \<and>
     (\<forall>t \<in> set (refresh_tokens st). \<exists>ud \<in> set (user_devices st). ud_device_id ud = rt_device_id t \<and>
        ud_user_id ud = rt_user_id t \<and> (ud_status ud = ''revoked'' \<longrightarrow> rt_revoked_at t \<noteq> None))"

definition keys_ok :: "store \<Rightarrow> bool" where
  "keys_ok st \<longleftrightarrow> distinct (map ud_device_id (user_devices st)) \<and> distinct (friend_relation st) \<and>
     accounts_ok st \<and> credentials_ok st"

lemma keys_ok_envelopes [simp]: "keys_ok (st\<lparr>message_envelopes := rs\<rparr>) = keys_ok st"
  by (simp add: keys_ok_def accounts_ok_def credentials_ok_def)

text \<open>A device that may take part, and the permission to send, written without reference to the queries.\<close>

definition usable_device :: "store \<Rightarrow> uuid \<Rightarrow> uuid \<Rightarrow> bool" where
  "usable_device st user device \<longleftrightarrow>
     (\<exists>ud \<in> set (user_devices st). ud_device_id ud = device \<and> ud_user_id ud = user \<and> ud_status ud = ''active'') \<and>
     active_user st user"

definition may_send :: "store \<Rightarrow> uuid \<Rightarrow> uuid \<Rightarrow> uuid \<Rightarrow> bool" where
  "may_send st user sender recipient \<longleftrightarrow>
     sender \<noteq> recipient \<and> usable_device st user sender \<and>
     (\<exists>peer. usable_device st peer recipient \<and>
        (peer = user \<or> {(user, peer), (peer, user)} \<subseteq> set (friend_relation st)))"

lemma two_of_two:
  assumes "distinct xs" "set xs \<subseteq> {a, b}"
  shows "length xs = 2 \<longleftrightarrow> a \<noteq> b \<and> a \<in> set xs \<and> b \<in> set xs"
proof -
  have l: "length xs = card (set xs)" using assms(1) by (simp add: distinct_card)
  show ?thesis
  proof
    assume "length xs = 2"
    with l have c: "card (set xs) = 2" by simp
    have "a \<noteq> b"
    proof
      assume "a = b"
      with assms(2) have "card (set xs) \<le> 1" using card_mono [of "{a}" "set xs"] by simp
      with c show False by simp
    qed
    with c assms(2) have "set xs = {a, b}" using card_subset_eq [of "{a, b}" "set xs"] by simp
    with \<open>a \<noteq> b\<close> show "a \<noteq> b \<and> a \<in> set xs \<and> b \<in> set xs" by simp
  next
    assume "a \<noteq> b \<and> a \<in> set xs \<and> b \<in> set xs"
    with assms(2) have "set xs = {a, b}" by blast
    with l \<open>a \<noteq> b \<and> a \<in> set xs \<and> b \<in> set xs\<close> show "length xs = 2" by simp
  qed
qed

lemma key_unique: "distinct (map f xs) \<Longrightarrow> x \<in> set xs \<Longrightarrow> y \<in> set xs \<Longrightarrow> f x = f y \<Longrightarrow> x = y"
  by (meson distinct_map inj_on_def)

lemma message_devices:
  assumes k: "keys_ok st" and q: "sql_message_devices user sender recipient n st = Inr (ds, st')"
  shows "st' = st"
    and "length ds = 2 \<longleftrightarrow> sender \<noteq> recipient \<and> usable_device st user sender \<and> (\<exists>peer. usable_device st peer recipient)"
    and "sender \<noteq> recipient \<Longrightarrow> (recipient, peer) \<in> set ds \<longleftrightarrow> usable_device st peer recipient"
proof -
  let ?P = "\<lambda>ud. ud_device_id ud \<in> {sender, recipient} \<and> ud_status ud = ''active'' \<and>
    active_user st (ud_user_id ud) \<and> (ud_device_id ud \<noteq> sender \<or> ud_user_id ud = user)"
  let ?fs = "filter ?P (user_devices st)"
  from q show "st' = st" by (simp add: sql_message_devices_def)
  have ds: "ds = sort_key fst (map (\<lambda>ud. (ud_device_id ud, ud_user_id ud)) ?fs)"
    using q by (auto simp: sql_message_devices_def)
  have d: "distinct (map ud_device_id ?fs)" using k by (simp add: keys_ok_def distinct_map_filter)
  have in_ds: "(dev, u) \<in> set ds \<longleftrightarrow> (\<exists>ud \<in> set (user_devices st). ?P ud \<and> dev = ud_device_id ud \<and> u = ud_user_id ud)" for dev u
    by (auto simp: ds)
  then show "(recipient, peer) \<in> set ds \<longleftrightarrow> usable_device st peer recipient" if "sender \<noteq> recipient"
    using that by (auto simp: usable_device_def)
  have len: "length ds = length (map ud_device_id ?fs)" by (simp add: ds)
  have sub: "set (map ud_device_id ?fs) \<subseteq> {sender, recipient}" by auto
  have s: "sender \<in> set (map ud_device_id ?fs) \<longleftrightarrow> usable_device st user sender"
    by (auto simp: usable_device_def)
  have r: "recipient \<in> set (map ud_device_id ?fs) \<longleftrightarrow> (\<exists>peer. usable_device st peer recipient)" if "sender \<noteq> recipient"
    using that by (auto simp: usable_device_def)
  show "length ds = 2 \<longleftrightarrow> sender \<noteq> recipient \<and> usable_device st user sender \<and> (\<exists>peer. usable_device st peer recipient)"
    using two_of_two [OF d sub] s r len by auto
qed

lemma usable_owner_unique:
  "keys_ok st \<Longrightarrow> usable_device st u d \<Longrightarrow> usable_device st v d \<Longrightarrow> u = v"
  unfolding usable_device_def keys_ok_def using key_unique [of ud_device_id "user_devices st"] by metis

lemma friendships_two:
  assumes "keys_ok st" "user \<noteq> peer"
  shows "length (filter (\<lambda>fr. fr = (user, peer) \<or> fr = (peer, user)) (friend_relation st)) = 2 \<longleftrightarrow>
    {(user, peer), (peer, user)} \<subseteq> set (friend_relation st)"
  using two_of_two [of "filter (\<lambda>fr. fr = (user, peer) \<or> fr = (peer, user)) (friend_relation st)" "(user, peer)" "(peer, user)"]
    assms by (auto simp: keys_ok_def)

section \<open>What saving does\<close>

text \<open>The outcome of the stored part, for a request from a device that may send.\<close>

definition stored_as :: "NewMessageStatus \<Rightarrow> uuid \<Rightarrow> NewTextMessageRequest \<Rightarrow> Envelope \<Rightarrow> NewMessageResult" where
  "stored_as status sender req e =
     \<lparr>nm_status = status, nm_envelope = Some (e\<lparr>message_id := nm_message_id req, sender_device_id := sender,
        recipient_device_id := nm_recipient_device_id req, protocol_version := nm_protocol_version req,
        packet := nm_packet req\<rparr>)\<rparr>"

definition new_row :: "uuid \<Rightarrow> uuid \<Rightarrow> NewTextMessageRequest \<Rightarrow> store \<Rightarrow> envelope_row" where
  "new_row eid sender req st =
     \<lparr>row_envelope = \<lparr>envelope_id = eid, message_id = nm_message_id req, sender_device_id = sender,
        recipient_device_id = nm_recipient_device_id req, protocol_version = c_str (nm_protocol_version req),
        packet = nm_packet req, seq = next_seq sender (nm_recipient_device_id req) st\<rparr>, received_at = None\<rparr>"

definition save_outcome ::
  "pg_env \<Rightarrow> uuid \<Rightarrow> NewTextMessageRequest \<Rightarrow> store \<Rightarrow> NewMessageResult \<Rightarrow> store \<Rightarrow> bool" where
  "save_outcome env sender req st r st' \<longleftrightarrow>
     (case filter (same_request sender (nm_recipient_device_id req) (nm_message_id req)) (message_envelopes st) of
        x # _ \<Rightarrow>
          st' = st \<and>
          (if protocol_version (row_envelope x) \<noteq> nm_protocol_version req \<or> packet (row_envelope x) \<noteq> nm_packet req
           then r = \<lparr>nm_status = MessageConflict, nm_envelope = None\<rparr>
           else r = stored_as DuplicateRequest sender req (row_envelope x))
      | [] \<Rightarrow>
          \<exists>n. let row = new_row (gen_random_uuid env n) sender req st in
            st' = st\<lparr>message_envelopes := message_envelopes st @ [row]\<rparr> \<and>
            r = stored_as Success sender req (row_envelope row) \<and>
            (\<forall>x \<in> set (message_envelopes st). envelope_id (row_envelope x) \<noteq> gen_random_uuid env n) \<and>
            seq (row_envelope row) \<le> int64_max)"

text \<open>The invariant of the table: numbering without gaps from 1 in each pair, unique identifiers, valid packets.\<close>

definition envelopes_ok :: "store \<Rightarrow> bool" where
  "envelopes_ok st \<longleftrightarrow>
     (\<forall>a b. pair_seqs a b st = map int [1..<Suc (length (pair_seqs a b st))]) \<and>
     distinct (map (\<lambda>r. envelope_id (row_envelope r)) (message_envelopes st)) \<and>
     distinct (map (\<lambda>r. (sender_device_id (row_envelope r), recipient_device_id (row_envelope r),
                         message_id (row_envelope r))) (message_envelopes st)) \<and>
     (\<forall>r \<in> set (message_envelopes st).
        0 < length (packet (row_envelope r)) \<and> length (packet (row_envelope r)) \<le> 65536 \<and>
        seq (row_envelope r) \<le> int64_max \<and>
        sender_device_id (row_envelope r) \<noteq> nil_uuid \<and>
        sender_device_id (row_envelope r) \<noteq> recipient_device_id (row_envelope r))"

definition store_ok :: "store \<Rightarrow> bool" where
  "store_ok st \<longleftrightarrow> keys_ok st \<and> envelopes_ok st"

lemma same_pair_refl [simp]:
  "same_pair (sender_device_id (row_envelope r)) (recipient_device_id (row_envelope r)) r"
  by (simp add: same_pair_def Let_def)

lemma pair_seqs_mem:
  "r \<in> set (message_envelopes st) \<Longrightarrow>
   seq (row_envelope r) \<in> set (pair_seqs (sender_device_id (row_envelope r)) (recipient_device_id (row_envelope r)) st)"
  by (auto simp: pair_seqs_def intro!: image_eqI [where x = r])

lemma seq_positive:
  assumes "envelopes_ok st" "r \<in> set (message_envelopes st)"
  shows "0 < seq (row_envelope r)" "seq (row_envelope r) \<le> int64_max"
proof -
  let ?s = "sender_device_id (row_envelope r)" and ?t = "recipient_device_id (row_envelope r)"
  from assms(1) have "pair_seqs ?s ?t st = map int [1..<Suc (length (pair_seqs ?s ?t st))]"
    by (simp add: envelopes_ok_def del: upt_Suc)
  with pair_seqs_mem [OF assms(2)] have "seq (row_envelope r) \<in> set (map int [1..<Suc (length (pair_seqs ?s ?t st))])"
    by metis
  then show "0 < seq (row_envelope r)" by auto
  from assms show "seq (row_envelope r) \<le> int64_max" by (simp add: envelopes_ok_def)
qed

lemma next_seq_count:
  assumes "envelopes_ok st"
  shows "next_seq a b st = int (Suc (length (pair_seqs a b st)))"
proof -
  let ?n = "length (pair_seqs a b st)"
  have e: "pair_seqs a b st = map int [1..<Suc ?n]" using assms by (simp add: envelopes_ok_def del: upt_Suc)
  show ?thesis
  proof (cases ?n)
    case (Suc m)
    have "Max (set (pair_seqs a b st)) = int ?n"
      by (subst e, rule Max_eqI) (use Suc in \<open>auto\<close>)
    with Suc show ?thesis by (auto simp: next_seq_def Let_def)
  qed (simp add: next_seq_def Let_def)
qed

lemma next_seq_fresh: "envelopes_ok st \<Longrightarrow> next_seq a b st \<notin> set (pair_seqs a b st)"
proof
  assume ok: "envelopes_ok st" and m: "next_seq a b st \<in> set (pair_seqs a b st)"
  have "pair_seqs a b st = map int [1..<Suc (length (pair_seqs a b st))]" using ok by (simp add: envelopes_ok_def del: upt_Suc)
  with m have "next_seq a b st \<in> set (map int [1..<Suc (length (pair_seqs a b st))])" by metis
  with next_seq_count [OF ok, of a b] show False by auto
qed

lemma pair_seqs_append:
  "pair_seqs a b (st\<lparr>message_envelopes := message_envelopes st @ [r]\<rparr>) =
     pair_seqs a b st @ (if same_pair a b r then [seq (row_envelope r)] else [])"
  by (simp add: pair_seqs_def)

lemma pair_seqs_same: "same_pair a b r \<Longrightarrow>
  pair_seqs a b st = pair_seqs (sender_device_id (row_envelope r)) (recipient_device_id (row_envelope r)) st"
  by (simp add: pair_seqs_def same_pair_def Let_def cong: filter_cong)

lemma new_row_keeps_ok:
  assumes ok: "envelopes_ok st"
    and fresh: "\<forall>x \<in> set (message_envelopes st). envelope_id (row_envelope x) \<noteq> eid"
    and none: "filter (same_request sender (nm_recipient_device_id req) (nm_message_id req)) (message_envelopes st) = []"
    and p: "0 < length (nm_packet req)" "length (nm_packet req) \<le> 65536"
    and s: "sender \<noteq> nil_uuid" "sender \<noteq> nm_recipient_device_id req"
    and max: "next_seq sender (nm_recipient_device_id req) st \<le> int64_max"
  shows "envelopes_ok (st\<lparr>message_envelopes := message_envelopes st @ [new_row eid sender req st]\<rparr>)"
proof -
  let ?r = "new_row eid sender req st"
  let ?st = "st\<lparr>message_envelopes := message_envelopes st @ [?r]\<rparr>"
  have "pair_seqs a b ?st = map int [1..<Suc (length (pair_seqs a b ?st))]" for a b
  proof -
    have e: "pair_seqs a b st = map int [1..<Suc (length (pair_seqs a b st))]" using ok by (simp add: envelopes_ok_def del: upt_Suc)
    show ?thesis
    proof (cases "same_pair a b ?r")
      case True
      then have "seq (row_envelope ?r) = int (Suc (length (pair_seqs a b st)))"
        using next_seq_count [OF ok, of sender "nm_recipient_device_id req"] pair_seqs_same [OF True, of st]
        by (simp add: new_row_def)
      then show ?thesis using True e
        by (simp add: pair_seqs_append)
    qed (use e in \<open>simp add: pair_seqs_append del: upt_Suc\<close>)
  qed
  moreover have "(sender, nm_recipient_device_id req, nm_message_id req) \<notin>
      (\<lambda>r. (sender_device_id (row_envelope r), recipient_device_id (row_envelope r), message_id (row_envelope r))) `
        set (message_envelopes st)"
    using none by (auto simp: filter_empty_conv same_request_def)
  ultimately show ?thesis
    using ok fresh p s max by (auto simp: envelopes_ok_def new_row_def simp del: upt_Suc)
qed

section \<open>The transaction of saveNewMessage\<close>

lemma stored_result_safe [simp, intro]: "tx_safe (stored_result status sender req eid n)"
  by (simp add: stored_result_def split: sum.splits)

lemma store_message_safe [simp, intro]: "tx_safe (store_message net env sender req)"
  unfolding store_message_def Let_def
  by (rule tx_safe_bind, simp) (auto split: list.splits intro!: tx_safe_bind)

lemma are_friends_safe [simp, intro]: "tx_safe (are_friends net user peer)"
  by (auto simp: are_friends_def)

lemma save_body_safe [simp, intro]: "tx_safe (save_body net env user sender req)"
  unfolding save_body_def Let_def
  by (intro tx_safe_bind tx_safe_if tx_safe_sql tx_safe_return) (auto split: list.splits)

lemma stored_result_runs:
  "tx_runs (stored_result status sender req eid n) st r st' \<longleftrightarrow>
     st' = st \<and> (\<exists>k. parseSeq n = Inr k \<and>
       r = \<lparr>nm_status = status, nm_envelope = Some \<lparr>envelope_id = eid, message_id = nm_message_id req,
             sender_device_id = sender, recipient_device_id = nm_recipient_device_id req,
             protocol_version = nm_protocol_version req, packet = nm_packet req, seq = k\<rparr>\<rparr>)"
  by (cases "parseSeq n") (auto simp: stored_result_def)

lemma insert_message:
  assumes "sql_insert_message env sender recipient msg version (encodeHex p) n st = Inr (rows, st')"
  shows "rows = [(gen_random_uuid env n, bigint_text (next_seq sender recipient st))] \<and>
    st' = st\<lparr>message_envelopes := message_envelopes st @ [\<lparr>row_envelope =
      \<lparr>envelope_id = gen_random_uuid env n, message_id = msg, sender_device_id = sender,
       recipient_device_id = recipient, protocol_version = version, packet = p,
       seq = next_seq sender recipient st\<rparr>, received_at = None\<rparr>]\<rparr> \<and>
    (\<forall>x \<in> set (message_envelopes st). envelope_id (row_envelope x) \<noteq> gen_random_uuid env n) \<and>
    next_seq sender recipient st \<le> int64_max"
  using assms by (auto simp: sql_insert_message_def Let_def split: if_splits)

lemma store_message_runs:
  assumes ok: "envelopes_ok st" and run: "tx_runs (store_message net env sender req) st r st'"
  shows "save_outcome env sender req st r st'"
proof -
  let ?rows = "filter (same_request sender (nm_recipient_device_id req) (nm_message_id req)) (message_envelopes st)"
  note run = tx_runs_sql_bind [OF run [unfolded store_message_def Let_def]]
  show ?thesis
  proof (cases ?rows)
    case Nil
    then obtain n rows u where ins: "sql_insert_message env sender (nm_recipient_device_id req) (nm_message_id req)
          (c_str (nm_protocol_version req)) (encodeHex (nm_packet req)) n st = Inr (rows, u)"
        and r: "tx_runs (case rows of [(eid, k)] \<Rightarrow> stored_result Success sender req eid k
          | _ \<Rightarrow> db_throw (RuntimeError ''Insert returned unexpected row count'')) u r st'"
      using run by (auto simp: sql_find_message_def dest!: tx_runs_sql_bind)
    note i = insert_message [OF ins]
    have "0 < next_seq sender (nm_recipient_device_id req) st" using next_seq_count [OF ok] by simp
    with i r Nil show ?thesis
      by (auto simp: save_outcome_def stored_result_runs stored_as_def new_row_def Let_def intro!: exI [of _ n])
  next
    case (Cons x xs)
    then have "x \<in> set ?rows" by simp
    then have x: "x \<in> set (message_envelopes st)" "same_request sender (nm_recipient_device_id req) (nm_message_id req) x"
      by simp_all
    then have "parseSeq (bigint_text (seq (row_envelope x))) = Inr (seq (row_envelope x))"
      using seq_positive [OF ok x(1)] by simp
    with run Cons x(2) show ?thesis
      by (auto simp: sql_find_message_def save_outcome_def stored_result_runs stored_as_def same_request_def split: if_splits)
  qed
qed

lemma are_friends_runs:
  assumes "keys_ok st" "tx_runs (are_friends net user peer) st ok st'"
  shows "st' = st \<and> (ok \<longleftrightarrow> peer = user \<or> {(user, peer), (peer, user)} \<subseteq> set (friend_relation st))"
  using assms friendships_two [OF assms(1), of user peer]
  by (auto simp: are_friends_def sql_friendships_def split: if_splits dest!: tx_runs_sql_bind)

lemma save_body_runs:
  assumes ok: "store_ok st" and run: "tx_runs (save_body net env user sender req) st r st'"
  shows "if may_send st user sender (nm_recipient_device_id req) then save_outcome env sender req st r st'
         else r = denied \<and> st' = st"
proof -
  let ?rcp = "nm_recipient_device_id req"
  have k: "keys_ok st" "envelopes_ok st" using ok by (simp_all add: store_ok_def)
  from run obtain n ds where q: "sql_message_devices user sender ?rcp n st = Inr (ds, st)"
    and r: "tx_runs (if length ds \<noteq> 2 then db_return denied
      else case map snd (filter (\<lambda>d. fst d = ?rcp) ds) of
        [] \<Rightarrow> db_return denied
      | owners \<Rightarrow>
          db_bind (are_friends net user (last owners)) (\<lambda>ok.
          if ok then store_message net env sender req else db_return denied)) st r st'"
    using message_devices(1) [OF k(1)]
    by (fastforce simp: save_body_def Let_def sql_nothing_def dest!: tx_runs_sql_bind)
  note d = message_devices [OF k(1) q]
  show ?thesis
  proof (cases "length ds = 2")
    case False
    with r d(2) show ?thesis by (auto simp: may_send_def)
  next
    case True
    with d(2) obtain peer where p: "sender \<noteq> ?rcp" "usable_device st user sender" "usable_device st peer ?rcp" by blast
    let ?owners = "map snd (filter (\<lambda>d. fst d = ?rcp) ds)"
    have mem: "u \<in> set ?owners \<longleftrightarrow> u = peer" for u
    proof -
      have "u \<in> set ?owners \<longleftrightarrow> (?rcp, u) \<in> set ds" by (force simp: image_iff)
      with d(3) [OF p(1), of u] p(3) usable_owner_unique [OF k(1), of peer ?rcp u] show ?thesis by blast
    qed
    then have ne: "?owners \<noteq> []" by fastforce
    then have l: "last ?owners = peer" using mem last_in_set by blast
    from r True ne have "tx_runs (db_bind (are_friends net user (last ?owners)) (\<lambda>ok.
        if ok then store_message net env sender req else db_return denied)) st r st'"
      by (simp split: list.splits)
    from tx_runs_bind [OF this are_friends_safe] l
    obtain fr u where f: "tx_runs (are_friends net user peer) st fr u"
        "tx_runs (if fr then store_message net env sender req else db_return denied) u r st'"
      by auto
    from are_friends_runs [OF k(1) f(1)] have u: "u = st"
      "fr \<longleftrightarrow> peer = user \<or> {(user, peer), (peer, user)} \<subseteq> set (friend_relation st)" by simp_all
    have m: "may_send st user sender ?rcp \<longleftrightarrow> fr"
      using p u(2) usable_owner_unique [OF k(1)] unfolding may_send_def by blast
    show ?thesis
    proof (cases fr)
      case True
      with f(2) u(1) m store_message_runs [OF k(2)] show ?thesis by simp
    qed (use f(2) u(1) m in simp)
  qed
qed

section \<open>The transactions of syncEnvelopeRecord and ackEnvelopes\<close>

lemma own_device:
  "sql_own_device user device n st = Inr (ds, st') \<Longrightarrow> st' = st \<and> (ds = [] \<longleftrightarrow> \<not> usable_device st user device)"
  by (auto simp: sql_own_device_def usable_device_def filter_empty_conv)

text \<open>What the paging loop returns when every stored row can be converted: a prefix of the pending envelopes.\<close>

fun fill_page :: "Envelope list \<Rightarrow> nat \<Rightarrow> nat \<Rightarrow> nat" where
  "fill_page [] used k = k"
| "fill_page (e # es) used k =
     (if k = pageSize \<or> estimatedRecordBytes (packet e) > pageWireBudget - used then k
      else fill_page es (used + estimatedRecordBytes (packet e)) (Suc k))"

definition wire_bytes :: "Envelope list \<Rightarrow> nat" where
  "wire_bytes es = sum_list (map (\<lambda>e. estimatedRecordBytes (packet e)) es)"

definition row_readable :: "Envelope \<Rightarrow> bool" where
  "row_readable e \<longleftrightarrow> 0 < length (packet e) \<and> length (packet e) \<le> 65536 \<and> 0 < seq e \<and> seq e \<le> int64_max"

abbreviation columns :: "Envelope \<Rightarrow> envelope_columns" where
  "columns e \<equiv> (e, encodeHex (packet e), bigint_text (seq e))"

lemma page_loop_fills:
  assumes "\<forall>e \<in> set es. row_readable e"
  shows "page_loop (map columns es) used acc =
    (let k = fill_page es used (length acc) in
     Inr \<lparr>envelopes = acc @ take (k - length acc) es, has_more = (k - length acc < length es)\<rparr>) \<and>
    length acc \<le> fill_page es used (length acc)"
  using assms
proof (induction es arbitrary: used acc)
  case (Cons e es)
  then have e: "decodePacketHex (encodeHex (packet e)) = Inr (packet e)" "parseSeq (bigint_text (seq e)) = Inr (seq e)"
    by (simp_all add: row_readable_def decodePacketHex_encode)
  show ?case
  proof (cases "length acc = pageSize \<or> estimatedRecordBytes (packet e) > pageWireBudget - used")
    case True
    with e show ?thesis by (auto simp: Let_def)
  next
    case False
    let ?u = "used + estimatedRecordBytes (packet e)"
    note IH = Cons.IH [of ?u "acc @ [e]"]
    have "Suc (length acc) \<le> fill_page es ?u (Suc (length acc))" using IH Cons.prems by simp
    then obtain j where j: "fill_page es ?u (Suc (length acc)) = Suc (length acc) + j" using le_Suc_ex by blast
    from False e IH Cons.prems j show ?thesis by (simp add: Let_def)
  qed
qed simp

lemma fill_page_bounds:
  assumes "used \<le> pageWireBudget" "k \<le> pageSize"
  shows "fill_page es used k \<le> pageSize \<and> k \<le> fill_page es used k \<and> fill_page es used k - k \<le> length es \<and>
    used + wire_bytes (take (fill_page es used k - k) es) \<le> pageWireBudget \<and>
    (fill_page es used k - k < length es \<longrightarrow>
       fill_page es used k = pageSize \<or>
       used + wire_bytes (take (Suc (fill_page es used k - k)) es) > pageWireBudget)"
  using assms
proof (induction es used k rule: fill_page.induct)
  case (2 e es used k)
  show ?case
  proof (cases "k = pageSize \<or> estimatedRecordBytes (packet e) > pageWireBudget - used")
    case True
    with "2.prems" show ?thesis by (auto simp: wire_bytes_def)
  next
    case False
    with "2.prems" have p: "used + estimatedRecordBytes (packet e) \<le> pageWireBudget" "Suc k \<le> pageSize" by auto
    let ?m = "fill_page es (used + estimatedRecordBytes (packet e)) (Suc k)"
    note IH = "2.IH" [OF False p]
    then obtain j where "?m = Suc k + j" using le_Suc_ex by blast
    with False IH show ?thesis by (auto simp: wire_bytes_def)
  qed
qed (simp add: wire_bytes_def)

lemma pending_readable: "envelopes_ok st \<Longrightarrow> e \<in> set (page_order (pending device cs st)) \<Longrightarrow> row_readable e"
proof -
  assume ok: "envelopes_ok st" and "e \<in> set (page_order (pending device cs st))"
  then obtain r where r: "r \<in> set (message_envelopes st)" "e = row_envelope r"
    by (auto simp: page_order_def pending_def)
  have "0 < length (packet e) \<and> length (packet e) \<le> 65536" using ok r by (auto simp: envelopes_ok_def)
  with seq_positive [OF ok r(1)] r(2) show "row_readable e" by (simp add: row_readable_def)
qed

text \<open>The page for a request on given tables.\<close>

definition page_of :: "uuid \<Rightarrow> EnvelopeSyncCursor list \<Rightarrow> store \<Rightarrow> EnvelopePage" where
  "page_of device cs st =
     (let es = page_order (pending device cs st); k = fill_page (take (pageSize + 1) es) 0 0 in
      \<lparr>envelopes = take k es, has_more = (k < length es)\<rparr>)"

lemma page_loop_page_of:
  assumes "envelopes_ok st"
  shows "page_loop (map columns (take (pageSize + 1) (page_order (pending device cs st)))) 0 [] = Inr (page_of device cs st)"
proof -
  let ?es = "page_order (pending device cs st)"
  let ?k = "fill_page (take (pageSize + 1) ?es) 0 0"
  have r: "\<forall>e \<in> set (take (pageSize + 1) ?es). row_readable e"
    using pending_readable [OF assms] in_set_takeD by metis
  have b: "?k \<le> pageSize" using fill_page_bounds [of 0 0 "take (pageSize + 1) ?es"] by simp
  from page_loop_fills [OF r, of 0 "[]"] b show ?thesis by (auto simp: page_of_def Let_def min_def)
qed

lemma db_lift_safe [simp, intro]: "tx_safe (db_lift r)"
  by (cases r) (simp_all add: db_lift_def)

lemma db_lift_runs [simp]: "tx_runs (db_lift r) d x d' \<longleftrightarrow> r = Inr x \<and> d' = d"
  by (cases r) (auto simp: db_lift_def)

lemma sync_body_safe [simp, intro]: "tx_safe (sync_body net user req)"
  unfolding sync_body_def by (intro tx_safe_bind tx_safe_if tx_safe_sql tx_safe_return db_lift_safe)

lemma sync_body_runs:
  assumes "envelopes_ok st" "tx_runs (sync_body net user req) st r st'"
  shows "st' = st \<and> r = (if usable_device st user (sy_device_id req)
    then Some (page_of (sy_device_id req) (cursors req) st) else None)"
proof -
  from assms(2) obtain n ds u where d: "sql_own_device user (sy_device_id req) n st = Inr (ds, u)"
    and r: "tx_runs (if ds = [] then db_return None
      else db_bind (execute net (Sql (sql_pending (sy_device_id req) (cursors req) (pageSize + 1)))) (\<lambda>rows.
        db_bind (db_lift (page_loop rows 0 [])) (\<lambda>page. db_return (Some page)))) u r st'"
    by (auto simp: sync_body_def dest!: tx_runs_sql_bind)
  from own_device [OF d] r show ?thesis
    using page_loop_page_of [OF assms(1), of "sy_device_id req" "cursors req"]
    by (auto simp: sql_pending_def split: if_splits dest!: tx_runs_sql_bind tx_runs_bind)
qed

lemma ack_body_safe [simp, intro]: "tx_safe (ack_body net env user req)"
  unfolding ack_body_def by (intro tx_safe_bind tx_safe_if tx_safe_sql tx_safe_return)

definition ack_effect :: "uuid \<Rightarrow> uuid \<Rightarrow> uuid list \<Rightarrow> store \<Rightarrow> uuid list option \<Rightarrow> store \<Rightarrow> bool" where
  "ack_effect user device ids st r st' \<longleftrightarrow>
     (if usable_device st user device
      then r = Some (map (\<lambda>x. envelope_id (row_envelope x)) (filter (acknowledges device ids) (message_envelopes st))) \<and>
           (\<exists>now. st' = st\<lparr>message_envelopes := map (acked_row now device ids) (message_envelopes st)\<rparr>)
      else r = None \<and> st' = st)"

lemma ack_body_runs:
  assumes "tx_runs (ack_body net env user req) st r st'"
  shows "ack_effect user (ack_device_id req) (envelope_ids req) st r st'"
proof -
  from assms obtain n ds u where d: "sql_own_device user (ack_device_id req) n st = Inr (ds, u)"
    and r: "tx_runs (if ds = [] then db_return None
      else db_bind (execute net (Sql (sql_acknowledge env (ack_device_id req) (envelope_ids req)))) (\<lambda>ids.
        db_return (Some ids))) u r st'"
    by (auto simp: ack_body_def dest!: tx_runs_sql_bind)
  from own_device [OF d] r show ?thesis
    by (auto simp: ack_effect_def sql_acknowledge_def split: if_splits dest!: tx_runs_sql_bind)
qed

end
