(* ===== verification/Chat_Service.thy ===== *)
theory Chat_Service
  imports Envelope_Store
begin

text \<open>
  The chat service, \<^verbatim>\<open>src/src/service/ChatService.cpp\<close>: validation of a message before it is stored, at most three
  attempts at the transaction, and the mapping of database errors to the answers the client sees.  The properties
  span the service and the store below it: who may send, numbering, repeated requests, pages and acknowledgments,
  whatever the network does.
\<close>

section \<open>Operations\<close>

datatype NewTextMessageStatus =
    ChatSuccess | ChatDuplicate | InvalidRequest | ChatPermissionDenied
  | ChatConflict | DatabaseUnavailable | RetryLater | InternalError

record NewTextMessageResult =
  tm_status :: NewTextMessageStatus
  tm_envelope :: "Envelope option"

definition status_only :: "NewTextMessageStatus \<Rightarrow> NewTextMessageResult" where
  "status_only st = \<lparr>tm_status = st, tm_envelope = None\<rparr>"

definition valid_message :: "uuid \<Rightarrow> uuid \<Rightarrow> NewTextMessageRequest \<Rightarrow> bool" where
  "valid_message user sender req \<longleftrightarrow>
     \<not> (user = nil_uuid \<or> sender = nil_uuid \<or> nm_message_id req = nil_uuid \<or>
        nm_recipient_device_id req = nil_uuid \<or> sender = nm_recipient_device_id req \<or>
        nm_packet req = [] \<or> length (nm_packet req) > 64 * 1024 \<or>
        length (nm_protocol_version req) > 128 \<or>
        find_first_not_of [CHR '' '', CHR 0x09, CR, LF] (nm_protocol_version req) = None)"

text \<open>The answer to a stored result; the last line of the switch cannot be reached, the enumeration has four values.\<close>

fun stored_answer :: "NewMessageResult \<Rightarrow> NewTextMessageResult" where
  "stored_answer r =
     (case nm_status r of
        Success \<Rightarrow> (case nm_envelope r of None \<Rightarrow> status_only InternalError
                    | Some e \<Rightarrow> \<lparr>tm_status = ChatSuccess, tm_envelope = Some e\<rparr>)
      | DuplicateRequest \<Rightarrow> (case nm_envelope r of None \<Rightarrow> status_only InternalError
                    | Some e \<Rightarrow> \<lparr>tm_status = ChatDuplicate, tm_envelope = Some e\<rparr>)
      | PermissionDenied \<Rightarrow> status_only ChatPermissionDenied
      | MessageConflict \<Rightarrow> status_only ChatConflict)"

definition may_retry :: "DatabaseError \<Rightarrow> bool" where
  "may_retry e \<longleftrightarrow>
     db_code e = ''40001'' \<or> db_code e = ''40P01'' \<or>
     (db_code e = ''23505'' \<and> db_constraint e = Some ''message_envelopes_pkey'')"

definition unavailable :: "DatabaseError \<Rightarrow> bool" where
  "unavailable e \<longleftrightarrow> db_kind e = Connection \<or> starts_with ''08'' (db_code e)"

text \<open>The loop, by the number of attempts that are left.\<close>

fun attempts ::
  "(nat \<Rightarrow> network) \<Rightarrow> int \<Rightarrow> pg_env \<Rightarrow> uuid \<Rightarrow> uuid \<Rightarrow> NewTextMessageRequest \<Rightarrow> nat \<Rightarrow> store_world
     \<Rightarrow> NewTextMessageResult \<times> store_world" where
  "attempts net now env user sender req 0 w = (status_only RetryLater, w)"
| "attempts net now env user sender req (Suc k) w =
     (case saveNewMessage net now env user sender req w of
        (Inr r, w') \<Rightarrow> (stored_answer r, w')
      | (Inl (DbExn e), w') \<Rightarrow>
          if may_retry e then (if k > 0 then attempts net now env user sender req k w' else (status_only RetryLater, w'))
          else if unavailable e then (status_only DatabaseUnavailable, w')
          else (status_only InternalError, w')
      | (Inl _, w') \<Rightarrow> (status_only InternalError, w'))"

definition newTextMessage ::
  "(nat \<Rightarrow> network) \<Rightarrow> int \<Rightarrow> pg_env \<Rightarrow> uuid \<Rightarrow> uuid \<Rightarrow> NewTextMessageRequest \<Rightarrow> store_world
     \<Rightarrow> NewTextMessageResult \<times> store_world" where
  "newTextMessage net now env user sender req w =
     (if \<not> valid_message user sender req then (status_only InvalidRequest, w)
      else attempts net now env user sender req 3 w)"

definition syncEnvelopePage ::
  "(nat \<Rightarrow> network) \<Rightarrow> int \<Rightarrow> uuid \<Rightarrow> SyncEnvelopeRequest \<Rightarrow> store_world \<Rightarrow> EnvelopePage option result \<times> store_world" where
  "syncEnvelopePage net now user req w = syncEnvelopeRecord net now user req w"

definition chat_ackEnvelopes ::
  "(nat \<Rightarrow> network) \<Rightarrow> int \<Rightarrow> pg_env \<Rightarrow> uuid \<Rightarrow> AckEnvelopeRequest \<Rightarrow> store_world \<Rightarrow> uuid list option result \<times> store_world" where
  "chat_ackEnvelopes net now env user req w = ackEnvelopes net now env user req w"

section \<open>The store under one attempt\<close>

text \<open>The effect one transaction may have on the tables.\<close>

definition save_effect :: "pg_env \<Rightarrow> uuid \<Rightarrow> uuid \<Rightarrow> NewTextMessageRequest \<Rightarrow> store \<Rightarrow> NewMessageResult \<Rightarrow> store \<Rightarrow> bool" where
  "save_effect env user sender req st r st' \<longleftrightarrow>
     (if may_send st user sender (nm_recipient_device_id req) then save_outcome env sender req st r st'
      else r = denied \<and> st' = st)"

lemma saveNewMessage_effect:
  assumes "pool_clean (fst w)" "store_ok (tables (snd w))"
  shows "case saveNewMessage net now env user sender req w of
      (Inr r, w') \<Rightarrow> pool_clean (fst w') \<and> save_effect env user sender req (tables (snd w)) r (tables (snd w'))
    | (Inl e, w') \<Rightarrow> pool_clean (fst w') \<and>
        (tables (snd w') = tables (snd w) \<or>
         (e = answer_lost \<and> (\<exists>r. save_effect env user sender req (tables (snd w)) r (tables (snd w')))))"
proof -
  obtain p s where w: "w = (p, s)" by fastforce
  let ?f = "save_body net env user sender req"
  have "tx_spec ?f (\<lambda>st r st'. store_ok st \<longrightarrow> save_effect env user sender req st r st')"
    by (rule tx_spec_weaken [OF tx_spec_runs [OF save_body_safe]]) (simp add: save_effect_def save_body_runs)
  from lease_transaction [OF this, where p = p and net = net and now = now and s = s] assms w show ?thesis
    by (auto simp: saveNewMessage_def split: prod.splits sum.splits)
qed

lemma save_effect_ok:
  assumes ok: "store_ok st" and p: "0 < length (nm_packet req)" "length (nm_packet req) \<le> 65536"
    and s: "sender \<noteq> nil_uuid" "sender \<noteq> nm_recipient_device_id req"
    and e: "save_effect env user sender req st r st'"
  shows "store_ok st'"
proof (cases "may_send st user sender (nm_recipient_device_id req)")
  case True
  with e have o: "save_outcome env sender req st r st'" by (simp add: save_effect_def)
  show ?thesis
  proof (cases "filter (same_request sender (nm_recipient_device_id req) (nm_message_id req)) (message_envelopes st)")
    case Nil
    with o obtain n where n: "st' = st\<lparr>message_envelopes := message_envelopes st @ [new_row (gen_random_uuid env n) sender req st]\<rparr>"
      "\<forall>x \<in> set (message_envelopes st). envelope_id (row_envelope x) \<noteq> gen_random_uuid env n"
      "seq (row_envelope (new_row (gen_random_uuid env n) sender req st)) \<le> int64_max"
      by (auto simp: save_outcome_def Let_def)
    moreover have "next_seq sender (nm_recipient_device_id req) st \<le> int64_max" using n(3) by (simp add: new_row_def)
    moreover have "envelopes_ok st" "keys_ok st" using ok by (simp_all add: store_ok_def)
    ultimately show ?thesis using new_row_keeps_ok [OF _ n(2) Nil p s] by (simp add: store_ok_def)
  qed (use o ok in \<open>simp add: save_outcome_def\<close>)
qed (use e ok in \<open>simp add: save_effect_def\<close>)

section \<open>The three operations\<close>

lemma attempts_can_borrow:
  "can_borrow (fst w) \<Longrightarrow> can_borrow (fst (snd (attempts net now env user sender req k w)))"
proof (induction k arbitrary: w)
  case (Suc k)
  obtain r w1 where s: "saveNewMessage net now env user sender req w = (r, w1)"
    by (cases "saveNewMessage net now env user sender req w" rule: prod.exhaust)
  then have "can_borrow (fst w1)"
    using lease_can_borrow [OF Suc.prems, of net now "withTransaction net (save_body net env user sender req)" "snd w"]
    by (simp add: saveNewMessage_def)
  with Suc.IH [of w1] s show ?case by (auto split: sum.splits exn.splits)
qed simp

lemma newTextMessage_can_borrow:
  "can_borrow (fst w) \<Longrightarrow> newTextMessage net now env user sender req w = (a, w') \<Longrightarrow> can_borrow (fst w')"
  using attempts_can_borrow [of w net now env user sender req 3] by (auto simp: newTextMessage_def split: if_splits)

lemma answer_lost_internal:
  "answer_lost = DbExn \<lparr>db_kind = Query, db_code = ''QUERY_FAILED'', db_constraint = Some []\<rparr>"
  by (simp add: answer_lost_def query_error_def)

text \<open>
  Every attempt but the last one that counts leaves the tables alone; an attempt with a lost answer is not repeated.
\<close>

definition answered :: "pg_env \<Rightarrow> uuid \<Rightarrow> uuid \<Rightarrow> NewTextMessageRequest \<Rightarrow> store \<Rightarrow> NewTextMessageResult \<Rightarrow> store \<Rightarrow> bool" where
  "answered env user sender req st a st' \<longleftrightarrow>
     (\<exists>r. save_effect env user sender req st r st' \<and> (a = stored_answer r \<or> a = status_only InternalError)) \<or>
     (st' = st \<and> a \<in> {status_only RetryLater, status_only DatabaseUnavailable, status_only InternalError})"

lemma attempts_answered:
  assumes "pool_clean (fst w)" "store_ok (tables (snd w))" "attempts net now env user sender req k w = (a, w')"
  shows "pool_clean (fst w') \<and> answered env user sender req (tables (snd w)) a (tables (snd w'))"
  using assms
proof (induction k arbitrary: w)
  case (Suc k)
  obtain r w1 where s: "saveNewMessage net now env user sender req w = (r, w1)"
    by (cases "saveNewMessage net now env user sender req w" rule: prod.exhaust)
  note e = saveNewMessage_effect [OF Suc.prems(1,2), where net = net and now = now and env = env and user = user and sender = sender and req = req]
  show ?case
  proof (cases r)
    case (Inr x)
    with e s Suc.prems(3) show ?thesis by (auto simp: answered_def)
  next
    case (Inl exn)
    show ?thesis
    proof (cases "exn = answer_lost")
      case True
      with e s Inl Suc.prems(3) show ?thesis
        by (auto simp: answer_lost_internal may_retry_def unavailable_def starts_with_def answered_def)
    next
      case False
      with e s Inl have t: "tables (snd w1) = tables (snd w)" "pool_clean (fst w1)" by auto
      from Suc.IH [of w1] Suc.prems t s Inl show ?thesis
        by (cases exn) (auto simp: answered_def split: if_splits)
    qed
  qed
qed (simp add: answered_def)

lemma valid_packet: "valid_message user sender req \<Longrightarrow> 0 < length (nm_packet req) \<and> length (nm_packet req) \<le> 65536 \<and>
    sender \<noteq> nil_uuid \<and> sender \<noteq> nm_recipient_device_id req"
  by (auto simp: valid_message_def)

lemma newTextMessage_answered:
  assumes w: "pool_clean (fst w)" "store_ok (tables (snd w))" and n: "newTextMessage net now env user sender req w = (a, w')"
  shows "pool_clean (fst w') \<and> store_ok (tables (snd w')) \<and>
    (if valid_message user sender req then answered env user sender req (tables (snd w)) a (tables (snd w'))
     else a = status_only InvalidRequest \<and> w' = w)"
proof (cases "valid_message user sender req")
  case True
  with n attempts_answered [OF w, of net now env user sender req 3 a w'] have
    t: "pool_clean (fst w')" "answered env user sender req (tables (snd w)) a (tables (snd w'))"
    by (auto simp: newTextMessage_def)
  then have "store_ok (tables (snd w'))"
    using save_effect_ok [OF w(2)] valid_packet [OF True] w(2) by (auto simp: answered_def)
  with t True show ?thesis by simp
qed (use n w in \<open>auto simp: newTextMessage_def\<close>)

lemma sync_result:
  assumes w: "pool_clean (fst w)" "store_ok (tables (snd w))" and s: "syncEnvelopePage net now user req w = (r, w')"
  shows "pool_clean (fst w') \<and> tables (snd w') = tables (snd w) \<and>
    (\<forall>x. r = Inr x \<longrightarrow> x = (if usable_device (tables (snd w)) user (sy_device_id req)
       then Some (page_of (sy_device_id req) (cursors req) (tables (snd w))) else None))"
proof -
  have "tx_spec (sync_body net user req) (\<lambda>st r st'. envelopes_ok st \<longrightarrow> st' = st \<and> r =
      (if usable_device st user (sy_device_id req) then Some (page_of (sy_device_id req) (cursors req) st) else None))"
    by (rule tx_spec_weaken [OF tx_spec_runs [OF sync_body_safe]]) (simp add: sync_body_runs)
  from lease_transaction [OF this, where p = "fst w" and net = net and now = now and s = "snd w"] w s show ?thesis
    by (cases r) (auto simp: syncEnvelopePage_def syncEnvelopeRecord_def store_ok_def split: if_splits)
qed

lemma ack_result:
  assumes w: "pool_clean (fst w)" and s: "chat_ackEnvelopes net now env user req w = (r, w')"
  shows "pool_clean (fst w') \<and>
    (case r of
       Inr x \<Rightarrow> ack_effect user (ack_device_id req) (envelope_ids req) (tables (snd w)) x (tables (snd w'))
     | Inl e \<Rightarrow> tables (snd w') = tables (snd w) \<or>
         (e = answer_lost \<and> (\<exists>x. ack_effect user (ack_device_id req) (envelope_ids req) (tables (snd w)) x (tables (snd w')))))"
proof -
  have "tx_spec (ack_body net env user req) (ack_effect user (ack_device_id req) (envelope_ids req))"
    by (rule tx_spec_weaken [OF tx_spec_runs [OF ack_body_safe]]) (rule ack_body_runs)
  from lease_transaction [OF this, where p = "fst w" and net = net and now = now and s = "snd w"] w s show ?thesis
    by (cases r) (auto simp: chat_ackEnvelopes_def ackEnvelopes_def split: if_splits)
qed

lemma acked_row_envelope [simp]: "row_envelope (acked_row t device ids r) = row_envelope r"
  by (simp add: acked_row_def)

lemma acked_pair_seqs:
  "pair_seqs a b (st\<lparr>message_envelopes := map (acked_row t device ids) (message_envelopes st)\<rparr>) = pair_seqs a b st"
proof -
  have "filter (same_pair a b) (map (acked_row t device ids) rs) = map (acked_row t device ids) (filter (same_pair a b) rs)" for rs
    by (induction rs) (simp_all add: same_pair_def)
  then show ?thesis by (simp add: pair_seqs_def o_def)
qed

lemma ack_effect_ok: "store_ok st \<Longrightarrow> ack_effect user device ids st r st' \<Longrightarrow> store_ok st'"
  by (auto simp: ack_effect_def store_ok_def envelopes_ok_def acked_pair_seqs o_def
      simp del: upt_Suc split: if_splits)

section \<open>Numbering, over any sequence of calls\<close>

datatype chat_call =
    Send uuid uuid NewTextMessageRequest
  | Sync uuid SyncEnvelopeRequest
  | Ack uuid AckEnvelopeRequest

fun chat_step :: "(nat \<Rightarrow> network) \<Rightarrow> pg_env \<Rightarrow> int \<times> chat_call \<Rightarrow> store_world \<Rightarrow> store_world" where
  "chat_step net env (now, Send user sender req) w = snd (newTextMessage net now env user sender req w)"
| "chat_step net env (now, Sync user req) w = snd (syncEnvelopePage net now user req w)"
| "chat_step net env (now, Ack user req) w = snd (chat_ackEnvelopes net now env user req w)"

definition chat_run :: "(nat \<Rightarrow> network) \<Rightarrow> pg_env \<Rightarrow> (int \<times> chat_call) list \<Rightarrow> store_world \<Rightarrow> store_world" where
  "chat_run net env calls w = fold (chat_step net env) calls w"

abbreviation stored :: "store \<Rightarrow> Envelope list" where
  "stored st \<equiv> map row_envelope (message_envelopes st)"

text \<open>Accounts, devices and friendships stay; envelopes are only added, at the end.\<close>

definition grows :: "store \<Rightarrow> store \<Rightarrow> bool" where
  "grows st st' \<longleftrightarrow>
     users st' = users st \<and> user_devices st' = user_devices st \<and> friend_relation st' = friend_relation st \<and>
     (\<exists>new. stored st' = stored st @ new)"

lemma grows_refl [simp]: "grows st st"
  by (simp add: grows_def)

lemma grows_trans: "grows a b \<Longrightarrow> grows b c \<Longrightarrow> grows a c"
  by (auto simp: grows_def)

lemma save_effect_grows: "save_effect env user sender req st r st' \<Longrightarrow> grows st st'"
  by (auto simp: save_effect_def save_outcome_def grows_def Let_def split: if_splits list.splits)

lemma answered_grows: "answered env user sender req st a st' \<Longrightarrow> grows st st'"
  by (auto simp: answered_def dest: save_effect_grows)

lemma ack_effect_grows: "ack_effect user device ids st r st' \<Longrightarrow> grows st st'"
  by (auto simp: ack_effect_def grows_def o_def split: if_splits)

lemma chat_step_ok:
  assumes "pool_clean (fst w)" "store_ok (tables (snd w))"
  shows "pool_clean (fst (chat_step net env c w)) \<and> store_ok (tables (snd (chat_step net env c w))) \<and>
    grows (tables (snd w)) (tables (snd (chat_step net env c w)))"
proof -
  obtain now call where c: "c = (now, call)" by fastforce
  show ?thesis
  proof (cases call)
    case (Send user sender req)
    obtain a w' where n: "newTextMessage net now env user sender req w = (a, w')"
      by (cases "newTextMessage net now env user sender req w" rule: prod.exhaust)
    with newTextMessage_answered [OF assms n] c Send show ?thesis
      by (auto split: if_splits dest: answered_grows)
  next
    case (Sync user req)
    obtain r w' where n: "syncEnvelopePage net now user req w = (r, w')"
      by (cases "syncEnvelopePage net now user req w" rule: prod.exhaust)
    with sync_result [OF assms n] c Sync assms show ?thesis by simp
  next
    case (Ack user req)
    obtain r w' where n: "chat_ackEnvelopes net now env user req w = (r, w')"
      by (cases "chat_ackEnvelopes net now env user req w" rule: prod.exhaust)
    with ack_result [OF assms(1) n] c Ack assms show ?thesis
      by (cases r) (auto dest: ack_effect_ok ack_effect_grows)
  qed
qed

lemma chat_run_ok:
  "pool_clean (fst w) \<Longrightarrow> store_ok (tables (snd w)) \<Longrightarrow>
   pool_clean (fst (chat_run net env calls w)) \<and> store_ok (tables (snd (chat_run net env calls w))) \<and>
   grows (tables (snd w)) (tables (snd (chat_run net env calls w)))"
proof (induction calls arbitrary: w)
  case (Cons c calls)
  have s: "pool_clean (fst (chat_step net env c w))" "store_ok (tables (snd (chat_step net env c w)))"
    "grows (tables (snd w)) (tables (snd (chat_step net env c w)))"
    using chat_step_ok [OF Cons.prems, of net env c] by simp_all
  from Cons.IH [OF s(1,2)] grows_trans [OF s(3)] show ?case by (simp add: chat_run_def)
qed (simp add: chat_run_def)

section \<open>A small store\<close>

definition sample_user :: "uuid \<Rightarrow> string \<Rightarrow> user_row" where
  [simp]: "sample_user u n = \<lparr>us_id = u, us_is_active = True, us_display_name = n, us_username = n\<rparr>"

definition sample_device :: "uuid \<Rightarrow> uuid \<Rightarrow> user_device" where
  [simp]: "sample_device d u =
     \<lparr>ud_device_id = d, ud_user_id = u, ud_status = ''active'', ud_device_name = None, ud_identity_public_key = [1],
      ud_protocol_suite = ''x3dh'', ud_created_at = 0\<rparr>"

definition sample_store :: store where
  "sample_store =
     \<lparr>users = [sample_user 1 ''ann'', sample_user 2 ''bob''], password_credentials = [],
      user_devices = [sample_device 11 1, sample_device 22 2],
      friend_relation = [(1, 2), (2, 1)], friend_requests = [], login_tickets = [], refresh_tokens = [], key_bundles = [],
      one_time_prekeys = [], message_envelopes = []\<rparr>"

definition sample_chat :: store_world where
  "sample_chat =
     (\<lparr>config_of = \<lparr>min_connections = 0, max_connections = 4, acquire_time = 100, idle_time = 100, check_interval = 100\<rparr>,
       DatabaseURL = [], idle_queue = [], total_connections = 0, is_running = True, initialized = True\<rparr>,
      \<lparr>tables = sample_store, sent = 0\<rparr>)"

definition sample_env :: pg_env where
  "sample_env = \<lparr>gen_random_uuid = (\<lambda>n. word_of_nat (100 + n)), current_timestamp = int, bigint_in = (\<lambda>s. None),
     hex_in = decode_pairs, sql_lower = map tolower, collate = map of_char, text_length = length, bytea_out = to_chars,
     row_locked = (\<lambda>_ _ _. False)\<rparr>"

definition sample_message :: NewTextMessageRequest where
  "sample_message = \<lparr>nm_message_id = 7, nm_recipient_device_id = 22, nm_protocol_version = ''v1'', nm_packet = [1, 2, 3]\<rparr>"

lemma sample_chat_ok: "pool_clean (fst sample_chat)" "store_ok (tables (snd sample_chat))" "can_borrow (fst sample_chat)"
  by (simp_all add: sample_chat_def sample_store_def pool_clean_def can_borrow_def store_ok_def keys_ok_def envelopes_ok_def
      pair_seqs_def accounts_ok_def credentials_ok_def symmetric_relation_def sample_user_def sample_device_def)

lemma sample_may_send: "may_send sample_store 1 11 22"
  by (auto simp: may_send_def usable_device_def active_user_def sample_store_def)



section \<open>The answers\<close>

lemma save_outcome_found:
  assumes "save_outcome env sender req st r st'"
    and "filter (same_request sender (nm_recipient_device_id req) (nm_message_id req)) (message_envelopes st) = x # xs"
  shows "st' = st \<and> x \<in> set (message_envelopes st) \<and> same_request sender (nm_recipient_device_id req) (nm_message_id req) x \<and>
    stored_answer r =
      (if protocol_version (row_envelope x) \<noteq> nm_protocol_version req \<or> packet (row_envelope x) \<noteq> nm_packet req
       then status_only ChatConflict else \<lparr>tm_status = ChatDuplicate, tm_envelope = Some (row_envelope x)\<rparr>)"
proof -
  have "x \<in> set (message_envelopes st) \<and> same_request sender (nm_recipient_device_id req) (nm_message_id req) x"
    using Cons_eq_filterD [OF assms(2) [symmetric]] by auto
  with assms show ?thesis by (auto simp: save_outcome_def stored_as_def same_request_def)
qed

lemma save_outcome_new:
  assumes "save_outcome env sender req st r st'"
    and "filter (same_request sender (nm_recipient_device_id req) (nm_message_id req)) (message_envelopes st) = []"
  obtains n where "st' = st\<lparr>message_envelopes := message_envelopes st @ [new_row (gen_random_uuid env n) sender req st]\<rparr>"
    "stored_answer r = \<lparr>tm_status = ChatSuccess, tm_envelope =
       Some ((row_envelope (new_row (gen_random_uuid env n) sender req st))\<lparr>protocol_version := nm_protocol_version req\<rparr>)\<rparr>"
  using assms by (auto simp: save_outcome_def stored_as_def Let_def new_row_def)

text \<open>What each answer says about the tables before (\<open>st\<close>) and after (\<open>st'\<close>) the call.\<close>

definition answer_true :: "uuid \<Rightarrow> uuid \<Rightarrow> NewTextMessageRequest \<Rightarrow> store \<Rightarrow> NewTextMessageResult \<Rightarrow> store \<Rightarrow> bool" where
  "answer_true user sender req st a st' \<longleftrightarrow>
     (let rcp = nm_recipient_device_id req; msg = nm_message_id req;
          one_more = (\<exists>eid. st' = st\<lparr>message_envelopes := message_envelopes st @ [new_row eid sender req st]\<rparr>) in
      case tm_status a of
        ChatSuccess \<Rightarrow> may_send st user sender rcp \<and>
          (\<exists>eid. st' = st\<lparr>message_envelopes := message_envelopes st @ [new_row eid sender req st]\<rparr> \<and>
             tm_envelope a = Some ((row_envelope (new_row eid sender req st))\<lparr>protocol_version := nm_protocol_version req\<rparr>))
      | ChatDuplicate \<Rightarrow> may_send st user sender rcp \<and> st' = st \<and>
          (\<exists>x \<in> set (message_envelopes st). same_request sender rcp msg x \<and> tm_envelope a = Some (row_envelope x) \<and>
             protocol_version (row_envelope x) = nm_protocol_version req \<and> packet (row_envelope x) = nm_packet req)
      | ChatConflict \<Rightarrow> may_send st user sender rcp \<and> st' = st \<and> tm_envelope a = None \<and>
          (\<exists>x \<in> set (message_envelopes st). same_request sender rcp msg x \<and>
             (protocol_version (row_envelope x) \<noteq> nm_protocol_version req \<or> packet (row_envelope x) \<noteq> nm_packet req))
      | ChatPermissionDenied \<Rightarrow> \<not> may_send st user sender rcp \<and> st' = st \<and> tm_envelope a = None
      | InvalidRequest \<Rightarrow> \<not> valid_message user sender req \<and> st' = st \<and> tm_envelope a = None
      | InternalError \<Rightarrow> tm_envelope a = None \<and> (st' = st \<or> (may_send st user sender rcp \<and> one_more))
      | _ \<Rightarrow> st' = st \<and> tm_envelope a = None)"

lemma answered_true:
  assumes "answered env user sender req st a st'"
  shows "answer_true user sender req st a st'"
proof -
  let ?rows = "filter (same_request sender (nm_recipient_device_id req) (nm_message_id req)) (message_envelopes st)"
  consider (stored) r where "save_effect env user sender req st r st'" "a = stored_answer r \<or> a = status_only InternalError"
    | (failed) "st' = st" "a \<in> {status_only RetryLater, status_only DatabaseUnavailable, status_only InternalError}"
    using assms by (auto simp: answered_def)
  then show ?thesis
  proof cases
    case stored
    show ?thesis
    proof (cases "may_send st user sender (nm_recipient_device_id req)")
      case True
      with stored have o: "save_outcome env sender req st r st'" by (simp add: save_effect_def)
      show ?thesis
      proof (cases ?rows)
        case Nil
        from save_outcome_new [OF o Nil] obtain n where
          "st' = st\<lparr>message_envelopes := message_envelopes st @ [new_row (gen_random_uuid env n) sender req st]\<rparr>"
          "stored_answer r = \<lparr>tm_status = ChatSuccess, tm_envelope =
             Some ((row_envelope (new_row (gen_random_uuid env n) sender req st))\<lparr>protocol_version := nm_protocol_version req\<rparr>)\<rparr>"
          by blast
        with stored(2) True show ?thesis
          by (auto simp: answer_true_def status_only_def Let_def simp del: stored_answer.simps)
      next
        case (Cons x xs)
        from save_outcome_found [OF o Cons] stored(2) True show ?thesis
          by (auto simp: answer_true_def status_only_def Let_def simp del: stored_answer.simps split: if_splits)
      qed
    next
      case False
      with stored show ?thesis by (auto simp: save_effect_def denied_def answer_true_def status_only_def Let_def)
    qed
  qed (auto simp: answer_true_def status_only_def Let_def)
qed

text \<open>
  C21. Every answer of \<^verbatim>\<open>newTextMessage\<close> is true of the store, on any network.  A success is given only to a device the
  user owns, active like its account, writing to a usable device of the same account or of a mutual friend, and then
  exactly one envelope has been added, the one returned.  A duplicate returns the envelope stored earlier for the same
  identifiers and the same bytes; a conflict means the identifiers are taken by other bytes; a denial means the
  permission is missing; in all these cases nothing is stored.  After an internal error either nothing or exactly the
  requested envelope has been stored, and the remaining answers mean that nothing has.
\<close>

theorem newTextMessage_answers_true:
  assumes "pool_clean (fst w)" "store_ok (tables (snd w))" "newTextMessage net now env user sender req w = (a, w')"
  shows "answer_true user sender req (tables (snd w)) a (tables (snd w'))"
proof (cases "valid_message user sender req")
  case True
  with newTextMessage_answered [OF assms] answered_true show ?thesis by auto
next
  case False
  with newTextMessage_answered [OF assms] show ?thesis by (auto simp: answer_true_def status_only_def Let_def)
qed

theorem newTextMessage_answers_true_witness:
  "case newTextMessage (\<lambda>n. if n = 8 then LostAfter else Delivered) 0 sample_env 1 11 sample_message sample_chat of
     (a, w') \<Rightarrow> answer_true 1 11 sample_message sample_store a (tables (snd w'))"
proof -
  obtain a w' where n: "newTextMessage (\<lambda>n. if n = 8 then LostAfter else Delivered) 0 sample_env 1 11 sample_message sample_chat = (a, w')"
    by (rule prod.exhaust)
  from newTextMessage_answers_true [OF sample_chat_ok(1,2) n] n show ?thesis by (simp add: sample_chat_def)
qed

section \<open>A message that may be sent is stored once\<close>

text \<open>The conditions under which the insertion cannot fail: no identifier is drawn twice, the numbers have not run out.\<close>

definition can_insert :: "pg_env \<Rightarrow> uuid \<Rightarrow> uuid \<Rightarrow> store \<Rightarrow> bool" where
  "can_insert env a b st \<longleftrightarrow>
     (\<forall>n. \<forall>x \<in> set (message_envelopes st). envelope_id (row_envelope x) \<noteq> gen_random_uuid env n) \<and>
     next_seq a b st \<le> int64_max"

lemma stored_result_total: "parseSeq n = Inr k \<Longrightarrow> tx_total (stored_result status sender req eid n) d"
  by (simp add: stored_result_def)

lemma store_message_total:
  assumes net: "\<And>n. net n = Delivered" and ok: "envelopes_ok st"
    and ins: "can_insert env sender (nm_recipient_device_id req) st"
  shows "tx_total (store_message net env sender req) st"
proof -
  let ?rows = "filter (same_request sender (nm_recipient_device_id req) (nm_message_id req)) (message_envelopes st)"
  show ?thesis
    unfolding store_message_def Let_def
  proof (rule tx_total_sql_bind [OF net], simp add: sql_find_message_def)
    fix n rows u
    assume q: "sql_find_message sender (nm_recipient_device_id req) (nm_message_id req) n st = Inr (rows, u)"
    show "tx_total (case rows of
        [] \<Rightarrow> db_bind (execute net (Sql (sql_insert_message env sender (nm_recipient_device_id req) (nm_message_id req)
                 (c_str (nm_protocol_version req)) (encodeHex (nm_packet req))))) (\<lambda>inserted.
               case inserted of [(eid, n)] \<Rightarrow> stored_result Success sender req eid n
               | _ \<Rightarrow> db_throw (RuntimeError ''Insert returned unexpected row count''))
      | (eid, n, version, hexs) # _ \<Rightarrow>
          if version \<noteq> nm_protocol_version req \<or> hexs \<noteq> encodeHex (nm_packet req)
          then db_return \<lparr>nm_status = MessageConflict, nm_envelope = None\<rparr>
          else stored_result DuplicateRequest sender req eid n) u"
    proof (cases ?rows)
      case Nil
      have pos: "0 < next_seq sender (nm_recipient_device_id req) st" using next_seq_count [OF ok] by simp
      have none: "\<not> (\<exists>r \<in> set (message_envelopes st). same_request sender (nm_recipient_device_id req) (nm_message_id req) r)"
        using Nil by (simp add: filter_empty_conv)
      from q Nil have u: "rows = []" "u = st" by (simp_all add: sql_find_message_def)
      have "tx_total (db_bind (execute net (Sql (sql_insert_message env sender (nm_recipient_device_id req) (nm_message_id req)
                 (c_str (nm_protocol_version req)) (encodeHex (nm_packet req))))) (\<lambda>inserted.
               case inserted of [(eid, n)] \<Rightarrow> stored_result Success sender req eid n
               | _ \<Rightarrow> db_throw (RuntimeError ''Insert returned unexpected row count''))) st"
      proof (rule tx_total_sql_bind [OF net])
        show "\<exists>x d'. sql_insert_message env sender (nm_recipient_device_id req) (nm_message_id req)
            (c_str (nm_protocol_version req)) (encodeHex (nm_packet req)) k st = Inr (x, d')" for k
          using ins none next_seq_fresh [OF ok] by (auto simp: can_insert_def sql_insert_message_def Let_def)
      next
        fix k y v
        assume "sql_insert_message env sender (nm_recipient_device_id req) (nm_message_id req)
            (c_str (nm_protocol_version req)) (encodeHex (nm_packet req)) k st = Inr (y, v)"
        from insert_message [OF this] pos show "tx_total (case y of [(eid, n)] \<Rightarrow> stored_result Success sender req eid n
               | _ \<Rightarrow> db_throw (RuntimeError ''Insert returned unexpected row count'')) v"
          by (auto intro!: stored_result_total parseSeq_text)
      qed
      with u show ?thesis by simp
    next
      case (Cons x xs)
      then have "x \<in> set (message_envelopes st)" using Cons_eq_filterD [OF Cons [symmetric]] by auto
      note seq_positive [OF ok this]
      then have p: "parseSeq (bigint_text (seq (row_envelope x))) = Inr (seq (row_envelope x))" by simp
      from q Cons show ?thesis
        by (auto simp: sql_find_message_def intro!: stored_result_total [OF p])
    qed
  qed
qed

lemma save_body_total:
  assumes net: "\<And>n. net n = Delivered" and ok: "store_ok st"
    and ins: "can_insert env sender (nm_recipient_device_id req) st"
  shows "tx_total (save_body net env user sender req) st"
proof -
  have k: "envelopes_ok st" using ok by (simp add: store_ok_def)
  have fr: "tx_total (are_friends net user peer) st" for peer
    by (auto simp: are_friends_def sql_friendships_def intro!: tx_total_sql_bind [OF net])
  have st: "tx_runs (are_friends net user peer) st b u \<Longrightarrow> u = st" for peer b u
    using are_friends_runs ok by (auto simp: store_ok_def)
  have "tx_total (db_bind (are_friends net user peer) (\<lambda>ok. if ok then store_message net env sender req else db_return denied)) st"
    for peer
    by (rule tx_total_bind [OF fr]) (auto dest!: st intro: store_message_total [of net, OF net k ins])
  then show ?thesis
    unfolding save_body_def Let_def
    by (intro tx_total_sql_bind [OF net])
      (auto simp: sql_nothing_def sql_message_devices_def split: list.splits)
qed

lemma newTextMessage_completes:
  assumes net: "\<And>n. net n = Delivered" and w: "pool_clean (fst w)" "store_ok (tables (snd w))" "can_borrow (fst w)"
    and ins: "can_insert env sender (nm_recipient_device_id req) (tables (snd w))"
    and v: "valid_message user sender req"
  shows "\<exists>r w'. newTextMessage net now env user sender req w = (stored_answer r, w') \<and>
    save_effect env user sender req (tables (snd w)) r (tables (snd w'))"
proof -
  from lease_total [of net, OF net w(1,3) save_body_total [of net, OF net w(2) ins], of now user]
  obtain r p s where "saveNewMessage net now env user sender req w = (Inr r, p, s)"
    by (cases w) (auto simp: saveNewMessage_def)
  with saveNewMessage_effect [OF w(1,2), where net = net and now = now and env = env and user = user and sender = sender and req = req] v
  show ?thesis by (auto simp: newTextMessage_def numeral_3_eq_3 simp del: stored_answer.simps)
qed

lemma c_str_id: "CHR 0x00 \<notin> set s \<Longrightarrow> c_str s = s"
  by (auto simp: c_str_def takeWhile_eq_all_conv)

lemma may_send_grows: "grows st st' \<Longrightarrow> may_send st' = may_send st"
  by (auto simp: grows_def may_send_def usable_device_def active_user_def fun_eq_iff)

lemma new_row_same_request:
  "same_request sender (nm_recipient_device_id req) (nm_message_id req) (new_row eid sender req st)"
  by (simp add: same_request_def new_row_def)

text \<open>The first call on a request that is not stored: nothing has changed, or its envelope is the last one.\<close>

lemma first_call:
  assumes t: "answer_true user sender req st a st'" and v: "CHR 0x00 \<notin> set (nm_protocol_version req)"
    and none: "filter (same_request sender (nm_recipient_device_id req) (nm_message_id req)) (message_envelopes st) = []"
  shows "(st' = st \<and> tm_envelope a = None) \<or>
    (\<exists>eid. st' = st\<lparr>message_envelopes := message_envelopes st @ [new_row eid sender req st]\<rparr> \<and>
       (tm_envelope a = None \<or> tm_envelope a = Some (row_envelope (new_row eid sender req st))))"
proof -
  have "\<not> (\<exists>x \<in> set (message_envelopes st). same_request sender (nm_recipient_device_id req) (nm_message_id req) x)"
    using none by (simp add: filter_empty_conv)
  with t show ?thesis
    by (auto simp: answer_true_def Let_def new_row_def c_str_id [OF v] split: NewTextMessageStatus.splits)
qed

lemma second_call:
  assumes e: "save_effect env user sender req st r st'" and m: "may_send st user sender (nm_recipient_device_id req)"
    and v: "CHR 0x00 \<notin> set (nm_protocol_version req)"
    and rows: "filter (same_request sender (nm_recipient_device_id req) (nm_message_id req)) (message_envelopes st) = [] \<or>
      (\<exists>eid s0. filter (same_request sender (nm_recipient_device_id req) (nm_message_id req)) (message_envelopes st) =
         [new_row eid sender req s0])"
  shows "tm_status (stored_answer r) \<in> {ChatSuccess, ChatDuplicate} \<and>
    (\<exists>row. filter (same_request sender (nm_recipient_device_id req) (nm_message_id req)) (message_envelopes st') = [row] \<and>
       tm_envelope (stored_answer r) = Some (row_envelope row) \<and>
       packet (row_envelope row) = nm_packet req \<and>
       (\<forall>x. filter (same_request sender (nm_recipient_device_id req) (nm_message_id req)) (message_envelopes st) = [x] \<longrightarrow> row = x))"
proof -
  from e m have o: "save_outcome env sender req st r st'" by (simp add: save_effect_def)
  from rows show ?thesis
  proof
    assume Nil: "filter (same_request sender (nm_recipient_device_id req) (nm_message_id req)) (message_envelopes st) = []"
    from save_outcome_new [OF o Nil] obtain n where
      "st' = st\<lparr>message_envelopes := message_envelopes st @ [new_row (gen_random_uuid env n) sender req st]\<rparr>"
      "stored_answer r = \<lparr>tm_status = ChatSuccess, tm_envelope =
         Some ((row_envelope (new_row (gen_random_uuid env n) sender req st))\<lparr>protocol_version := nm_protocol_version req\<rparr>)\<rparr>"
      by blast
    with Nil show ?thesis
      by (simp add: same_request_def new_row_def c_str_id [OF v] del: stored_answer.simps)
  next
    assume "\<exists>eid s0. filter (same_request sender (nm_recipient_device_id req) (nm_message_id req)) (message_envelopes st) =
      [new_row eid sender req s0]"
    then obtain eid s0 where one: "filter (same_request sender (nm_recipient_device_id req) (nm_message_id req)) (message_envelopes st) =
      [new_row eid sender req s0]" by blast
    from save_outcome_found [OF o one] one show ?thesis
      by (simp add: new_row_def c_str_id [OF v] del: stored_answer.simps)
  qed
qed


section \<open>A lost answer\<close>

text \<open>The first message of the small store: eight statements are delivered, the answer to the commit is not.\<close>

definition commit_lost :: "nat \<Rightarrow> network" where
  "commit_lost n = (if n = 8 then LostAfter else Delivered)"

definition sample_link :: "store DatabaseConnection" where
  "sample_link = \<lparr>pg_connection = Some \<lparr>conn_ok = True, trans = PQTRANS_INTRANS, before = sample_store\<rparr>,
     error_msg = [], last_active_time = 0\<rparr>"

definition sample_row :: envelope_row where
  "sample_row = new_row 107 11 sample_message sample_store"

lemma sample_body:
  "save_body commit_lost sample_env 1 11 sample_message (sample_link, \<lparr>tables = sample_store, sent = 2\<rparr>) =
     (Inr (stored_as Success 11 sample_message (row_envelope sample_row)), sample_link,
      \<lparr>tables = sample_store\<lparr>message_envelopes := [sample_row]\<rparr>, sent = 8\<rparr>)"
proof -
  have o: "open_tx sample_link" by (simp add: open_tx_def sample_link_def)
  have d: "commit_lost n = Delivered" if "n < 8" for n using that by (simp add: commit_lost_def)
  show ?thesis
    by (simp add: save_body_def Let_def execute_step o d sql_nothing_def sql_message_devices_def sql_friendships_def
        sql_find_message_def sample_store_def sample_message_def active_user_def are_friends_def store_message_def
        db_bind_assoc db_bind_return sql_insert_message_def sample_env_def next_seq_def pair_seqs_def int64_max_def
        stored_result_def db_return_apply stored_as_def sample_row_def new_row_def c_str_def)
qed

lemma sample_valid: "valid_message 1 11 sample_message"
  by (simp add: valid_message_def sample_message_def find_first_not_of_def Let_def)

lemma sample_lost:
  "newTextMessage commit_lost 0 sample_env 1 11 sample_message sample_chat =
     (status_only InternalError, fst sample_chat, \<lparr>tables = sample_store\<lparr>message_envelopes := [sample_row]\<rparr>, sent = 9\<rparr>)"
proof -
  let ?c = "sample_link\<lparr>pg_connection := Some \<lparr>conn_ok = True, trans = PQTRANS_IDLE, before = sample_store\<rparr>\<rparr>"
  have d: "commit_lost 0 = Delivered" "commit_lost (Suc 0) = Delivered" "commit_lost 8 = LostAfter" by (simp_all add: commit_lost_def)
  have g: "getConnection commit_lost (fst sample_chat) (snd sample_chat) =
      (Inr ?c, (fst sample_chat)\<lparr>total_connections := 1\<rparr>, \<lparr>tables = sample_store, sent = Suc 0\<rparr>)"
    using d by (simp add: getConnection_def getConnection_enter_def getConnection_finish_def DatabaseConnection_of_def
        sample_chat_def sample_link_def Let_def)
  have t: "withTransaction commit_lost (save_body commit_lost sample_env 1 11 sample_message) (?c, \<lparr>tables = sample_store, sent = Suc 0\<rparr>) =
      (Inl answer_lost, sample_link\<lparr>pg_connection := None\<rparr>, \<lparr>tables = sample_store\<lparr>message_envelopes := [sample_row]\<rparr>, sent = 9\<rparr>)"
    by (subst commit_answer_lost [where p = "\<lparr>conn_ok = True, trans = PQTRANS_IDLE, before = sample_store\<rparr>" and k = 8])
      (use sample_body d in \<open>simp_all add: sample_link_def numeral_2_eq_2\<close>)
  have r: "releaseReturnedConnections commit_lost 0 (sample_link\<lparr>pg_connection := None\<rparr>)
      ((fst sample_chat)\<lparr>total_connections := 1\<rparr>) \<lparr>tables = sample_store\<lparr>message_envelopes := [sample_row]\<rparr>, sent = 9\<rparr> =
      (fst sample_chat, \<lparr>tables = sample_store\<lparr>message_envelopes := [sample_row]\<rparr>, sent = 9\<rparr>)"
    by (simp add: releaseReturnedConnections_def db_reset_def db_close_def isAlive_def sample_chat_def)
  have "saveNewMessage commit_lost 0 sample_env 1 11 sample_message sample_chat =
      (Inl answer_lost, fst sample_chat, \<lparr>tables = sample_store\<lparr>message_envelopes := [sample_row]\<rparr>, sent = 9\<rparr>)"
    by (simp add: saveNewMessage_def with_lease_def g t r)
  with sample_valid show ?thesis
    by (simp add: newTextMessage_def numeral_3_eq_3 answer_lost_internal may_retry_def unavailable_def starts_with_def)
qed

text \<open>
  The comment at the answer "database unavailable" says that the commit may have succeeded and the caller must
  repeat the request.  It is the other way round: libpq reports a connection that breaks during the commit without an
  SQLSTATE, the error becomes an internal error, and the envelope is in the store; the answer "database unavailable"
  means that nothing was stored (the property on the answers above).
\<close>

theorem lost_commit_answered_internal_error:
  "case newTextMessage commit_lost 0 sample_env 1 11 sample_message sample_chat of
     (a, w') \<Rightarrow> a = status_only InternalError \<and> message_envelopes (tables (snd w')) = [sample_row] \<and>
                envelope_id (row_envelope sample_row) = 107 \<and> packet (row_envelope sample_row) = nm_packet sample_message"
  by (simp add: sample_lost) (simp add: sample_row_def new_row_def)


section \<open>A version text with a NUL character\<close>

lemma c_str_shorter: "CHR 0x00 \<in> set s \<Longrightarrow> c_str s \<noteq> s"
  by (auto simp: c_str_def takeWhile_eq_all_conv)

text \<open>
  A protocol version that contains a NUL character (JSON can carry one) passes the validation, but the parameter
  array hands it to the database as a C string, which ends there.  The message is stored with the shortened version, and
  the repetition of the very same request, which the interface promises to answer as a duplicate, is answered as a
  conflict.
\<close>

theorem truncated_version_conflicts:
  assumes w: "pool_clean (fst w)" "store_ok (tables (snd w))" "can_borrow (fst w)"
    and nul: "CHR 0x00 \<in> set (nm_protocol_version req)"
    and first: "newTextMessage net now env user sender req w = (a, w')" "tm_status a = ChatSuccess"
    and again: "newTextMessage (\<lambda>_. Delivered) now' env' user sender req w' = (a', w'')"
      "can_insert env' sender (nm_recipient_device_id req) (tables (snd w'))"
  shows "tm_status a' = ChatConflict"
proof -
  let ?st = "tables (snd w)" and ?st1 = "tables (snd w')"
  have v: "valid_message user sender req" using newTextMessage_answered [OF w(1,2) first(1)] first(2)
    by (auto simp: status_only_def split: if_splits)
  have n: "pool_clean (fst w')" "store_ok ?st1" "answered env user sender req ?st a ?st1"
    using newTextMessage_answered [OF w(1,2) first(1)] v by simp_all
  from answered_true [OF n(3)] first(2) obtain eid where
    m: "may_send ?st user sender (nm_recipient_device_id req)"
    and st1: "?st1 = ?st\<lparr>message_envelopes := message_envelopes ?st @ [new_row eid sender req ?st]\<rparr>"
    by (auto simp: answer_true_def Let_def)
  let ?P = "same_request sender (nm_recipient_device_id req) (nm_message_id req)"
  have "may_send ?st1 user sender (nm_recipient_device_id req)"
    using may_send_grows [OF answered_grows [OF n(3)]] m by simp
  then obtain r where r: "a' = stored_answer r" "save_outcome env' sender req ?st1 r (tables (snd w''))"
    using newTextMessage_completes [OF refl n(1,2) newTextMessage_can_borrow [OF w(3) first(1)] again(2) v, of now'] again(1)
    by (auto simp: save_effect_def)
  have in1: "new_row eid sender req ?st \<in> set (message_envelopes ?st1)" using st1 by simp
  then obtain x xs where x: "filter ?P (message_envelopes ?st1) = x # xs"
    by (metis filter_empty_conv list.exhaust new_row_same_request)
  then have x1: "x \<in> set (message_envelopes ?st1)" "?P x" using Cons_eq_filterD [OF x [symmetric]] by auto
  have "x = new_row eid sender req ?st"
    using n(2) key_unique [OF _ x1(1) in1, of "\<lambda>r. (sender_device_id (row_envelope r), recipient_device_id (row_envelope r),
      message_id (row_envelope r))"] x1(2) new_row_same_request [of sender req eid ?st]
    by (simp add: store_ok_def envelopes_ok_def same_request_def)
  then have "protocol_version (row_envelope x) \<noteq> nm_protocol_version req" using c_str_shorter [OF nul] by (simp add: new_row_def)
  with save_outcome_found [OF r(2) x] r(1) show ?thesis by (simp add: status_only_def)
qed

definition nul_message :: NewTextMessageRequest where
  "nul_message = sample_message\<lparr>nm_protocol_version := [CHR ''v'', CHR 0x00, CHR ''1'']\<rparr>"

theorem truncated_version_conflicts_witness:
  "\<exists>a w a' w'. newTextMessage (\<lambda>_. Delivered) 0 (sample_env\<lparr>gen_random_uuid := \<lambda>_. 5\<rparr>) 1 11 nul_message sample_chat = (a, w) \<and>
     newTextMessage (\<lambda>_. Delivered) 1 (sample_env\<lparr>gen_random_uuid := \<lambda>_. 6\<rparr>) 1 11 nul_message w = (a', w') \<and>
     tm_status a = ChatSuccess \<and> tm_status a' = ChatConflict"
proof -
  have v: "valid_message 1 11 nul_message"
    by (simp add: valid_message_def nul_message_def sample_message_def find_first_not_of_def Let_def)
  have i: "can_insert (sample_env\<lparr>gen_random_uuid := \<lambda>_. 5\<rparr>) 11 (nm_recipient_device_id nul_message) (tables (snd sample_chat))"
    by (simp add: can_insert_def sample_chat_def sample_store_def next_seq_def pair_seqs_def int64_max_def)
  obtain r w where f: "newTextMessage (\<lambda>_. Delivered) 0 (sample_env\<lparr>gen_random_uuid := \<lambda>_. 5\<rparr>) 1 11 nul_message sample_chat = (stored_answer r, w)"
    "save_effect (sample_env\<lparr>gen_random_uuid := \<lambda>_. 5\<rparr>) 1 11 nul_message (tables (snd sample_chat)) r (tables (snd w))"
    using newTextMessage_completes [OF refl sample_chat_ok i v] by blast
  have "may_send (tables (snd sample_chat)) 1 11 (nm_recipient_device_id nul_message)" "message_envelopes (tables (snd sample_chat)) = []"
    using sample_may_send by (simp_all add: sample_chat_def nul_message_def sample_message_def sample_store_def)
  with f(2) have s: "tm_status (stored_answer r) = ChatSuccess"
    "tables (snd w) = sample_store\<lparr>message_envelopes := [new_row 5 11 nul_message sample_store]\<rparr>"
    by (auto simp: save_effect_def save_outcome_def stored_as_def Let_def sample_chat_def)
  obtain a' w' where n: "newTextMessage (\<lambda>_. Delivered) 1 (sample_env\<lparr>gen_random_uuid := \<lambda>_. 6\<rparr>) 1 11 nul_message w = (a', w')"
    by (rule prod.exhaust)
  have "can_insert (sample_env\<lparr>gen_random_uuid := \<lambda>_. 6\<rparr>) 11 (nm_recipient_device_id nul_message) (tables (snd w))"
    by (simp add: s(2) can_insert_def new_row_def sample_store_def next_seq_def pair_seqs_def int64_max_def nul_message_def
        sample_message_def same_pair_def Let_def)
  from truncated_version_conflicts [OF sample_chat_ok _ f(1) s(1) n this] f(1) n s(1) show ?thesis
    by (auto simp: nul_message_def)
qed

end
