(* ===== verification/Chat_Sync.thy ===== *)
theory Chat_Sync
  imports Chat_Service "HOL-Library.Multiset"
begin

text \<open>
  Reading from the store: what a page of \<^verbatim>\<open>syncEnvelopePage\<close> contains, that a client that moves its cursors to the
  last number it has seen from each sender receives every envelope exactly once, and what an acknowledgment changes.
\<close>

section \<open>A page\<close>

lemma wire_bytes_append [simp]: "wire_bytes (a @ b) = wire_bytes a + wire_bytes b"
  by (simp add: wire_bytes_def)

lemma record_fits: "length p \<le> 65536 \<Longrightarrow> estimatedRecordBytes p \<le> pageWireBudget"
  by (simp add: estimatedRecordBytes_def pageWireBudget_def)

lemma page_of_prefix:
  assumes ok: "envelopes_ok st" and es: "es = page_order (pending device cs st)"
  obtains k where "page_of device cs st = \<lparr>envelopes = take k es, has_more = (k < length es)\<rparr>"
    "k \<le> length es" "k \<le> pageSize" "wire_bytes (take k es) \<le> pageWireBudget" "es \<noteq> [] \<Longrightarrow> 0 < k"
    "k < length es \<Longrightarrow> k = pageSize \<or> wire_bytes (take (Suc k) es) > pageWireBudget"
proof -
  let ?xs = "take (pageSize + 1) es"
  let ?k = "fill_page ?xs 0 0"
  have b: "?k \<le> pageSize" "?k \<le> length ?xs" "wire_bytes (take ?k ?xs) \<le> pageWireBudget"
    "?k < length ?xs \<longrightarrow> ?k = pageSize \<or> wire_bytes (take (Suc ?k) ?xs) > pageWireBudget"
    using fill_page_bounds [of 0 0 ?xs] by (simp_all del: take_take length_take)
  have pos: "0 < ?k" if ne: "es \<noteq> []"
  proof -
    obtain e r where e: "es = e # r" using ne by (cases es) auto
    have "row_readable e" using pending_readable [OF ok] es e by (metis list.set_intros(1))
    then have "estimatedRecordBytes (packet e) \<le> pageWireBudget" by (simp add: row_readable_def record_fits)
    then have "?k = fill_page (take pageSize r) (estimatedRecordBytes (packet e)) 1"
      by (simp add: e pageSize_def)
    then show ?thesis
      using fill_page_bounds [of "estimatedRecordBytes (packet e)" 1 "take pageSize r"]
        \<open>estimatedRecordBytes (packet e) \<le> pageWireBudget\<close> by (simp add: pageSize_def)
  qed
  show thesis
  proof (rule that [of ?k])
    show "page_of device cs st = \<lparr>envelopes = take ?k es, has_more = (?k < length es)\<rparr>"
      by (simp add: page_of_def es Let_def)
    show "?k < length es \<Longrightarrow> ?k = pageSize \<or> wire_bytes (take (Suc ?k) es) > pageWireBudget"
    proof -
      assume l: "?k < length es"
      then have "?k < length ?xs" using b(1) by simp
      moreover have "take (Suc ?k) ?xs = take (Suc ?k) es" using b(1) by (simp add: min_def)
      ultimately show ?thesis using b(4) by simp
    qed
  qed (use b pos in \<open>auto simp: min_def split: if_splits\<close>)
qed

text \<open>What makes a page right: the specification is over the pending envelopes, not over the loop.\<close>

definition page_right :: "uuid \<Rightarrow> EnvelopeSyncCursor list \<Rightarrow> store \<Rightarrow> EnvelopePage \<Rightarrow> bool" where
  "page_right device cs st page \<longleftrightarrow>
     (\<exists>rest. mset (envelopes page @ rest) = mset (pending device cs st) \<and>
        sorted (map sync_order (envelopes page @ rest)) \<and>
        (has_more page \<longleftrightarrow> rest \<noteq> []) \<and>
        (pending device cs st \<noteq> [] \<longrightarrow> envelopes page \<noteq> []) \<and>
        length (envelopes page) \<le> 100 \<and> wire_bytes (envelopes page) \<le> 524288 \<and>
        (rest \<noteq> [] \<longrightarrow> length (envelopes page) = 100 \<or> wire_bytes (envelopes page @ [hd rest]) > 524288))"

lemma page_of_right:
  assumes "envelopes_ok st"
  shows "page_right device cs st (page_of device cs st)"
proof -
  define es where "es = page_order (pending device cs st)"
  from page_of_prefix [OF assms es_def] obtain k where
    k: "page_of device cs st = \<lparr>envelopes = take k es, has_more = (k < length es)\<rparr>"
      "k \<le> length es" "k \<le> pageSize" "wire_bytes (take k es) \<le> pageWireBudget" "es \<noteq> [] \<Longrightarrow> 0 < k"
      "k < length es \<Longrightarrow> k = pageSize \<or> wire_bytes (take (Suc k) es) > pageWireBudget" by blast
  have ne: "pending device cs st \<noteq> [] \<longleftrightarrow> es \<noteq> []"
    by (metis es_def length_0_conv length_sort page_order_def)
  have hd: "k < length es \<Longrightarrow> take (Suc k) es = take k es @ [hd (drop k es)]"
    by (simp add: take_Suc_conv_app_nth hd_drop_conv_nth)
  have "mset (take k es @ drop k es) = mset (pending device cs st)" "sorted (map sync_order (take k es @ drop k es))"
    by (simp_all add: es_def page_order_def)
  with k ne hd show ?thesis
    unfolding page_right_def
    by (intro exI [of _ "drop k es"]) (auto simp: pageSize_def pageWireBudget_def)
qed

lemma sync_body_total:
  assumes net: "\<And>n. net n = Delivered" and ok: "envelopes_ok st"
  shows "tx_total (sync_body net user req) st"
  unfolding sync_body_def
proof (rule tx_total_sql_bind [OF net])
  show "\<exists>x d'. sql_own_device user (sy_device_id req) n st = Inr (x, d')" for n by (simp add: sql_own_device_def)
next
  fix n ds u
  assume "sql_own_device user (sy_device_id req) n st = Inr (ds, u)"
  then have u: "u = st" using own_device by blast
  have "tx_total (db_bind (execute net (Sql (sql_pending (sy_device_id req) (cursors req) (pageSize + 1)))) (\<lambda>rows.
      db_bind (db_lift (page_loop rows 0 [])) (\<lambda>page. db_return (Some page)))) st"
    using page_loop_page_of [OF ok]
    by (intro tx_total_sql_bind [OF net]) (auto simp: sql_pending_def db_lift_def db_bind_return)
  with u show "tx_total (if ds = [] then db_return None
      else db_bind (execute net (Sql (sql_pending (sy_device_id req) (cursors req) (pageSize + 1)))) (\<lambda>rows.
        db_bind (db_lift (page_loop rows 0 [])) (\<lambda>page. db_return (Some page)))) u" by simp
qed

definition valid_sync :: "uuid \<Rightarrow> SyncEnvelopeRequest \<Rightarrow> bool" where
  "valid_sync user req \<longleftrightarrow>
     user \<noteq> nil_uuid \<and> sy_device_id req \<noteq> nil_uuid \<and> length (cursors req) \<le> 1000 \<and>
     check_cursors (sy_device_id req) [] (cursors req)"

lemma sync_returns:
  assumes net: "\<And>n. net n = Delivered" and w: "pool_clean (fst w)" "store_ok (tables (snd w))" "can_borrow (fst w)"
    and v: "valid_sync user req"
  shows "\<exists>x w'. syncEnvelopePage net now user req w = (Inr x, w')"
proof -
  have "envelopes_ok (tables (snd w))" using w(2) by (simp add: store_ok_def)
  from lease_total [of net, OF net w(1,3) sync_body_total [of net, OF net this], of now user req] v show ?thesis
    by (cases w) (auto simp: syncEnvelopePage_def syncEnvelopeRecord_def valid_sync_def)
qed

text \<open>
  C23. A page is denied exactly when the device is not an active device of that active user, and nothing is changed by
  asking.  Otherwise it is the beginning of the device's pending envelopes (addressed to it, numbered above the
  sender's cursor) in the order of sender and number; it holds at most 100 envelopes and an estimated 512 KiB on the
  wire, it is full unless nothing is left, \<open>has_more\<close> tells whether something is left, and it is never empty while
  something is pending.  With nothing lost a valid request is answered.
\<close>

theorem sync_page_right:
  assumes w: "pool_clean (fst w)" "store_ok (tables (snd w))" and s: "syncEnvelopePage net now user req w = (r, w')"
  shows "tables (snd w') = tables (snd w) \<and>
    (case r of
       Inr None \<Rightarrow> \<not> usable_device (tables (snd w)) user (sy_device_id req)
     | Inr (Some page) \<Rightarrow> usable_device (tables (snd w)) user (sy_device_id req) \<and>
         page_right (sy_device_id req) (cursors req) (tables (snd w)) page
     | Inl _ \<Rightarrow> \<not> ((\<forall>n. net n = Delivered) \<and> can_borrow (fst w) \<and> valid_sync user req))"
proof (cases r)
  case (Inl e)
  with sync_result [OF w s] sync_returns [of net w user req now] w s show ?thesis by fastforce
next
  case (Inr x)
  have "envelopes_ok (tables (snd w))" using w(2) by (simp add: store_ok_def)
  with sync_result [OF w s] Inr page_of_right show ?thesis by (auto split: if_splits)
qed

theorem sync_page_right_witness:
  "case syncEnvelopePage (\<lambda>_. Delivered) 0 2 \<lparr>sy_device_id = 22, cursors = []\<rparr> sample_chat of
     (r, w') \<Rightarrow> (\<exists>page. r = Inr (Some page) \<and> page_right 22 [] sample_store page)"
proof -
  let ?req = "\<lparr>sy_device_id = 22, cursors = []\<rparr>"
  obtain r w' where n: "syncEnvelopePage (\<lambda>_. Delivered) 0 2 ?req sample_chat = (r, w')" by (rule prod.exhaust)
  have u: "usable_device sample_store 2 22" by (simp add: usable_device_def active_user_def sample_store_def)
  have v: "valid_sync 2 ?req" by (simp add: valid_sync_def)
  have t: "tables (snd sample_chat) = sample_store" by (simp add: sample_chat_def)
  from sync_page_right [OF sample_chat_ok(1,2) n] u v sample_chat_ok(3) show ?thesis
    by (auto simp: n t split: sum.splits option.splits)
qed

section \<open>Following the cursors\<close>

text \<open>A client that stores, for each sender of a page, the last number it has received.\<close>

fun put_cursor :: "uuid \<Rightarrow> int \<Rightarrow> EnvelopeSyncCursor list \<Rightarrow> EnvelopeSyncCursor list" where
  "put_cursor p n [] = [\<lparr>peer_device_id = p, after_seq = n\<rparr>]"
| "put_cursor p n (c # cs) = (if peer_device_id c = p then c\<lparr>after_seq := n\<rparr> # cs else c # put_cursor p n cs)"

definition advance :: "Envelope list \<Rightarrow> EnvelopeSyncCursor list \<Rightarrow> EnvelopeSyncCursor list" where
  "advance es cs = fold (\<lambda>e. put_cursor (sender_device_id e) (seq e)) es cs"

lemma cursor_for_put: "cursor_for (put_cursor p n cs) q = (if q = p then n else cursor_for cs q)"
  by (induction cs) (auto simp: cursor_for_def split: option.splits)

lemma cursor_for_advance:
  "cursor_for (advance es cs) q =
     (case filter (\<lambda>e. sender_device_id e = q) es of [] \<Rightarrow> cursor_for cs q | fs \<Rightarrow> seq (last fs))"
proof (induction es arbitrary: cs)
  case (Cons e es)
  then show ?case by (auto simp: advance_def cursor_for_put split: list.splits)
qed (simp add: advance_def)

lemma sort_key_eq_sorted: "sorted (map f xs) \<Longrightarrow> sort_key f xs = xs"
  by (induction xs) (auto intro!: insort_is_Cons)

lemma distinct_by_class:
  "(\<And>s. distinct (map g (filter (\<lambda>x. f x = s) xs))) \<Longrightarrow> distinct (map (\<lambda>x. (f x, g x)) xs)"
proof (induction xs)
  case (Cons a xs)
  have "distinct (map g (filter (\<lambda>x. f x = s) xs))" for s using Cons.prems [of s] by (simp split: if_splits)
  moreover have "(f a, g a) \<notin> set (map (\<lambda>x. (f x, g x)) xs)" using Cons.prems [of "f a"] by force
  ultimately show ?case using Cons.IH by simp
qed simp

text \<open>The envelopes of one sender come with distinct numbers, since they are of one pair.\<close>

lemma pending_numbers_distinct:
  assumes ok: "envelopes_ok st"
  shows "distinct (map (\<lambda>e. (sender_device_id e, seq e)) (pending device cs st))"
proof -
  let ?rows = "filter (\<lambda>r. recipient_device_id (row_envelope r) = device) (message_envelopes st)"
  have "distinct (map (\<lambda>r. seq (row_envelope r)) (filter (\<lambda>r. sender_device_id (row_envelope r) = s) ?rows))" for s
  proof -
    have "pair_seqs s device st = map int [1..<Suc (length (pair_seqs s device st))]" using ok by (simp add: envelopes_ok_def del: upt_Suc)
    then have "distinct (pair_seqs s device st)" by (metis distinct_map distinct_upt inj_on_of_nat)
    moreover have "filter (\<lambda>r. sender_device_id (row_envelope r) = s) ?rows =
        filter (\<lambda>r. sender_device_id (row_envelope r) = s \<and> recipient_device_id (row_envelope r) = device)
          (filter (same_pair s device) (message_envelopes st))"
      by (auto simp: same_pair_def Let_def intro!: filter_cong)
    ultimately show ?thesis by (simp add: pair_seqs_def distinct_map_filter del: filter_filter)
  qed
  then have "distinct (map (\<lambda>r. (sender_device_id (row_envelope r), seq (row_envelope r))) ?rows)"
    by (rule distinct_by_class)
  moreover have "pending device cs st = map row_envelope
      (filter (\<lambda>r. seq (row_envelope r) > cursor_for cs (sender_device_id (row_envelope r))) ?rows)"
    by (simp add: pending_def filter_map o_def conj_commute)
  ultimately show ?thesis by (simp add: o_def distinct_map_filter del: filter_filter)
qed

lemma sorted_le_last: "sorted xs \<Longrightarrow> x \<in> set xs \<Longrightarrow> x \<le> last xs" for xs :: "'a :: linorder list"
  by (induction xs) auto

text \<open>The cursor of a sender after a page: the largest number in it, or unchanged.\<close>

lemma cursor_after_page:
  assumes srt: "sorted (map sync_order xs)"
  shows "e \<in> set xs \<Longrightarrow> sender_device_id e = q \<Longrightarrow> seq e \<le> cursor_for (advance xs cs) q"
    and "cursor_for (advance xs cs) q = cursor_for cs q \<or>
      (\<exists>f \<in> set xs. sender_device_id f = q \<and> cursor_for (advance xs cs) q = seq f)"
proof -
  let ?fs = "filter (\<lambda>e. sender_device_id e = q) xs"
  have c: "cursor_for (advance xs cs) q = (if ?fs = [] then cursor_for cs q else seq (last ?fs))"
    by (simp add: cursor_for_advance split: list.splits)
  have l: "?fs \<noteq> [] \<Longrightarrow> last ?fs \<in> set xs \<and> sender_device_id (last ?fs) = q"
    using last_in_set [of ?fs] by simp
  with c show "cursor_for (advance xs cs) q = cursor_for cs q \<or>
      (\<exists>f \<in> set xs. sender_device_id f = q \<and> cursor_for (advance xs cs) q = seq f)" by auto
  assume e: "e \<in> set xs" "sender_device_id e = q"
  then have ne: "?fs \<noteq> []" "e \<in> set ?fs" by (auto simp: filter_empty_conv)
  have "sorted (map sync_order ?fs)" using srt by (rule sorted_filter)
  then have "sync_order e \<le> sync_order (last ?fs)"
    using sorted_le_last [of "map sync_order ?fs" "sync_order e"] ne by (auto simp: last_map)
  with l ne e(2) c show "seq e \<le> cursor_for (advance xs cs) q" by (auto simp: sync_order_def)
qed

text \<open>The next page starts where this one ended.\<close>

lemma pending_advance:
  assumes ok: "envelopes_ok st" and es: "xs @ ys = page_order (pending device cs st)"
  shows "page_order (pending device (advance xs cs) st) = ys"
proof -
  let ?keep = "\<lambda>e. seq e > cursor_for (advance xs cs) (sender_device_id e)"
  have "sorted (map sync_order (xs @ ys))" unfolding es page_order_def by simp
  then have srt: "sorted (map sync_order xs)" "\<forall>e \<in> set xs. \<forall>f \<in> set ys. sync_order e \<le> sync_order f"
    by (simp_all add: sorted_append)
  have d: "distinct (map (\<lambda>e. (sender_device_id e, seq e)) (xs @ ys))"
    using pending_numbers_distinct [OF ok, of device cs] unfolding es by (simp add: page_order_def distinct_map)
  have above: "e \<in> set (xs @ ys) \<Longrightarrow> seq e > cursor_for cs (sender_device_id e)" for e
    unfolding es by (auto simp: page_order_def pending_def)
  have "filter ?keep xs = []"
    using cursor_after_page(1) [OF srt(1) _ refl, of _ cs] by (simp add: filter_empty_conv not_less)
  moreover have "filter ?keep ys = ys"
  proof (rule filter_True, rule ballI)
    fix e assume e: "e \<in> set ys"
    from cursor_after_page(2) [OF srt(1), of cs "sender_device_id e"]
    show "?keep e"
    proof
      assume "\<exists>f \<in> set xs. sender_device_id f = sender_device_id e \<and> cursor_for (advance xs cs) (sender_device_id e) = seq f"
      then obtain f where f: "f \<in> set xs" "sender_device_id f = sender_device_id e"
        "cursor_for (advance xs cs) (sender_device_id e) = seq f" by blast
      then have "seq f \<le> seq e" using srt(2) e by (fastforce simp: sync_order_def)
      moreover have "seq f \<noteq> seq e" using d f e by (force simp: image_iff)
      ultimately show ?thesis using f(3) by simp
    qed (use above e in simp)
  qed
  ultimately have "filter ?keep (page_order (pending device cs st)) = ys" by (simp flip: es)
  moreover have "pending device (advance xs cs) st = filter ?keep (pending device cs st)"
  proof -
    have "cursor_for cs q \<le> cursor_for (advance xs cs) q" for q
      using cursor_after_page(2) [OF srt(1), of cs q] above by fastforce
    then show ?thesis unfolding pending_def filter_filter
      by (intro filter_cong) (auto intro: le_less_trans)
  qed
  ultimately show ?thesis by (simp add: page_order_def filter_sort)
qed

text \<open>The cursors stay valid, and there is at most one more for every sender met.\<close>

lemma check_cursors_iff:
  "check_cursors device seen cs \<longleftrightarrow>
     distinct (map peer_device_id cs) \<and>
     (\<forall>c \<in> set cs. peer_device_id c \<noteq> nil_uuid \<and> peer_device_id c \<noteq> device \<and> 0 \<le> after_seq c \<and> peer_device_id c \<notin> set seen)"
  by (induction device seen cs rule: check_cursors.induct) (auto simp: not_less image_iff)

lemma peers_put: "peer_device_id ` set (put_cursor p n cs) = insert p (peer_device_id ` set cs)"
  by (induction cs) auto

lemma distinct_put: "distinct (map peer_device_id cs) \<Longrightarrow> distinct (map peer_device_id (put_cursor p n cs))"
  by (induction cs) (auto simp: peers_put)

lemma set_put: "c \<in> set (put_cursor p n cs) \<Longrightarrow> c \<in> set cs \<or> (peer_device_id c = p \<and> after_seq c = n)"
  by (induction cs) (auto split: if_splits)

lemma advance_snoc: "advance (es @ [e]) cs = put_cursor (sender_device_id e) (seq e) (advance es cs)"
  by (simp add: advance_def)

lemma check_advance:
  assumes "check_cursors device [] cs"
    and "\<forall>e \<in> set es. sender_device_id e \<noteq> nil_uuid \<and> sender_device_id e \<noteq> device \<and> 0 \<le> seq e"
  shows "check_cursors device [] (advance es cs) \<and>
    peer_device_id ` set (advance es cs) = sender_device_id ` set es \<union> peer_device_id ` set cs"
  using assms(2)
proof (induction es rule: rev_induct)
  case Nil
  with assms(1) show ?case by (simp add: advance_def)
next
  case (snoc e es)
  then show ?case
    by (auto simp: advance_snoc check_cursors_iff distinct_put peers_put dest!: set_put)
qed

lemma length_cursors: "check_cursors device [] cs \<Longrightarrow> length cs = card (peer_device_id ` set cs)"
  by (metis check_cursors_iff distinct_card length_map list.set_map)

text \<open>A device that asks for page after page, moving its cursors, until nothing is left.\<close>

fun pull :: "(nat \<Rightarrow> network) \<Rightarrow> int \<Rightarrow> uuid \<Rightarrow> nat \<Rightarrow> SyncEnvelopeRequest \<Rightarrow> store_world \<Rightarrow> Envelope list option \<times> store_world" where
  "pull net now user 0 req w = (None, w)"
| "pull net now user (Suc n) req w =
     (case syncEnvelopePage net now user req w of
        (Inr (Some page), w') \<Rightarrow>
          if has_more page then
            (case pull net now user n (req\<lparr>cursors := advance (envelopes page) (cursors req)\<rparr>) w' of
               (r, w'') \<Rightarrow> (map_option ((@) (envelopes page)) r, w''))
          else (Some (envelopes page), w')
      | (_, w') \<Rightarrow> (None, w'))"

text \<open>The devices a device may name in its cursors: those it has named and those that have written to it.\<close>

definition peers :: "uuid \<Rightarrow> EnvelopeSyncCursor list \<Rightarrow> store \<Rightarrow> uuid set" where
  "peers device cs st = peer_device_id ` set cs \<union> sender_device_id ` set (pending device [] st)"

lemma pending_sender:
  assumes "envelopes_ok st" "e \<in> set (pending device cs st)" "check_cursors device [] cs"
  shows "sender_device_id e \<noteq> nil_uuid \<and> sender_device_id e \<noteq> device \<and> 0 \<le> seq e \<and> e \<in> set (pending device [] st)"
proof -
  from assms(2) obtain r where r: "r \<in> set (message_envelopes st)" "e = row_envelope r" "recipient_device_id e = device"
    by (auto simp: pending_def)
  from seq_positive [OF assms(1) r(1)] r assms(1) show ?thesis
    by (auto simp: envelopes_ok_def pending_def cursor_for_def)
qed

lemma sync_can_borrow:
  "can_borrow (fst w) \<Longrightarrow> syncEnvelopePage net now user req w = (r, w') \<Longrightarrow> can_borrow (fst w')"
  using lease_can_borrow [of "fst w" net now "withTransaction net (sync_body net user req)" "snd w"]
  by (auto simp: syncEnvelopePage_def syncEnvelopeRecord_def split: if_splits)

lemma pull_complete:
  assumes net: "\<And>n. net n = Delivered"
    and w: "pool_clean (fst w)" "store_ok (tables (snd w))" "can_borrow (fst w)" "usable_device (tables (snd w)) user device"
    and v: "user \<noteq> nil_uuid" "device \<noteq> nil_uuid" "check_cursors device [] cs"
    and c: "card (peers device cs (tables (snd w))) \<le> 1000" and n: "length (pending device cs (tables (snd w))) < n"
  shows "\<exists>w'. pull net now user n \<lparr>sy_device_id = device, cursors = cs\<rparr> w =
    (Some (page_order (pending device cs (tables (snd w)))), w') \<and> tables (snd w') = tables (snd w)"
  using w v(3) c n
proof (induction n arbitrary: w cs)
  case (Suc n)
  let ?req = "\<lparr>sy_device_id = device, cursors = cs\<rparr>" and ?st = "tables (snd w)"
  define es where "es = page_order (pending device cs ?st)"
  have ok: "envelopes_ok ?st" using Suc.prems(2) by (simp add: store_ok_def)
  have fin: "finite (peers device cs ?st)" by (simp add: peers_def)
  have "length cs \<le> 1000"
    using length_cursors [OF Suc.prems(5)] card_mono [OF fin, of "peer_device_id ` set cs"] Suc.prems(6) by (simp add: peers_def)
  then have val: "valid_sync user ?req" using v(1,2) Suc.prems(5) by (simp add: valid_sync_def)
  obtain x w' where s: "syncEnvelopePage net now user ?req w = (Inr x, w')"
    using sync_returns [of net, OF net Suc.prems(1-3) val] by blast
  have r: "pool_clean (fst w')" "tables (snd w') = ?st" "x = Some (page_of device cs ?st)"
    using sync_result [OF Suc.prems(1,2) s] Suc.prems(4) by simp_all
  from page_of_prefix [OF ok es_def] obtain k where
    k: "page_of device cs ?st = \<lparr>envelopes = take k es, has_more = (k < length es)\<rparr>" "es \<noteq> [] \<Longrightarrow> 0 < k" by metis
  show ?case
  proof (cases "k < length es")
    case False
    with s r k show ?thesis by (simp add: es_def)
  next
    case True
    let ?cs = "advance (take k es) cs"
    have left: "page_order (pending device ?cs ?st) = drop k es"
      by (rule pending_advance [OF ok]) (simp add: es_def)
    have sub: "e \<in> set (pending device cs ?st)" if "e \<in> set (take k es)" for e
      using that in_set_takeD [of e k es] by (simp add: es_def page_order_def)
    then have adv: "check_cursors device [] ?cs" "peer_device_id ` set ?cs = sender_device_id ` set (take k es) \<union> peer_device_id ` set cs"
      using check_advance [OF Suc.prems(5)] pending_sender [OF ok _ Suc.prems(5)] by blast+
    have "peers device ?cs ?st = peers device cs ?st"
      using adv(2) pending_sender [OF ok _ Suc.prems(5)] sub by (fastforce simp: peers_def)
    then have "card (peers device ?cs (tables (snd w'))) \<le> 1000" using r(2) Suc.prems(6) by simp
    moreover have "length (pending device ?cs ?st) < n"
    proof -
      have "length (pending device ?cs ?st) = length es - k" using left by (metis length_drop length_sort page_order_def)
      moreover have "length es = length (pending device cs ?st)" by (simp add: es_def page_order_def)
      ultimately show ?thesis using k(2) True Suc.prems(7) by fastforce
    qed
    ultimately obtain w'' where "pull net now user n \<lparr>sy_device_id = device, cursors = ?cs\<rparr> w' = (Some (drop k es), w'')"
      "tables (snd w'') = ?st"
      using Suc.IH [of w' ?cs] r Suc.prems(2,4) sync_can_borrow [OF Suc.prems(3) s] adv(1) left by auto
    with s r(3) k(1) True show ?thesis by (simp add: es_def [symmetric])
  qed
qed simp

text \<open>The small store with one envelope, number 1 from device 11 to device 22.\<close>

definition sample_chat1 :: store_world where
  "sample_chat1 = (fst sample_chat, \<lparr>tables = sample_store\<lparr>message_envelopes := [sample_row]\<rparr>, sent = 9\<rparr>)"

lemma sample_chat1_ok: "pool_clean (fst sample_chat1)" "store_ok (tables (snd sample_chat1))" "can_borrow (fst sample_chat1)"
  using newTextMessage_answered [OF sample_chat_ok(1,2) sample_lost] sample_chat_ok(3) by (simp_all add: sample_chat1_def)

lemma sample_chat1_usable: "usable_device (tables (snd sample_chat1)) 2 22"
  by (simp add: sample_chat1_def usable_device_def active_user_def sample_store_def)

lemma sample_row_facts:
  "recipient_device_id (row_envelope sample_row) = 22" "sender_device_id (row_envelope sample_row) = 11"
  "envelope_id (row_envelope sample_row) = 107" "seq (row_envelope sample_row) = 1" "received_at sample_row = None"
  by (simp_all add: sample_row_def new_row_def sample_message_def next_seq_def pair_seqs_def sample_store_def)

text \<open>
  C24. No envelope is lost and none comes twice: a device that asks for page after page and moves its cursors to the last
  number of each sender receives, after at most as many requests as envelopes are waiting, every envelope addressed
  to it above its cursors exactly once, those of one sender in the order of their numbers.  Asking changes nothing.
  The bound of 1000 cursors limits the devices it hears from.
\<close>

theorem pull_receives_everything_once:
  assumes net: "\<And>n. net n = Delivered"
    and w: "pool_clean (fst w)" "store_ok (tables (snd w))" "can_borrow (fst w)" "usable_device (tables (snd w)) user device"
    and v: "user \<noteq> nil_uuid" "device \<noteq> nil_uuid" "check_cursors device [] cs"
    and c: "card (peers device cs (tables (snd w))) \<le> 1000" and n: "length (pending device cs (tables (snd w))) < n"
  shows "\<exists>es w'. pull net now user n \<lparr>sy_device_id = device, cursors = cs\<rparr> w = (Some es, w') \<and>
    mset es = mset (pending device cs (tables (snd w))) \<and> distinct (map envelope_id es) \<and>
    sorted (map (\<lambda>e. (sender_device_id e, seq e)) es) \<and> tables (snd w') = tables (snd w)"
proof -
  let ?es = "page_order (pending device cs (tables (snd w)))"
  have "distinct (map (\<lambda>r. envelope_id (row_envelope r)) (message_envelopes (tables (snd w))))"
    using w(2) by (simp add: store_ok_def envelopes_ok_def)
  then have "distinct (map envelope_id ?es)"
    by (auto simp: page_order_def pending_def filter_map o_def distinct_map_filter distinct_map inj_on_def)
  moreover have "sorted (map (\<lambda>e. (sender_device_id e, seq e)) ?es)"
    using sorted_sort_key [of sync_order "pending device cs (tables (snd w))"]
    by (auto simp: page_order_def sorted_map sync_order_def elim!: sorted_wrt_mono_rel [rotated])
  ultimately show ?thesis
    using pull_complete [of net, OF net w v c n, of now] by (auto simp: page_order_def)
qed

theorem pull_receives_everything_once_witness:
  "\<exists>w'. pull (\<lambda>_. Delivered) 0 2 2 \<lparr>sy_device_id = 22, cursors = []\<rparr> sample_chat1 = (Some [row_envelope sample_row], w')"
proof -
  have p: "pending 22 [] (tables (snd sample_chat1)) = [row_envelope sample_row]"
    by (simp add: pending_def sample_chat1_def cursor_for_def sample_row_facts)
  from pull_receives_everything_once [of "\<lambda>_. Delivered", OF refl sample_chat1_ok sample_chat1_usable, where cs = "[]" and n = 2 and now = 0] p
  show ?thesis by (auto simp: peers_def)
qed

section \<open>Acknowledgment\<close>

definition ack_right :: "uuid list \<Rightarrow> uuid \<Rightarrow> store \<Rightarrow> store \<Rightarrow> bool" where
  "ack_right ids device st st' \<longleftrightarrow>
     st' = st\<lparr>message_envelopes := message_envelopes st'\<rparr> \<and>
     list_all2 (\<lambda>r r'.
       if recipient_device_id (row_envelope r) = device \<and> envelope_id (row_envelope r) \<in> set ids
       then row_envelope r' = row_envelope r \<and> received_at r' \<noteq> None \<and>
            (received_at r \<noteq> None \<longrightarrow> received_at r' = received_at r)
       else r' = r)
     (message_envelopes st) (message_envelopes st')"

lemma ack_effect_right:
  assumes "ack_effect user device ids st r st'" "usable_device st user device"
  shows "ack_right ids device st st'"
  using assms
  by (auto simp: ack_effect_def ack_right_def list_all2_map2 acked_row_def acknowledges_def
      intro!: list_all2_refl split: option.splits)

text \<open>
  C29. An acknowledgment marks exactly the envelopes that are listed and addressed to the device, and reports exactly
  those; it never changes an envelope, another table or a mark that was already set.  It is denied exactly when the
  device is not an active device of that active user.  After an error nothing was changed, unless the answer to the
  commit was lost: then the marks may be set.
\<close>

theorem ack_marks_own_envelopes:
  assumes w: "pool_clean (fst w)" and s: "chat_ackEnvelopes net now env user req w = (r, w')"
  shows "case r of
      Inr None \<Rightarrow> \<not> usable_device (tables (snd w)) user (ack_device_id req) \<and> tables (snd w') = tables (snd w)
    | Inr (Some ids) \<Rightarrow> usable_device (tables (snd w)) user (ack_device_id req) \<and>
        ack_right (envelope_ids req) (ack_device_id req) (tables (snd w)) (tables (snd w')) \<and>
        set ids = {i \<in> set (envelope_ids req). \<exists>e \<in> set (message_envelopes (tables (snd w))).
          envelope_id (row_envelope e) = i \<and> recipient_device_id (row_envelope e) = ack_device_id req}
    | Inl e \<Rightarrow> tables (snd w') = tables (snd w) \<or>
        (e = answer_lost \<and> ack_right (envelope_ids req) (ack_device_id req) (tables (snd w)) (tables (snd w')))"
proof (cases r)
  case (Inl e)
  have "tables (snd w') = tables (snd w) \<or> ack_right (envelope_ids req) (ack_device_id req) (tables (snd w)) (tables (snd w'))"
    if "ack_effect user (ack_device_id req) (envelope_ids req) (tables (snd w)) x (tables (snd w'))" for x
    using ack_effect_right [OF that] that by (cases "usable_device (tables (snd w)) user (ack_device_id req)") (simp_all add: ack_effect_def)
  with ack_result [OF w s] Inl show ?thesis by fastforce
next
  case (Inr x)
  then have a: "ack_effect user (ack_device_id req) (envelope_ids req) (tables (snd w)) x (tables (snd w'))"
    using ack_result [OF w s] by simp
  show ?thesis
  proof (cases "usable_device (tables (snd w)) user (ack_device_id req)")
    case True
    from ack_effect_right [OF a True] a True Inr show ?thesis
      by (auto simp: ack_effect_def acknowledges_def)
  qed (use a Inr in \<open>simp add: ack_effect_def\<close>)
qed

theorem ack_marks_own_envelopes_witness:
  "case chat_ackEnvelopes (\<lambda>_. Delivered) 0 sample_env 2 \<lparr>ack_device_id = 22, envelope_ids = [107, 5]\<rparr> sample_chat1 of
     (r, w') \<Rightarrow> (\<forall>ids. r = Inr (Some ids) \<longrightarrow> set ids = {107} \<and> ack_right [107, 5] 22 (tables (snd sample_chat1)) (tables (snd w')))"
proof -
  let ?req = "\<lparr>ack_device_id = 22, envelope_ids = [107, 5]\<rparr>"
  obtain r w' where n: "chat_ackEnvelopes (\<lambda>_. Delivered) 0 sample_env 2 ?req sample_chat1 = (r, w')" by (rule prod.exhaust)
  have "message_envelopes (tables (snd sample_chat1)) = [sample_row]" by (simp add: sample_chat1_def)
  with ack_marks_own_envelopes [OF sample_chat1_ok(1) n] show ?thesis
    by (auto simp: n sample_row_facts)
qed

text \<open>
  Acknowledging again changes nothing and gets the same answer, also when the first answer was lost: the device may
  repeat the request until it gets one.
\<close>

theorem ack_repeat_same:
  assumes w: "pool_clean (fst w)" and first: "chat_ackEnvelopes net now env user req w = (r, w')"
    and took: "tables (snd w') \<noteq> tables (snd w) \<or> (\<exists>ids. r = Inr (Some ids))"
    and again: "chat_ackEnvelopes net' now' env' user req w' = (Inr x, w'')"
  shows "tables (snd w'') = tables (snd w') \<and>
    x = Some (map (\<lambda>e. envelope_id (row_envelope e)) (filter (acknowledges (ack_device_id req) (envelope_ids req)) (message_envelopes (tables (snd w))))) \<and>
    (\<forall>ids. r = Inr (Some ids) \<longrightarrow> x = Some ids)"
proof -
  let ?st = "tables (snd w)" and ?st1 = "tables (snd w')" and ?d = "ack_device_id req" and ?ids = "envelope_ids req"
  have p: "pool_clean (fst w')" using ack_result [OF w first] by simp
  from ack_result [OF w first] took obtain y where y: "ack_effect user ?d ?ids ?st y ?st1"
    "\<forall>ids. r = Inr (Some ids) \<longrightarrow> y = Some ids" by (cases r) auto
  have u: "usable_device ?st user ?d" using y took by (auto simp: ack_effect_def split: if_splits)
  then obtain t where st1: "?st1 = ?st\<lparr>message_envelopes := map (acked_row t ?d ?ids) (message_envelopes ?st)\<rparr>"
    and yv: "y = Some (map (\<lambda>e. envelope_id (row_envelope e)) (filter (acknowledges ?d ?ids) (message_envelopes ?st)))"
    using y(1) by (auto simp: ack_effect_def)
  have "usable_device ?st1 user ?d" using u by (simp add: st1 usable_device_def active_user_def)
  with ack_result [OF p again] obtain t' where
    x: "x = Some (map (\<lambda>e. envelope_id (row_envelope e)) (filter (acknowledges ?d ?ids) (message_envelopes ?st1)))"
    and st2: "tables (snd w'') = ?st1\<lparr>message_envelopes := map (acked_row t' ?d ?ids) (message_envelopes ?st1)\<rparr>"
    by (auto simp: ack_effect_def)
  have twice: "acked_row t' ?d ?ids (acked_row t ?d ?ids e) = acked_row t ?d ?ids e" for e
    by (simp add: acked_row_def acknowledges_def)
  have keep: "acknowledges ?d ?ids (acked_row t ?d ?ids e) = acknowledges ?d ?ids e" for e
    by (simp add: acknowledges_def)
  from x st2 yv y(2) show ?thesis by (simp add: st1 o_def twice keep filter_map)
qed

lemma ack_returns:
  assumes net: "\<And>n. net n = Delivered" and w: "pool_clean (fst w)" "can_borrow (fst w)"
    and v: "user \<noteq> nil_uuid" "ack_device_id req \<noteq> nil_uuid" "0 < length (envelope_ids req)" "length (envelope_ids req) \<le> 100"
      "check_ids [] (envelope_ids req)"
  shows "\<exists>x w'. chat_ackEnvelopes net now env user req w = (Inr x, w') \<and> can_borrow (fst w')"
proof -
  have "tx_total (ack_body net env user req) (tables (snd w))"
    unfolding ack_body_def
    by (intro tx_total_sql_bind [OF net]) (auto simp: sql_own_device_def sql_acknowledge_def intro!: tx_total_sql_bind [OF net])
  from lease_total [of net, OF net w this, of now] lease_can_borrow [OF w(2), of net now "withTransaction net (ack_body net env user req)" "snd w"] v
  show ?thesis by (cases w) (auto simp: chat_ackEnvelopes_def ackEnvelopes_def)
qed

theorem ack_repeat_same_witness:
  "\<exists>w1 w2. chat_ackEnvelopes (\<lambda>_. Delivered) 0 sample_env 2 \<lparr>ack_device_id = 22, envelope_ids = [107]\<rparr> sample_chat1 = (Inr (Some [107]), w1) \<and>
     chat_ackEnvelopes (\<lambda>_. Delivered) 5 sample_env 2 \<lparr>ack_device_id = 22, envelope_ids = [107]\<rparr> w1 = (Inr (Some [107]), w2) \<and>
     tables (snd w2) = tables (snd w1)"
proof -
  let ?req = "\<lparr>ack_device_id = 22, envelope_ids = [107]\<rparr>"
  have m: "message_envelopes (tables (snd sample_chat1)) = [sample_row]" by (simp add: sample_chat1_def)
  obtain x w1 where a: "chat_ackEnvelopes (\<lambda>_. Delivered) 0 sample_env 2 ?req sample_chat1 = (Inr x, w1)" "can_borrow (fst w1)"
    using ack_returns [where net = "\<lambda>_. Delivered" and w = sample_chat1 and req = ?req and user = 2 and now = 0 and env = sample_env]
      sample_chat1_ok(1,3) by auto
  have x: "x = Some [107]" "pool_clean (fst w1)"
    using ack_result [OF sample_chat1_ok(1) a(1)] sample_chat1_usable m
    by (simp_all add: ack_effect_def acknowledges_def sample_row_facts)
  obtain y w2 where b: "chat_ackEnvelopes (\<lambda>_. Delivered) 5 sample_env 2 ?req w1 = (Inr y, w2)"
    using ack_returns [where net = "\<lambda>_. Delivered" and w = w1 and req = ?req and user = 2 and now = 5 and env = sample_env]
      x(2) a(2) by auto
  from ack_repeat_same [OF sample_chat1_ok(1) a(1) _ b] x(1) have "tables (snd w2) = tables (snd w1)" "y = Some [107]" by auto
  with a(1) b x(1) show ?thesis by (intro exI [of _ w1] exI [of _ w2]) simp
qed

end
