(* ===== verification/Store_Service.thy ===== *)
theory Store_Service
  imports Chat_Service
begin

text \<open>
  What all the repositories have in common: they borrow a connection and run either a transaction or a single statement on
  it.  The locale \<open>store_service\<close> is the contract of such a call: it leaves the pool clean and the store well-formed
  and has its effect on the tables.  The first sections show it for both kinds of calls, whatever the network does; the
  calls of the chat service are its first instances.
\<close>

section \<open>A single statement on a leased connection\<close>

text \<open>A connection on which no transaction is open.\<close>

definition outside :: "'d db_state \<Rightarrow> bool" where
  "outside z \<longleftrightarrow> (case pg_connection (fst z) of None \<Rightarrow> True | Some p \<Rightarrow> \<not> in_block p)"

text \<open>The exceptions that a pool or a connection throws.\<close>

fun infrastructure :: "exn \<Rightarrow> bool" where
  "infrastructure (DbExn _) = True"
| "infrastructure (RuntimeError _) = True"
| "infrastructure _ = False"

lemma execute_outside:
  assumes "idle z" "execute net (Sql q) z = (r, z')"
  shows "outside z' \<and>
    (case r of
       Inr x \<Rightarrow> \<exists>n. q n (tables (snd z)) = Inr (x, tables (snd z'))
     | Inl e \<Rightarrow> infrastructure e \<and> (tables (snd z') = tables (snd z) \<or>
         (e = answer_lost \<and> (\<exists>n x. q n (tables (snd z)) = Inr (x, tables (snd z'))))))"
proof -
  obtain p where p: "pg_connection (fst z) = Some p" "conn_ok p" "trans p = PQTRANS_IDLE"
    using assms(1) by (auto simp: idle_def split: option.splits)
  show ?thesis
  proof (cases "net (sent (snd z))")
    case Delivered
    with assms p show ?thesis
      by (cases "q (sent (snd z)) (tables (snd z))")
        (auto simp: db_defs outside_def query_error_def)
  next
    case LostAfter
    with assms p show ?thesis
      by (cases "q (sent (snd z)) (tables (snd z))")
        (auto simp: db_defs outside_def query_error_def answer_lost_def)
  qed (use assms p in \<open>auto simp: db_defs outside_def query_error_def conn_error_def\<close>)
qed

lemma reset_outside:
  assumes "outside z" "db_reset net now z = (ok, z')"
  shows "tables (snd z') = tables (snd z) \<and> outside z'"
  using assms
  by (cases z; cases "pg_connection (fst z)")
    (auto simp: outside_def db_reset_def db_close_def db_defs setLastActiveTime_def split: if_splits)

lemma close_outside: "outside z \<Longrightarrow> tables (snd (db_close now z)) = tables (snd z)"
  by (cases z) (auto simp: outside_def db_close_def db_defs split: option.splits)

lemma release_outside:
  assumes "outside (c, s)" "pool_clean p" "releaseReturnedConnections net now c p s = (p', s')"
  shows "pool_clean p' \<and> tables s' = tables s"
proof -
  obtain ok c1 s1 where r: "db_reset net now (c, s) = (ok, c1, s1)" by (cases "db_reset net now (c, s)") auto
  from reset_outside [OF assms(1) r] have t: "tables s1 = tables s" "outside (c1, s1)" by simp_all
  have "ok \<Longrightarrow> conn_ready c1" using db_reset_ready [of net now "(c, s)" "(c1, s1)"] r by simp
  with t r assms(2,3) close_outside [OF t(2), of now] show ?thesis
    by (auto simp: releaseReturnedConnections_def pool_clean_def split: if_splits)
qed

lemma getConnection_error: "getConnection net p s = (Inl e, z) \<Longrightarrow> infrastructure e"
  by (auto simp: getConnection_def getConnection_enter_def getConnection_finish_def DatabaseConnection_of_def
      conn_error_def Let_def split: if_splits list.splits sum.splits prod.splits network.splits)

lemma db_lift_apply [simp]: "db_lift r z = (r, z)"
  by (cases r) (simp_all add: db_lift_def db_throw_def db_return_def)

text \<open>The statement is followed by a computation on its rows, which may throw.\<close>

lemma lease_query:
  assumes p: "pool_clean p"
    and l: "with_lease net now (db_bind (execute net (Sql q)) (\<lambda>x. db_lift (g x))) (p, s) = (r, p', s')"
  shows "pool_clean p' \<and>
    ((\<exists>n x. q n (tables s) = Inr (x, tables s') \<and> (r = g x \<or> r = Inl answer_lost)) \<or>
     (tables s' = tables s \<and> (\<exists>e. r = Inl e \<and> infrastructure e)))"
proof -
  obtain r1 p1 s1 where g: "getConnection net p s = (r1, p1, s1)" by (cases "getConnection net p s") auto
  note g' = getConnection_clean [OF p g]
  show ?thesis
  proof (cases r1)
    case (Inl e)
    with g g' l getConnection_error show ?thesis by (fastforce simp: with_lease_def)
  next
    case (Inr c)
    with g' have i: "idle (c, s1)" by (simp add: idle_conn_ready)
    obtain r2 c2 s2 where w: "execute net (Sql q) (c, s1) = (r2, c2, s2)" by (cases "execute net (Sql q) (c, s1)") auto
    obtain p3 s3 where rel: "releaseReturnedConnections net now c2 p1 s2 = (p3, s3)" by fastforce
    note x = execute_outside [OF i w]
    from release_outside [OF _ _ rel] x g' have "pool_clean p3" "tables s3 = tables s2" by simp_all
    with x g g' Inr w rel l show ?thesis
      by (cases r2) (auto simp: with_lease_def db_bind_def)
  qed
qed

text \<open>With nothing refused or lost the statement is carried out.\<close>

lemma lease_query_total:
  assumes net: "\<And>n. net n = Delivered" and p: "pool_clean p" "can_borrow p" and q: "\<And>n. \<exists>x d. q n (tables s) = Inr (x, d)"
  shows "\<exists>n x. q n (tables s) = Inr x \<and>
    fst (with_lease net now (db_bind (execute net (Sql q)) (\<lambda>x. db_lift (g x))) (p, s)) = g (fst x)"
proof -
  obtain r1 p1 s1 where g: "getConnection net p s = (r1, p1, s1)" by (cases "getConnection net p s") auto
  note g' = getConnection_clean [OF p(1) g]
  have "\<exists>c. r1 = Inr c" using g p(2) net
    by (auto simp: getConnection_def getConnection_enter_def getConnection_finish_def can_borrow_def Let_def
        DatabaseConnection_of_def split: if_splits list.splits)
  then obtain c where c: "r1 = Inr c" by blast
  with g' obtain pg where pg: "pg_connection c = Some pg" "conn_ok pg" "trans pg = PQTRANS_IDLE"
    by (auto simp: conn_ready_def split: option.splits)
  obtain x d where x: "q (sent s1) (tables s) = Inr (x, d)" using q by blast
  have "fst (execute net (Sql q) (c, s1)) = Inr x"
    using pg x net g' by (simp add: db_defs)
  then have "fst (with_lease net now (db_bind (execute net (Sql q)) (\<lambda>x. db_lift (g x))) (p, s)) = g x"
    using g c by (auto simp: with_lease_def db_bind_def split: prod.splits)
  with x show ?thesis by fastforce
qed

section \<open>Well-formed worlds\<close>

definition world_ok :: "store_world \<Rightarrow> bool" where
  "world_ok w \<longleftrightarrow> pool_clean (fst w) \<and> store_ok (tables (snd w))"

text \<open>The effect of a transaction with effect \<open>R\<close>: after an error nothing, unless the answer to the commit was lost.\<close>

definition tx_result :: "(store \<Rightarrow> 'a \<Rightarrow> store \<Rightarrow> bool) \<Rightarrow> store \<Rightarrow> 'a result \<Rightarrow> store \<Rightarrow> bool" where
  "tx_result R st r st' \<longleftrightarrow>
     (case r of Inr x \<Rightarrow> R st x st' | Inl e \<Rightarrow> st' = st \<or> (e = answer_lost \<and> (\<exists>x. R st x st')))"

lemma tx_result_Inr [simp]: "tx_result R st (Inr x) st' \<longleftrightarrow> R st x st'"
  by (simp add: tx_result_def)

lemma tx_result_cases: "tx_result R st r st' \<Longrightarrow> st' = st \<or> (\<exists>x. R st x st')"
  by (auto simp: tx_result_def split: sum.splits)

lemma transaction_service:
  assumes f: "tx_safe f" and R: "\<And>st x st'. store_ok st \<Longrightarrow> tx_runs f st x st' \<Longrightarrow> store_ok st' \<and> R st x st'"
    and w: "world_ok w" and c: "with_lease net now (withTransaction net f) w = (r, w')"
  shows "world_ok w' \<and> tx_result R (tables (snd w)) r (tables (snd w'))"
proof -
  have "tx_spec f (\<lambda>st x st'. store_ok st \<longrightarrow> store_ok st' \<and> R st x st')"
    by (rule tx_spec_weaken [OF tx_spec_runs [OF f]]) (simp add: R)
  from lease_transaction [OF this, where p = "fst w" and net = net and now = now and s = "snd w"] w c show ?thesis
    by (cases r) (auto simp: world_ok_def tx_result_def)
qed

text \<open>The effect of a single statement \<open>q\<close> and the computation \<open>g\<close> on its rows.\<close>

definition query_result :: "(store, 'a) query \<Rightarrow> ('a \<Rightarrow> 'b result) \<Rightarrow> store \<Rightarrow> 'b result \<Rightarrow> store \<Rightarrow> bool" where
  "query_result q g st r st' \<longleftrightarrow>
     (\<exists>n x. q n st = Inr (x, st') \<and> (r = g x \<or> r = Inl answer_lost)) \<or>
     (st' = st \<and> (\<exists>e. r = Inl e \<and> infrastructure e))"

lemma query_service:
  assumes q: "\<And>n st x st'. store_ok st \<Longrightarrow> q n st = Inr (x, st') \<Longrightarrow> store_ok st'"
    and w: "world_ok w" and c: "with_lease net now (db_bind (execute net (Sql q)) (\<lambda>x. db_lift (g x))) w = (r, w')"
  shows "world_ok w' \<and> query_result q g (tables (snd w)) r (tables (snd w'))"
  using lease_query [where p = "fst w" and s = "snd w" and p' = "fst w'" and s' = "snd w'" and net = net and now = now and q = q and g = g and r = r]
    w c q by (auto simp: world_ok_def query_result_def)

text \<open>A statement that only reads: the result is computed from its rows, or the database failed.\<close>

definition read_result :: "(store, 'a) query \<Rightarrow> ('a \<Rightarrow> 'b result) \<Rightarrow> store \<Rightarrow> 'b result \<Rightarrow> store \<Rightarrow> bool" where
  "read_result q g st r st' \<longleftrightarrow>
     st' = st \<and> ((\<exists>n x. q n st = Inr (x, st) \<and> r = g x) \<or> (\<exists>e. r = Inl e \<and> infrastructure e))"

definition read_only :: "(store, 'a) query \<Rightarrow> bool" where
  "read_only q \<longleftrightarrow> (\<forall>n st x st'. q n st = Inr (x, st') \<longrightarrow> st' = st)"

lemma read_result_same: "read_result q g st r st' \<Longrightarrow> st' = st"
  by (simp add: read_result_def)

lemma read_resultE:
  assumes "read_result q g st r st'"
  obtains (rows) n x where "st' = st" "q n st = Inr (x, st)" "r = g x" | (failed) e where "st' = st" "r = Inl e" "infrastructure e"
  using assms by (auto simp: read_result_def)

lemma infrastructure_answer_lost [simp]: "infrastructure answer_lost"
  by (simp add: answer_lost_def query_error_def)

lemma read_service:
  assumes q: "read_only q" and w: "world_ok w"
    and c: "with_lease net now (db_bind (execute net (Sql q)) (\<lambda>x. db_lift (g x))) w = (r, w')"
  shows "world_ok w' \<and> read_result q g (tables (snd w)) r (tables (snd w'))"
proof -
  have "\<And>n st x st'. store_ok st \<Longrightarrow> q n st = Inr (x, st') \<Longrightarrow> store_ok st'" using q by (auto simp: read_only_def)
  from query_service [OF this w c] q show ?thesis by (fastforce simp: query_result_def read_result_def read_only_def)
qed

section \<open>The contract\<close>

locale store_service =
  fixes call :: "store_world \<Rightarrow> 'r \<times> store_world" and effect :: "store \<Rightarrow> 'r \<Rightarrow> store \<Rightarrow> bool"
  assumes serves: "world_ok w \<Longrightarrow> call w = (r, w') \<Longrightarrow> world_ok w' \<and> effect (tables (snd w)) r (tables (snd w'))"
begin

lemma keeps: "world_ok w \<Longrightarrow> world_ok (snd (call w))"
  using serves by (metis surjective_pairing)

lemma effects: "world_ok w \<Longrightarrow> call w = (r, w') \<Longrightarrow> effect (tables (snd w)) r (tables (snd w'))"
  using serves by blast

text \<open>A call whose result decides whether a second one follows.\<close>

lemma followed:
  assumes w: "world_ok w" and n: "\<And>r w1. world_ok w1 \<Longrightarrow> effect (tables (snd w)) r (tables (snd w1)) \<Longrightarrow> world_ok (snd (next r w1))"
  shows "world_ok (snd (case call w of (r, w1) \<Rightarrow> next r w1))"
  using serves [OF w] n by (cases "call w") auto

end

text \<open>A transaction, and a single statement, as instances for any body.\<close>

lemma transaction_store_service:
  assumes "tx_safe f" "\<And>st x st'. store_ok st \<Longrightarrow> tx_runs f st x st' \<Longrightarrow> store_ok st' \<and> R st x st'"
  shows "store_service (with_lease net now (withTransaction net f)) (tx_result R)"
  by unfold_locales (rule transaction_service [OF assms])

lemma query_store_service:
  assumes "\<And>n st x st'. store_ok st \<Longrightarrow> q n st = Inr (x, st') \<Longrightarrow> store_ok st'"
  shows "store_service (with_lease net now (db_bind (execute net (Sql q)) (\<lambda>x. db_lift (g x)))) (query_result q g)"
  by unfold_locales (rule query_service [OF assms])

lemma read_store_service:
  "read_only q \<Longrightarrow> store_service (with_lease net now (db_bind (execute net (Sql q)) (\<lambda>x. db_lift (g x)))) (read_result q g)"
  by unfold_locales (rule read_service)

interpretation new_message: store_service "newTextMessage net now env user sender req"
  "\<lambda>st a st'. if valid_message user sender req then answered env user sender req st a st' else a = status_only InvalidRequest \<and> st' = st"
  for net now env user sender req
proof unfold_locales
  fix w a w' assume w: "world_ok w" and c: "newTextMessage net now env user sender req w = (a, w')"
  then have "pool_clean (fst w)" "store_ok (tables (snd w))" by (simp_all add: world_ok_def)
  from newTextMessage_answered [OF this c] w
  show "world_ok w' \<and> (if valid_message user sender req then answered env user sender req (tables (snd w)) a (tables (snd w'))
      else a = status_only InvalidRequest \<and> tables (snd w') = tables (snd w))"
    by (simp add: world_ok_def split: if_splits)
qed

interpretation sync_page: store_service "syncEnvelopePage net now user req"
  "\<lambda>st r st'. st' = st \<and> (\<forall>x. r = Inr x \<longrightarrow> x = (if usable_device st user (sy_device_id req)
     then Some (page_of (sy_device_id req) (cursors req) st) else None))"
  for net now user req
proof unfold_locales
  fix w r w' assume w: "world_ok w" and c: "syncEnvelopePage net now user req w = (r, w')"
  then have "pool_clean (fst w)" "store_ok (tables (snd w))" by (simp_all add: world_ok_def)
  from sync_result [OF this c] w
  show "world_ok w' \<and> tables (snd w') = tables (snd w) \<and> (\<forall>x. r = Inr x \<longrightarrow>
      x = (if usable_device (tables (snd w)) user (sy_device_id req) then Some (page_of (sy_device_id req) (cursors req) (tables (snd w))) else None))"
    by (simp add: world_ok_def)
qed

interpretation acknowledge: store_service "chat_ackEnvelopes net now env user req"
  "tx_result (ack_effect user (ack_device_id req) (envelope_ids req))"
  for net now env user req
proof unfold_locales
  fix w r w' assume w: "world_ok w" and c: "chat_ackEnvelopes net now env user req w = (r, w')"
  from ack_result [OF _ c] w show "world_ok w' \<and> tx_result (ack_effect user (ack_device_id req) (envelope_ids req)) (tables (snd w)) r (tables (snd w'))"
    by (auto simp: world_ok_def tx_result_def split: sum.splits intro: ack_effect_ok)
qed

end
