(* ===== verification/Identity.thy ===== *)
theory Identity
  imports Store_Service
begin

text \<open>
  The check of a session's identity: \<^verbatim>\<open>UserRepository::VerifyUserDeviceRelation\<close> and
  \<^verbatim>\<open>SessionIdentityService\<close>.  It is a single statement outside a transaction.
\<close>

section \<open>The relation of a user and a device\<close>

definition sql_device_relation :: "uuid \<Rightarrow> uuid \<Rightarrow> (store, (string \<times> string) list) query" where
  "sql_device_relation my_id device_id n st =
     Inr (map (\<lambda>ud. (if ud_user_id ud = my_id then ''true'' else ''false'',
                     if ud_status ud = ''active'' \<and> active_user st (ud_user_id ud) then ''true'' else ''false''))
            (filter (\<lambda>ud. ud_device_id ud = device_id) (user_devices st)), st)"

fun device_relation :: "(string \<times> string) list \<Rightarrow> bool result" where
  "device_relation [] = Inl (DeviceRelationException NoSuchDeviceRel)"
| "device_relation ((belongs_to_user, is_active) # _) =
     (if belongs_to_user \<noteq> ''true'' then Inl (DeviceRelationException NotYourDeviceRel)
      else if is_active \<noteq> ''true'' then Inl (DeviceRelationException NotActivatedRel)
      else Inr True)"

definition VerifyUserDeviceRelation :: "(nat \<Rightarrow> network) \<Rightarrow> int \<Rightarrow> uuid \<Rightarrow> uuid \<Rightarrow> store_world \<Rightarrow> bool result \<times> store_world" where
  "VerifyUserDeviceRelation net now my_id device_id w =
     with_lease net now
       (db_bind (execute net (Sql (sql_device_relation my_id device_id))) (\<lambda>rows. db_lift (device_relation rows))) w"

definition verifySessionIdentity :: "(nat \<Rightarrow> network) \<Rightarrow> int \<Rightarrow> uuid \<Rightarrow> uuid \<Rightarrow> store_world \<Rightarrow> IdentityState result \<times> store_world" where
  "verifySessionIdentity net now user_id device_id w =
     (case VerifyUserDeviceRelation net now user_id device_id w of
        (Inr result, w') \<Rightarrow>
          (if result then Inr IdentitySuccess else Inl (LogicError ''Unexpected device relation result''), w')
      | (Inl (DeviceRelationException e), w') \<Rightarrow>
          (Inr (case e of NoSuchDeviceRel \<Rightarrow> NoSuchDevice | NotActivatedRel \<Rightarrow> NotActivated | NotYourDeviceRel \<Rightarrow> NotYourDevice), w')
      | (Inl e, w') \<Rightarrow> (Inl e, w'))"

text \<open>What the state of an identity says of the tables.\<close>

fun identity_true :: "store \<Rightarrow> uuid \<Rightarrow> uuid \<Rightarrow> IdentityState \<Rightarrow> bool" where
  "identity_true st user device IdentitySuccess \<longleftrightarrow> usable_device st user device"
| "identity_true st user device NoSuchDevice \<longleftrightarrow> (\<forall>ud \<in> set (user_devices st). ud_device_id ud \<noteq> device)"
| "identity_true st user device NotYourDevice \<longleftrightarrow>
     (\<exists>ud \<in> set (user_devices st). ud_device_id ud = device \<and> ud_user_id ud \<noteq> user)"
| "identity_true st user device NotActivated \<longleftrightarrow>
     (\<exists>ud \<in> set (user_devices st). ud_device_id ud = device \<and> ud_user_id ud = user) \<and> \<not> usable_device st user device"

lemma relation_true:
  assumes k: "keys_ok st" and q: "sql_device_relation user device n st = Inr (rows, st')"
  shows "st' = st \<and>
    (case device_relation rows of
       Inr b \<Rightarrow> b \<and> identity_true st user device IdentitySuccess
     | Inl e \<Rightarrow> \<exists>d. e = DeviceRelationException d \<and> identity_true st user device
         (case d of NoSuchDeviceRel \<Rightarrow> NoSuchDevice | NotActivatedRel \<Rightarrow> NotActivated | NotYourDeviceRel \<Rightarrow> NotYourDevice))"
proof (cases "filter (\<lambda>ud. ud_device_id ud = device) (user_devices st)")
  case Nil
  with q show ?thesis by (auto simp: sql_device_relation_def filter_empty_conv)
next
  case (Cons ud uds)
  then have ud: "ud \<in> set (user_devices st)" "ud_device_id ud = device" using list.set_intros(1) [of ud uds] unfolding Cons [symmetric] by simp_all
  have u: "ud' = ud" if "ud' \<in> set (user_devices st)" "ud_device_id ud' = device" for ud'
    using key_unique [of ud_device_id "user_devices st" ud' ud] k that ud by (simp add: keys_ok_def)
  have "usable_device st user device \<longleftrightarrow> ud_user_id ud = user \<and> ud_status ud = ''active'' \<and> active_user st user"
    unfolding usable_device_def using ud u by metis
  with Cons q ud show ?thesis by (auto simp: sql_device_relation_def split: if_splits)
qed

text \<open>
  The identity check answers the truth about the tables at the time of the check, changes nothing and leaves the
  pool clean; in particular it succeeds exactly for an active device of that active user.  A failure of the database
  is reported as such, never as a refusal.
\<close>

lemma identity_checked:
  assumes w: "pool_clean (fst w)" "keys_ok (tables (snd w))" and s: "verifySessionIdentity net now user device w = (r, w')"
  shows "pool_clean (fst w') \<and> tables (snd w') = tables (snd w) \<and>
    (case r of Inr i \<Rightarrow> identity_true (tables (snd w)) user device i | Inl e \<Rightarrow> infrastructure e)"
proof -
  obtain r1 w1 where v: "VerifyUserDeviceRelation net now user device w = (r1, w1)"
    by (cases "VerifyUserDeviceRelation net now user device w" rule: prod.exhaust)
  have w1: "w' = w1" using s v by (auto simp: verifySessionIdentity_def split: sum.splits exn.splits)
  have inf: "infrastructure answer_lost" by (simp add: answer_lost_def query_error_def)
  from lease_query [where p = "fst w" and s = "snd w" and p' = "fst w1" and s' = "snd w1" and net = net and now = now
      and q = "sql_device_relation user device" and g = device_relation and r = r1] w(1) v have
    c: "pool_clean (fst w1)" and d: "(\<exists>n rows. sql_device_relation user device n (tables (snd w)) = Inr (rows, tables (snd w1)) \<and>
        (r1 = device_relation rows \<or> r1 = Inl answer_lost)) \<or>
      (tables (snd w1) = tables (snd w) \<and> (\<exists>e. r1 = Inl e \<and> infrastructure e))"
    by (auto simp: VerifyUserDeviceRelation_def)
  from d show ?thesis
  proof
    assume "\<exists>n rows. sql_device_relation user device n (tables (snd w)) = Inr (rows, tables (snd w1)) \<and>
        (r1 = device_relation rows \<or> r1 = Inl answer_lost)"
    then obtain n rows where q: "sql_device_relation user device n (tables (snd w)) = Inr (rows, tables (snd w1))"
      "r1 = device_relation rows \<or> r1 = Inl answer_lost" by blast
    from relation_true [OF w(2) q(1)] q(2) c s v w1 inf show ?thesis
      by (auto simp: verifySessionIdentity_def answer_lost_def query_error_def split: sum.splits)
  next
    assume "tables (snd w1) = tables (snd w) \<and> (\<exists>e. r1 = Inl e \<and> infrastructure e)"
    with c s v w1 show ?thesis by (auto simp: verifySessionIdentity_def elim!: infrastructure.elims)
  qed
qed

text \<open>With nothing refused or lost the check is carried out.\<close>

lemma identity_usable:
  assumes "keys_ok st" "usable_device st user device" "identity_true st user device i"
  shows "i = IdentitySuccess"
proof (cases i)
  case NotYourDevice
  with assms show ?thesis
    using key_unique [of ud_device_id "user_devices st"] by (auto simp: usable_device_def keys_ok_def)
qed (use assms in \<open>auto simp: usable_device_def\<close>)

lemma identity_succeeds:
  assumes net: "\<And>n. net n = Delivered" and w: "pool_clean (fst w)" "keys_ok (tables (snd w))" "can_borrow (fst w)"
    and u: "usable_device (tables (snd w)) user device"
  shows "\<exists>w'. verifySessionIdentity net now user device w = (Inr IdentitySuccess, w') \<and> can_borrow (fst w')"
proof -
  obtain r w' where v: "VerifyUserDeviceRelation net now user device w = (r, w')"
    by (cases "VerifyUserDeviceRelation net now user device w" rule: prod.exhaust)
  have "\<exists>x d. sql_device_relation user device n (tables (snd w)) = Inr (x, d)" for n by (simp add: sql_device_relation_def)
  from lease_query_total [where net = net and p = "fst w" and s = "snd w" and q = "sql_device_relation user device"
      and g = device_relation and now = now, OF net w(1,3) this] v
  obtain n rows d where q: "sql_device_relation user device n (tables (snd w)) = Inr (rows, d)" "r = device_relation rows"
    by (auto simp: VerifyUserDeviceRelation_def)
  have "r = Inr True"
  proof (cases r)
    case (Inl e)
    then have "device_relation rows = Inl e" using q(2) by simp
    with relation_true [OF w(2) q(1)] obtain dd where "identity_true (tables (snd w)) user device
      (case dd of NoSuchDeviceRel \<Rightarrow> NoSuchDevice | NotActivatedRel \<Rightarrow> NotActivated | NotYourDeviceRel \<Rightarrow> NotYourDevice)" by auto
    then have "(case dd of NoSuchDeviceRel \<Rightarrow> NoSuchDevice | NotActivatedRel \<Rightarrow> NotActivated | NotYourDeviceRel \<Rightarrow> NotYourDevice) = IdentitySuccess"
      by (rule identity_usable [OF w(2) u])
    then have False by (cases dd) simp_all
    then show ?thesis ..
  next
    case (Inr b)
    then have "device_relation rows = Inr b" using q(2) by simp
    with relation_true [OF w(2) q(1)] Inr show ?thesis by simp
  qed
  moreover have "can_borrow (fst w')"
    using lease_can_borrow [OF w(3), of net now _ "snd w"] v by (metis VerifyUserDeviceRelation_def fst_conv prod.collapse snd_conv)
  ultimately show ?thesis using v by (simp add: verifySessionIdentity_def)
qed

end
