(* ===== verification/Threads.thy ===== *)
theory Threads
  imports Main "HOL-Library.Multiset"
begin

text \<open>
  What the two thread pools share: a pool is a list of threads, each in a state of its own, and a step changes the state
  of one of them.  The lemmas say what that does to what the threads hold and to what they have left to do.  The locale is
  the contract of everything in the server that comes to an end by itself once nothing new arrives: the two pools when
  they have been stopped, and the queue between a worker and its producers.
\<close>

lemma mset_concat_update:
  "i < length xs \<Longrightarrow> mset (concat (map f (xs[i := x]))) + mset (f (xs ! i)) = mset (concat (map f xs)) + mset (f x)"
proof (induction xs arbitrary: i)
  case (Cons a xs)
  then show ?case by (cases i) (auto simp: ac_simps)
qed simp

lemma sum_list_put:
  "i < length xs \<Longrightarrow> (\<Sum>x\<leftarrow>xs[i := y]. f x) + f (xs ! i) = (\<Sum>x\<leftarrow>xs. f x) + (f y :: nat)"
proof (induction xs arbitrary: i)
  case (Cons a xs)
  then show ?case by (cases i) auto
qed simp

lemma sum_list_le:
  "(\<And>x. f x \<le> c) \<Longrightarrow> (\<Sum>x\<leftarrow>xs. f x) \<le> c * length xs" for f :: "'a \<Rightarrow> nat"
proof (induction xs)
  case (Cons x xs)
  then have "f x + (\<Sum>x\<leftarrow>xs. f x) \<le> c + c * length xs" by (intro add_mono) auto
  then show ?case by simp
qed simp

section \<open>Coming to an end\<close>

text \<open>
  Each step leaves fewer steps to be made, and as long as it is not over there is one to make: so every run is bounded, and
  some run gets to the end.
\<close>

locale terminating =
  fixes step :: "'s \<Rightarrow> 's \<Rightarrow> bool" and good :: "'s \<Rightarrow> bool" and steps_to_go :: "'s \<Rightarrow> nat" and over :: "'s \<Rightarrow> bool"
  assumes decreases: "good p \<Longrightarrow> step p p' \<Longrightarrow> steps_to_go p' < steps_to_go p"
    and kept: "good p \<Longrightarrow> step p p' \<Longrightarrow> good p'"
    and progress: "good p \<Longrightarrow> \<not> over p \<Longrightarrow> \<exists>p'. step p p'"
begin

lemma steps:
  assumes "good p" "(step ^^ k) p p'"
  shows "good p' \<and> k + steps_to_go p' \<le> steps_to_go p"
  using assms(2)
proof (induction k arbitrary: p')
  case (Suc k)
  then obtain q where q: "(step ^^ k) p q" "step q p'" by auto
  with Suc.IH [OF q(1)] decreases [OF _ q(2)] kept [OF _ q(2)] show ?case by fastforce
qed (use assms(1) in simp)

lemma bounded: "good p \<Longrightarrow> (step ^^ k) p p' \<Longrightarrow> k \<le> steps_to_go p"
  using steps by fastforce

lemma at_rest: "good p \<Longrightarrow> (step ^^ k) p p' \<Longrightarrow> \<nexists>q. step p' q \<Longrightarrow> over p'"
  using steps progress by blast

lemma ends: "good p \<Longrightarrow> \<exists>w. step\<^sup>*\<^sup>* p w \<and> over w"
proof (induction "steps_to_go p" arbitrary: p rule: less_induct)
  case less
  show ?case
  proof (cases "over p")
    case False
    with less.prems progress obtain q where q: "step p q" by blast
    from less.hyps [OF decreases [OF less.prems q] kept [OF less.prems q]] q show ?thesis
      by (meson converse_rtranclp_into_rtranclp)
  qed auto
qed

end

end
