(* ===== verification/Service_Pool.thy ===== *)
theory Service_Pool
  imports Prelude Threads
begin

text \<open>
  The pool of business threads: \<^verbatim>\<open>src/src/service/ServiceThreadPool.cpp\<close>.  Each critical section of the pool's mutex
  is one operation: queueing a task, a thread taking the first task or leaving, the start of \<^verbatim>\<open>close\<close>.  A task runs
  outside the mutex, so between taking and finishing it anything may happen.  Threads are their interleavings.  What a
  task does is the dispatcher's business; here it is a value of type \<open>'t\<close>, and an exception it throws is caught
  around the call, so finishing is the same step.  The lists \<open>accepted\<close>, \<open>started\<close> and \<open>finished\<close> only record
  what happened.
\<close>

section \<open>The pool\<close>

datatype 't business_thread = Waiting | Running 't | Exited

record 't ServiceThreadPool =
  threadCount :: nat
  tasks :: "'t list"
  threads :: "'t business_thread list"
  stop :: bool
  accepted :: "'t list"
  started :: "'t list"
  finished :: "'t list"

definition ServiceThreadPool_of :: "int \<Rightarrow> 't ServiceThreadPool result" where
  "ServiceThreadPool_of thread_count =
     (if thread_count \<le> 0 then Inl (InvalidArgument ''Thread count must be positive'')
      else Inr \<lparr>threadCount = nat thread_count, tasks = [], threads = [], stop = False, accepted = [], started = [], finished = []\<rparr>)"

definition pool_start :: "'t ServiceThreadPool \<Rightarrow> 't ServiceThreadPool" where
  "pool_start p =
     (if threads p \<noteq> [] then p
      else p\<lparr>stop := False, threads := replicate (threadCount p) Waiting\<rparr>)"

definition receiveTask :: "'t \<Rightarrow> 't ServiceThreadPool \<Rightarrow> unit result \<times> 't ServiceThreadPool" where
  "receiveTask t p =
     (if stop p then (Inl (RuntimeError ''ServiceThreadPool is stopping''), p)
      else (Inr (), p\<lparr>tasks := tasks p @ [t], accepted := accepted p @ [t]\<rparr>))"

text \<open>
  One pass of a waiting thread through its critical section: \<open>None\<close> while the condition it waits for does not hold.
\<close>

definition thread_take :: "nat \<Rightarrow> 't ServiceThreadPool \<Rightarrow> 't ServiceThreadPool option" where
  "thread_take i p =
     (if \<not> (stop p \<or> tasks p \<noteq> []) then None
      else case tasks p of
             [] \<Rightarrow> Some (p\<lparr>threads := (threads p)[i := Exited]\<rparr>)
           | t # ts \<Rightarrow> Some (p\<lparr>tasks := ts, threads := (threads p)[i := Running t], started := started p @ [t]\<rparr>))"

definition thread_finish :: "nat \<Rightarrow> 't \<Rightarrow> 't ServiceThreadPool \<Rightarrow> 't ServiceThreadPool" where
  "thread_finish i t p = p\<lparr>threads := (threads p)[i := Waiting], finished := finished p @ [t]\<rparr>"

text \<open>\<^verbatim>\<open>close\<close> stops the pool, and returns when every thread has been joined.\<close>

definition pool_stop :: "'t ServiceThreadPool \<Rightarrow> 't ServiceThreadPool" where
  "pool_stop p = p\<lparr>stop := True\<rparr>"

definition all_joined :: "'t ServiceThreadPool \<Rightarrow> bool" where
  "all_joined p \<longleftrightarrow> (\<forall>th \<in> set (threads p). th = Exited)"

definition pool_join :: "'t ServiceThreadPool \<Rightarrow> 't ServiceThreadPool" where
  "pool_join p = p\<lparr>threads := []\<rparr>"

inductive thread_step :: "'t ServiceThreadPool \<Rightarrow> 't ServiceThreadPool \<Rightarrow> bool" where
  takes: "i < length (threads p) \<Longrightarrow> threads p ! i = Waiting \<Longrightarrow> thread_take i p = Some p' \<Longrightarrow> thread_step p p'"
| finishes: "i < length (threads p) \<Longrightarrow> threads p ! i = Running t \<Longrightarrow> thread_step p (thread_finish i t p)"

inductive service_step :: "'t ServiceThreadPool \<Rightarrow> 't ServiceThreadPool \<Rightarrow> bool" where
  thread: "thread_step p p' \<Longrightarrow> service_step p p'"
| receive: "service_step p (snd (receiveTask t p))"
| start: "service_step p (pool_start p)"
| stopping: "service_step p (pool_stop p)"
| joined: "stop p \<Longrightarrow> all_joined p \<Longrightarrow> service_step p (pool_join p)"

inductive_cases thread_stepE: "thread_step p p'"

section \<open>The invariant\<close>

definition running :: "'t ServiceThreadPool \<Rightarrow> 't list" where
  "running p = concat (map (\<lambda>th. case th of Running t \<Rightarrow> [t] | _ \<Rightarrow> []) (threads p))"

text \<open>
  Tasks are started in the order in which they were accepted; a started task is running or finished; a thread leaves
  only a stopped pool with nothing queued.
\<close>

definition service_inv :: "'t ServiceThreadPool \<Rightarrow> bool" where
  "service_inv p \<longleftrightarrow>
     0 < threadCount p \<and> (threads p \<noteq> [] \<longrightarrow> length (threads p) = threadCount p) \<and>
     accepted p = started p @ tasks p \<and> mset (started p) = mset (finished p) + mset (running p) \<and>
     (Exited \<in> set (threads p) \<longrightarrow> stop p \<and> tasks p = [])"

lemma running_update:
  assumes "i < length (threads p)"
  shows "mset (running (p\<lparr>threads := (threads p)[i := th]\<rparr>)) + mset (case threads p ! i of Running t \<Rightarrow> [t] | _ \<Rightarrow> []) =
    mset (running p) + mset (case th of Running t \<Rightarrow> [t] | _ \<Rightarrow> [])"
  using mset_concat_update [OF assms, of "\<lambda>th. case th of Running t \<Rightarrow> [t] | _ \<Rightarrow> []" th] by (simp add: running_def)

lemma set_update_Exited: "Exited \<in> set (xs[i := th]) \<Longrightarrow> th \<noteq> Exited \<Longrightarrow> Exited \<in> set xs"
  using set_update_subset_insert by fastforce

lemma running_fields [simp]:
  "running (p\<lparr>tasks := ts\<rparr>) = running p" "running (p\<lparr>started := ts\<rparr>) = running p" "running (p\<lparr>finished := ts\<rparr>) = running p"
  "running (p\<lparr>accepted := ts\<rparr>) = running p" "running (p\<lparr>stop := b\<rparr>) = running p"
  by (simp_all add: running_def)

lemma thread_step_inv:
  assumes "thread_step p p'" "service_inv p"
  shows "service_inv p'"
  using assms
proof (cases rule: thread_step.cases)
  case (takes i)
  note r = running_update [OF takes(1)]
  show ?thesis
  proof (cases "tasks p")
    case Nil
    with takes assms(2) r [of Exited] show ?thesis
      by (auto simp: thread_take_def service_inv_def split: if_splits dest: set_update_Exited)
  next
    case (Cons t ts)
    with takes assms(2) r [of "Running t"] show ?thesis
      by (auto simp: thread_take_def service_inv_def running_def dest!: set_update_Exited)
  qed
next
  case (finishes i t)
  with assms(2) running_update [OF finishes(2), of Waiting] show ?thesis
    by (auto simp: thread_finish_def service_inv_def running_def dest!: set_update_Exited)
qed

lemma service_step_inv:
  assumes "service_step p p'" "service_inv p"
  shows "service_inv p'"
  using assms
proof (cases rule: service_step.cases)
  case thread
  with assms(2) show ?thesis by (rule thread_step_inv [rotated])
qed (auto simp: service_inv_def receiveTask_def pool_start_def pool_stop_def pool_join_def all_joined_def running_def
    split: if_splits)

lemma service_steps_inv: "service_step\<^sup>*\<^sup>* p p' \<Longrightarrow> service_inv p \<Longrightarrow> service_inv p'"
  by (induction rule: rtranclp_induct) (auto intro: service_step_inv)

lemma service_start_inv: "ServiceThreadPool_of n = Inr p \<Longrightarrow> service_inv p"
  by (auto simp: ServiceThreadPool_of_def service_inv_def running_def split: if_splits)

section \<open>Closing\<close>

text \<open>How many steps the threads can still make: three for a queued task and its thread, two for a running one.\<close>

fun thread_left :: "'t business_thread \<Rightarrow> nat" where
  "thread_left Waiting = 1"
| "thread_left (Running t) = 2"
| "thread_left Exited = 0"

definition steps_left :: "'t ServiceThreadPool \<Rightarrow> nat" where
  "steps_left p = 3 * length (tasks p) + (\<Sum>th\<leftarrow>threads p. thread_left th)"

lemma thread_left_le: "thread_left th \<le> 2"
  by (cases th) auto

lemma steps_left_le: "steps_left p \<le> 3 * length (tasks p) + 2 * length (threads p)"
  unfolding steps_left_def by (intro add_left_mono sum_list_le thread_left_le)

lemma thread_step_left:
  assumes "thread_step p p'"
  shows "steps_left p' < steps_left p"
  using assms
proof (cases rule: thread_step.cases)
  case (takes i)
  from sum_list_put [OF takes(1), of thread_left Exited] sum_list_put [OF takes(1), of thread_left "Running (hd (tasks p))"] takes
  show ?thesis
    by (cases "tasks p") (auto simp: steps_left_def thread_take_def split: if_splits)
next
  case (finishes i t)
  with sum_list_put [OF finishes(2), of thread_left Waiting] show ?thesis
    by (auto simp: steps_left_def thread_finish_def)
qed

lemma thread_step_keeps:
  "thread_step p p' \<Longrightarrow> accepted p' = accepted p \<and> stop p' = stop p \<and> length (threads p') = length (threads p)"
  by (auto simp: thread_take_def thread_finish_def elim!: thread_stepE split: if_splits list.splits)

lemma thread_progress:
  assumes "stop p" "\<not> all_joined p"
  shows "\<exists>p'. thread_step p p'"
proof -
  from assms(2) obtain i where i: "i < length (threads p)" "threads p ! i \<noteq> Exited"
    by (auto simp: all_joined_def in_set_conv_nth)
  show ?thesis
  proof (cases "threads p ! i")
    case Waiting
    have "\<exists>p'. thread_take i p = Some p'" using assms(1) by (auto simp: thread_take_def split: list.splits)
    with Waiting i show ?thesis by (blast intro: takes)
  qed (use i in \<open>auto intro: finishes\<close>)
qed

interpretation closing: terminating thread_step
    "\<lambda>p. service_inv p \<and> stop p \<and> accepted p = ts \<and> length (threads p) = n" steps_left all_joined
    for ts :: "'t list" and n :: nat
  by unfold_locales (auto simp: thread_step_left intro: thread_step_inv thread_progress dest: thread_step_keeps)

text \<open>
  C28. Closing the pool runs every accepted task exactly once.  From the moment \<^verbatim>\<open>close\<close> has stopped the pool its
  threads make at most three steps for each queued task and two for each thread; until all of them have been joined
  one of them can make a step, so \<^verbatim>\<open>close\<close> returns; and when it does, the tasks that have been run are, each as
  often as it was accepted, those that were ever accepted, started in the order of acceptance.
\<close>

theorem close_runs_every_task:
  assumes "ServiceThreadPool_of n = Inr p0" "service_step\<^sup>*\<^sup>* p0 p" "stop p" "threads p \<noteq> []" "(thread_step ^^ k) p p'"
  shows "k \<le> 3 * length (tasks p) + 2 * length (threads p) \<and>
    (if all_joined p' then mset (finished p') = mset (accepted p) \<and> started p' = accepted p
     else \<exists>p''. thread_step p' p'')"
proof -
  have inv: "service_inv p" using service_steps_inv [OF assms(2) service_start_inv [OF assms(1)]] .
  have good: "service_inv p \<and> stop p \<and> accepted p = accepted p \<and> length (threads p) = length (threads p)"
    using inv assms(3) by simp
  from closing.steps [OF good assms(5)]
  have s: "service_inv p'" "stop p'" "accepted p' = accepted p" "length (threads p') = length (threads p)" by auto
  have "k \<le> 3 * length (tasks p) + 2 * length (threads p)"
    using closing.bounded [OF good assms(5)] steps_left_le [of p] by linarith
  moreover have "mset (finished p') = mset (accepted p) \<and> started p' = accepted p" if "all_joined p'"
  proof -
    have "threads p' \<noteq> []" using s assms(4) by fastforce
    then have "Exited \<in> set (threads p')" using that by (cases "threads p'") (auto simp: all_joined_def)
    moreover have "running p' = []" using that by (auto simp: running_def all_joined_def)
    moreover have "service_inv p'" "accepted p' = accepted p" using s inv by simp_all
    ultimately show ?thesis by (simp add: service_inv_def)
  qed
  moreover have "\<exists>p''. thread_step p' p''" if "\<not> all_joined p'"
    using thread_progress that s assms(3) by blast
  ultimately show ?thesis by simp
qed

theorem close_runs_every_task_witness:
  "\<exists>p0 p p'. ServiceThreadPool_of 1 = Inr p0 \<and>
     p = pool_stop (snd (receiveTask True (snd (receiveTask False (pool_start p0))))) \<and>
     (thread_step ^^ 5) p p' \<and> all_joined p' \<and> mset (finished p') = {#False, True#}"
proof -
  define q where "q = (\<lambda>ts ths stt fin. \<lparr>threadCount = 1, tasks = ts, threads = ths, stop = True, accepted = [False, True],
     started = stt, finished = fin\<rparr>)"
  define p0 :: "bool ServiceThreadPool" where "p0 = \<lparr>threadCount = 1, tasks = [], threads = [], stop = False, accepted = [], started = [], finished = []\<rparr>"
  let ?p = "pool_stop (snd (receiveTask True (snd (receiveTask False (pool_start p0)))))"
  have o: "ServiceThreadPool_of 1 = Inr p0" by (simp add: ServiceThreadPool_of_def p0_def)
  have p: "?p = q [False, True] [Waiting] [] []"
    by (simp add: q_def p0_def pool_stop_def receiveTask_def pool_start_def)
  have sts: "service_step\<^sup>*\<^sup>* p0 ?p"
    using service_step.start [of p0] service_step.receive [of "pool_start p0" False]
      service_step.receive [of "snd (receiveTask False (pool_start p0))" True]
      service_step.stopping [of "snd (receiveTask True (snd (receiveTask False (pool_start p0))))"]
    by (meson rtranclp.rtrancl_into_rtrancl rtranclp.rtrancl_refl)
  have run: "(thread_step ^^ 5) ?p (q [] [Exited] [False, True] [False, True])"
  proof -
    have t: "thread_step (q (t # ts) [Waiting] stt fin) (q ts [Running t] (stt @ [t]) fin)" for t ts stt fin
      by (rule takes [of 0]) (simp_all add: q_def thread_take_def)
    have f: "thread_step (q ts [Running t] stt fin) (q ts [Waiting] stt (fin @ [t]))" for t ts stt fin
      using finishes [of 0 "q ts [Running t] stt fin" t] by (simp add: q_def thread_finish_def)
    have x: "thread_step (q [] [Waiting] stt fin) (q [] [Exited] stt fin)" for stt fin
      by (rule takes [of 0]) (simp_all add: q_def thread_take_def)
    have "(thread_step ^^ Suc (Suc (Suc (Suc (Suc 0))))) (q [False, True] [Waiting] [] []) (q [] [Exited] [False, True] [False, True])"
      using t [of False "[True]" "[]" "[]"] f [of "[True]" False "[False]" "[]"] t [of True "[]" "[False]" "[False]"]
        f [of "[]" True "[False, True]" "[False]"] x [of "[False, True]" "[False, True]"]
      by (intro relpowp_Suc_I [of _ thread_step]) auto
    then show ?thesis unfolding p by (simp only: numeral_eq_Suc pred_numeral_simps BitM.simps One_nat_def)
  qed
  have j: "all_joined (q [] [Exited] [False, True] [False, True])" by (simp add: all_joined_def q_def)
  have "stop ?p" "threads ?p \<noteq> []" "accepted ?p = [False, True]" by (simp_all only: p) (simp_all add: q_def)
  with close_runs_every_task [OF o sts _ _ run] j
  have "mset (finished (q [] [Exited] [False, True] [False, True])) = {#False, True#}" by simp
  with o run j show ?thesis by blast
qed

end
