(* ===== verification/Base64.thy ===== *)
theory Base64
  imports Json
begin

text \<open>
  Packets as text: \<^verbatim>\<open>encodePacketBase64\<close> of \<^verbatim>\<open>src/src/websocket/WebSocketDispatcher.cpp\<close> with its 32-bit shifts, and
  RFC 4648 read off its definition as the specification of a decoder (the padded alphabet, the unused bits zero).  The
  server decodes with libsodium, which is not under \<^verbatim>\<open>src/\<close>: what is assumed of it is \<open>base64_lib_ok\<close>, that it reads
  what RFC 4648 reads.
\<close>

section \<open>The encoder\<close>

definition alphabet :: string where
  "alphabet = ''ABCDEFGHIJKLMNOPQRSTUVWXYZabcdefghijklmnopqrstuvwxyz0123456789+/''"

definition sextet :: "32 word \<Rightarrow> nat \<Rightarrow> char" where
  "sextet v k = alphabet ! unat (drop_bit k v AND 63)"

fun encodePacketBase64 :: "byte list \<Rightarrow> string" where
  "encodePacketBase64 [] = []"
| "encodePacketBase64 [a] =
     (let v = push_bit 16 (ucast a) OR 0 OR 0 in [sextet v 18, sextet v 12, CHR ''='', CHR ''=''])"
| "encodePacketBase64 [a, b] =
     (let v = push_bit 16 (ucast a) OR push_bit 8 (ucast b) OR 0 in [sextet v 18, sextet v 12, sextet v 6, CHR ''=''])"
| "encodePacketBase64 (a # b # c # r) =
     (let v = push_bit 16 (ucast a) OR push_bit 8 (ucast b) OR ucast c
      in [sextet v 18, sextet v 12, sextet v 6, sextet v 0] @ encodePacketBase64 r)"


section \<open>RFC 4648\<close>

definition sextet_value :: "char \<Rightarrow> nat option" where
  "sextet_value c = map_of (zip alphabet [0..<64]) c"

fun quantum :: "nat \<Rightarrow> nat \<Rightarrow> nat \<Rightarrow> nat \<Rightarrow> nat" where
  "quantum a b c d = ((a * 64 + b) * 64 + c) * 64 + d"

fun quantum_bytes :: "nat \<Rightarrow> byte list" where
  "quantum_bytes n = [word_of_nat (n div 65536), word_of_nat (n div 256), word_of_nat n]"

fun rfc4648 :: "string \<Rightarrow> byte list option" where
  "rfc4648 [] = Some []"
| "rfc4648 (a # b # c # d # r) =
     (case (sextet_value a, sextet_value b) of
        (Some x, Some y) \<Rightarrow>
          if d = CHR ''='' then
            if r \<noteq> [] then None
            else if c = CHR ''='' then
              (if y mod 16 = 0 then Some (take 1 (quantum_bytes (quantum x y 0 0))) else None)
            else (case sextet_value c of
                    Some z \<Rightarrow> if z mod 4 = 0 then Some (take 2 (quantum_bytes (quantum x y z 0))) else None
                  | None \<Rightarrow> None)
          else (case (sextet_value c, sextet_value d) of
                  (Some z, Some u) \<Rightarrow> map_option ((@) (quantum_bytes (quantum x y z u))) (rfc4648 r)
                | _ \<Rightarrow> None)
      | _ \<Rightarrow> None)"
| "rfc4648 _ = None"

definition base64_lib_ok :: "library \<Rightarrow> bool" where
  "base64_lib_ok lib \<longleftrightarrow>
     (\<forall>n s bs. rfc4648 s = Some bs \<and> length bs \<le> n \<longrightarrow> base642bin lib n s = Some (bs, length s))"

section \<open>Encoding and decoding\<close>

lemma sextet_value_nth: "i < 64 \<Longrightarrow> sextet_value (alphabet ! i) = Some i"
proof -
  have "distinct alphabet" by (simp add: alphabet_def)
  moreover have "length alphabet = 64" by (simp add: alphabet_def)
  ultimately show "i < 64 \<Longrightarrow> ?thesis" unfolding sextet_value_def by (simp add: map_of_zip_nth)
qed

lemma alphabet_no_pad: "i < 64 \<Longrightarrow> alphabet ! i \<noteq> CHR ''=''"
proof -
  have "CHR ''='' \<notin> set alphabet" "length alphabet = 64" by (simp_all add: alphabet_def)
  then show "i < 64 \<Longrightarrow> ?thesis" by (metis nth_mem)
qed

lemma sextet_nat: "sextet v k = alphabet ! ((unat v div 2 ^ k) mod 64)"
proof -
  have "drop_bit k v AND 63 = take_bit 6 (drop_bit k v)" by (simp add: take_bit_eq_mask mask_eq_exp_minus_1)
  then have "unat (drop_bit k v AND 63) = take_bit 6 (drop_bit k (unat v))"
    using take_bit_nat_eq_self [OF unsigned_less [of v]] by (simp only: unsigned_take_bit_eq unsigned_drop_bit_eq)
  then show ?thesis by (simp add: sextet_def take_bit_eq_mod drop_bit_eq_div)
qed

lemma byte_less: "unat (a :: byte) < 256"
  using unsigned_less [of a] by simp

lemma three_bytes:
  "unat (push_bit 16 (ucast a) OR push_bit 8 (ucast b) OR ucast c :: 32 word) = unat a * 65536 + unat b * 256 + unat c"
  for a b c :: byte
proof -
  let ?a = "push_bit 16 (ucast a) :: 32 word" and ?b = "push_bit 8 (ucast b) :: 32 word" and ?c = "ucast c :: 32 word"
  have z: "?a AND (?b OR ?c) = 0" "?b AND ?c = 0"
    by (auto simp: bit_eq_iff bit_simps dest: bit_imp_le_length)
  have or_add: "?a OR ?b OR ?c = ?a + (?b + ?c)"
    using z by (simp add: disjunctive_add_eq_or or.assoc)
  have u: "unat (ucast x :: 32 word) = unat x" for x :: byte
    using byte_less [of x] by (simp add: unsigned_ucast_eq take_bit_nat_eq_self)
  have "unat (?a + (?b + ?c)) = unat a * 65536 + unat b * 256 + unat c"
    using byte_less [of a] byte_less [of b] byte_less [of c]
    by (simp add: push_bit_eq_mult unat_word_ariths u)
  then show ?thesis by (simp add: or_add)
qed

lemma sextets:
  assumes "n < 2 ^ 24"
  shows "quantum ((n div 2 ^ 18) mod 64) ((n div 2 ^ 12) mod 64) ((n div 2 ^ 6) mod 64) (n mod 64) = n"
proof -
  have d: "n div 2 ^ 12 = n div 64 div 64" "n div 2 ^ 18 = n div 64 div 64 div 64"
    by (simp_all add: div_mult2_eq [symmetric])
  have "n div 64 div 64 div 64 < 64" using assms by (simp add: div_mult2_eq [symmetric] less_mult_imp_div_less)
  then show ?thesis
    using div_mult_mod_eq [of n 64] div_mult_mod_eq [of "n div 64" 64] div_mult_mod_eq [of "n div 64 div 64" 64]
    unfolding d by simp
qed

lemma quantum_three:
  "quantum_bytes (unat a * 65536 + unat b * 256 + unat c) = [a, b, c]"
proof -
  have "(256 :: byte) = 0" "(65536 :: byte) = 0" by (simp_all add: word_unat_eq_iff)
  then have z: "x * 256 = 0" "x * 65536 = 0" for x :: byte by (metis mult_zero_right)+
  have "(unat a * 65536 + unat b * 256 + unat c) div 65536 = unat a"
    "(unat a * 65536 + unat b * 256 + unat c) div 256 = unat a * 256 + unat b"
    using byte_less [of b] byte_less [of c] by simp_all
  then show ?thesis by (simp add: z)
qed

lemma rfc4648_encode: "rfc4648 (encodePacketBase64 bs) = Some bs"
proof (induction bs rule: encodePacketBase64.induct)
  case (2 a)
  define n where "n = unat a * 65536"
  have v: "unat (push_bit 16 (ucast a) :: 32 word) = n"
    using three_bytes [of a 0 0] by (simp add: n_def)
  have n: "n < 2 ^ 24" "n mod 4096 = 0" using byte_less [of a] by (simp_all add: n_def)
  have low: "n div 2 ^ 6 mod 64 = 0" "n mod 64 = 0" "(n div 2 ^ 12) mod 64 mod 16 = 0"
    by (simp_all add: n_def mod_mod_cancel)
  have "quantum (n div 2 ^ 18 mod 64) (n div 2 ^ 12 mod 64) 0 0 = n" using sextets [OF n(1)] unfolding low .
  moreover have "quantum_bytes n = [a, 0, 0]" using quantum_three [of a 0 0] by (simp add: n_def del: quantum_bytes.simps)
  ultimately show ?case using low(3)
    by (simp add: Let_def v sextet_nat sextet_value_nth del: quantum.simps quantum_bytes.simps)
next
  case (3 a b)
  define n where "n = unat a * 65536 + unat b * 256"
  have v: "unat (push_bit 16 (ucast a) OR push_bit 8 (ucast b) :: 32 word) = n"
    using three_bytes [of a b 0] by (simp add: n_def)
  have n: "n < 2 ^ 24" using byte_less [of a] byte_less [of b] by (simp add: n_def)
  have "n = (unat a * 1024 + unat b * 4) * 64" by (simp add: n_def)
  then have low: "n mod 64 = 0" "(n div 2 ^ 6) mod 64 mod 4 = 0" by (simp_all add: mod_mod_cancel mod_mult_self2_is_0)
  have "quantum (n div 2 ^ 18 mod 64) (n div 2 ^ 12 mod 64) (n div 2 ^ 6 mod 64) 0 = n" using sextets [OF n] unfolding low .
  moreover have "quantum_bytes n = [a, b, 0]" using quantum_three [of a b 0] by (simp add: n_def del: quantum_bytes.simps)
  ultimately show ?case using low(2)
    by (simp add: Let_def v sextet_nat sextet_value_nth alphabet_no_pad del: quantum.simps quantum_bytes.simps)
next
  case (4 a b c r)
  define n where "n = unat a * 65536 + unat b * 256 + unat c"
  have v: "unat (push_bit 16 (ucast a) OR push_bit 8 (ucast b) OR ucast c :: 32 word) = n" by (simp add: n_def three_bytes)
  have n: "n < 2 ^ 24" using byte_less [of a] byte_less [of b] byte_less [of c] by (simp add: n_def)
  have "quantum_bytes n = [a, b, c]" using quantum_three [of a b c] by (simp add: n_def del: quantum_bytes.simps)
  with 4 sextets [OF n] show ?case
    by (simp add: Let_def v sextet_nat sextet_value_nth alphabet_no_pad del: quantum.simps quantum_bytes.simps)
qed simp

lemma length_encode: "length (encodePacketBase64 bs) = 4 * ((length bs + 2) div 3)"
  by (induction bs rule: encodePacketBase64.induct) (simp_all add: Let_def, presburger)

end
