(* ===== verification/Dispatcher.thy ===== *)
theory Dispatcher
  imports Identity Chat_Sync Service_Pool Demo_Library Base64
begin

text \<open>
  The business messages of a WebSocket session: \<^verbatim>\<open>src/src/websocket/WebSocketDispatcher.cpp\<close>.  \<^verbatim>\<open>dispatch\<close> checks
  the token on the worker's thread and queues a task; the task, on a business thread, checks the session's device in the
  database, reads the request, calls the chat service and replies.

  A reply is a call of the function the worker passed in.  It always queues the message for the worker; then it wakes
  the worker up, which may throw (\<^verbatim>\<open>transferTask\<close>).  The replies of a run are the list of messages in the order of
  the calls; \<open>wake_fails n\<close> says whether the \<open>n\<close>-th wake-up of the run throws.  A task is the data its closure
  captures.  Keys of an object are kept in the order of the source; \<^verbatim>\<open>nlohmann::json\<close> sorts them when it prints.
\<close>

section \<open>Actions\<close>

type_synonym ('s, 'a) act = "json list \<times> 's \<Rightarrow> 'a result \<times> json list \<times> 's"

definition act_return :: "'a \<Rightarrow> ('s, 'a) act" where
  "act_return x = (\<lambda>z. (Inr x, z))"

definition act_lift :: "'a result \<Rightarrow> ('s, 'a) act" where
  "act_lift r = (\<lambda>z. (r, z))"

definition act_bind :: "('s, 'a) act \<Rightarrow> ('a \<Rightarrow> ('s, 'b) act) \<Rightarrow> ('s, 'b) act" where
  "act_bind m f = (\<lambda>z. case m z of (Inl e, z') \<Rightarrow> (Inl e, z') | (Inr x, z') \<Rightarrow> f x z')"

text \<open>A call that may throw, with its result handed on: the \<^verbatim>\<open>catch\<close> clauses are cases of it.\<close>

definition act_call :: "('s \<Rightarrow> 'a \<times> 's) \<Rightarrow> ('s, 'a) act" where
  "act_call f = (\<lambda>(rs, s). case f s of (x, s') \<Rightarrow> (Inr x, rs, s'))"

record dispatcher_env =
  lib_of :: library
  secret_of :: string
  net_of :: "nat \<Rightarrow> network"
  clock_of :: int
  pg_of :: pg_env
  wake_fails :: "nat \<Rightarrow> bool"

definition reply :: "dispatcher_env \<Rightarrow> json \<Rightarrow> ('s, unit) act" where
  "reply env j = (\<lambda>(rs, s).
     (if wake_fails env (length rs) then Inl (SystemError ''Business thread failed to wakeup websocket worker'') else Inr (),
      rs @ [j], s))"

definition error_json :: "string \<Rightarrow> json" where
  "error_json code = JObject [(''type'', JString ''error''), (''error'', JObject [(''code'', JString code)])]"

definition error_detail :: "string \<Rightarrow> string \<Rightarrow> json" where
  "error_detail code message = JObject [(''code'', JString code), (''message'', JString message)]"

definition failure :: "string \<Rightarrow> json" where
  "failure type = JObject [(''type'', JString type), (''success'', JBool False)]"

text \<open>\<^verbatim>\<open>setError\<close>, and the literal that the other error replies have.\<close>

definition set_error :: "string \<Rightarrow> string \<Rightarrow> json \<Rightarrow> json" where
  "set_error code message response = json_set ''error'' (error_detail code message) response"

definition failure_with :: "string \<Rightarrow> string \<Rightarrow> string \<Rightarrow> json" where
  "failure_with type code message =
     JObject [(''type'', JString type), (''success'', JBool False), (''error'', error_detail code message)]"

section \<open>Fields\<close>

definition requireString :: "json \<Rightarrow> string \<Rightarrow> string result" where
  "requireString body field =
     (case json_find field body of
        Some (JString text) \<Rightarrow>
          if text = [] then Inl (InvalidArgument (field @ '' must be a non-empty string'')) else Inr text
      | _ \<Rightarrow> Inl (InvalidArgument (field @ '' must be a non-empty string'')))"

definition requireUuid :: "library \<Rightarrow> json \<Rightarrow> string \<Rightarrow> uuid result" where
  "requireUuid lib body field =
     ebind (requireString body field) (\<lambda>text.
       if \<not> uuid_shape text then Inl (InvalidArgument (field @ '' must be a UUID''))
       else case read_uuid lib text of
              Inl _ \<Rightarrow> Inl (InvalidArgument (field @ '' must be a UUID''))
            | Inr u \<Rightarrow> Inr u)"

definition maxPacketBytes :: nat where "maxPacketBytes = 64 * 1024"

definition maxEncodedBytes :: nat where "maxEncodedBytes = 4 * ((maxPacketBytes + 2) div 3)"

definition requirePacket :: "library \<Rightarrow> json \<Rightarrow> byte list result" where
  "requirePacket lib body =
     ebind (requireString body ''packet_base64'') (\<lambda>encoded.
       if length encoded > maxEncodedBytes \<or> length encoded mod 4 \<noteq> 0
       then Inl (InvalidArgument ''packet_base64 is invalid or exceeds 64 KiB'')
       else case base642bin lib maxPacketBytes encoded of
              None \<Rightarrow> Inl (InvalidArgument ''packet_base64 must contain valid non-empty Base64'')
            | Some (bytes, end_of) \<Rightarrow>
                if end_of \<noteq> length encoded \<or> bytes = []
                then Inl (InvalidArgument ''packet_base64 must contain valid non-empty Base64'')
                else Inr bytes)"

section \<open>Requests\<close>

datatype WebsocketRouter = RouteNewTextMessageTest | RouteNewTextMessage | RouteSyncEnvelope | RouteAckEnvelope | RouteUnKnown

definition parseType :: "string \<Rightarrow> WebsocketRouter" where
  "parseType type =
     (if type = ''chat.newTextMessage_Test'' then RouteNewTextMessageTest
      else if type = ''chat.newTextMessage'' then RouteNewTextMessage
      else if type = ''chat.sync.envelope'' then RouteSyncEnvelope
      else if type = ''chat.envelopes.ack'' then RouteAckEnvelope
      else RouteUnKnown)"

record ParsedNewMessage =
  pm_sender_device_id :: uuid
  pm_request :: NewTextMessageRequest

text \<open>The \<^verbatim>\<open>try\<close> blocks of the three readers, then the readers with their \<^verbatim>\<open>catch\<close> clauses.\<close>

definition read_new_message :: "library \<Rightarrow> json \<Rightarrow> ParsedNewMessage result" where
  "read_new_message lib payload =
     (if \<not> is_object payload then Inl (InvalidArgument ''Payload must be a JSON object'')
      else
        ebind (requireUuid lib payload ''sender_device_id'') (\<lambda>sender.
        ebind (requireUuid lib payload ''message_id'') (\<lambda>message.
        ebind (requireUuid lib payload ''recipient_device_id'') (\<lambda>recipient.
        ebind (requireString payload ''protocol_version'') (\<lambda>version.
          if length version > 128 \<or> find_first_not_of [CHR '' '', CHR 0x09, CR, LF] version = None
          then Inl (InvalidArgument ''protocol_version is invalid'')
          else ebind (requirePacket lib payload) (\<lambda>bytes.
            Inr \<lparr>pm_sender_device_id = sender,
                 pm_request = \<lparr>nm_message_id = message, nm_recipient_device_id = recipient,
                               nm_protocol_version = version, nm_packet = bytes\<rparr>\<rparr>))))))"

definition reading :: "dispatcher_env \<Rightarrow> string \<Rightarrow> string \<Rightarrow> 'a result \<Rightarrow> ('s, 'a option) act" where
  "reading env type otherwise r =
     (case r of
        Inr x \<Rightarrow> act_return (Some x)
      | Inl (InvalidArgument what) \<Rightarrow>
          act_bind (reply env (failure_with type ''invalid_request'' what)) (\<lambda>_. act_return None)
      | Inl _ \<Rightarrow> act_bind (reply env (failure_with type ''internal_server_error'' otherwise)) (\<lambda>_. act_return None))"

definition parseNewMessage :: "dispatcher_env \<Rightarrow> json \<Rightarrow> ('s, ParsedNewMessage option) act" where
  "parseNewMessage env payload =
     reading env ''newTextMessage.result'' ''Unable to parse message'' (read_new_message (lib_of env) payload)"

definition read_after_seq :: "json option \<Rightarrow> int result" where
  "read_after_seq number =
     (case number of
        Some (JUnsigned value) \<Rightarrow>
          if int value > int64_max then Inl (InvalidArgument ''after_seq exceeds BIGINT range'') else Inr (int value)
      | Some (JInt value) \<Rightarrow>
          if value < 0 then Inl (InvalidArgument ''after_seq must not be negative'') else Inr value
      | _ \<Rightarrow> Inl (InvalidArgument ''after_seq must be a non-negative BIGINT integer''))"

fun read_cursors :: "library \<Rightarrow> uuid \<Rightarrow> string list \<Rightarrow> json list \<Rightarrow> EnvelopeSyncCursor list result" where
  "read_cursors lib device seen [] = Inr []"
| "read_cursors lib device seen (entry # entries) =
     (if \<not> is_object entry then Inl (InvalidArgument ''Each cursor must be an object'')
      else ebind (requireUuid lib entry ''peer_device_id'') (\<lambda>peerId.
        if peerId = nil_uuid \<or> peerId = device
        then Inl (InvalidArgument ''peer_device_id must be non-nil and different from device_id'')
        else if uuid_to_string lib peerId \<in> set seen
        then Inl (InvalidArgument ''peer_device_id must be unique within cursors'')
        else ebind (read_after_seq (json_find ''after_seq'' entry)) (\<lambda>afterSeq.
          ebind (read_cursors lib device (uuid_to_string lib peerId # seen) entries) (\<lambda>cs.
            Inr (\<lparr>peer_device_id = peerId, after_seq = afterSeq\<rparr> # cs)))))"

definition read_sync :: "library \<Rightarrow> json \<Rightarrow> SyncEnvelopeRequest result" where
  "read_sync lib payload =
     (if \<not> is_object payload then Inl (InvalidArgument ''Payload must be a JSON object'')
      else ebind (requireUuid lib payload ''device_id'') (\<lambda>device.
        if device = nil_uuid then Inl (InvalidArgument ''device_id must not be a nil UUID'')
        else case json_find ''cursors'' payload of
               Some (JArray entries) \<Rightarrow>
                 if length entries > 1000 then Inl (InvalidArgument ''cursors must contain at most 1000 entries'')
                 else ebind (read_cursors lib device [] entries) (\<lambda>cs. Inr \<lparr>sy_device_id = device, cursors = cs\<rparr>)
             | _ \<Rightarrow> Inl (InvalidArgument ''cursors must be an array; use [] for first synchronization'')))"

definition parseSyncEnvelope :: "dispatcher_env \<Rightarrow> json \<Rightarrow> ('s, SyncEnvelopeRequest option) act" where
  "parseSyncEnvelope env payload =
     reading env ''chat.sync.envelope.result'' ''Unable to parse synchronization request'' (read_sync (lib_of env) payload)"

fun read_ids :: "library \<Rightarrow> string list \<Rightarrow> json list \<Rightarrow> uuid list result" where
  "read_ids lib seen [] = Inr []"
| "read_ids lib seen (value # values) =
     ebind (requireUuid lib (JObject [(''envelope_id'', value)]) ''envelope_id'') (\<lambda>i.
       if i = nil_uuid \<or> uuid_to_string lib i \<in> set seen
       then Inl (InvalidArgument ''envelope_ids must contain unique non-nil UUIDs'')
       else ebind (read_ids lib (uuid_to_string lib i # seen) values) (\<lambda>is. Inr (i # is)))"

definition read_ack :: "library \<Rightarrow> json \<Rightarrow> AckEnvelopeRequest result" where
  "read_ack lib payload =
     (if \<not> is_object payload then Inl (InvalidArgument ''Payload must be a JSON object'')
      else ebind (requireUuid lib payload ''device_id'') (\<lambda>device.
        if device = nil_uuid then Inl (InvalidArgument ''device_id must not be nil'')
        else case json_find ''envelope_ids'' payload of
               Some (JArray values) \<Rightarrow>
                 if values = [] \<or> length values > 100
                 then Inl (InvalidArgument ''envelope_ids must be an array of 1 to 100 UUIDs'')
                 else ebind (read_ids lib [] values) (\<lambda>is. Inr \<lparr>ack_device_id = device, envelope_ids = is\<rparr>)
             | _ \<Rightarrow> Inl (InvalidArgument ''envelope_ids must be an array of 1 to 100 UUIDs'')))"

definition parseAckEnvelope :: "dispatcher_env \<Rightarrow> json \<Rightarrow> ('s, AckEnvelopeRequest option) act" where
  "parseAckEnvelope env payload =
     reading env ''chat.envelopes.ack.result'' ''Unable to parse acknowledgment request'' (read_ack (lib_of env) payload)"

section \<open>The session's identity\<close>

type_synonym auth_result = "AuthError + uuid"

definition auth_code :: "AuthError \<Rightarrow> string" where
  "auth_code e = (if e = AuthExpired then ''access_token_expired'' else ''invalid_access_token'')"

text \<open>The code for an exception of the database, as all the \<^verbatim>\<open>catch\<close> clauses choose it.\<close>

fun database_code :: "exn \<Rightarrow> string" where
  "database_code (DbExn e) =
     (if unavailable e then ''database_unavailable''
      else if db_code e = ''40001'' \<or> db_code e = ''40P01'' then ''retry_later''
      else ''internal_server_error'')"
| "database_code _ = ''internal_server_error''"

definition refuse :: "dispatcher_env \<Rightarrow> json \<Rightarrow> ('s, bool) act" where
  "refuse env j = act_bind (reply env j) (\<lambda>_. act_return False)"

text \<open>The field that names the request's device and the type of the reply, by the type of the request.\<close>

definition device_field :: "string \<Rightarrow> (string \<times> string) option" where
  "device_field type =
     (if type = ''chat.newTextMessage'' then Some (''sender_device_id'', ''newTextMessage.result'')
      else if type = ''chat.sync.envelope'' then Some (''device_id'', ''chat.sync.envelope.result'')
      else if type = ''chat.envelopes.ack'' then Some (''device_id'', ''chat.envelopes.ack.result'')
      else None)"

definition validate_device :: "dispatcher_env \<Rightarrow> uuid \<Rightarrow> json \<Rightarrow> ('s, bool) act" where
  "validate_device env session_device_id payload =
     (case json_find ''type'' payload of
        Some (JString type) \<Rightarrow>
          (case device_field type of
             None \<Rightarrow> act_return True
           | Some (deviceField, responseType) \<Rightarrow>
               (case requireUuid (lib_of env) payload deviceField of
                  Inl (InvalidArgument _) \<Rightarrow>
                    refuse env (failure_with responseType ''invalid_request'' ''A valid session device UUID is required'')
                | Inl e \<Rightarrow> act_lift (Inl e)
                | Inr requestDeviceId \<Rightarrow>
                    if requestDeviceId \<noteq> session_device_id
                    then refuse env (failure_with responseType ''session_device_mismatch''
                           ''Request device must match this WebSocket session'')
                    else act_return True))
      | _ \<Rightarrow> refuse env (error_json ''invalid_request''))"

definition validateSessionRequest ::
  "dispatcher_env \<Rightarrow> auth_result \<Rightarrow> uuid \<Rightarrow> uuid \<Rightarrow> json \<Rightarrow> (store_world, bool) act" where
  "validateSessionRequest env authResult session_user_id session_device_id payload =
     (case authResult of
        Inl e \<Rightarrow> refuse env (error_json (auth_code e))
      | Inr userId \<Rightarrow>
          if userId \<noteq> session_user_id then refuse env (error_json ''accessToken_do_not_match_session'')
          else act_bind (act_call (verifySessionIdentity (net_of env) (clock_of env) userId session_device_id)) (\<lambda>r.
            case r of
              Inl e \<Rightarrow> refuse env (error_json (database_code e))
            | Inr identityResult \<Rightarrow>
                if identityResult \<noteq> IdentitySuccess then refuse env (error_json ''device_do_not_match_session'')
                else validate_device env session_device_id payload))"

section \<open>Replies\<close>

definition envelope_json :: "library \<Rightarrow> Envelope \<Rightarrow> json" where
  "envelope_json lib e = JObject
     [(''message_id'', JString (uuid_to_string lib (message_id e))),
      (''envelope_id'', JString (uuid_to_string lib (envelope_id e))),
      (''sender_device_id'', JString (uuid_to_string lib (sender_device_id e))),
      (''recipient_device_id'', JString (uuid_to_string lib (recipient_device_id e))),
      (''protocol_version'', JString (protocol_version e)),
      (''packet_base64'', JString (encodePacketBase64 (packet e))),
      (''seq'', JInt (seq e))]"

definition push_json :: "library \<Rightarrow> Envelope \<Rightarrow> json" where
  "push_json lib e = JObject
     [(''type'', JString ''Online_Sync''), (''success'', JBool True), (''duplicate'', JBool False),
      (''recipientDeviceId'', JString (uuid_to_string lib (recipient_device_id e))),
      (''seq'', JInt (seq e)), (''envelope'', envelope_json lib e)]"

definition stored_json :: "library \<Rightarrow> bool \<Rightarrow> Envelope \<Rightarrow> json \<Rightarrow> json" where
  "stored_json lib duplicate e response =
     json_set ''seq'' (JInt (seq e))
       (json_set ''envelope_id'' (JString (uuid_to_string lib (envelope_id e)))
       (json_set ''message_id'' (JString (uuid_to_string lib (message_id e)))
       (json_set ''duplicate'' (JBool duplicate)
       (json_set ''success'' (JBool True) response))))"

text \<open>The reply to a new message, and the push that goes out before it when the message was stored.\<close>

definition message_response :: "library \<Rightarrow> NewTextMessageResult \<Rightarrow> json" where
  "message_response lib result =
     (let response = failure ''newTextMessage.result'' in
      case tm_status result of
        ChatSuccess \<Rightarrow>
          (case tm_envelope result of
             None \<Rightarrow> set_error ''internal_server_error'' ''Missing storage result'' response
           | Some e \<Rightarrow> json_set ''type'' (JString ''newTextMessage.result'') (stored_json lib False e response))
      | ChatDuplicate \<Rightarrow>
          (case tm_envelope result of
             None \<Rightarrow> set_error ''internal_server_error'' ''Missing storage result'' response
           | Some e \<Rightarrow> stored_json lib True e response)
      | InvalidRequest \<Rightarrow> set_error ''invalid_request'' ''Invalid message fields'' response
      | ChatPermissionDenied \<Rightarrow> set_error ''send_permission_denied'' ''Sender or recipient is not permitted'' response
      | ChatConflict \<Rightarrow> set_error ''envelope_conflict'' ''Message identifier already exists with different content'' response
      | DatabaseUnavailable \<Rightarrow>
          set_error ''database_unavailable'' ''Retry later with the same message identifier and packet'' response
      | RetryLater \<Rightarrow> set_error ''retry_later'' ''Retry later with the same message identifier and packet'' response
      | InternalError \<Rightarrow> set_error ''internal_server_error'' ''Unable to save message'' response)"

definition message_push :: "dispatcher_env \<Rightarrow> NewTextMessageResult \<Rightarrow> ('s, unit) act" where
  "message_push env result =
     (case (tm_status result, tm_envelope result) of
        (ChatSuccess, Some e) \<Rightarrow>
          (\<lambda>z. case reply env (push_json (lib_of env) e) z of (_, z') \<Rightarrow> (Inr (), z'))
      | _ \<Rightarrow> act_return ())"

definition sync_response :: "library \<Rightarrow> SyncEnvelopeRequest \<Rightarrow> EnvelopePage option result \<Rightarrow> json" where
  "sync_response lib req r =
     (let response = failure ''chat.sync.envelope.result'' in
      case r of
        Inr None \<Rightarrow>
          set_error ''sync_permission_denied'' ''Device must belong to the authenticated user and be active'' response
      | Inr (Some page) \<Rightarrow>
          json_set ''envelopes'' (JArray (map (envelope_json lib) (envelopes page)))
            (json_set ''has_more'' (JBool (has_more page))
            (json_set ''count'' (JUnsigned (length (envelopes page)))
            (json_set ''device_id'' (JString (uuid_to_string lib (sy_device_id req)))
            (json_set ''success'' (JBool True) response))))
      | Inl (InvalidArgument _) \<Rightarrow> set_error ''invalid_request'' ''Invalid synchronization request'' response
      | Inl e \<Rightarrow> set_error (database_code e)
          (if database_code e = ''database_unavailable'' then ''Service temporarily unavailable''
           else if database_code e = ''retry_later'' then ''Retry synchronization with the same cursors''
           else ''Unable to synchronize envelopes'') response)"

definition ack_response :: "library \<Rightarrow> AckEnvelopeRequest \<Rightarrow> uuid list option result \<Rightarrow> json" where
  "ack_response lib req r =
     (let response = failure ''chat.envelopes.ack.result'' in
      case r of
        Inr None \<Rightarrow>
          set_error ''ack_permission_denied'' ''Device must belong to the authenticated user and be active'' response
      | Inr (Some is) \<Rightarrow>
          json_set ''success'' (JBool True)
            (json_set ''count'' (JUnsigned (length is))
            (json_set ''acknowledged_ids'' (JArray (map (\<lambda>i. JString (uuid_to_string lib i)) is))
            (json_set ''device_id'' (JString (uuid_to_string lib (ack_device_id req))) response)))
      | Inl (InvalidArgument _) \<Rightarrow> set_error ''invalid_request'' ''Invalid acknowledgment request'' response
      | Inl e \<Rightarrow> set_error (database_code e)
          (if database_code e = ''internal_server_error'' then ''Unable to acknowledge envelopes''
           else ''Retry acknowledgment with the same identifiers'') response)"

section \<open>Tasks\<close>

record task_context =
  tk_payload :: json
  tk_user :: uuid
  tk_auth :: auth_result
  tk_session_user :: uuid
  tk_session_device :: uuid

datatype service_task =
    NewTextMessageTestTask task_context
  | NewTextMessageTask task_context
  | SyncEnvelopeTask task_context
  | AckEnvelopeTask task_context

text \<open>Every task starts with the identity check and ends when it refuses.\<close>

definition validated :: "dispatcher_env \<Rightarrow> task_context \<Rightarrow> (store_world, unit) act \<Rightarrow> (store_world, unit) act" where
  "validated env c body =
     act_bind (validateSessionRequest env (tk_auth c) (tk_session_user c) (tk_session_device c) (tk_payload c)) (\<lambda>ok.
       if ok then body else act_return ())"

text \<open>\<^verbatim>\<open>payload[key]\<close> on a value, and its conversion to a string.\<close>

fun json_index :: "string \<Rightarrow> json \<Rightarrow> json result" where
  "json_index k (JObject m) = Inr (case map_of m k of None \<Rightarrow> JNull | Some v \<Rightarrow> v)"
| "json_index k JNull = Inr JNull"
| "json_index k _ = Inl (JsonError ''type_error.305'')"

fun json_string :: "json \<Rightarrow> string result" where
  "json_string (JString s) = Inr s"
| "json_string _ = Inl (JsonError ''type_error.302'')"

definition test_task :: "dispatcher_env \<Rightarrow> task_context \<Rightarrow> (store_world, unit) act" where
  "test_task env c = validated env c
     (act_bind (act_lift (ebind (json_index ''id'' (tk_payload c)) json_string)) (\<lambda>id_text.
      act_bind (act_lift (ebind (json_index ''message'' (tk_payload c)) json_string)) (\<lambda>_.
        reply env (JObject [(''type'', JString ''newTextMessage.result''), (''success'', JBool True), (''id'', JString id_text)]))))"

definition message_task :: "dispatcher_env \<Rightarrow> task_context \<Rightarrow> (store_world, unit) act" where
  "message_task env c = validated env c
     (act_bind (parseNewMessage env (tk_payload c)) (\<lambda>parsed.
      case parsed of
        None \<Rightarrow> act_return ()
      | Some m \<Rightarrow>
          act_bind (act_call (newTextMessage (net_of env) (clock_of env) (pg_of env) (tk_user c)
                                (pm_sender_device_id m) (pm_request m))) (\<lambda>result.
          act_bind (message_push env result) (\<lambda>_.
            reply env (message_response (lib_of env) result)))))"

definition sync_task :: "dispatcher_env \<Rightarrow> task_context \<Rightarrow> (store_world, unit) act" where
  "sync_task env c = validated env c
     (act_bind (parseSyncEnvelope env (tk_payload c)) (\<lambda>parsed.
      case parsed of
        None \<Rightarrow> act_return ()
      | Some req \<Rightarrow>
          act_bind (act_call (syncEnvelopePage (net_of env) (clock_of env) (tk_user c) req)) (\<lambda>r.
            reply env (sync_response (lib_of env) req r))))"

definition ack_task :: "dispatcher_env \<Rightarrow> task_context \<Rightarrow> (store_world, unit) act" where
  "ack_task env c = validated env c
     (act_bind (parseAckEnvelope env (tk_payload c)) (\<lambda>parsed.
      case parsed of
        None \<Rightarrow> act_return ()
      | Some req \<Rightarrow>
          act_bind (act_call (chat_ackEnvelopes (net_of env) (clock_of env) (pg_of env) (tk_user c) req)) (\<lambda>r.
            reply env (ack_response (lib_of env) req r))))"

fun run_service_task :: "dispatcher_env \<Rightarrow> service_task \<Rightarrow> (store_world, unit) act" where
  "run_service_task env (NewTextMessageTestTask c) = test_task env c"
| "run_service_task env (NewTextMessageTask c) = message_task env c"
| "run_service_task env (SyncEnvelopeTask c) = sync_task env c"
| "run_service_task env (AckEnvelopeTask c) = ack_task env c"

section \<open>Dispatch\<close>

definition enqueue :: "dispatcher_env \<Rightarrow> string \<Rightarrow> service_task \<Rightarrow> (service_task ServiceThreadPool, unit) act" where
  "enqueue env type t = act_bind (act_call (receiveTask t)) (\<lambda>r.
     case r of
       Inl _ \<Rightarrow> reply env (failure_with type ''server_busy'' ''Service task was not queued'')
     | Inr _ \<Rightarrow> act_return ())"

definition authorization_of :: "json \<Rightarrow> json option" where
  "authorization_of payload =
     (case json_find ''authorization'' payload of
        None \<Rightarrow> json_find ''Authorization'' payload
      | Some a \<Rightarrow> Some a)"

definition route_task :: "dispatcher_env \<Rightarrow> string \<Rightarrow> task_context \<Rightarrow> (service_task ServiceThreadPool, unit) act" where
  "route_task env type c =
     (case parseType type of
        RouteNewTextMessageTest \<Rightarrow> enqueue env ''newTextMessage.result'' (NewTextMessageTestTask c)
      | RouteNewTextMessage \<Rightarrow> enqueue env ''newTextMessage.result'' (NewTextMessageTask c)
      | RouteSyncEnvelope \<Rightarrow> enqueue env ''chat.sync.envelope.result'' (SyncEnvelopeTask c)
      | RouteAckEnvelope \<Rightarrow> enqueue env ''chat.envelopes.ack.result'' (AckEnvelopeTask c)
      | RouteUnKnown \<Rightarrow> act_return ())"

definition dispatch ::
  "dispatcher_env \<Rightarrow> int \<Rightarrow> uuid \<Rightarrow> uuid \<Rightarrow> json \<Rightarrow> (service_task ServiceThreadPool, unit) act" where
  "dispatch env now session_device_id session_user_id frame =
     act_bind (act_lift (json_index ''payload'' frame)) (\<lambda>payload.
     if \<not> is_object payload then reply env (error_json ''invalid_payload'')
     else case authorization_of payload of
       Some (JString a) \<Rightarrow>
         act_bind (act_lift (authenticate_string (lib_of env) (secret_of env) now a)) (\<lambda>authResult.
         case authResult of
           Inl e \<Rightarrow> reply env (error_json (auth_code e))
         | Inr userId \<Rightarrow>
             if userId \<noteq> session_user_id then reply env (error_json ''accessToken_do_not_match_session'')
             else
               act_bind (act_lift (json_index ''header'' frame)) (\<lambda>_.
               act_bind (act_lift (ebind (json_index ''payload_format'' frame) json_string)) (\<lambda>_.
               case json_find ''type'' payload of
                 Some (JString type) \<Rightarrow>
                   route_task env type
                     \<lparr>tk_payload = payload, tk_user = userId, tk_auth = authResult,
                      tk_session_user = session_user_id, tk_session_device = session_device_id\<rparr>
               | _ \<Rightarrow> reply env (error_json ''invalid_request''))))
     | _ \<Rightarrow> reply env (error_json ''missing_authorization''))"

section \<open>Lemmas on actions\<close>

named_theorems act_simps \<open>actions unfolded\<close>

lemmas [act_simps] = act_return_def act_lift_def act_bind_def act_call_def reply_def

lemma refuse_run: "refuse env j (rs, s) = (if wake_fails env (length rs)
    then Inl (SystemError ''Business thread failed to wakeup websocket worker'') else Inr False, rs @ [j], s)"
  by (simp add: refuse_def act_simps)

text \<open>
  The outcome of the identity check: it lets the request pass silently, or it refuses with one message.  It never
  changes the tables.
\<close>

lemma validate_device_run:
  assumes "validate_device env dev payload (rs, s) = (r, rs', s')"
  shows "s' = s \<and>
    ((r = Inr True \<and> rs' = rs \<and> (\<exists>type. json_find ''type'' payload = Some (JString type) \<and>
        (\<forall>f t. device_field type = Some (f, t) \<longrightarrow> requireUuid (lib_of env) payload f = Inr dev))) \<or>
     (r \<noteq> Inr True \<and> (\<exists>j. rs' = rs @ [j])))"
proof -
  have "requireUuid lib payload f = Inl e \<Longrightarrow> \<exists>m. e = InvalidArgument m" for lib f e
    by (auto simp: requireUuid_def requireString_def split: option.splits json.splits if_splits sum.splits)
  then show ?thesis
    using assms
    by (auto simp: validate_device_def refuse_run act_return_def act_lift_def split: option.splits json.splits sum.splits exn.splits if_splits; blast)
qed

lemma validate_run:
  assumes w: "pool_clean (fst w)" "store_ok (tables (snd w))"
    and v: "validateSessionRequest env a user dev payload (rs, w) = (r, rs', w')"
  shows "pool_clean (fst w') \<and> tables (snd w') = tables (snd w) \<and>
    ((r = Inr True \<and> rs' = rs \<and> a = Inr user \<and> usable_device (tables (snd w)) user dev \<and>
        (\<exists>type. json_find ''type'' payload = Some (JString type) \<and>
          (\<forall>f t. device_field type = Some (f, t) \<longrightarrow> requireUuid (lib_of env) payload f = Inr dev))) \<or>
     (r \<noteq> Inr True \<and> (\<exists>j. rs' = rs @ [j])))"
proof (cases "a = Inr user")
  case False
  with v w show ?thesis
    by (auto simp: validateSessionRequest_def refuse_run split: sum.splits if_splits)
next
  case True
  obtain i w1 where i: "verifySessionIdentity (net_of env) (clock_of env) user dev w = (i, w1)"
    by (cases "verifySessionIdentity (net_of env) (clock_of env) user dev w" rule: prod.exhaust)
  have k: "keys_ok (tables (snd w))" using w(2) by (simp add: store_ok_def)
  note c = identity_checked [OF w(1) k i]
  show ?thesis
  proof (cases "i = Inr IdentitySuccess")
    case False
    with v True i c show ?thesis
      by (auto simp: validateSessionRequest_def refuse_run act_bind_def act_call_def split: sum.splits if_splits)
  next
    case success: True
    with v True i have "validate_device env dev payload (rs, w1) = (r, rs', w')"
      by (simp add: validateSessionRequest_def act_bind_def act_call_def)
    from validate_device_run [OF this] c success True show ?thesis by auto
  qed
qed

section \<open>What a task does\<close>

text \<open>The changes a device may make: one envelope from it, or marks on envelopes to it.\<close>

definition acts_for :: "uuid \<Rightarrow> store \<Rightarrow> store \<Rightarrow> bool" where
  "acts_for dev st st' \<longleftrightarrow>
     st' = st \<or>
     (\<exists>row. st' = st\<lparr>message_envelopes := message_envelopes st @ [row]\<rparr> \<and> sender_device_id (row_envelope row) = dev) \<or>
     (\<exists>is. ack_right is dev st st')"

text \<open>The messages a device may receive: none with an envelope, its own page, or the push of what it has just sent.\<close>

definition own_reply :: "library \<Rightarrow> uuid \<Rightarrow> store \<Rightarrow> json \<Rightarrow> bool" where
  "own_reply lib dev st j \<longleftrightarrow>
     (json_find ''envelope'' j = None \<and> json_find ''envelopes'' j = None) \<or>
     (\<exists>es. json_find ''envelope'' j = None \<and> json_find ''envelopes'' j = Some (JArray (map (envelope_json lib) es)) \<and>
        (\<forall>e \<in> set es. recipient_device_id e = dev \<and> e \<in> row_envelope ` set (message_envelopes st))) \<or>
     (\<exists>x \<in> set (message_envelopes st). \<exists>v. sender_device_id (row_envelope x) = dev \<and>
        j = push_json lib ((row_envelope x)\<lparr>protocol_version := v\<rparr>))"

text \<open>
  The outcome of a task for session \<open>(user, dev)\<close> with \<open>new\<close> the messages it sent.  One of them answers the request;
  a push may come before it.
\<close>

definition task_outcome :: "library \<Rightarrow> uuid \<Rightarrow> uuid \<Rightarrow> store \<Rightarrow> json list \<Rightarrow> store \<Rightarrow> bool" where
  "task_outcome lib user dev st new st' \<longleftrightarrow>
     acts_for dev st st' \<and> (st' \<noteq> st \<longrightarrow> usable_device st user dev) \<and>
     (\<exists>pushes j. new = pushes @ [j] \<and> length pushes \<le> 1 \<and> (\<forall>p \<in> set pushes. json_find ''envelope'' p \<noteq> None)) \<and>
     (\<forall>j \<in> set new. own_reply lib dev st' j)"

definition plain :: "json \<Rightarrow> bool" where
  "plain j \<longleftrightarrow> json_find ''envelope'' j = None \<and> json_find ''envelopes'' j = None"

lemma plain_simps [simp]:
  "plain (error_json code)" "plain (failure_with t code m)" "plain (failure t)"
  "plain (set_error code m (failure t))"
  by (simp_all add: plain_def error_json_def failure_with_def failure_def set_error_def)

lemma plain_outcome: "plain j \<Longrightarrow> task_outcome lib user dev st [j] st"
  by (auto simp: task_outcome_def acts_for_def own_reply_def plain_def)

text \<open>The identity check in front of a body.\<close>

lemma refused_plain:
  assumes "world_ok w" "validateSessionRequest env a user dev payload (rs, w) = (r, rs', w')" "r \<noteq> Inr True"
  shows "\<exists>j. rs' = rs @ [j] \<and> plain j"
proof -
  obtain i w1 where i: "verifySessionIdentity (net_of env) (clock_of env) user dev w = (i, w1)"
    by (cases "verifySessionIdentity (net_of env) (clock_of env) user dev w" rule: prod.exhaust)
  have d: "requireUuid lib payload f = Inl e \<Longrightarrow> \<exists>m. e = InvalidArgument m" for lib f e
    by (auto simp: requireUuid_def requireString_def split: option.splits json.splits if_splits sum.splits)
  have v: "validate_device env dev payload (rs, w1) = (r, rs', w') \<Longrightarrow> ?thesis"
    using assms(3) d
    by (auto simp: validate_device_def refuse_run act_return_def act_lift_def split: option.splits json.splits sum.splits exn.splits if_splits; blast)
  show ?thesis
    using assms(2,3) i v
    by (auto simp: validateSessionRequest_def refuse_run act_bind_def act_call_def split: sum.splits if_splits)
qed

lemma validated_run:
  assumes w: "world_ok w" and v: "validated env c body (rs, w) = (r, rs', w')" and u: "tk_session_user c = user" "tk_session_device c = dev"
    and body: "\<And>w1. world_ok w1 \<Longrightarrow> tables (snd w1) = tables (snd w) \<Longrightarrow> usable_device (tables (snd w)) user dev \<Longrightarrow>
      (\<And>type f t. json_find ''type'' (tk_payload c) = Some (JString type) \<Longrightarrow> device_field type = Some (f, t) \<Longrightarrow>
         requireUuid (lib_of env) (tk_payload c) f = Inr dev) \<Longrightarrow>
      body (rs, w1) = (r, rs', w') \<Longrightarrow> P (tables (snd w)) rs' w'"
    and refused: "\<And>j w'. world_ok w' \<Longrightarrow> tables (snd w') = tables (snd w) \<Longrightarrow> plain j \<Longrightarrow> P (tables (snd w)) (rs @ [j]) w'"
  shows "P (tables (snd w)) rs' w'"
proof -
  obtain q qs w1 where q: "validateSessionRequest env (tk_auth c) user dev (tk_payload c) (rs, w) = (q, qs, w1)"
    by (cases "validateSessionRequest env (tk_auth c) user dev (tk_payload c) (rs, w)" rule: prod.exhaust) (metis surj_pair)
  from w have w': "pool_clean (fst w)" "store_ok (tables (snd w))" by (simp_all add: world_ok_def)
  note o = validate_run [OF w' q]
  then have ok: "world_ok w1" "tables (snd w1) = tables (snd w)" using w' by (auto simp: world_ok_def)
  show ?thesis
  proof (cases "q = Inr True")
    case True
    with o v q u have "body (rs, w1) = (r, rs', w')" by (auto simp: validated_def act_bind_def)
    with True o ok show ?thesis by (intro body) auto
  next
    case False
    with refused_plain [OF w q False] obtain j where j: "qs = rs @ [j]" "plain j" by blast
    moreover have "rs' = qs \<and> w' = w1" using False v q u
      by (auto simp: validated_def act_bind_def act_return_def split: sum.splits if_splits)
    ultimately show ?thesis using refused ok by simp
  qed
qed

lemma reading_run:
  assumes "reading env t other x (rs, s) = (r, rs', s')"
  shows "s' = s \<and>
    (case x of
       Inr y \<Rightarrow> r = Inr (Some y) \<and> rs' = rs
     | Inl _ \<Rightarrow> (\<exists>j. rs' = rs @ [j] \<and> plain j) \<and> (\<forall>y. r \<noteq> Inr (Some y)))"
  using assms by (auto simp: reading_def act_simps split: sum.splits exn.splits if_splits)

definition outcome_for :: "dispatcher_env \<Rightarrow> task_context \<Rightarrow> json list \<Rightarrow> store \<Rightarrow> json list \<Rightarrow> store_world \<Rightarrow> bool" where
  "outcome_for env c rs st rs' w' \<longleftrightarrow>
     world_ok w' \<and>
     (\<exists>new. rs' = rs @ new \<and> task_outcome (lib_of env) (tk_session_user c) (tk_session_device c) st new (tables (snd w')))"

lemma plain_outcome_for: "world_ok w' \<Longrightarrow> plain j \<Longrightarrow> outcome_for env c rs (tables (snd w')) (rs @ [j]) w'"
  using plain_outcome by (fastforce simp: outcome_for_def)

text \<open>Reading the request in front of a call.\<close>

lemma reading_outcome:
  assumes "world_ok w"
    and b: "act_bind (reading env t other x) (\<lambda>parsed. case parsed of None \<Rightarrow> act_return () | Some m \<Rightarrow> body m) (rs, w) = (r, rs', w')"
    and "\<And>m. x = Inr m \<Longrightarrow> body m (rs, w) = (r, rs', w') \<Longrightarrow> outcome_for env c rs (tables (snd w)) rs' w'"
  shows "outcome_for env c rs (tables (snd w)) rs' w'"
proof -
  obtain q qs w1 where q: "reading env t other x (rs, w) = (q, qs, w1)"
    by (cases "reading env t other x (rs, w)" rule: prod.exhaust) (metis surj_pair)
  note o = reading_run [OF q]
  show ?thesis
  proof (cases x)
    case (Inr m)
    with o q b have "body m (rs, w) = (r, rs', w')" by (simp add: act_bind_def)
    with assms(3) Inr show ?thesis by simp
  next
    case (Inl e)
    with o obtain j where "qs = rs @ [j]" "plain j" "w1 = w" by auto
    moreover have "rs' = qs \<and> w' = w1" using b q o Inl
      by (auto simp: act_bind_def act_return_def split: sum.splits option.splits)
    ultimately show ?thesis using plain_outcome_for assms(1) by simp
  qed
qed

lemma message_response_plain: "plain (message_response lib a)"
  by (auto simp: message_response_def Let_def plain_def failure_def set_error_def stored_json_def
      split: NewTextMessageStatus.splits option.splits)

lemma push_own:
  assumes "x \<in> set (message_envelopes st)" "sender_device_id (row_envelope x) = dev"
  shows "own_reply lib dev st (push_json lib ((row_envelope x)\<lparr>protocol_version := v\<rparr>))"
  using assms unfolding own_reply_def by blast

lemma message_outcome:
  assumes w: "world_ok w" and u: "usable_device (tables (snd w)) user dev"
    and s: "newTextMessage net now pg user dev req w = (a, w')"
  shows "world_ok w' \<and> task_outcome lib user dev (tables (snd w))
    ((case (tm_status a, tm_envelope a) of (ChatSuccess, Some e) \<Rightarrow> [push_json lib e] | _ \<Rightarrow> []) @ [message_response lib a])
    (tables (snd w'))"
proof -
  let ?st = "tables (snd w)" and ?st' = "tables (snd w')"
  have w': "pool_clean (fst w)" "store_ok ?st" using w by (simp_all add: world_ok_def)
  note n = newTextMessage_answered [OF w' s]
  have t: "answer_true user dev req ?st a ?st'"
    using n answered_true by (auto simp: answer_true_def status_only_def split: if_splits)
  have grow: "?st' = ?st \<or> (\<exists>row. ?st' = ?st\<lparr>message_envelopes := message_envelopes ?st @ [row]\<rparr> \<and> sender_device_id (row_envelope row) = dev)"
    using t by (cases "tm_status a") (auto simp: answer_true_def Let_def new_row_def)
  have own: "own_reply lib dev ?st' (message_response lib a)"
    using message_response_plain by (auto simp: own_reply_def plain_def)
  show ?thesis
  proof (cases "tm_status a = ChatSuccess")
    case True
    with t obtain eid where e: "?st' = ?st\<lparr>message_envelopes := message_envelopes ?st @ [new_row eid dev req ?st]\<rparr>"
      "tm_envelope a = Some ((row_envelope (new_row eid dev req ?st))\<lparr>protocol_version := nm_protocol_version req\<rparr>)"
      by (auto simp: answer_true_def Let_def)
    have "own_reply lib dev ?st' (push_json lib ((row_envelope (new_row eid dev req ?st))\<lparr>protocol_version := nm_protocol_version req\<rparr>))"
      by (rule push_own) (simp_all add: e(1), simp add: new_row_def)
    with True e own grow n u show ?thesis
      by (auto simp: world_ok_def task_outcome_def acts_for_def push_json_def)
  next
    case False
    with own grow n u show ?thesis
      by (auto simp: world_ok_def task_outcome_def acts_for_def split: NewTextMessageStatus.splits)
  qed
qed

lemma sync_outcome:
  assumes w: "world_ok w" and s: "syncEnvelopePage net now user req w = (r, w')" and d: "sy_device_id req = dev"
  shows "world_ok w' \<and> task_outcome lib user dev (tables (snd w)) [sync_response lib req r] (tables (snd w'))"
proof -
  have w': "pool_clean (fst w)" "store_ok (tables (snd w))" using w by (simp_all add: world_ok_def)
  note n = sync_result [OF w' s]
  have "own_reply lib dev (tables (snd w)) (sync_response lib req r)"
  proof (cases "\<exists>page. r = Inr (Some page)")
    case True
    then obtain page where p: "r = Inr (Some page)" by blast
    with n d have "page = page_of dev (cursors req) (tables (snd w))" by (auto split: if_splits)
    then have "set (envelopes page) \<subseteq> set (pending dev (cursors req) (tables (snd w)))"
      by (auto simp: page_of_def Let_def page_order_def dest!: in_set_takeD)
    with p show ?thesis
      by (auto simp: own_reply_def sync_response_def Let_def failure_def pending_def)
  next
    case False
    then show ?thesis
      by (auto simp: own_reply_def sync_response_def Let_def failure_def set_error_def split: sum.splits option.splits exn.splits)
  qed
  with n w' show ?thesis by (auto simp: world_ok_def task_outcome_def acts_for_def)
qed

lemma ack_outcome:
  assumes w: "world_ok w" and u: "usable_device (tables (snd w)) user dev"
    and s: "chat_ackEnvelopes net now pg user req w = (r, w')" and d: "ack_device_id req = dev"
  shows "world_ok w' \<and> task_outcome lib user dev (tables (snd w)) [ack_response lib req r] (tables (snd w'))"
proof -
  have w': "pool_clean (fst w)" "store_ok (tables (snd w))" using w by (simp_all add: world_ok_def)
  note n = ack_result [OF w'(1) s]
  then have e: "tables (snd w') = tables (snd w) \<or> (\<exists>x. ack_effect user dev (envelope_ids req) (tables (snd w)) x (tables (snd w')))"
    using d by (auto split: sum.splits)
  have "store_ok (tables (snd w'))" using e w'(2) ack_effect_ok by metis
  moreover have "acts_for dev (tables (snd w)) (tables (snd w'))"
    using e ack_effect_right [OF _ u] unfolding acts_for_def by blast
  moreover have "own_reply lib dev (tables (snd w')) (ack_response lib req r)"
    by (auto simp: own_reply_def ack_response_def Let_def failure_def set_error_def split: sum.splits option.splits exn.splits)
  ultimately show ?thesis using n u by (auto simp: world_ok_def task_outcome_def)
qed

text \<open>What \<^verbatim>\<open>dispatch\<close> guarantees of a task: its kind is the type of the payload, its user the session's.\<close>

fun task_context_of :: "service_task \<Rightarrow> task_context" where
  "task_context_of (NewTextMessageTestTask c) = c"
| "task_context_of (NewTextMessageTask c) = c"
| "task_context_of (SyncEnvelopeTask c) = c"
| "task_context_of (AckEnvelopeTask c) = c"

fun task_type :: "service_task \<Rightarrow> string" where
  "task_type (NewTextMessageTestTask c) = ''chat.newTextMessage_Test''"
| "task_type (NewTextMessageTask c) = ''chat.newTextMessage''"
| "task_type (SyncEnvelopeTask c) = ''chat.sync.envelope''"
| "task_type (AckEnvelopeTask c) = ''chat.envelopes.ack''"

definition task_for :: "uuid \<Rightarrow> uuid \<Rightarrow> service_task \<Rightarrow> bool" where
  "task_for user dev t \<longleftrightarrow>
     (let c = task_context_of t in
      tk_user c = user \<and> tk_auth c = Inr user \<and> tk_session_user c = user \<and> tk_session_device c = dev \<and>
      json_find ''type'' (tk_payload c) = Some (JString (task_type t)))"

lemma reply_run: "reply env j (rs, s) = (r, rs', s') \<Longrightarrow> rs' = rs @ [j] \<and> s' = s"
  by (auto simp: reply_def)

lemma push_then_reply:
  assumes "act_bind (message_push env a) (\<lambda>_. reply env j) (rs, s) = (r, rs', s')"
  shows "s' = s \<and> rs' = rs @ (case (tm_status a, tm_envelope a) of
      (ChatSuccess, Some e) \<Rightarrow> [push_json (lib_of env) e] | _ \<Rightarrow> []) @ [j]"
  using assms
  by (auto simp: message_push_def act_simps split: NewTextMessageStatus.splits option.splits)

lemma call_then:
  "act_bind (act_call f) g (rs, s) = (case f s of (x, s') \<Rightarrow> g x (rs, s'))"
  by (simp add: act_bind_def act_call_def split: prod.splits)

lemma read_message_sender: "read_new_message lib j = Inr m \<Longrightarrow> requireUuid lib j ''sender_device_id'' = Inr (pm_sender_device_id m)"
  by (auto simp: read_new_message_def ebind_Inr_iff split: if_splits)

lemma read_sync_device: "read_sync lib j = Inr m \<Longrightarrow> requireUuid lib j ''device_id'' = Inr (sy_device_id m)"
  by (auto simp: read_sync_def ebind_Inr_iff split: if_splits option.splits json.splits)

lemma read_ack_device: "read_ack lib j = Inr m \<Longrightarrow> requireUuid lib j ''device_id'' = Inr (ack_device_id m)"
  by (auto simp: read_ack_def ebind_Inr_iff split: if_splits option.splits json.splits)

text \<open>The shape the three business tasks share: check, read, call.\<close>

lemma request_outcome:
  assumes w: "world_ok w"
    and r: "validated env c (act_bind (reading env t other x) (\<lambda>parsed. case parsed of None \<Rightarrow> act_return () | Some m \<Rightarrow> body m))
      (rs, w) = (r, rs', w')"
    and call: "\<And>m w1. x = Inr m \<Longrightarrow> world_ok w1 \<Longrightarrow>
      usable_device (tables (snd w1)) (tk_session_user c) (tk_session_device c) \<Longrightarrow>
      (\<And>type f t. json_find ''type'' (tk_payload c) = Some (JString type) \<Longrightarrow> device_field type = Some (f, t) \<Longrightarrow>
         requireUuid (lib_of env) (tk_payload c) f = Inr (tk_session_device c)) \<Longrightarrow>
      body m (rs, w1) = (r, rs', w') \<Longrightarrow> outcome_for env c rs (tables (snd w1)) rs' w'"
  shows "outcome_for env c rs (tables (snd w)) rs' w'"
  using w r refl refl
proof (rule validated_run [where P = "outcome_for env c rs"])
  fix w1 assume w1: "world_ok w1" "tables (snd w1) = tables (snd w)"
    and u: "usable_device (tables (snd w)) (tk_session_user c) (tk_session_device c)"
    and d: "\<And>type f t. json_find ''type'' (tk_payload c) = Some (JString type) \<Longrightarrow> device_field type = Some (f, t) \<Longrightarrow>
      requireUuid (lib_of env) (tk_payload c) f = Inr (tk_session_device c)"
    and b: "act_bind (reading env t other x) (\<lambda>parsed. case parsed of None \<Rightarrow> act_return () | Some m \<Rightarrow> body m) (rs, w1) = (r, rs', w')"
  have u1: "usable_device (tables (snd w1)) (tk_session_user c) (tk_session_device c)" using u w1(2) by simp
  have "outcome_for env c rs (tables (snd w1)) rs' w'"
  proof (rule reading_outcome [OF w1(1) b])
    fix m assume m: "x = Inr m" "body m (rs, w1) = (r, rs', w')"
    show "outcome_for env c rs (tables (snd w1)) rs' w'" by (rule call [OF m(1) w1(1) u1 d m(2)])
  qed
  then show "outcome_for env c rs (tables (snd w)) rs' w'" by (simp add: w1(2))
qed (metis plain_outcome_for)

lemma message_task_outcome:
  assumes w: "world_ok w" and t: "task_for user dev (NewTextMessageTask c)" and r: "message_task env c (rs, w) = (r, rs', w')"
  shows "outcome_for env c rs (tables (snd w)) rs' w'"
proof (rule request_outcome [OF w r [unfolded message_task_def parseNewMessage_def]])
  fix m w1 assume m: "read_new_message (lib_of env) (tk_payload c) = Inr m" and w1: "world_ok w1"
    and u: "usable_device (tables (snd w1)) (tk_session_user c) (tk_session_device c)"
    and d: "\<And>type f t. json_find ''type'' (tk_payload c) = Some (JString type) \<Longrightarrow> device_field type = Some (f, t) \<Longrightarrow>
      requireUuid (lib_of env) (tk_payload c) f = Inr (tk_session_device c)"
    and b: "act_bind (act_call (newTextMessage (net_of env) (clock_of env) (pg_of env) (tk_user c) (pm_sender_device_id m) (pm_request m)))
        (\<lambda>result. act_bind (message_push env result) (\<lambda>_. reply env (message_response (lib_of env) result))) (rs, w1) = (r, rs', w')"
  have s: "pm_sender_device_id m = dev" "tk_session_device c = dev" "tk_session_user c = user" "tk_user c = user"
    using read_message_sender [OF m] d [of "''chat.newTextMessage''"] t by (auto simp: task_for_def device_field_def Let_def)
  obtain a w2 where n: "newTextMessage (net_of env) (clock_of env) (pg_of env) user dev (pm_request m) w1 = (a, w2)" by (rule prod.exhaust)
  with b have "act_bind (message_push env a) (\<lambda>_. reply env (message_response (lib_of env) a)) (rs, w2) = (r, rs', w')"
    by (simp add: call_then s)
  from push_then_reply [OF this] message_outcome [OF w1 _ n, of "lib_of env"] u s
  show "outcome_for env c rs (tables (snd w1)) rs' w'" by (simp add: outcome_for_def)
qed

lemma sync_task_outcome:
  assumes w: "world_ok w" and t: "task_for user dev (SyncEnvelopeTask c)" and r: "sync_task env c (rs, w) = (r, rs', w')"
  shows "outcome_for env c rs (tables (snd w)) rs' w'"
proof (rule request_outcome [OF w r [unfolded sync_task_def parseSyncEnvelope_def]])
  fix req w1 assume m: "read_sync (lib_of env) (tk_payload c) = Inr req" and w1: "world_ok w1"
    and d: "\<And>type f t. json_find ''type'' (tk_payload c) = Some (JString type) \<Longrightarrow> device_field type = Some (f, t) \<Longrightarrow>
      requireUuid (lib_of env) (tk_payload c) f = Inr (tk_session_device c)"
    and b: "act_bind (act_call (syncEnvelopePage (net_of env) (clock_of env) (tk_user c) req))
        (\<lambda>x. reply env (sync_response (lib_of env) req x)) (rs, w1) = (r, rs', w')"
  have s: "sy_device_id req = dev" "tk_session_device c = dev" "tk_session_user c = user" "tk_user c = user"
    using read_sync_device [OF m] d [of "''chat.sync.envelope''"] t by (auto simp: task_for_def device_field_def Let_def)
  obtain a w2 where n: "syncEnvelopePage (net_of env) (clock_of env) user req w1 = (a, w2)" by (rule prod.exhaust)
  from b reply_run have "rs' = rs @ [sync_response (lib_of env) req a] \<and> w' = w2" by (fastforce simp: call_then s n)
  with sync_outcome [OF w1 n s(1), of "lib_of env"] s show "outcome_for env c rs (tables (snd w1)) rs' w'" by (simp add: outcome_for_def)
qed

lemma ack_task_outcome:
  assumes w: "world_ok w" and t: "task_for user dev (AckEnvelopeTask c)" and r: "ack_task env c (rs, w) = (r, rs', w')"
  shows "outcome_for env c rs (tables (snd w)) rs' w'"
proof (rule request_outcome [OF w r [unfolded ack_task_def parseAckEnvelope_def]])
  fix req w1 assume m: "read_ack (lib_of env) (tk_payload c) = Inr req" and w1: "world_ok w1"
    and u: "usable_device (tables (snd w1)) (tk_session_user c) (tk_session_device c)"
    and d: "\<And>type f t. json_find ''type'' (tk_payload c) = Some (JString type) \<Longrightarrow> device_field type = Some (f, t) \<Longrightarrow>
      requireUuid (lib_of env) (tk_payload c) f = Inr (tk_session_device c)"
    and b: "act_bind (act_call (chat_ackEnvelopes (net_of env) (clock_of env) (pg_of env) (tk_user c) req))
        (\<lambda>x. reply env (ack_response (lib_of env) req x)) (rs, w1) = (r, rs', w')"
  have s: "ack_device_id req = dev" "tk_session_device c = dev" "tk_session_user c = user" "tk_user c = user"
    using read_ack_device [OF m] d [of "''chat.envelopes.ack''"] t by (auto simp: task_for_def device_field_def Let_def)
  obtain a w2 where n: "chat_ackEnvelopes (net_of env) (clock_of env) (pg_of env) user req w1 = (a, w2)" by (rule prod.exhaust)
  from b reply_run have "rs' = rs @ [ack_response (lib_of env) req a] \<and> w' = w2" by (fastforce simp: call_then s n)
  with ack_outcome [OF w1 _ n s(1), of "lib_of env"] u s show "outcome_for env c rs (tables (snd w1)) rs' w'" by (simp add: outcome_for_def)
qed

text \<open>The test route replies only to a payload with two strings; otherwise its task throws.\<close>

lemma test_task_outcome:
  assumes w: "world_ok w" and r: "test_task env c (rs, w) = (r, rs', w')"
  shows "world_ok w' \<and> tables (snd w') = tables (snd w) \<and> (rs' = rs \<or> (\<exists>j. rs' = rs @ [j] \<and> plain j))"
  using w r [unfolded test_task_def] refl refl
proof (rule validated_run [where P = "\<lambda>st rs' w'. world_ok w' \<and> tables (snd w') = st \<and> (rs' = rs \<or> (\<exists>j. rs' = rs @ [j] \<and> plain j))"])
qed (auto simp: act_simps plain_def split: sum.splits if_splits)

section \<open>What dispatch does\<close>

text \<open>
  The three ends of \<^verbatim>\<open>dispatch\<close>: a task was queued and nothing said, one message was sent and nothing queued, or
  neither, for a request of unknown type or when the frame or a library made it throw.
\<close>

definition token_given :: "dispatcher_env \<Rightarrow> int \<Rightarrow> uuid \<Rightarrow> json \<Rightarrow> bool" where
  "token_given env now user payload \<longleftrightarrow>
     (\<exists>tok. authorization_of payload = Some (JString (bearer @ tok)) \<and> token_for (lib_of env) (secret_of env) now user tok)"

lemma enqueue_run:
  assumes "enqueue env type t (rs, p) = (r, rs', p')"
  shows "if stop p then p' = p \<and> (\<exists>j. rs' = rs @ [j]) else rs' = rs \<and> p' = snd (receiveTask t p) \<and> r = Inr ()"
  using assms by (auto simp: enqueue_def act_simps receiveTask_def split: if_splits)

lemma parseType_type:
  "parseType type = RouteNewTextMessageTest \<longleftrightarrow> type = ''chat.newTextMessage_Test''"
  "parseType type = RouteNewTextMessage \<longleftrightarrow> type = ''chat.newTextMessage''"
  "parseType type = RouteSyncEnvelope \<longleftrightarrow> type = ''chat.sync.envelope''"
  "parseType type = RouteAckEnvelope \<longleftrightarrow> type = ''chat.envelopes.ack''"
  by (auto simp: parseType_def)

lemma route_run:
  assumes r: "route_task env type c (rs, p) = (r, rs', p')" and t: "json_find ''type'' (tk_payload c) = Some (JString type)"
    and c: "tk_user c = user" "tk_auth c = Inr user" "tk_session_user c = user" "tk_session_device c = dev"
  shows "(p' = p \<and> (\<exists>j. rs' = rs @ [j])) \<or>
    (rs' = rs \<and> p' = p \<and> r = Inr () \<and> parseType type = RouteUnKnown) \<or>
    (\<exists>t. task_for user dev t \<and> task_context_of t = c \<and> \<not> stop p \<and> rs' = rs \<and> p' = snd (receiveTask t p) \<and> r = Inr ())"
proof (cases "parseType type")
  case RouteNewTextMessageTest
  with r t c show ?thesis using enqueue_run [of env "''newTextMessage.result''" "NewTextMessageTestTask c" rs p r rs' p']
    by (auto simp: route_task_def parseType_type task_for_def split: if_splits intro!: exI [of _ "NewTextMessageTestTask c"])
next
  case RouteNewTextMessage
  with r t c show ?thesis using enqueue_run [of env "''newTextMessage.result''" "NewTextMessageTask c" rs p r rs' p']
    by (auto simp: route_task_def parseType_type task_for_def split: if_splits intro!: exI [of _ "NewTextMessageTask c"])
next
  case RouteSyncEnvelope
  with r t c show ?thesis using enqueue_run [of env "''chat.sync.envelope.result''" "SyncEnvelopeTask c" rs p r rs' p']
    by (auto simp: route_task_def parseType_type task_for_def split: if_splits intro!: exI [of _ "SyncEnvelopeTask c"])
next
  case RouteAckEnvelope
  with r t c show ?thesis using enqueue_run [of env "''chat.envelopes.ack.result''" "AckEnvelopeTask c" rs p r rs' p']
    by (auto simp: route_task_def parseType_type task_for_def split: if_splits intro!: exI [of _ "AckEnvelopeTask c"])
next
  case RouteUnKnown
  with r show ?thesis by (simp add: route_task_def act_return_def)
qed

lemma bind_lift: "act_bind (act_lift r) f z = (case r of Inl e \<Rightarrow> (Inl e, z) | Inr x \<Rightarrow> f x z)"
  by (simp add: act_bind_def act_lift_def split: sum.splits)

definition unknown_type :: "json \<Rightarrow> bool" where
  "unknown_type payload \<longleftrightarrow> (\<exists>type. json_find ''type'' payload = Some (JString type) \<and> parseType type = RouteUnKnown)"

lemma dispatch_run:
  assumes "dispatch env now dev user frame (rs, p) = (r, rs', p')"
  shows "(p' = p \<and> (\<exists>j. rs' = rs @ [j])) \<or>
    (rs' = rs \<and> p' = p \<and> (r \<noteq> Inr () \<or> (\<exists>payload. json_index ''payload'' frame = Inr payload \<and> unknown_type payload))) \<or>
    (\<exists>t. json_index ''payload'' frame = Inr (tk_payload (task_context_of t)) \<and> task_for user dev t \<and>
       token_given env now user (tk_payload (task_context_of t)) \<and> \<not> stop p \<and> rs' = rs \<and> p' = snd (receiveTask t p) \<and> r = Inr ())"
proof (cases "json_index ''payload'' frame")
  case (Inl e)
  with assms show ?thesis by (auto simp: dispatch_def bind_lift)
next
  case (Inr payload)
  note payload = Inr
  have one: "reply env j (rs, p) = (r, rs', p') \<Longrightarrow> ?thesis" for j by (drule reply_run) auto
  show ?thesis
  proof (cases "is_object payload \<and> (\<exists>a. authorization_of payload = Some (JString a))")
    case False
    with assms payload have "\<exists>j. reply env j (rs, p) = (r, rs', p')"
      by (auto simp: dispatch_def bind_lift split: if_splits option.splits json.splits)
    with one show ?thesis by blast
  next
    case True
    then obtain a where a: "is_object payload" "authorization_of payload = Some (JString a)" by blast
    show ?thesis
    proof (cases "authenticate_string (lib_of env) (secret_of env) now a = Inr (Inr user)")
      case False
      with assms payload a have "(rs' = rs \<and> p' = p \<and> r \<noteq> Inr ()) \<or> (\<exists>j. reply env j (rs, p) = (r, rs', p'))"
        by (auto simp: dispatch_def bind_lift split: sum.splits if_splits)
      with one show ?thesis by blast
    next
      case auth: True
      then have tok: "token_given env now user payload"
        using a(2) by (auto simp: token_given_def authenticate_string_Inr)
      show ?thesis
      proof (cases "(\<exists>h. json_index ''header'' frame = Inr h) \<and> (\<exists>f. ebind (json_index ''payload_format'' frame) json_string = Inr f) \<and>
          (\<exists>type. json_find ''type'' payload = Some (JString type))")
        case False
        with assms payload a auth have "(rs' = rs \<and> p' = p \<and> r \<noteq> Inr ()) \<or> (\<exists>j. reply env j (rs, p) = (r, rs', p'))"
          by (auto simp: dispatch_def bind_lift split: sum.splits option.splits json.splits)
        with one show ?thesis by blast
      next
        case True
        then obtain h f type where "json_index ''header'' frame = Inr h" "ebind (json_index ''payload_format'' frame) json_string = Inr f"
          "json_find ''type'' payload = Some (JString type)" by blast
        with assms payload a auth have "route_task env type \<lparr>tk_payload = payload, tk_user = user, tk_auth = Inr user,
            tk_session_user = user, tk_session_device = dev\<rparr> (rs, p) = (r, rs', p')"
          by (simp add: dispatch_def bind_lift)
        from route_run [OF this, of user dev] \<open>json_find ''type'' payload = _\<close> have
          "(p' = p \<and> (\<exists>j. rs' = rs @ [j])) \<or> (rs' = rs \<and> p' = p \<and> unknown_type payload) \<or>
           (\<exists>t. task_for user dev t \<and> tk_payload (task_context_of t) = payload \<and> \<not> stop p \<and> rs' = rs \<and>
              p' = snd (receiveTask t p) \<and> r = Inr ())" by (auto simp: unknown_type_def)
        then show ?thesis using payload tok by (elim disjE exE conjE) (simp_all, metis)
      qed
    qed
  qed
qed

end
