(* ===== verification/Dispatch_Correct.thy ===== *)
theory Dispatch_Correct
  imports Dispatcher
begin

text \<open>
  The properties of the dispatcher: a request acts for the session that sent it and for nobody else, it is answered once,
  what passes the readers passes the checks of the services behind them, envelopes survive the way through JSON and
  Base64, and a message of a client is stored, pushed and answered.
\<close>

section \<open>Requests act for their session\<close>

lemma task_outcome_any:
  assumes w: "world_ok w" and t: "task_for user dev t" and r: "run_service_task env t (rs, w) = (r, rs', w')"
  shows "world_ok w' \<and> (\<exists>new. rs' = rs @ new \<and> acts_for dev (tables (snd w)) (tables (snd w')) \<and>
      (tables (snd w') \<noteq> tables (snd w) \<longrightarrow> usable_device (tables (snd w)) user dev) \<and>
      (\<forall>j \<in> set new. own_reply (lib_of env) dev (tables (snd w')) j) \<and>
      (task_type t \<noteq> ''chat.newTextMessage_Test'' \<longrightarrow> task_outcome (lib_of env) user dev (tables (snd w)) new (tables (snd w'))))"
proof -
  have biz: ?thesis if "outcome_for env c rs (tables (snd w)) rs' w'" "tk_session_user c = user" "tk_session_device c = dev" for c
    using that by (auto simp: outcome_for_def task_outcome_def)
  show ?thesis
  proof (cases t)
    case (NewTextMessageTestTask c)
    with test_task_outcome [OF w, of env c rs r rs' w'] r show ?thesis
      by (auto simp: acts_for_def own_reply_def plain_def)
  next
    case (NewTextMessageTask c)
    with message_task_outcome [OF w, of user dev c env rs r rs' w'] r t biz [of c] show ?thesis by (simp add: task_for_def Let_def)
  next
    case (SyncEnvelopeTask c)
    with sync_task_outcome [OF w, of user dev c env rs r rs' w'] r t biz [of c] show ?thesis by (simp add: task_for_def Let_def)
  next
    case (AckEnvelopeTask c)
    with ack_task_outcome [OF w, of user dev c env rs r rs' w'] r t biz [of c] show ?thesis by (simp add: task_for_def Let_def)
  qed
qed

lemma dispatch_queued:
  assumes d: "dispatch env now dev user frame (rs, p) = (r, rs', p')" and q: "accepted p' = accepted p @ [t]"
  shows "task_for user dev t \<and> json_index ''payload'' frame = Inr (tk_payload (task_context_of t)) \<and>
    token_given env now user (tk_payload (task_context_of t)) \<and> rs' = rs"
  using dispatch_run [OF d] q by (auto simp: receiveTask_def)

text \<open>
  C12. Whatever a client sends on a session of user \<open>user\<close> and device \<open>dev\<close>: when it leads to a task, the payload
  carried a token of that very user, valid when it arrived; the task changes the tables only while the device is an
  active device of the active user, and then only by one envelope from that device or by marks on envelopes to that
  device; and of stored envelopes its replies contain only those addressed to the device and the one the device has
  just sent.  This holds whatever the database and the network do in between.
\<close>

theorem request_acts_for_its_session:
  assumes d: "dispatch env now dev user frame (rs0, p) = (r0, rs0', p')" and q: "accepted p' = accepted p @ [t]"
    and w: "world_ok w" and r: "run_service_task env' t (rs, w) = (r, rs', w')"
  shows "(\<exists>payload. json_index ''payload'' frame = Inr payload \<and> token_given env now user payload) \<and> world_ok w' \<and>
    (\<exists>new. rs' = rs @ new \<and> acts_for dev (tables (snd w)) (tables (snd w')) \<and>
      (tables (snd w') \<noteq> tables (snd w) \<longrightarrow> usable_device (tables (snd w)) user dev) \<and>
      (\<forall>j \<in> set new. own_reply (lib_of env') dev (tables (snd w')) j))"
  using dispatch_queued [OF d q] task_outcome_any [OF w _ r, of user dev] by blast

definition answered_once :: "json list \<Rightarrow> json list \<Rightarrow> bool" where
  "answered_once rs rs' \<longleftrightarrow>
     (\<exists>pushes j. rs' = rs @ pushes @ [j] \<and> length pushes \<le> 1 \<and> (\<forall>p \<in> set pushes. json_find ''envelope'' p \<noteq> None))"


section \<open>Readers and services agree\<close>

lemma read_after_seq_nonneg: "read_after_seq j = Inr n \<Longrightarrow> 0 \<le> n \<and> (\<forall>k. j = Some (JUnsigned k) \<longrightarrow> n \<le> int64_max)"
  by (auto simp: read_after_seq_def split: option.splits json.splits if_splits)

lemma read_cursors_ok:
  assumes lib: "uuid_lib_ok lib" and r: "read_cursors lib device (map (uuid_to_string lib) seen) entries = Inr cs"
  shows "check_cursors device seen cs \<and> length cs = length entries"
  using r
proof (induction entries arbitrary: seen cs)
  case (Cons e es)
  from Cons.prems obtain peer n rest where
    p: "peer \<noteq> nil_uuid" "peer \<noteq> device" "uuid_to_string lib peer \<notin> set (map (uuid_to_string lib) seen)"
    and n: "read_after_seq (json_find ''after_seq'' e) = Inr n"
    and rest: "read_cursors lib device (map (uuid_to_string lib) (peer # seen)) es = Inr rest"
    and cs: "cs = \<lparr>peer_device_id = peer, after_seq = n\<rparr> # rest"
    by (auto simp: ebind_Inr_iff split: if_splits)
  from p(3) have "peer \<notin> set seen" by auto
  with p n cs Cons.IH [OF rest] read_after_seq_nonneg [OF n] show ?case by simp
qed simp

lemma read_ids_ok:
  assumes lib: "uuid_lib_ok lib" and r: "read_ids lib (map (uuid_to_string lib) seen) values = Inr is"
  shows "check_ids seen is \<and> length is = length values"
  using r
proof (induction "values" arbitrary: seen "is")
  case (Cons v vs)
  from Cons.prems obtain i rest where i: "i \<noteq> nil_uuid" "uuid_to_string lib i \<notin> set (map (uuid_to_string lib) seen)"
    and rest: "read_ids lib (map (uuid_to_string lib) (i # seen)) vs = Inr rest" and "is": "is = i # rest"
    by (auto simp: ebind_Inr_iff split: if_splits)
  from i(2) have "i \<notin> set seen" by auto
  with i "is" Cons.IH [OF rest] show ?case by simp
qed simp

text \<open>What libsodium's reader is asked for bounds its answer: at most as many bytes as the buffer holds.\<close>

definition base64_lib_bounded :: "library \<Rightarrow> bool" where
  "base64_lib_bounded lib \<longleftrightarrow> (\<forall>n s bs k. base642bin lib n s = Some (bs, k) \<longrightarrow> length bs \<le> n)"

text \<open>
  What passes the readers passes the checks behind them: a synchronisation or acknowledgment request that was read is
  one the repository accepts, so \<open>invalid_argument\<close> never comes back from it, and a message that was read is one the
  chat service accepts unless one of its identifiers is nil or it is addressed to its sender.
\<close>

theorem readers_agree_with_services:
  assumes lib: "uuid_lib_ok lib" "base64_lib_bounded lib" and u: "user \<noteq> nil_uuid"
  shows "(\<forall>req. read_sync lib payload = Inr req \<longrightarrow> valid_sync user req) \<and>
    (\<forall>req. read_ack lib payload = Inr req \<longrightarrow> ack_device_id req \<noteq> nil_uuid \<and> envelope_ids req \<noteq> [] \<and>
        length (envelope_ids req) \<le> 100 \<and> check_ids [] (envelope_ids req)) \<and>
    (\<forall>m. read_new_message lib payload = Inr m \<longrightarrow>
        (valid_message user (pm_sender_device_id m) (pm_request m) \<longleftrightarrow>
         pm_sender_device_id m \<noteq> nil_uuid \<and> nm_message_id (pm_request m) \<noteq> nil_uuid \<and>
         nm_recipient_device_id (pm_request m) \<noteq> nil_uuid \<and> pm_sender_device_id m \<noteq> nm_recipient_device_id (pm_request m)))"
proof (intro conjI allI impI)
  fix req assume "read_sync lib payload = Inr req"
  then obtain device entries cs where "device \<noteq> nil_uuid" "length entries \<le> 1000"
    "read_cursors lib device (map (uuid_to_string lib) []) entries = Inr cs" "req = \<lparr>sy_device_id = device, cursors = cs\<rparr>"
    by (auto simp: read_sync_def ebind_Inr_iff not_less split: if_splits option.splits json.splits)
  with read_cursors_ok [OF lib(1)] u show "valid_sync user req" by (fastforce simp: valid_sync_def)
next
  fix req assume "read_ack lib payload = Inr req"
  then obtain device vals ids where a: "device \<noteq> nil_uuid" "vals \<noteq> []" "length vals \<le> 100"
    "read_ids lib (map (uuid_to_string lib) []) vals = Inr ids" "req = \<lparr>ack_device_id = device, envelope_ids = ids\<rparr>"
    by (auto simp: read_ack_def ebind_Inr_iff not_less split: if_splits option.splits json.splits)
  note i = read_ids_ok [OF lib(1) a(4)]
  show "ack_device_id req \<noteq> nil_uuid" using a by simp
  show "envelope_ids req \<noteq> []" using a i by auto
  show "length (envelope_ids req) \<le> 100" using a i by simp
  show "check_ids [] (envelope_ids req)" using a i by simp
next
  fix m assume "read_new_message lib payload = Inr m"
  then have "length (nm_protocol_version (pm_request m)) \<le> 128"
    "find_first_not_of [CHR '' '', CHR 0x09, CR, LF] (nm_protocol_version (pm_request m)) \<noteq> None"
    "requirePacket lib payload = Inr (nm_packet (pm_request m))"
    by (auto simp: read_new_message_def ebind_Inr_iff split: if_splits)
  moreover from this(3) lib(2) have "nm_packet (pm_request m) \<noteq> []" "length (nm_packet (pm_request m)) \<le> 65536"
    by (auto simp: requirePacket_def base64_lib_bounded_def maxPacketBytes_def ebind_Inr_iff split: if_splits option.splits) force
  ultimately show "valid_message user (pm_sender_device_id m) (pm_request m) \<longleftrightarrow>
         pm_sender_device_id m \<noteq> nil_uuid \<and> nm_message_id (pm_request m) \<noteq> nil_uuid \<and>
         nm_recipient_device_id (pm_request m) \<noteq> nil_uuid \<and> pm_sender_device_id m \<noteq> nm_recipient_device_id (pm_request m)"
    using u by (auto simp: valid_message_def)
qed

section \<open>Envelopes as JSON\<close>

text \<open>A client that reads an envelope with the same rules as the server.\<close>

definition read_envelope :: "library \<Rightarrow> json \<Rightarrow> Envelope result" where
  "read_envelope lib j =
     ebind (requireUuid lib j ''envelope_id'') (\<lambda>eid.
     ebind (requireUuid lib j ''message_id'') (\<lambda>mid.
     ebind (requireUuid lib j ''sender_device_id'') (\<lambda>snd_id.
     ebind (requireUuid lib j ''recipient_device_id'') (\<lambda>rcp.
     ebind (requireString j ''protocol_version'') (\<lambda>version.
     ebind (requirePacket lib j) (\<lambda>bytes.
       case json_find ''seq'' j of
         Some (JInt n) \<Rightarrow> Inr \<lparr>envelope_id = eid, message_id = mid, sender_device_id = snd_id, recipient_device_id = rcp,
           protocol_version = version, packet = bytes, seq = n\<rparr>
       | _ \<Rightarrow> Inl (InvalidArgument ''seq'')))))))"

lemma requireUuid_print:
  assumes "uuid_lib_ok lib" "json_find f j = Some (JString (uuid_to_string lib u))"
  shows "requireUuid lib j f = Inr u"
  using assms uuid_to_string_shape [OF assms(1), of u]
  by (auto simp: requireUuid_def requireString_def uuid_shape_def)

lemma requirePacket_print:
  assumes "base64_lib_ok lib" "json_find ''packet_base64'' j = Some (JString (encodePacketBase64 bs))" "bs \<noteq> []" "length bs \<le> 65536"
  shows "requirePacket lib j = Inr bs"
proof -
  have "base642bin lib maxPacketBytes (encodePacketBase64 bs) = Some (bs, length (encodePacketBase64 bs))"
    using assms(1,4) rfc4648_encode [of bs] by (simp add: base64_lib_ok_def maxPacketBytes_def)
  moreover have "length (encodePacketBase64 bs) \<le> maxEncodedBytes" "length (encodePacketBase64 bs) mod 4 = 0"
    using assms(4) by (simp_all add: length_encode maxEncodedBytes_def maxPacketBytes_def)
  moreover have "encodePacketBase64 bs \<noteq> []" using length_encode [of bs] assms(3) by (cases bs) auto
  ultimately show ?thesis using assms(2,3) by (simp add: requirePacket_def requireString_def)
qed

lemma read_envelope_json:
  assumes "uuid_lib_ok lib" "base64_lib_ok lib" "protocol_version e \<noteq> []" "packet e \<noteq> []" "length (packet e) \<le> 65536"
  shows "read_envelope lib (envelope_json lib e) = Inr e"
proof -
  have u: "requireUuid lib (envelope_json lib e) ''envelope_id'' = Inr (envelope_id e)"
    "requireUuid lib (envelope_json lib e) ''message_id'' = Inr (message_id e)"
    "requireUuid lib (envelope_json lib e) ''sender_device_id'' = Inr (sender_device_id e)"
    "requireUuid lib (envelope_json lib e) ''recipient_device_id'' = Inr (recipient_device_id e)"
    by (rule requireUuid_print [OF assms(1)], simp add: envelope_json_def)+
  have "requirePacket lib (envelope_json lib e) = Inr (packet e)"
    by (rule requirePacket_print [OF assms(2) _ assms(4,5)]) (simp add: envelope_json_def)
  moreover have "requireString (envelope_json lib e) ''protocol_version'' = Inr (protocol_version e)"
    using assms(3) by (simp add: requireString_def envelope_json_def)
  moreover have "json_find ''seq'' (envelope_json lib e) = Some (JInt (seq e))" by (simp add: envelope_json_def)
  ultimately show ?thesis using u by (simp add: read_envelope_def)
qed

text \<open>
  C30. An envelope survives its way to a client: reading the JSON the server makes of it, in a push or a page, gives the
  same envelope, its packet byte for byte, for every packet the server stores (1 to 65536 bytes).
\<close>

theorem envelope_json_roundtrip:
  assumes "uuid_lib_ok lib" "base64_lib_ok lib"
    and "\<forall>e \<in> set (envelopes page). protocol_version e \<noteq> [] \<and> packet e \<noteq> [] \<and> length (packet e) \<le> 65536"
  shows "\<exists>js. json_find ''envelopes'' (sync_response lib req (Inr (Some page))) = Some (JArray js) \<and>
    map (read_envelope lib) js = map Inr (envelopes page)"
  using assms by (auto simp: sync_response_def Let_def failure_def read_envelope_json)

section \<open>A message from its sender to the store and the recipient\<close>

definition client_message :: "library \<Rightarrow> string \<Rightarrow> uuid \<Rightarrow> NewTextMessageRequest \<Rightarrow> json" where
  "client_message lib tok dev req = JObject
     [(''type'', JString ''chat.newTextMessage''), (''authorization'', JString (bearer @ tok)),
      (''sender_device_id'', JString (uuid_to_string lib dev)),
      (''message_id'', JString (uuid_to_string lib (nm_message_id req))),
      (''recipient_device_id'', JString (uuid_to_string lib (nm_recipient_device_id req))),
      (''protocol_version'', JString (nm_protocol_version req)),
      (''packet_base64'', JString (encodePacketBase64 (nm_packet req)))]"

definition client_frame :: "json \<Rightarrow> json \<Rightarrow> json" where
  "client_frame header payload = JObject [(''header'', header), (''payload_format'', JString ''json''), (''payload'', payload)]"

lemma client_uuids:
  assumes "uuid_lib_ok lib"
  shows "requireUuid lib (client_message lib tok dev req) ''sender_device_id'' = Inr dev"
    "requireUuid lib (client_message lib tok dev req) ''message_id'' = Inr (nm_message_id req)"
    "requireUuid lib (client_message lib tok dev req) ''recipient_device_id'' = Inr (nm_recipient_device_id req)"
  by (rule requireUuid_print [OF assms], simp add: client_message_def)+

lemma read_client_message:
  assumes lib: "uuid_lib_ok lib" "base64_lib_ok lib" and v: "valid_message user dev req"
  shows "read_new_message lib (client_message lib tok dev req) = Inr \<lparr>pm_sender_device_id = dev, pm_request = req\<rparr>"
proof -
  have p: "nm_packet req \<noteq> []" "length (nm_packet req) \<le> 65536" "length (nm_protocol_version req) \<le> 128"
    "find_first_not_of [CHR '' '', CHR 0x09, CR, LF] (nm_protocol_version req) \<noteq> None"
    using v by (auto simp: valid_message_def)
  then have "nm_protocol_version req \<noteq> []" by (auto simp: find_first_not_of_def Let_def)
  then have "requireString (client_message lib tok dev req) ''protocol_version'' = Inr (nm_protocol_version req)"
    by (simp add: requireString_def client_message_def)
  moreover have "requirePacket lib (client_message lib tok dev req) = Inr (nm_packet req)"
    by (rule requirePacket_print [OF lib(2) _ p(1,2)]) (simp add: client_message_def)
  moreover have "is_object (client_message lib tok dev req)" by (simp add: client_message_def)
  ultimately show ?thesis using p client_uuids [OF lib(1)] by (auto simp: read_new_message_def)
qed

definition message_context :: "library \<Rightarrow> string \<Rightarrow> uuid \<Rightarrow> uuid \<Rightarrow> NewTextMessageRequest \<Rightarrow> task_context" where
  "message_context lib tok user dev req =
     \<lparr>tk_payload = client_message lib tok dev req, tk_user = user, tk_auth = Inr user, tk_session_user = user, tk_session_device = dev\<rparr>"

lemma client_message_fields:
  "is_object (client_message lib tok dev req)"
  "authorization_of (client_message lib tok dev req) = Some (JString (bearer @ tok))"
  "json_find ''type'' (client_message lib tok dev req) = Some (JString ''chat.newTextMessage'')"
  by (simp_all add: client_message_def authorization_of_def)

lemma dispatch_message:
  assumes "token_for (lib_of env) (secret_of env) now user tok" "tok \<noteq> []" "\<not> stop p"
  shows "dispatch env now dev user (client_frame h (client_message (lib_of env) tok dev req)) (rs, p) =
    (Inr (), rs, snd (receiveTask (NewTextMessageTask (message_context (lib_of env) tok user dev req)) p))"
proof -
  have "authenticate_string (lib_of env) (secret_of env) now (bearer @ tok) = Inr (Inr user)"
    using assms by (auto simp: authenticate_string_Inr)
  with assms(3) show ?thesis
    by (simp add: dispatch_def bind_lift client_frame_def client_message_fields route_task_def parseType_def enqueue_def
        call_then receiveTask_def act_return_def message_context_def)
qed

lemma message_validated:
  assumes net: "\<And>n. net_of env n = Delivered" and lib: "uuid_lib_ok (lib_of env)"
    and w: "world_ok w" "can_borrow (fst w)" "usable_device (tables (snd w)) user dev"
  shows "\<exists>w1. validateSessionRequest env (Inr user) user dev (client_message (lib_of env) tok dev req) (rs, w) = (Inr True, rs, w1) \<and>
    world_ok w1 \<and> can_borrow (fst w1) \<and> tables (snd w1) = tables (snd w)"
proof -
  have k: "pool_clean (fst w)" "keys_ok (tables (snd w))" using w(1) by (simp_all add: world_ok_def store_ok_def)
  from identity_succeeds [of "net_of env", OF net k w(2,3), of "clock_of env"] obtain w1 where
    i: "verifySessionIdentity (net_of env) (clock_of env) user dev w = (Inr IdentitySuccess, w1)" "can_borrow (fst w1)" by blast
  have "validate_device env dev (client_message (lib_of env) tok dev req) (rs, w1) = (Inr True, rs, w1)"
    using client_uuids(1) [OF lib] by (simp add: validate_device_def client_message_fields device_field_def act_return_def)
  with i identity_checked [OF k i(1)] w(1) show ?thesis
    by (simp add: validateSessionRequest_def call_then world_ok_def)
qed

lemma message_saved:
  assumes net: "\<And>n. net n = Delivered" and w: "world_ok w" "can_borrow (fst w)"
    and m: "may_send (tables (snd w)) user dev (nm_recipient_device_id req)" "valid_message user dev req"
      "can_insert pg dev (nm_recipient_device_id req) (tables (snd w))" "CHR 0x00 \<notin> set (nm_protocol_version req)"
      "filter (same_request dev (nm_recipient_device_id req) (nm_message_id req)) (message_envelopes (tables (snd w))) = []"
  shows "\<exists>eid w'. newTextMessage net now pg user dev req w =
      (\<lparr>tm_status = ChatSuccess, tm_envelope = Some (row_envelope (new_row eid dev req (tables (snd w))))\<rparr>, w') \<and>
    tables (snd w') = (tables (snd w))\<lparr>message_envelopes := message_envelopes (tables (snd w)) @ [new_row eid dev req (tables (snd w))]\<rparr>"
proof -
  have k: "pool_clean (fst w)" "store_ok (tables (snd w))" using w(1) by (simp_all add: world_ok_def)
  from newTextMessage_completes [of net, OF net k w(2) m(3,2), of now] obtain r w' where
    n: "newTextMessage net now pg user dev req w = (stored_answer r, w')" "save_effect pg user dev req (tables (snd w)) r (tables (snd w'))"
    by blast
  with m(1,5) obtain eid where
    "tables (snd w') = (tables (snd w))\<lparr>message_envelopes := message_envelopes (tables (snd w)) @ [new_row eid dev req (tables (snd w))]\<rparr>"
    "r = stored_as Success dev req (row_envelope (new_row eid dev req (tables (snd w))))"
    by (auto simp: save_effect_def save_outcome_def Let_def)
  moreover have "stored_answer (stored_as Success dev req (row_envelope (new_row eid dev req (tables (snd w))))) =
      \<lparr>tm_status = ChatSuccess, tm_envelope = Some (row_envelope (new_row eid dev req (tables (snd w))))\<rparr>" for eid
    using c_str_id [OF m(4)] by (simp add: stored_as_def new_row_def)
  ultimately show ?thesis using n by metis
qed

text \<open>
  C6. The way of a message.  A client with a valid token sends a new message on its session, nothing is refused or lost,
  and it may write to the recipient: then \<^verbatim>\<open>dispatch\<close> queues exactly one task; the task stores one envelope with the
  next number of the two devices and the packet as sent, and sends two messages: first the push, which names the
  recipient's device and from which the envelope can be read back, then the answer of success with its identifier and
  number.
\<close>

theorem message_stored_pushed_answered:
  assumes lib: "uuid_lib_ok lib" "base64_lib_ok lib" and env: "lib_of env = lib" "lib_of env' = lib"
    and tok: "token_for lib (secret_of env) now user tok" "tok \<noteq> []" and p: "\<not> stop p"
    and net: "\<And>n. net_of env' n = Delivered" and w: "world_ok w" "can_borrow (fst w)"
    and m: "may_send (tables (snd w)) user dev (nm_recipient_device_id req)" "valid_message user dev req"
      "can_insert (pg_of env') dev (nm_recipient_device_id req) (tables (snd w))" "CHR 0x00 \<notin> set (nm_protocol_version req)"
      "filter (same_request dev (nm_recipient_device_id req) (nm_message_id req)) (message_envelopes (tables (snd w))) = []"
  shows "\<exists>t. dispatch env now dev user (client_frame h (client_message lib tok dev req)) ([], p) =
      (Inr (), [], p\<lparr>tasks := tasks p @ [t], accepted := accepted p @ [t]\<rparr>) \<and>
    (\<exists>r w' push answer row e. run_service_task env' t ([], w) = (r, [push, answer], w') \<and>
      tables (snd w') = (tables (snd w))\<lparr>message_envelopes := message_envelopes (tables (snd w)) @ [row]\<rparr> \<and>
      row_envelope row = e \<and> sender_device_id e = dev \<and> recipient_device_id e = nm_recipient_device_id req \<and>
      message_id e = nm_message_id req \<and> packet e = nm_packet req \<and> protocol_version e = nm_protocol_version req \<and>
      seq e = int (length (pair_seqs dev (nm_recipient_device_id req) (tables (snd w)))) + 1 \<and>
      json_find ''type'' push = Some (JString ''Online_Sync'') \<and>
      json_find ''recipientDeviceId'' push = Some (JString (uuid_to_string lib (nm_recipient_device_id req))) \<and>
      (\<exists>j. json_find ''envelope'' push = Some j \<and> read_envelope lib j = Inr e) \<and>
      json_find ''success'' answer = Some (JBool True) \<and> json_find ''seq'' answer = Some (JInt (seq e)) \<and>
      json_find ''envelope_id'' answer = Some (JString (uuid_to_string lib (envelope_id e))))"
proof -
  let ?st = "tables (snd w)" and ?c = "message_context lib tok user dev req"
  have u: "usable_device ?st user dev" using m(1) by (simp add: may_send_def)
  obtain w1 where v: "validateSessionRequest env' (Inr user) user dev (client_message lib tok dev req) ([], w) = (Inr True, [], w1)"
    "world_ok w1" "can_borrow (fst w1)" "tables (snd w1) = ?st"
    using message_validated [of env', OF net _ w u, where tok = tok and req = req and rs = "[]"] env lib(1) by auto
  obtain eid w2 where s: "newTextMessage (net_of env') (clock_of env') (pg_of env') user dev req w1 =
      (\<lparr>tm_status = ChatSuccess, tm_envelope = Some (row_envelope (new_row eid dev req ?st))\<rparr>, w2)"
    "tables (snd w2) = ?st\<lparr>message_envelopes := message_envelopes ?st @ [new_row eid dev req ?st]\<rparr>"
    using message_saved [of "net_of env'", OF net v(2,3), of user dev req "pg_of env'" "clock_of env'"] m v(4) by auto
  define e where "e = row_envelope (new_row eid dev req ?st)"
  have ok: "envelopes_ok ?st" using w(1) by (simp add: world_ok_def store_ok_def)
  have e: "sender_device_id e = dev" "recipient_device_id e = nm_recipient_device_id req" "message_id e = nm_message_id req"
    "packet e = nm_packet req" "protocol_version e = nm_protocol_version req"
    "seq e = int (length (pair_seqs dev (nm_recipient_device_id req) ?st)) + 1"
    using c_str_id [OF m(4)] next_seq_count [OF ok] by (simp_all add: e_def new_row_def)
  have "read_new_message lib (client_message lib tok dev req) = Inr \<lparr>pm_sender_device_id = dev, pm_request = req\<rparr>"
    using read_client_message [OF lib m(2)] .
  then have "\<exists>r. message_task env' ?c ([], w) = (r, [push_json lib e, message_response lib \<lparr>tm_status = ChatSuccess, tm_envelope = Some e\<rparr>], w2)"
    using v(1) s(1) env(2)
    by (simp add: message_task_def validated_def message_context_def act_bind_def parseNewMessage_def reading_def act_return_def
        act_call_def message_push_def reply_def e_def [symmetric])
  then obtain r where r: "run_service_task env' (NewTextMessageTask ?c) ([], w) =
      (r, [push_json lib e, message_response lib \<lparr>tm_status = ChatSuccess, tm_envelope = Some e\<rparr>], w2)" by auto
  have "read_envelope lib (envelope_json lib e) = Inr e"
  proof (rule read_envelope_json [OF lib])
    show "protocol_version e \<noteq> []" "packet e \<noteq> []" "length (packet e) \<le> 65536"
      using e(4,5) m(2) by (auto simp: valid_message_def find_first_not_of_def Let_def)
  qed
  moreover have "dispatch env now dev user (client_frame h (client_message lib tok dev req)) ([], p) =
      (Inr (), [], p\<lparr>tasks := tasks p @ [NewTextMessageTask ?c], accepted := accepted p @ [NewTextMessageTask ?c]\<rparr>)"
    using dispatch_message [of env, unfolded env(1), OF tok p] p by (simp add: receiveTask_def)
  ultimately show ?thesis using r s(2) e
    by (intro exI [of _ "NewTextMessageTask ?c"] conjI)
      (simp_all add: push_json_def message_response_def stored_json_def failure_def e_def [symmetric], metis e_def)
qed

section \<open>Concrete requests\<close>

definition demo_lib64 :: library where
  "demo_lib64 = demo_lib\<lparr>base642bin := (\<lambda>n s. case rfc4648 s of
     Some bs \<Rightarrow> if length bs \<le> n then Some (bs, length s) else None | None \<Rightarrow> None)\<rparr>"

lemma demo_lib64_ok: "uuid_lib_ok demo_lib64" "base64_lib_ok demo_lib64" "base64_lib_bounded demo_lib64"
  using demo_uuid_ok
  by (auto simp: uuid_lib_ok_def base64_lib_ok_def base64_lib_bounded_def demo_lib64_def split: option.splits if_splits)

definition demo_token :: "uuid \<Rightarrow> string" where
  "demo_token u = print_uuid u @ to_string_nat 900"

lemma demo_token_for: "now < 900 \<Longrightarrow> token_for demo_lib64 secret now u (demo_token u)"
  using scan_print_uuid [of u] by (simp add: token_for_def demo_lib64_def demo_lib_def demo_jwt_def demo_token_def)

definition demo_env :: dispatcher_env where
  "demo_env = \<lparr>lib_of = demo_lib64, secret_of = ''secret'', net_of = (\<lambda>_. Delivered), clock_of = 0, pg_of = sample_env, wake_fails = (\<lambda>_. False)\<rparr>"

definition demo_pool :: "service_task ServiceThreadPool" where
  "demo_pool = \<lparr>threadCount = 1, tasks = [], threads = [], stop = False, accepted = [], started = [], finished = []\<rparr>"

definition demo_frame :: json where
  "demo_frame = client_frame JNull (client_message demo_lib64 (demo_token 1) 11 sample_message)"

lemma demo_world: "world_ok sample_chat" "can_borrow (fst sample_chat)" "tables (snd sample_chat) = sample_store"
  using sample_chat_ok by (simp_all add: world_ok_def sample_chat_def)

lemma demo_dispatch:
  "dispatch demo_env 100 11 1 demo_frame ([], demo_pool) =
     (Inr (), [], snd (receiveTask (NewTextMessageTask (message_context demo_lib64 (demo_token 1) 1 11 sample_message)) demo_pool))"
proof -
  have f: "lib_of demo_env = demo_lib64" "secret_of demo_env = ''secret''" by (simp_all add: demo_env_def)
  have "token_for (lib_of demo_env) (secret_of demo_env) 100 1 (demo_token 1)" using demo_token_for [of 100] f by simp
  moreover have "demo_token 1 \<noteq> []" by (metis append_is_Nil_conv demo_token_def length_0_conv length_print_uuid zero_neq_numeral)
  ultimately show ?thesis using dispatch_message [of demo_env 100 1 "demo_token 1" demo_pool] f
    by (simp add: demo_frame_def demo_pool_def)
qed

theorem request_acts_for_its_session_witness:
  "\<exists>t r rs' w'. accepted (snd (snd (dispatch demo_env 100 11 1 demo_frame ([], demo_pool)))) = [t] \<and>
     run_service_task demo_env t ([], sample_chat) = (r, rs', w') \<and> acts_for 11 sample_store (tables (snd w')) \<and>
     (\<forall>j \<in> set rs'. own_reply demo_lib64 11 (tables (snd w')) j)"
proof -
  let ?t = "NewTextMessageTask (message_context demo_lib64 (demo_token 1) 1 11 sample_message)"
  have q: "accepted (snd (receiveTask ?t demo_pool)) = accepted demo_pool @ [?t]" by (simp add: receiveTask_def demo_pool_def)
  obtain r rs' w' where run: "run_service_task demo_env ?t ([], sample_chat) = (r, rs', w')" by (metis surj_pair)
  have f: "lib_of demo_env = demo_lib64" "accepted demo_pool = []" by (simp_all add: demo_env_def demo_pool_def)
  from request_acts_for_its_session [OF demo_dispatch q demo_world(1) run] f(1) demo_world(3)
  have "acts_for 11 sample_store (tables (snd w'))" "\<forall>j \<in> set rs'. own_reply demo_lib64 11 (tables (snd w')) j" by auto
  with run q f(2) show ?thesis unfolding demo_dispatch by (intro exI [of _ ?t] exI [of _ r] exI [of _ rs'] exI [of _ w']) simp
qed


theorem readers_agree_with_services_witness:
  "\<exists>m. read_new_message demo_lib64 (client_message demo_lib64 (demo_token 1) 11 sample_message) = Inr m \<and>
     valid_message 1 (pm_sender_device_id m) (pm_request m)"
proof -
  have r: "read_new_message demo_lib64 (client_message demo_lib64 (demo_token 1) 11 sample_message) =
      Inr \<lparr>pm_sender_device_id = 11, pm_request = sample_message\<rparr>"
    by (rule read_client_message [OF demo_lib64_ok(1,2) sample_valid])
  from readers_agree_with_services [OF demo_lib64_ok(1,3), of 1 "client_message demo_lib64 (demo_token 1) 11 sample_message"] r
  show ?thesis by (simp add: sample_message_def)
qed

theorem envelope_json_roundtrip_witness:
  "\<exists>js. json_find ''envelopes'' (sync_response demo_lib64 \<lparr>sy_device_id = 22, cursors = []\<rparr>
       (Inr (Some \<lparr>envelopes = [row_envelope sample_row], has_more = False\<rparr>))) = Some (JArray js) \<and>
     map (read_envelope demo_lib64) js = [Inr (row_envelope sample_row)]"
  using envelope_json_roundtrip [OF demo_lib64_ok(1,2), of "\<lparr>envelopes = [row_envelope sample_row], has_more = False\<rparr>"
      "\<lparr>sy_device_id = 22, cursors = []\<rparr>"]
  by (simp add: sample_row_def new_row_def sample_message_def c_str_def)

theorem message_stored_pushed_answered_witness:
  "\<exists>t r w' push answer row. accepted (snd (snd (dispatch demo_env 100 11 1 demo_frame ([], demo_pool)))) = [t] \<and>
     run_service_task demo_env t ([], sample_chat) = (r, [push, answer], w') \<and>
     message_envelopes (tables (snd w')) = [row] \<and> packet (row_envelope row) = [1, 2, 3] \<and> seq (row_envelope row) = 1 \<and>
     json_find ''success'' answer = Some (JBool True)"
proof -
  have f: "lib_of demo_env = demo_lib64" "secret_of demo_env = ''secret''" "net_of demo_env n = Delivered" "pg_of demo_env = sample_env" for n
    by (simp_all add: demo_env_def)
  have t: "token_for demo_lib64 (secret_of demo_env) 100 1 (demo_token 1)" using demo_token_for [of 100] by simp
  have ne: "demo_token 1 \<noteq> []" by (metis append_is_Nil_conv demo_token_def length_0_conv length_print_uuid zero_neq_numeral)
  have i: "can_insert (pg_of demo_env) 11 (nm_recipient_device_id sample_message) (tables (snd sample_chat))"
    by (simp add: f demo_world can_insert_def sample_store_def next_seq_def pair_seqs_def int64_max_def)
  have m: "may_send (tables (snd sample_chat)) 1 11 (nm_recipient_device_id sample_message)"
    using sample_may_send by (simp add: demo_world sample_message_def)
  have n: "CHR 0x00 \<notin> set (nm_protocol_version sample_message)" "nm_packet sample_message = [1, 2, 3]" by (simp_all add: sample_message_def)
  have z: "filter q (message_envelopes (tables (snd sample_chat))) = []" "\<not> stop demo_pool" "accepted demo_pool = []"
    "message_envelopes (tables (snd sample_chat)) = []" "pair_seqs a b (tables (snd sample_chat)) = []" for q a b
    by (simp_all add: demo_world sample_store_def demo_pool_def pair_seqs_def)
  from message_stored_pushed_answered [OF demo_lib64_ok(1,2) f(1) f(1) t ne z(2) f(3) demo_world(1,2) m sample_valid i n(1) z(1), of JNull]
  show ?thesis unfolding demo_frame_def by (auto simp: z n)
qed

end
