(* ===== verification/Evolution.thy ===== *)
theory Evolution
  imports Store_Service
begin

text \<open>
  What no operation of the server ever undoes, as a preorder on the tables: rows of accounts, devices, tickets, prekeys,
  friend requests and envelopes stay where they are, and their states move in one direction only.  A device that has been
  revoked stays revoked, a login ticket that has been consumed stays consumed, a claimed prekey stays claimed, a friend
  request that has been decided keeps its decision.  It is the abstract specification that all repositories refine: each
  operation's theory shows that the operation's effect is a step of it.
\<close>

section \<open>Lists that grow\<close>

text \<open>The rows of a table after an operation: the old ones, changed in place as \<open>R\<close> allows, then new ones.\<close>

definition table_grows :: "('a \<Rightarrow> 'a \<Rightarrow> bool) \<Rightarrow> 'a list \<Rightarrow> 'a list \<Rightarrow> bool" where
  "table_grows R xs ys \<longleftrightarrow> (\<exists>us vs. ys = us @ vs \<and> list_all2 R xs us)"

lemma table_grows_refl [simp, intro]: "(\<And>x. R x x) \<Longrightarrow> table_grows R xs xs"
  unfolding table_grows_def by (intro exI [of _ xs] exI [of _ "[]"]) (simp add: list_all2_same)

lemma table_grows_trans:
  assumes R: "\<And>x y z. R x y \<Longrightarrow> R y z \<Longrightarrow> R x z" and xy: "table_grows R xs ys" and yz: "table_grows R ys zs"
  shows "table_grows R xs zs"
proof -
  obtain us vs where u: "ys = us @ vs" "list_all2 R xs us" using xy by (auto simp: table_grows_def)
  obtain us' vs' where z: "zs = us' @ vs'" "list_all2 R ys us'" using yz by (auto simp: table_grows_def)
  with u obtain a b where a: "us' = a @ b" "list_all2 R us a" by (auto simp: list_all2_append1)
  have "list_all2 R xs a" by (rule list_all2_trans [OF R u(2) a(2)])
  with z a show ?thesis by (auto simp: table_grows_def)
qed

lemma table_grows_append: "(\<And>x. R x x) \<Longrightarrow> table_grows R xs (xs @ ys)"
  unfolding table_grows_def by (intro exI [of _ xs] exI [of _ ys]) (simp add: list_all2_same)

lemma table_grows_map: "(\<And>x. x \<in> set xs \<Longrightarrow> R x (f x)) \<Longrightarrow> table_grows R xs (map f xs)"
  unfolding table_grows_def by (intro exI [of _ "map f xs"] exI [of _ "[]"]) (simp add: list_all2_map2 list_all2_same)

lemma table_grows_mem: "table_grows R xs ys \<Longrightarrow> x \<in> set xs \<Longrightarrow> \<exists>y \<in> set ys. R x y"
  unfolding table_grows_def by (auto simp: list_all2_conv_all_nth in_set_conv_nth) (metis nth_append nth_mem Un_iff set_append)

section \<open>The directions of the tables' states\<close>

fun device_step :: "user_device \<Rightarrow> user_device \<Rightarrow> bool" where
  "device_step a b \<longleftrightarrow> ud_device_id b = ud_device_id a \<and> ud_user_id b = ud_user_id a \<and>
     ud_identity_public_key b = ud_identity_public_key a \<and>
     (ud_status b = ud_status a \<or> (ud_status a = ''active'' \<and> ud_status b = ''revoked''))"

fun ticket_step :: "login_ticket \<Rightarrow> login_ticket \<Rightarrow> bool" where
  "ticket_step a b \<longleftrightarrow> lt_ticket_hash b = lt_ticket_hash a \<and> lt_user_id b = lt_user_id a \<and>
     lt_expires_at b = lt_expires_at a \<and> (lt_consumed_at a \<noteq> None \<longrightarrow> lt_consumed_at b = lt_consumed_at a)"

fun prekey_step :: "one_time_prekey \<Rightarrow> one_time_prekey \<Rightarrow> bool" where
  "prekey_step a b \<longleftrightarrow> pk_device_id b = pk_device_id a \<and> pk_prekey_id b = pk_prekey_id a \<and>
     pk_public_key b = pk_public_key a \<and>
     (pk_state b = pk_state a \<or> (pk_state a = ''available'' \<and> pk_state b = ''claimed''))"

fun request_step :: "friend_request \<Rightarrow> friend_request \<Rightarrow> bool" where
  "request_step a b \<longleftrightarrow> fq_id b = fq_id a \<and> fq_requester_id b = fq_requester_id a \<and> fq_recipient_id b = fq_recipient_id a \<and>
     (fq_status b = fq_status a \<or> fq_status a = ''pending'')"

fun envelope_step :: "envelope_row \<Rightarrow> envelope_row \<Rightarrow> bool" where
  "envelope_step a b \<longleftrightarrow> row_envelope b = row_envelope a \<and> (received_at a \<noteq> None \<longrightarrow> received_at b = received_at a)"

definition evolves :: "store \<Rightarrow> store \<Rightarrow> bool" where
  "evolves st st' \<longleftrightarrow>
     table_grows (=) (users st) (users st') \<and> table_grows (=) (password_credentials st) (password_credentials st') \<and>
     table_grows device_step (user_devices st) (user_devices st') \<and>
     set (friend_relation st) \<subseteq> set (friend_relation st') \<and>
     table_grows request_step (friend_requests st) (friend_requests st') \<and>
     table_grows ticket_step (login_tickets st) (login_tickets st') \<and>
     table_grows prekey_step (one_time_prekeys st) (one_time_prekeys st') \<and>
     table_grows envelope_step (message_envelopes st) (message_envelopes st')"

lemma evolves_refl [simp, intro]: "evolves st st"
  by (auto simp: evolves_def)

lemma evolves_trans [trans]:
  assumes "evolves a b" "evolves b c"
  shows "evolves a c"
proof -
  have "table_grows (=) (users a) (users c)" "table_grows (=) (password_credentials a) (password_credentials c)"
    using assms unfolding evolves_def by (meson table_grows_trans [of "(=)"] trans)+
  moreover have "table_grows device_step (user_devices a) (user_devices c)"
    by (rule table_grows_trans [of device_step _ "user_devices b"]) (use assms in \<open>auto simp: evolves_def\<close>)
  moreover have "table_grows request_step (friend_requests a) (friend_requests c)"
    by (rule table_grows_trans [of request_step _ "friend_requests b"]) (use assms in \<open>auto simp: evolves_def\<close>)
  moreover have "table_grows ticket_step (login_tickets a) (login_tickets c)"
    by (rule table_grows_trans [of ticket_step _ "login_tickets b"]) (use assms in \<open>auto simp: evolves_def\<close>)
  moreover have "table_grows prekey_step (one_time_prekeys a) (one_time_prekeys c)"
    by (rule table_grows_trans [of prekey_step _ "one_time_prekeys b"]) (use assms in \<open>auto simp: evolves_def\<close>)
  moreover have "table_grows envelope_step (message_envelopes a) (message_envelopes c)"
    by (rule table_grows_trans [of envelope_step _ "message_envelopes b"]) (use assms in \<open>auto simp: evolves_def\<close>)
  ultimately show ?thesis using assms by (auto simp: evolves_def)
qed

section \<open>The contract of an operation\<close>

text \<open>
  An operation on well-formed tables that refines \<open>evolves\<close>.  A call is \<open>orderly\<close> if it does so whatever the
  network does; calls are composed of orderly calls.
\<close>

definition orderly :: "(store_world \<Rightarrow> 'r \<times> store_world) \<Rightarrow> bool" where
  "orderly call \<longleftrightarrow> (\<forall>w. world_ok w \<longrightarrow>
     world_ok (snd (call w)) \<and> evolves (tables (snd w)) (tables (snd (snd (call w)))))"

locale evolving = store_service +
  assumes progress: "store_ok st \<Longrightarrow> effect st r st' \<Longrightarrow> evolves st st'"
begin

lemma orderly: "orderly call"
  unfolding orderly_def
proof (intro allI impI)
  fix w assume w: "world_ok w"
  have "call w = (fst (call w), snd (call w))" by simp
  from serves [OF w this] have s: "world_ok (snd (call w))" "effect (tables (snd w)) (fst (call w)) (tables (snd (snd (call w))))"
    by simp_all
  have "store_ok (tables (snd w))" using w by (simp add: world_ok_def)
  from s(1) progress [OF this s(2)]
  show "world_ok (snd (call w)) \<and> evolves (tables (snd w)) (tables (snd (snd (call w))))" ..
qed

end

lemma orderlyD:
  "orderly call \<Longrightarrow> world_ok w \<Longrightarrow> call w = (r, w') \<Longrightarrow> world_ok w' \<and> evolves (tables (snd w)) (tables (snd w'))"
  unfolding orderly_def by (metis snd_conv)

named_theorems orderly_calls \<open>the operations that refine the preorder\<close>

text \<open>How services combine calls: not at all, one after another, one with its result converted.\<close>

lemma orderly_return [simp, intro]: "orderly (\<lambda>w. (r, w))"
  by (simp add: orderly_def)

lemma orderly_seq [intro]:
  assumes "orderly f" "\<And>r. orderly (g r)"
  shows "orderly (\<lambda>w. case f w of (r, w1) \<Rightarrow> g r w1)"
  unfolding orderly_def
proof (intro allI impI)
  fix w assume w: "world_ok w"
  obtain r w1 where f: "f w = (r, w1)" by (cases "f w")
  from orderlyD [OF assms(1) w f] have w1: "world_ok w1" "evolves (tables (snd w)) (tables (snd w1))" by simp_all
  obtain r2 w2 where g: "g r w1 = (r2, w2)" by (cases "g r w1")
  from orderlyD [OF assms(2) w1(1) g] w1(2) f g
  show "world_ok (snd (case f w of (r, w1) \<Rightarrow> g r w1)) \<and>
      evolves (tables (snd w)) (tables (snd (snd (case f w of (r, w1) \<Rightarrow> g r w1))))"
    by (auto intro: evolves_trans)
qed

lemma orderly_if [intro]: "orderly f \<Longrightarrow> orderly g \<Longrightarrow> orderly (\<lambda>w. if c then f w else g w)"
  by (cases c) simp_all

lemma orderly_ext: "(\<And>w. g w = f w) \<Longrightarrow> orderly f \<Longrightarrow> orderly g"
  by (simp add: orderly_def)

lemma orderly_world: "(\<And>w. snd (g w) = snd (f w)) \<Longrightarrow> orderly f \<Longrightarrow> orderly g"
  by (simp add: orderly_def)

lemma orderly_sum:
  assumes "orderly f" "\<And>r. orderly (g r)"
  shows "orderly (\<lambda>w. case f w of (x, w1) \<Rightarrow> (case x of Inl e \<Rightarrow> (h e, w1) | Inr r \<Rightarrow> g r w1))"
proof (rule orderly_seq [OF assms(1)])
  show "orderly (\<lambda>w1. case x of Inl e \<Rightarrow> (h e, w1) | Inr r \<Rightarrow> g r w1)" for x
    by (cases x) (simp_all add: assms(2))
qed

lemma orderly_option:
  "orderly f \<Longrightarrow> (\<And>y. orderly (g y)) \<Longrightarrow> orderly (\<lambda>w. case x of None \<Rightarrow> f w | Some y \<Rightarrow> g y w)"
  by (cases x) simp_all

lemma orderly_either:
  "(\<And>e. orderly (f e)) \<Longrightarrow> (\<And>y. orderly (g y)) \<Longrightarrow> orderly (\<lambda>w. case x of Inl e \<Rightarrow> f e w | Inr y \<Rightarrow> g y w)"
  by (cases x) simp_all

lemma orderly_bool: "orderly f \<Longrightarrow> orderly g \<Longrightarrow> orderly (\<lambda>w. case b of True \<Rightarrow> f w | False \<Rightarrow> g w)"
  by (cases b) simp_all

lemmas orderly_structure = orderly_sum orderly_bool orderly_option orderly_either orderly_if orderly_return

section \<open>Effects of the envelope store\<close>

text \<open>Operations on the other tables leave the envelopes well-formed.\<close>

lemma envelopes_ok_cong: "message_envelopes st' = message_envelopes st \<Longrightarrow> envelopes_ok st' = envelopes_ok st"
  by (simp add: envelopes_ok_def pair_seqs_def)

lemma tx_result_evolves:
  assumes "\<And>x. R st x st' \<Longrightarrow> evolves st st'" "tx_result R st r st'"
  shows "evolves st st'"
  using tx_result_cases [OF assms(2)] assms(1) by auto

lemma read_evolving:
  "read_only q \<Longrightarrow> evolving (with_lease net now (db_bind (execute net (Sql q)) (\<lambda>x. db_lift (g x)))) (read_result q g)"
  by (intro evolving.intro read_store_service evolving_axioms.intro) (auto dest: read_result_same)

lemma transaction_evolving:
  assumes "tx_safe f" "\<And>st x st'. store_ok st \<Longrightarrow> tx_runs f st x st' \<Longrightarrow> store_ok st' \<and> evolves st st' \<and> R st x st'"
  shows "evolving (with_lease net now (withTransaction net f)) (tx_result (\<lambda>st x st'. evolves st st' \<and> R st x st'))"
proof (intro evolving.intro transaction_store_service evolving_axioms.intro)
  show "tx_safe f" by (rule assms(1))
  show "store_ok st \<Longrightarrow> tx_runs f st x st' \<Longrightarrow> store_ok st' \<and> evolves st st' \<and> R st x st'" for st x st'
    using assms(2) by blast
  show "evolves st st'" if "tx_result (\<lambda>st x st'. evolves st st' \<and> R st x st') st r st'" for st r st'
    using that by (rule tx_result_evolves [rotated]) simp
qed

text \<open>The calls of the chat service.\<close>

lemma evolves_envelopes:
  "table_grows envelope_step (message_envelopes st) rs \<Longrightarrow> evolves st (st\<lparr>message_envelopes := rs\<rparr>)"
  by (simp add: evolves_def)

lemma ack_evolves: "ack_effect user device ids st r st' \<Longrightarrow> evolves st st'"
  by (auto simp: ack_effect_def acked_row_def split: if_splits intro!: evolves_envelopes table_grows_map)

lemma save_evolves: "save_effect env user sender req st r st' \<Longrightarrow> evolves st st'"
  by (auto simp: save_effect_def save_outcome_def Let_def split: if_splits list.splits intro!: evolves_envelopes table_grows_append)

interpretation new_message: evolving "newTextMessage net now env user sender req"
  "\<lambda>st a st'. if valid_message user sender req then answered env user sender req st a st' else a = status_only InvalidRequest \<and> st' = st"
  for net now env user sender req
  by unfold_locales (auto simp: answered_def dest: save_evolves split: if_splits)

interpretation sync_page: evolving "syncEnvelopePage net now user req"
  "\<lambda>st r st'. st' = st \<and> (\<forall>x. r = Inr x \<longrightarrow> x = (if usable_device st user (sy_device_id req)
     then Some (page_of (sy_device_id req) (cursors req) st) else None))"
  for net now user req
  by unfold_locales simp

interpretation acknowledge: evolving "chat_ackEnvelopes net now env user req"
  "tx_result (ack_effect user (ack_device_id req) (envelope_ids req))"
  for net now env user req
  by unfold_locales (rule tx_result_evolves [OF ack_evolves])

lemma orderly_chat [orderly_calls]:
  "orderly (newTextMessage net now env user sender req)" "orderly (syncEnvelopePage net now user sreq)"
  "orderly (chat_ackEnvelopes net now env user areq)"
  by (rule new_message.orderly sync_page.orderly acknowledge.orderly)+

end
