(* ===== verification/Accounts.thy ===== *)
theory Accounts
  imports Evolution Identity "HOL-Library.List_Lexorder"
begin

text \<open>
  Accounts, friends and the revocation of devices: \<^verbatim>\<open>src/src/repository/UserRepository.cpp\<close> and
  \<^verbatim>\<open>src/src/service/UserService.cpp\<close>.  A friend request is pending until its recipient accepts or rejects it or its
  requester cancels it; accepting it makes the two users friends in both directions in the same transaction.  Revoking a
  device also revokes its refresh tokens.

  The constraints of the tables are those that the migrations, \<^verbatim>\<open>docs/database.md\<close> and the codes and names checked by
  the source describe; a violated constraint is an error with its SQLSTATE and name.
\<close>

section \<open>Data\<close>

record PasswordLoginRecord =
  pl_id :: uuid
  pl_display_name :: string
  pl_is_active :: bool
  pl_password_hash :: string
  pl_username :: string

record User =
  usr_id :: uuid
  usr_display_name :: string
  usr_username :: string

record FriendshipRequestRecord =
  fr_request_id :: uuid
  fr_id :: uuid
  fr_username :: string
  fr_display_name :: string
  fr_message :: string
  fr_request_time :: int

datatype FriendRequestAction = Accept | Reject | Cancel

datatype FriendRequestProcessResult =
    ProcessSuccess | AlreadyProcessed | RequestNotFound | RequestForbidden | RequestConflict | InvalidAction

datatype RevokeDeviceResult = RevokeSuccess | RevokeDeviceNotFound | RevokeNotYourDevice | AlreadyRevoked | RevokeNotActive

datatype UserServiceErrorCode =
    UserNotFound | CannotAddSelf | InvalidPassword | RevokedDevice | ServiceNotYourDevice | ServiceDeviceNotFound
  | DeviceNotActive | ServiceNoSuchDevice | ServiceNotActivated

section \<open>Accounts\<close>

definition sql_bool :: "bool \<Rightarrow> string" where
  "sql_bool b = (if b then ''t'' else ''f'')"

definition sql_login_by_email :: "pg_env \<Rightarrow> string \<Rightarrow> (store, (uuid \<times> string \<times> string \<times> string \<times> string) list) query" where
  "sql_login_by_email env email n st =
     Inr ([(us_id u, us_display_name u, sql_bool (us_is_active u), pc_password_hash p, us_username u).
            p \<leftarrow> password_credentials st, u \<leftarrow> users st,
            us_id u = pc_user_id p \<and> sql_lower env (pc_login_email p) = sql_lower env (c_str email)], st)"

fun login_record :: "(uuid \<times> string \<times> string \<times> string \<times> string) list \<Rightarrow> PasswordLoginRecord option result" where
  "login_record [] = Inr None"
| "login_record ((i, display_name, active, hash, username) # _) =
     Inr (Some \<lparr>pl_id = i, pl_display_name = display_name, pl_is_active = (active = ''t''), pl_password_hash = hash,
                pl_username = username\<rparr>)"

definition FindLoginRecordByEmail ::
  "(nat \<Rightarrow> network) \<Rightarrow> int \<Rightarrow> pg_env \<Rightarrow> string \<Rightarrow> store_world \<Rightarrow> PasswordLoginRecord option result \<times> store_world" where
  "FindLoginRecordByEmail net now env email =
     with_lease net now (db_bind (execute net (Sql (sql_login_by_email env email))) (\<lambda>rows. db_lift (login_record rows)))"

definition sql_password_hash :: "uuid \<Rightarrow> (store, string list) query" where
  "sql_password_hash user_id n st =
     Inr (map pc_password_hash (filter (\<lambda>p. pc_user_id p = user_id) (password_credentials st)), st)"

definition first_row :: "'a list \<Rightarrow> 'a option result" where
  "first_row rows = Inr (case rows of [] \<Rightarrow> None | x # _ \<Rightarrow> Some x)"

definition FindLoginRecordByUserId ::
  "(nat \<Rightarrow> network) \<Rightarrow> int \<Rightarrow> uuid \<Rightarrow> store_world \<Rightarrow> string option result \<times> store_world" where
  "FindLoginRecordByUserId net now user_id =
     with_lease net now (db_bind (execute net (Sql (sql_password_hash user_id))) (\<lambda>rows. db_lift (first_row rows)))"

text \<open>\<^verbatim>\<open>CHECK (username ~ '^[a-z0-9_.]{3,30}$')\<close> and the checks that a text is not blank.\<close>

definition users_check :: "string \<Rightarrow> bool" where
  "users_check s \<longleftrightarrow> 3 \<le> length s \<and> length s \<le> 30 \<and> list_all (\<lambda>c. c \<in> set ''abcdefghijklmnopqrstuvwxyz0123456789_.'') s"

definition not_blank :: "string \<Rightarrow> bool" where
  "not_blank s \<longleftrightarrow> (\<exists>c \<in> set s. c \<noteq> CHR '' '')"

definition sql_insert_user :: "pg_env \<Rightarrow> string \<Rightarrow> string \<Rightarrow> (store, (uuid \<times> string \<times> string) list) query" where
  "sql_insert_user env display_name username n st =
     (let i = gen_random_uuid env n in
      if \<not> users_check username then Inl (''23514'', ''users_check'')
      else if \<not> not_blank display_name then Inl (''23514'', ''users_display_name_not_blank'')
      else if \<exists>u \<in> set (users st). us_id u = i then Inl (''23505'', ''users_pkey'')
      else if \<exists>u \<in> set (users st). us_username u = username then Inl (''23505'', ''users_unique'')
      else Inr ([(i, display_name, username)],
                st\<lparr>users := users st @ [\<lparr>us_id = i, us_is_active = True, us_display_name = display_name, us_username = username\<rparr>]\<rparr>))"

definition sql_insert_credential :: "pg_env \<Rightarrow> uuid \<Rightarrow> string \<Rightarrow> string \<Rightarrow> (store, unit) query" where
  "sql_insert_credential env user_id email hash n st =
     (if \<not> not_blank email then Inl (''23514'', ''password_credentials_email_not_blank'')
      else if \<not> not_blank hash then Inl (''23514'', ''password_credentials_hash_not_blank'')
      else if \<exists>p \<in> set (password_credentials st). pc_user_id p = user_id
      then Inl (''23505'', ''password_credentials_pkey'')
      else if \<exists>p \<in> set (password_credentials st). sql_lower env (pc_login_email p) = sql_lower env email
      then Inl (''23505'', ''password_credentials_login_email_unique'')
      else if \<forall>u \<in> set (users st). us_id u \<noteq> user_id then Inl (''23503'', ''password_credentials_user_id_fkey'')
      else Inr ((), st\<lparr>password_credentials := password_credentials st @
                        [\<lparr>pc_user_id = user_id, pc_login_email = email, pc_password_hash = hash\<rparr>]\<rparr>))"

definition create_user_body ::
  "(nat \<Rightarrow> network) \<Rightarrow> pg_env \<Rightarrow> string \<Rightarrow> string \<Rightarrow> string \<Rightarrow> string \<Rightarrow> (store, User) db" where
  "create_user_body net env email hash display_name username =
     db_bind (execute net (Sql (sql_insert_user env (c_str display_name) (c_str username)))) (\<lambda>rows.
     case rows of
       [] \<Rightarrow> db_throw (LogicError ''Cannot read a null database value'')
     | (i, name, uname) # _ \<Rightarrow>
         db_bind (execute net (Sql (sql_insert_credential env i (c_str email) (c_str hash)))) (\<lambda>_.
         db_return \<lparr>usr_id = i, usr_display_name = name, usr_username = uname\<rparr>))"

definition CreateNewUserByEmail ::
  "(nat \<Rightarrow> network) \<Rightarrow> int \<Rightarrow> pg_env \<Rightarrow> string \<Rightarrow> string \<Rightarrow> string \<Rightarrow> string \<Rightarrow> store_world
     \<Rightarrow> User result \<times> store_world" where
  "CreateNewUserByEmail net now env email hash display_name username =
     with_lease net now (withTransaction net (create_user_body net env email hash display_name username))"

text \<open>The table is named without its schema: \<^verbatim>\<open>users\<close> is \<^verbatim>\<open>app.users\<close> by the search path.\<close>

definition sql_user_by_name :: "string \<Rightarrow> (store, User list) query" where
  "sql_user_by_name username n st =
     Inr (take 1 (map (\<lambda>u. \<lparr>usr_id = us_id u, usr_display_name = us_display_name u, usr_username = us_username u\<rparr>)
            (filter (\<lambda>u. us_username u = c_str username) (users st))), st)"

definition FindUserByUsername :: "(nat \<Rightarrow> network) \<Rightarrow> int \<Rightarrow> string \<Rightarrow> store_world \<Rightarrow> User option result \<times> store_world" where
  "FindUserByUsername net now username =
     with_lease net now (db_bind (execute net (Sql (sql_user_by_name username))) (\<lambda>rows. db_lift (first_row rows)))"


section \<open>Revoking a device\<close>

definition sql_lock_device :: "uuid \<Rightarrow> (store, (uuid \<times> string) list) query" where
  "sql_lock_device device_id n st =
     Inr (map (\<lambda>ud. (ud_user_id ud, ud_status ud)) (filter (\<lambda>ud. ud_device_id ud = device_id) (user_devices st)), st)"

definition revoked_row :: "uuid \<Rightarrow> user_device \<Rightarrow> user_device" where
  "revoked_row device_id ud =
     (if ud_device_id ud = device_id \<and> ud_status ud = ''active'' then ud\<lparr>ud_status := ''revoked''\<rparr> else ud)"

definition sql_revoke_device :: "uuid \<Rightarrow> (store, uuid list) query" where
  "sql_revoke_device device_id n st =
     Inr (map ud_device_id (filter (\<lambda>ud. ud_device_id ud = device_id \<and> ud_status ud = ''active'') (user_devices st)),
          st\<lparr>user_devices := map (revoked_row device_id) (user_devices st)\<rparr>)"

definition revoked_token :: "int \<Rightarrow> uuid \<Rightarrow> refresh_token \<Rightarrow> refresh_token" where
  "revoked_token now device_id t =
     (if rt_device_id t = device_id
      then t\<lparr>rt_revoked_at := Some (case rt_revoked_at t of None \<Rightarrow> now | Some x \<Rightarrow> x)\<rparr> else t)"

definition sql_revoke_tokens :: "pg_env \<Rightarrow> uuid \<Rightarrow> (store, unit) query" where
  "sql_revoke_tokens env device_id n st =
     Inr ((), st\<lparr>refresh_tokens := map (revoked_token (current_timestamp env n) device_id) (refresh_tokens st)\<rparr>)"

definition revoke_body :: "(nat \<Rightarrow> network) \<Rightarrow> pg_env \<Rightarrow> uuid \<Rightarrow> uuid \<Rightarrow> (store, RevokeDeviceResult) db" where
  "revoke_body net env my_id device_id =
     db_bind (execute net (Sql (sql_lock_device device_id))) (\<lambda>device.
     case device of
       [] \<Rightarrow> db_return RevokeDeviceNotFound
     | (user_id, status) # _ \<Rightarrow>
         if user_id \<noteq> my_id then db_return RevokeNotYourDevice
         else if status = ''revoked'' then db_return AlreadyRevoked
         else if status \<noteq> ''active'' then db_return RevokeNotActive
         else db_bind (execute net (Sql (sql_revoke_device device_id))) (\<lambda>updated.
           if length updated \<noteq> 1 then db_throw (LogicError ''Locked device was not revoked'')
           else db_bind (execute net (Sql (sql_revoke_tokens env device_id))) (\<lambda>_. db_return RevokeSuccess)))"

definition repo_revokeUserDevice ::
  "(nat \<Rightarrow> network) \<Rightarrow> int \<Rightarrow> pg_env \<Rightarrow> uuid \<Rightarrow> uuid \<Rightarrow> store_world \<Rightarrow> RevokeDeviceResult result \<times> store_world" where
  "repo_revokeUserDevice net now env my_id device_id =
     with_lease net now (withTransaction net (revoke_body net env my_id device_id))"

section \<open>Friend requests\<close>

definition parseRequestTime :: "string \<Rightarrow> int result" where
  "parseRequestTime text =
     (case from_chars_int64 text of
        Inr (v, k) \<Rightarrow> if k = length text then Inr v else Inl (DbExn \<lparr>db_kind = DataConversion, db_code = [], db_constraint = None\<rparr>)
      | Inl _ \<Rightarrow> Inl (DbExn \<lparr>db_kind = DataConversion, db_code = [], db_constraint = None\<rparr>))"

text \<open>
  At most one pending request between two users in either direction; a message has at most 200 characters of the
  database's encoding.
\<close>

definition same_pending :: "uuid \<Rightarrow> uuid \<Rightarrow> friend_request \<Rightarrow> bool" where
  "same_pending a b r \<longleftrightarrow> fq_status r = ''pending'' \<and>
     ((fq_requester_id r = a \<and> fq_recipient_id r = b) \<or> (fq_requester_id r = b \<and> fq_recipient_id r = a))"

type_synonym request_columns = "uuid \<times> uuid \<times> string \<times> string \<times> string option \<times> string"

definition request_row :: "friend_request \<Rightarrow> user_row \<Rightarrow> request_columns" where
  "request_row r u = (fq_id r, us_id u, us_username u, us_display_name u, fq_message r, bigint_text (fq_created_at r))"

definition sql_insert_request ::
  "pg_env \<Rightarrow> uuid \<Rightarrow> uuid \<Rightarrow> string \<Rightarrow> string \<Rightarrow> (store, request_columns list) query" where
  "sql_insert_request env requester recipient status message n st =
     (let r = \<lparr>fq_id = gen_random_uuid env n, fq_requester_id = requester, fq_recipient_id = recipient, fq_status = status,
               fq_message = Some message, fq_created_at = current_timestamp env n\<rparr>
      in if text_length env message > 200 then Inl (''23514'', ''friend_request_message_check'')
         else if \<exists>x \<in> set (friend_requests st). fq_id x = fq_id r then Inl (''23505'', ''friend_request_pkey'')
         else if status = ''pending'' \<and> (\<exists>x \<in> set (friend_requests st). same_pending requester recipient x)
         then Inl (''23505'', ''friend_request_pending_pair_unique'')
         else if \<not> {requester, recipient} \<subseteq> us_id ` set (users st) then Inl (''23503'', ''friend_request_user_fkey'')
         else Inr (map (request_row r) (filter (\<lambda>u. us_id u = requester) (users st)),
                   st\<lparr>friend_requests := friend_requests st @ [r]\<rparr>))"

definition request_record :: "request_columns \<Rightarrow> FriendshipRequestRecord result" where
  "request_record row =
     (case row of (rid, uid, username, display_name, message, request_time) \<Rightarrow>
        ebind (parseRequestTime request_time) (\<lambda>t.
          Inr \<lparr>fr_request_id = rid, fr_id = uid, fr_username = username, fr_display_name = display_name,
               fr_message = (case message of None \<Rightarrow> [] | Some m \<Rightarrow> m), fr_request_time = t\<rparr>))"

definition inserted_request :: "request_columns list \<Rightarrow> FriendshipRequestRecord result" where
  "inserted_request rows =
     (case rows of
        [row] \<Rightarrow> request_record row
      | _ \<Rightarrow> Inl (RuntimeError ''Insert friend request returned unexpected row count''))"

definition CreateNewFriendship ::
  "(nat \<Rightarrow> network) \<Rightarrow> int \<Rightarrow> pg_env \<Rightarrow> uuid \<Rightarrow> uuid \<Rightarrow> string \<Rightarrow> store_world
     \<Rightarrow> FriendshipRequestRecord result \<times> store_world" where
  "CreateNewFriendship net now env my_id friend_id message =
     with_lease net now
       (db_bind (execute net (Sql (sql_insert_request env my_id friend_id ''pending'' (c_str message))))
         (\<lambda>rows. db_lift (inserted_request rows)))"

text \<open>\<^verbatim>\<open>ORDER BY fr.created_at DESC, fr.id DESC\<close>.\<close>

definition sql_unprocessed :: "uuid \<Rightarrow> string \<Rightarrow> (store, request_columns list) query" where
  "sql_unprocessed my_id status n st =
     Inr ([request_row r u.
            r \<leftarrow> rev (sort_key (\<lambda>r. (fq_created_at r, fq_id r))
                   (filter (\<lambda>r. fq_recipient_id r = my_id \<and> fq_status r = status) (friend_requests st))),
            u \<leftarrow> users st, us_id u = fq_requester_id r], st)"

fun read_rows :: "('a \<Rightarrow> 'b result) \<Rightarrow> 'a list \<Rightarrow> 'b list result" where
  "read_rows f [] = Inr []"
| "read_rows f (x # xs) = ebind (f x) (\<lambda>y. ebind (read_rows f xs) (\<lambda>ys. Inr (y # ys)))"

definition unprocessed_requests :: "request_columns list \<Rightarrow> FriendshipRequestRecord list option result" where
  "unprocessed_requests rows = (if rows = [] then Inr None else ebind (read_rows request_record rows) (\<lambda>rs. Inr (Some rs)))"

definition FetchUnprocessedRequest ::
  "(nat \<Rightarrow> network) \<Rightarrow> int \<Rightarrow> uuid \<Rightarrow> store_world \<Rightarrow> FriendshipRequestRecord list option result \<times> store_world" where
  "FetchUnprocessedRequest net now my_id =
     with_lease net now
       (db_bind (execute net (Sql (sql_unprocessed my_id ''pending''))) (\<lambda>rows. db_lift (unprocessed_requests rows)))"

section \<open>Friends\<close>

definition sql_friends :: "pg_env \<Rightarrow> uuid \<Rightarrow> (store, User list) query" where
  "sql_friends env my_id n st =
     Inr (sort_key (\<lambda>u. (collate env (usr_username u), usr_id u))
            [\<lparr>usr_id = us_id u, usr_display_name = us_display_name u, usr_username = us_username u\<rparr>.
              fr \<leftarrow> friend_relation st, fst fr = my_id, u \<leftarrow> users st, us_id u = snd fr], st)"

definition FetchFriends :: "(nat \<Rightarrow> network) \<Rightarrow> int \<Rightarrow> pg_env \<Rightarrow> uuid \<Rightarrow> store_world \<Rightarrow> User list result \<times> store_world" where
  "FetchFriends net now env my_id =
     with_lease net now (db_bind (execute net (Sql (sql_friends env my_id))) (\<lambda>friends. db_lift (Inr friends)))"

definition sql_lock_request :: "uuid \<Rightarrow> (store, (uuid \<times> uuid \<times> string) list) query" where
  "sql_lock_request request_id n st =
     Inr (map (\<lambda>r. (fq_requester_id r, fq_recipient_id r, fq_status r))
            (filter (\<lambda>r. fq_id r = request_id) (friend_requests st)), st)"

definition decided_row :: "uuid \<Rightarrow> string \<Rightarrow> friend_request \<Rightarrow> friend_request" where
  "decided_row request_id status r =
     (if fq_id r = request_id \<and> fq_status r = ''pending'' then r\<lparr>fq_status := status\<rparr> else r)"

definition sql_decide_request :: "uuid \<Rightarrow> string \<Rightarrow> (store, uuid list) query" where
  "sql_decide_request request_id status n st =
     Inr (map fq_id (filter (\<lambda>r. fq_id r = request_id \<and> fq_status r = ''pending'') (friend_requests st)),
          st\<lparr>friend_requests := map (decided_row request_id status) (friend_requests st)\<rparr>)"

definition sql_insert_relation :: "uuid \<Rightarrow> uuid \<Rightarrow> (store, unit) query" where
  "sql_insert_relation a b n st =
     (if a = b then Inl (''23514'', ''friend_relation_not_self'')
      else if \<not> {a, b} \<subseteq> us_id ` set (users st) then Inl (''23503'', ''friend_relation_user_fkey'')
      else Inr ((), st\<lparr>friend_relation := friend_relation st @
                        filter (\<lambda>p. p \<notin> set (friend_relation st)) [(a, b), (b, a)]\<rparr>))"

fun targetStatus :: "FriendRequestAction \<Rightarrow> string" where
  "targetStatus Accept = ''accepted''"
| "targetStatus Reject = ''rejected''"
| "targetStatus Cancel = ''cancelled''"

definition process_body ::
  "(nat \<Rightarrow> network) \<Rightarrow> uuid \<Rightarrow> uuid \<Rightarrow> FriendRequestAction \<Rightarrow> (store, FriendRequestProcessResult) db" where
  "process_body net my_uuid request_id action =
     db_bind (execute net (Sql (sql_lock_request request_id))) (\<lambda>record.
     case record of
       [] \<Rightarrow> db_return RequestNotFound
     | (requester, recipient, status) # _ \<Rightarrow>
         if my_uuid \<noteq> (if action = Cancel then requester else recipient) then db_return RequestForbidden
         else if status = targetStatus action then db_return AlreadyProcessed
         else if status \<noteq> ''pending'' then db_return RequestConflict
         else db_bind (execute net (Sql (sql_decide_request request_id (targetStatus action)))) (\<lambda>updated.
           if length updated \<noteq> 1 then db_return RequestConflict
           else if action = Accept
           then db_bind (execute net (Sql (sql_insert_relation requester recipient))) (\<lambda>_. db_return ProcessSuccess)
           else db_return ProcessSuccess))"

definition repo_processFriendshipRequest ::
  "(nat \<Rightarrow> network) \<Rightarrow> int \<Rightarrow> uuid \<Rightarrow> uuid \<Rightarrow> FriendRequestAction \<Rightarrow> store_world
     \<Rightarrow> FriendRequestProcessResult result \<times> store_world" where
  "repo_processFriendshipRequest net now my_uuid request_id action =
     with_lease net now (withTransaction net (process_body net my_uuid request_id action))"

definition sql_friendship :: "uuid \<Rightarrow> uuid \<Rightarrow> (store, (uuid \<times> uuid) list) query" where
  "sql_friendship my_id friend_id n st = Inr (filter (\<lambda>fr. fr = (my_id, friend_id)) (friend_relation st), st)"

definition VerifyFriendShip :: "(nat \<Rightarrow> network) \<Rightarrow> int \<Rightarrow> uuid \<Rightarrow> uuid \<Rightarrow> store_world \<Rightarrow> bool result \<times> store_world" where
  "VerifyFriendShip net now my_id friend_id =
     with_lease net now (db_bind (execute net (Sql (sql_friendship my_id friend_id))) (\<lambda>rows. db_lift (Inr (rows \<noteq> []))))"


section \<open>The user service\<close>

definition verifyPassword :: "library \<Rightarrow> string \<Rightarrow> string \<Rightarrow> bool" where
  "verifyPassword lib password_hash password = pwhash_str_verify lib (c_str password_hash) password"

definition findUserByUserName :: "(nat \<Rightarrow> network) \<Rightarrow> int \<Rightarrow> string \<Rightarrow> store_world \<Rightarrow> User option result \<times> store_world" where
  "findUserByUserName net now username w = FindUserByUsername net now username w"

definition pending_pair_violated :: "DatabaseError \<Rightarrow> bool" where
  "pending_pair_violated e \<longleftrightarrow> db_kind e = Query \<and> db_code e = ''23505'' \<and>
     db_constraint e = Some ''friend_request_pending_pair_unique''"

definition requestFriendship ::
  "(nat \<Rightarrow> network) \<Rightarrow> int \<Rightarrow> pg_env \<Rightarrow> uuid \<Rightarrow> uuid \<Rightarrow> string \<Rightarrow> store_world
     \<Rightarrow> FriendshipRequestRecord option result \<times> store_world" where
  "requestFriendship net now env my_uuid friend_uuid message w =
     (case CreateNewFriendship net now env my_uuid friend_uuid message w of
        (Inr r, w') \<Rightarrow> (Inr (Some r), w')
      | (Inl (DbExn e), w') \<Rightarrow> (if pending_pair_violated e then Inr None else Inl (DbExn e), w')
      | (Inl e, w') \<Rightarrow> (Inl e, w'))"

definition fetchFriendshipRequest ::
  "(nat \<Rightarrow> network) \<Rightarrow> int \<Rightarrow> uuid \<Rightarrow> store_world \<Rightarrow> FriendshipRequestRecord list option result \<times> store_world" where
  "fetchFriendshipRequest net now my_uuid w = FetchUnprocessedRequest net now my_uuid w"

definition fetchFriends :: "(nat \<Rightarrow> network) \<Rightarrow> int \<Rightarrow> pg_env \<Rightarrow> uuid \<Rightarrow> store_world \<Rightarrow> User list result \<times> store_world" where
  "fetchFriends net now env my_uuid w = FetchFriends net now env my_uuid w"

definition process_action :: "string \<Rightarrow> FriendRequestAction option" where
  "process_action process =
     (if process = ''accepted'' then Some Accept else if process = ''rejected'' then Some Reject
      else if process = ''cancelled'' then Some Cancel else None)"

definition processFriendshipRequest ::
  "(nat \<Rightarrow> network) \<Rightarrow> int \<Rightarrow> uuid \<Rightarrow> uuid \<Rightarrow> string \<Rightarrow> store_world \<Rightarrow> FriendRequestProcessResult result \<times> store_world" where
  "processFriendshipRequest net now my_uuid request_id process w =
     (case process_action process of
        None \<Rightarrow> (Inr InvalidAction, w)
      | Some action \<Rightarrow> repo_processFriendshipRequest net now my_uuid request_id action w)"

text \<open>\<^verbatim>\<open>std::variant<bool, UserServiceErrorCode>\<close>; the boolean is always \<^verbatim>\<open>true\<close>.\<close>

fun revoke_answer :: "RevokeDeviceResult \<Rightarrow> bool + UserServiceErrorCode" where
  "revoke_answer RevokeSuccess = Inl True"
| "revoke_answer RevokeDeviceNotFound = Inr ServiceDeviceNotFound"
| "revoke_answer RevokeNotYourDevice = Inr ServiceNotYourDevice"
| "revoke_answer AlreadyRevoked = Inr RevokedDevice"
| "revoke_answer RevokeNotActive = Inr DeviceNotActive"

definition revokeUserDevice ::
  "library \<Rightarrow> (nat \<Rightarrow> network) \<Rightarrow> int \<Rightarrow> pg_env \<Rightarrow> uuid \<Rightarrow> uuid \<Rightarrow> string \<Rightarrow> store_world
     \<Rightarrow> (bool + UserServiceErrorCode) result \<times> store_world" where
  "revokeUserDevice lib net now env my_uuid device_id password w =
     (case FindLoginRecordByUserId net now my_uuid w of
        (Inl e, w1) \<Rightarrow> (Inl e, w1)
      | (Inr None, w1) \<Rightarrow> (Inr (Inr UserNotFound), w1)
      | (Inr (Some password_hash), w1) \<Rightarrow>
          if \<not> verifyPassword lib password_hash password then (Inr (Inr InvalidPassword), w1)
          else (case repo_revokeUserDevice net now env my_uuid device_id w1 of
                  (Inl e, w2) \<Rightarrow> (Inl e, w2)
                | (Inr r, w2) \<Rightarrow> (Inr (revoke_answer r), w2)))"

definition verifyUserDevice ::
  "(nat \<Rightarrow> network) \<Rightarrow> int \<Rightarrow> uuid \<Rightarrow> uuid \<Rightarrow> store_world \<Rightarrow> (bool + UserServiceErrorCode) result \<times> store_world" where
  "verifyUserDevice net now my_uuid device_id w =
     (case VerifyUserDeviceRelation net now my_uuid device_id w of
        (Inr b, w') \<Rightarrow> (Inr (Inl b), w')
      | (Inl (DeviceRelationException e), w') \<Rightarrow>
          (Inr (Inr (case e of NoSuchDeviceRel \<Rightarrow> ServiceNoSuchDevice | NotActivatedRel \<Rightarrow> ServiceNotActivated
                             | NotYourDeviceRel \<Rightarrow> ServiceNotYourDevice)), w')
      | (Inl e, w') \<Rightarrow> (Inl e, w'))"


section \<open>What the reading operations answer\<close>

lemma read_only_accounts [simp, intro]:
  "read_only (sql_login_by_email env email)" "read_only (sql_password_hash u)" "read_only (sql_user_by_name name)"
  "read_only (sql_unprocessed u status)" "read_only (sql_friends env u)" "read_only (sql_friendship u v)"
  "read_only (sql_device_relation u d)"
  by (auto simp: read_only_def sql_login_by_email_def sql_password_hash_def sql_user_by_name_def sql_unprocessed_def
      sql_friends_def sql_friendship_def sql_device_relation_def)

interpretation login_by_email: evolving "FindLoginRecordByEmail net now env email" "read_result (sql_login_by_email env email) login_record"
  for net now env email
  unfolding FindLoginRecordByEmail_def by (rule read_evolving) simp

interpretation login_by_user: evolving "FindLoginRecordByUserId net now user" "read_result (sql_password_hash user) first_row"
  for net now user
  unfolding FindLoginRecordByUserId_def by (rule read_evolving) simp

interpretation user_by_name: evolving "FindUserByUsername net now name" "read_result (sql_user_by_name name) first_row"
  for net now name
  unfolding FindUserByUsername_def by (rule read_evolving) simp

interpretation unprocessed: evolving "FetchUnprocessedRequest net now user"
  "read_result (sql_unprocessed user ''pending'') unprocessed_requests" for net now user
  unfolding FetchUnprocessedRequest_def by (rule read_evolving) simp

interpretation friends: evolving "FetchFriends net now env user" "read_result (sql_friends env user) Inr" for net now env user
  unfolding FetchFriends_def by (rule read_evolving) simp

interpretation friendship: evolving "VerifyFriendShip net now user peer"
  "read_result (sql_friendship user peer) (\<lambda>rows. Inr (rows \<noteq> []))" for net now user peer
  unfolding VerifyFriendShip_def by (rule read_evolving) simp

interpretation device_relation: evolving "VerifyUserDeviceRelation net now user device"
  "read_result (sql_device_relation user device) device_relation" for net now user device
  unfolding VerifyUserDeviceRelation_def by (rule read_evolving) simp

section \<open>What the writing operations do\<close>

text \<open>A new account: the identifier, the name and the address were free.\<close>

definition account_effect ::
  "pg_env \<Rightarrow> string \<Rightarrow> string \<Rightarrow> string \<Rightarrow> string \<Rightarrow> store \<Rightarrow> User \<Rightarrow> store \<Rightarrow> bool" where
  "account_effect env email hash display_name username st user st' \<longleftrightarrow>
     usr_display_name user = display_name \<and> usr_username user = username \<and>
     users_check username \<and> (\<forall>u \<in> set (users st). us_id u \<noteq> usr_id user \<and> us_username u \<noteq> username) \<and>
     (\<forall>p \<in> set (password_credentials st). pc_user_id p \<noteq> usr_id user) \<and>
     (\<forall>p \<in> set (password_credentials st). sql_lower env (pc_login_email p) \<noteq> sql_lower env email) \<and>
     st' = st\<lparr>users := users st @ [\<lparr>us_id = usr_id user, us_is_active = True, us_display_name = display_name, us_username = username\<rparr>],
              password_credentials := password_credentials st @
                [\<lparr>pc_user_id = usr_id user, pc_login_email = email, pc_password_hash = hash\<rparr>]\<rparr>"

lemma create_user_body_safe [simp, intro]: "tx_safe (create_user_body net env email hash display_name username)"
  unfolding create_user_body_def by (intro tx_safe_bind tx_safe_sql) (auto split: list.splits)

lemma create_user_body_runs:
  assumes "tx_runs (create_user_body net env email hash display_name username) st r st'"
  shows "account_effect env (c_str email) (c_str hash) (c_str display_name) (c_str username) st r st'"
  using assms
  by (auto simp: create_user_body_def sql_insert_user_def sql_insert_credential_def Let_def account_effect_def
      split: if_splits list.splits dest!: tx_runs_sql_bind)

lemma account_effect_ok:
  assumes "store_ok st" "account_effect env email hash display_name username st r st'"
  shows "store_ok st' \<and> evolves st st'"
proof -
  have "message_envelopes st' = message_envelopes st" using assms(2) by (simp add: account_effect_def)
  from envelopes_ok_cong [OF this] assms show ?thesis
    by (auto simp: account_effect_def store_ok_def keys_ok_def accounts_ok_def credentials_ok_def evolves_def intro!: table_grows_append)
qed

interpretation create_account: evolving "CreateNewUserByEmail net now env email hash display_name username"
  "tx_result (\<lambda>st x st'. evolves st st' \<and> account_effect env (c_str email) (c_str hash) (c_str display_name) (c_str username) st x st')"
  for net now env email hash display_name username
  unfolding CreateNewUserByEmail_def
  by (rule transaction_evolving, simp) (metis create_user_body_runs account_effect_ok)

text \<open>A revocation, and the four reasons to refuse it.\<close>

definition revoke_effect :: "uuid \<Rightarrow> uuid \<Rightarrow> store \<Rightarrow> RevokeDeviceResult \<Rightarrow> store \<Rightarrow> bool" where
  "revoke_effect user device st r st' \<longleftrightarrow>
     (if r = RevokeSuccess
      then (\<exists>ud \<in> set (user_devices st). ud_device_id ud = device \<and> ud_user_id ud = user \<and> ud_status ud = ''active'') \<and>
           (\<exists>now. st' = st\<lparr>user_devices := map (revoked_row device) (user_devices st),
                           refresh_tokens := map (revoked_token now device) (refresh_tokens st)\<rparr>)
      else st' = st \<and>
        (if r = RevokeDeviceNotFound then \<forall>ud \<in> set (user_devices st). ud_device_id ud \<noteq> device
         else \<exists>ud \<in> set (user_devices st). ud_device_id ud = device \<and>
           (if r = RevokeNotYourDevice then ud_user_id ud \<noteq> user
            else ud_user_id ud = user \<and>
              (if r = AlreadyRevoked then ud_status ud = ''revoked'' else ud_status ud \<notin> {''active'', ''revoked''}))))"

lemma revoke_body_safe [simp, intro]: "tx_safe (revoke_body net env user device)"
  unfolding revoke_body_def by (intro tx_safe_bind tx_safe_sql) (auto split: list.splits)

lemma revoke_body_runs:
  assumes k: "keys_ok st" and run: "tx_runs (revoke_body net env user device) st r st'"
  shows "revoke_effect user device st r st'"
proof -
  have d: "distinct (map ud_device_id (user_devices st))" using k by (simp add: keys_ok_def)
  from d show ?thesis
  proof (cases rule: filter_key_cases [where k = device])
    case None
    with run show ?thesis by (auto simp: revoke_body_def sql_lock_device_def revoke_effect_def dest!: tx_runs_sql_bind)
  next
    case (Some ud)
    from run have "tx_runs (if ud_user_id ud \<noteq> user then db_return RevokeNotYourDevice
        else if ud_status ud = ''revoked'' then db_return AlreadyRevoked
        else if ud_status ud \<noteq> ''active'' then db_return RevokeNotActive
        else db_bind (execute net (Sql (sql_revoke_device device))) (\<lambda>updated.
          if length updated \<noteq> 1 then db_throw (LogicError ''Locked device was not revoked'')
          else db_bind (execute net (Sql (sql_revoke_tokens env device))) (\<lambda>_. db_return RevokeSuccess))) st r st'"
      by (auto simp: revoke_body_def sql_lock_device_def Some(1) dest!: tx_runs_sql_bind)
    with Some(2,3) show ?thesis
      by (auto simp: sql_revoke_device_def sql_revoke_tokens_def revoke_effect_def split: if_splits dest!: tx_runs_sql_bind)
        (rule exI, rule refl)
  qed
qed

lemma revoked_row_simps [simp]:
  "ud_device_id (revoked_row d ud) = ud_device_id ud" "ud_user_id (revoked_row d ud) = ud_user_id ud"
  "device_step ud (revoked_row d ud)"
  by (auto simp: revoked_row_def)

lemma revoked_token_simps [simp]:
  "rt_device_id (revoked_token t d x) = rt_device_id x" "rt_user_id (revoked_token t d x) = rt_user_id x"
  "rt_token_hash (revoked_token t d x) = rt_token_hash x" "rt_revoked_at x \<noteq> None \<Longrightarrow> rt_revoked_at (revoked_token t d x) \<noteq> None"
  "rt_device_id x = d \<Longrightarrow> rt_revoked_at (revoked_token t d x) \<noteq> None"
  by (auto simp: revoked_token_def)

lemma revoke_keeps_tokens:
  assumes k: "keys_ok st"
  shows "credentials_ok (st\<lparr>user_devices := map (revoked_row device) (user_devices st),
    refresh_tokens := map (revoked_token now device) (refresh_tokens st)\<rparr>)"
proof -
  have "\<exists>ud \<in> revoked_row device ` set (user_devices st). ud_device_id ud = rt_device_id (revoked_token now device t) \<and>
      ud_user_id ud = rt_user_id (revoked_token now device t) \<and>
      (ud_status ud = ''revoked'' \<longrightarrow> rt_revoked_at (revoked_token now device t) \<noteq> None)"
    if t: "t \<in> set (refresh_tokens st)" for t
  proof -
    from k t obtain ud where ud: "ud \<in> set (user_devices st)" "ud_device_id ud = rt_device_id t" "ud_user_id ud = rt_user_id t"
        "ud_status ud = ''revoked'' \<longrightarrow> rt_revoked_at t \<noteq> None"
      by (auto simp: keys_ok_def credentials_ok_def)
    then have "ud_status (revoked_row device ud) = ''revoked'' \<longrightarrow> rt_revoked_at (revoked_token now device t) \<noteq> None"
      by (cases "rt_device_id t = device") (auto simp: revoked_row_def)
    with ud show ?thesis by (intro bexI [of _ "revoked_row device ud"]) auto
  qed
  with k show ?thesis by (auto simp: keys_ok_def credentials_ok_def o_def)
qed

lemma revoke_effect_ok:
  assumes ok: "store_ok st" and e: "revoke_effect user device st r st'"
  shows "store_ok st' \<and> evolves st st'"
proof (cases "r = RevokeSuccess")
  case True
  with e obtain now where st': "st' = st\<lparr>user_devices := map (revoked_row device) (user_devices st),
      refresh_tokens := map (revoked_token now device) (refresh_tokens st)\<rparr>" by (auto simp: revoke_effect_def)
  then have "envelopes_ok st'" using ok envelopes_ok_cong [of st' st] by (simp add: store_ok_def)
  moreover have "keys_ok st'" using revoke_keeps_tokens [where st = st and device = device and now = now] ok st'
    by (simp add: store_ok_def keys_ok_def accounts_ok_def o_def)
  moreover have "evolves st st'" unfolding st' evolves_def by (auto intro!: table_grows_map simp del: device_step.simps)
  ultimately show ?thesis by (simp add: store_ok_def)
qed (use assms in \<open>simp add: revoke_effect_def\<close>)

interpretation revoke: evolving "repo_revokeUserDevice net now env user device"
  "tx_result (\<lambda>st x st'. evolves st st' \<and> revoke_effect user device st x st')" for net now env user device
  unfolding repo_revokeUserDevice_def
  by (rule transaction_evolving, simp) (metis revoke_body_runs revoke_effect_ok store_ok_def)


section \<open>Friend requests and friends\<close>

text \<open>A new request: pending, with no other pending request between the two users.\<close>

definition request_effect ::
  "pg_env \<Rightarrow> uuid \<Rightarrow> uuid \<Rightarrow> string \<Rightarrow> store \<Rightarrow> store \<Rightarrow> bool" where
  "request_effect env requester recipient message st st' \<longleftrightarrow>
     (\<exists>r. fq_requester_id r = requester \<and> fq_recipient_id r = recipient \<and> fq_status r = ''pending'' \<and>
        fq_message r = Some message \<and> (\<forall>x \<in> set (friend_requests st). fq_id x \<noteq> fq_id r \<and> \<not> same_pending requester recipient x) \<and>
        {requester, recipient} \<subseteq> us_id ` set (users st) \<and>
        st' = st\<lparr>friend_requests := friend_requests st @ [r]\<rparr>)"

lemma insert_request:
  "sql_insert_request env requester recipient ''pending'' message n st = Inr (rows, st') \<Longrightarrow>
     request_effect env requester recipient message st st'"
  by (force simp: sql_insert_request_def request_effect_def Let_def split: if_splits)

lemma request_effect_ok:
  assumes "store_ok st" "request_effect env requester recipient message st st'"
  shows "store_ok st' \<and> evolves st st'"
proof -
  from assms(2) obtain r where r: "\<forall>x \<in> set (friend_requests st). fq_id x \<noteq> fq_id r"
      "st' = st\<lparr>friend_requests := friend_requests st @ [r]\<rparr>"
    by (auto simp: request_effect_def)
  then have "message_envelopes st' = message_envelopes st" by simp
  from envelopes_ok_cong [OF this] assms(1) r show ?thesis
    by (auto simp: store_ok_def keys_ok_def accounts_ok_def credentials_ok_def evolves_def intro!: table_grows_append)
qed

text \<open>The result of a single statement that may change the tables as \<open>E\<close> says.\<close>

lemma query_evolving:
  assumes "\<And>n st x st'. q n st = Inr (x, st') \<Longrightarrow> E st st'" "\<And>st st'. store_ok st \<Longrightarrow> E st st' \<Longrightarrow> store_ok st' \<and> evolves st st'"
  shows "evolving (with_lease net now (db_bind (execute net (Sql q)) (\<lambda>x. db_lift (g x)))) (query_result q g)"
proof (intro evolving.intro query_store_service evolving_axioms.intro)
  show "store_ok st \<Longrightarrow> q n st = Inr (x, st') \<Longrightarrow> store_ok st'" for n st x st' using assms by blast
  show "store_ok st \<Longrightarrow> query_result q g st r st' \<Longrightarrow> evolves st st'" for st r st'
    using assms by (fastforce simp: query_result_def)
qed

interpretation request: evolving "CreateNewFriendship net now env user peer message"
  "query_result (sql_insert_request env user peer ''pending'' (c_str message)) inserted_request" for net now env user peer message
  unfolding CreateNewFriendship_def by (rule query_evolving [where E = "request_effect env user peer (c_str message)"])
    (erule insert_request, erule request_effect_ok, assumption)

text \<open>A decision on a request, and the reasons to refuse it.\<close>

definition decide :: "uuid \<Rightarrow> FriendRequestAction \<Rightarrow> friend_request \<Rightarrow> store \<Rightarrow> store" where
  "decide request_id action q st =
     st\<lparr>friend_requests := map (decided_row request_id (targetStatus action)) (friend_requests st),
        friend_relation := friend_relation st @
          (if action = Accept
           then filter (\<lambda>p. p \<notin> set (friend_relation st))
                  [(fq_requester_id q, fq_recipient_id q), (fq_recipient_id q, fq_requester_id q)]
           else [])\<rparr>"

definition process_effect ::
  "uuid \<Rightarrow> uuid \<Rightarrow> FriendRequestAction \<Rightarrow> store \<Rightarrow> FriendRequestProcessResult \<Rightarrow> store \<Rightarrow> bool" where
  "process_effect user request_id action st r st' \<longleftrightarrow>
     (if r = RequestNotFound then st' = st \<and> (\<forall>q \<in> set (friend_requests st). fq_id q \<noteq> request_id)
      else \<exists>q \<in> set (friend_requests st). fq_id q = request_id \<and>
        (let allowed = (user = (if action = Cancel then fq_requester_id q else fq_recipient_id q)) in
         if r = ProcessSuccess
         then allowed \<and> fq_status q = ''pending'' \<and> st' = decide request_id action q st \<and>
              (action = Accept \<longrightarrow> fq_requester_id q \<noteq> fq_recipient_id q)
         else st' = st \<and>
           (r = (if \<not> allowed then RequestForbidden
                 else if fq_status q = targetStatus action then AlreadyProcessed else RequestConflict)) \<and>
           (r = RequestConflict \<longrightarrow> fq_status q \<noteq> ''pending'')))"

lemma process_body_safe [simp, intro]: "tx_safe (process_body net user request_id action)"
  unfolding process_body_def by (intro tx_safe_bind tx_safe_sql) (auto split: list.splits)

lemma targetStatus_final [simp]: "targetStatus action \<noteq> ''pending''"
  by (cases action) simp_all

lemma process_body_runs:
  assumes k: "keys_ok st" and run: "tx_runs (process_body net user request_id action) st r st'"
  shows "process_effect user request_id action st r st'"
proof -
  have d: "distinct (map fq_id (friend_requests st))" using k by (simp add: keys_ok_def accounts_ok_def)
  from d show ?thesis
  proof (cases rule: filter_key_cases [where k = request_id])
    case None
    with run show ?thesis by (auto simp: process_body_def sql_lock_request_def process_effect_def dest!: tx_runs_sql_bind)
  next
    case (Some q)
    have one: "fq_status q = ''pending'' \<Longrightarrow>
        filter (\<lambda>r. fq_id r = request_id \<and> fq_status r = ''pending'') (friend_requests st) = [q]"
      using Some(1) filter_filter [of "\<lambda>r. fq_status r = ''pending''" "\<lambda>r. fq_id r = request_id" "friend_requests st"] by simp
    from run have "tx_runs (if user \<noteq> (if action = Cancel then fq_requester_id q else fq_recipient_id q) then db_return RequestForbidden
        else if fq_status q = targetStatus action then db_return AlreadyProcessed
        else if fq_status q \<noteq> ''pending'' then db_return RequestConflict
        else db_bind (execute net (Sql (sql_decide_request request_id (targetStatus action)))) (\<lambda>updated.
          if length updated \<noteq> 1 then db_return RequestConflict
          else if action = Accept
          then db_bind (execute net (Sql (sql_insert_relation (fq_requester_id q) (fq_recipient_id q)))) (\<lambda>_. db_return ProcessSuccess)
          else db_return ProcessSuccess)) st r st'"
      using tx_runs_sql_bind [OF run [unfolded process_body_def]] by (simp add: sql_lock_request_def Some(1))
    then consider (refused) "st' = st" "r \<noteq> ProcessSuccess" "r \<noteq> RequestNotFound"
        "r = (if user \<noteq> (if action = Cancel then fq_requester_id q else fq_recipient_id q) then RequestForbidden
          else if fq_status q = targetStatus action then AlreadyProcessed else RequestConflict)"
        "r = RequestConflict \<longrightarrow> fq_status q \<noteq> ''pending''"
      | (decided) "user = (if action = Cancel then fq_requester_id q else fq_recipient_id q)" "fq_status q = ''pending''"
        "tx_runs (db_bind (execute net (Sql (sql_decide_request request_id (targetStatus action)))) (\<lambda>updated.
          if length updated \<noteq> 1 then db_return RequestConflict
          else if action = Accept
          then db_bind (execute net (Sql (sql_insert_relation (fq_requester_id q) (fq_recipient_id q)))) (\<lambda>_. db_return ProcessSuccess)
          else db_return ProcessSuccess)) st r st'"
      by (simp only: split: if_split_asm) auto
    then show ?thesis
    proof cases
      case refused
      with Some(2,3) show ?thesis unfolding process_effect_def Let_def by (intro if_not_P [THEN iffD2] bexI [of _ q]) simp_all
    next
      case decided
      from tx_runs_sql_bind [OF decided(3)] one [OF decided(2)] have
        "tx_runs (if action = Accept
          then db_bind (execute net (Sql (sql_insert_relation (fq_requester_id q) (fq_recipient_id q)))) (\<lambda>_. db_return ProcessSuccess)
          else db_return ProcessSuccess)
          (st\<lparr>friend_requests := map (decided_row request_id (targetStatus action)) (friend_requests st)\<rparr>) r st'"
        by (simp add: sql_decide_request_def)
      then have "r = ProcessSuccess \<and> st' = decide request_id action q st \<and> (action = Accept \<longrightarrow> fq_requester_id q \<noteq> fq_recipient_id q)"
        by (cases "action = Accept") (auto simp: sql_insert_relation_def decide_def split: if_splits dest!: tx_runs_sql_bind)
      with Some(2,3) decided(1,2) show ?thesis by (auto simp: process_effect_def Let_def)
    qed
  qed
qed

lemma decided_row_simps [simp]:
  "fq_id (decided_row i s q) = fq_id q" "fq_requester_id (decided_row i s q) = fq_requester_id q"
  "fq_recipient_id (decided_row i s q) = fq_recipient_id q" "request_step q (decided_row i s q)"
  by (auto simp: decided_row_def)

lemma symmetric_relation_add: "symmetric_relation R \<Longrightarrow> a \<noteq> b \<Longrightarrow> symmetric_relation (insert (a, b) (insert (b, a) R))"
  unfolding symmetric_relation_def by blast

lemma decide_relation: "set (friend_relation (decide i action q st)) = set (friend_relation st) \<union>
    (if action = Accept then {(fq_requester_id q, fq_recipient_id q), (fq_recipient_id q, fq_requester_id q)} else {})"
  by (auto simp: decide_def)

lemma decide_ok:
  assumes ok: "store_ok st" and ne: "action = Accept \<longrightarrow> fq_requester_id q \<noteq> fq_recipient_id q"
  shows "store_ok (decide request_id action q st) \<and> evolves st (decide request_id action q st)"
proof -
  let ?st = "decide request_id action q st"
  have ok': "envelopes_ok ?st" using ok envelopes_ok_cong [of ?st st] by (simp add: decide_def store_ok_def)
  have "symmetric_relation (set (friend_relation st))"
    using ok by (simp add: store_ok_def keys_ok_def accounts_ok_def)
  then have "symmetric_relation (set (friend_relation ?st))"
    unfolding decide_relation using ne by (simp add: symmetric_relation_add)
  then have a: "accounts_ok ?st"
    using ok by (simp add: accounts_ok_def store_ok_def keys_ok_def) (simp add: decide_def o_def)
  have "distinct (friend_relation ?st)" using ok ne by (auto simp: decide_def store_ok_def keys_ok_def)
  then have k: "keys_ok ?st" using a ok by (simp add: keys_ok_def store_ok_def) (simp add: decide_def credentials_ok_def)
  have "evolves st ?st"
    unfolding decide_def evolves_def by (auto intro!: table_grows_map simp del: request_step.simps)
  with ok' k show ?thesis by (simp add: store_ok_def)
qed

lemma process_effect_ok:
  assumes "store_ok st" "process_effect user request_id action st r st'"
  shows "store_ok st' \<and> evolves st st'"
  using assms(2) decide_ok [OF assms(1)] assms(1) unfolding process_effect_def Let_def
  by (auto split: if_splits)

interpretation process: evolving "repo_processFriendshipRequest net now user request_id action"
  "tx_result (\<lambda>st x st'. evolves st st' \<and> process_effect user request_id action st x st')" for net now user request_id action
  unfolding repo_processFriendshipRequest_def
  by (rule transaction_evolving, simp) (metis process_body_runs process_effect_ok store_ok_def)


section \<open>Every operation refines the preorder\<close>

lemma orderly_account_queries [orderly_calls]:
  "orderly (FindLoginRecordByEmail net now env email)" "orderly (FindLoginRecordByUserId net now user)"
  "orderly (FindUserByUsername net now name)" "orderly (FetchUnprocessedRequest net now user)"
  "orderly (FetchFriends net now env user)" "orderly (VerifyFriendShip net now user peer)"
  "orderly (VerifyUserDeviceRelation net now user device)"
  "orderly (CreateNewUserByEmail net now env email hash display_name username)"
  "orderly (repo_revokeUserDevice net now env user device)" "orderly (CreateNewFriendship net now env user peer message)"
  "orderly (repo_processFriendshipRequest net now user request_id action)"
  by (rule login_by_email.orderly login_by_user.orderly user_by_name.orderly unprocessed.orderly friends.orderly
      friendship.orderly device_relation.orderly create_account.orderly revoke.orderly request.orderly process.orderly)+

lemma orderly_account_services [orderly_calls]:
  "orderly (findUserByUserName net now name)" "orderly (requestFriendship net now env user peer message)"
  "orderly (fetchFriendshipRequest net now user)" "orderly (fetchFriends net now env user)"
  "orderly (processFriendshipRequest net now user request_id process)" "orderly (verifyUserDevice net now user device)"
  "orderly (verifySessionIdentity net now user device)" "orderly (revokeUserDevice lib net now env user device password)"
proof -
  show "orderly (findUserByUserName net now name)" by (rule orderly_ext [OF findUserByUserName_def orderly_account_queries(3)])
  show "orderly (fetchFriendshipRequest net now user)" by (rule orderly_ext [OF fetchFriendshipRequest_def orderly_account_queries(4)])
  show "orderly (fetchFriends net now env user)" by (rule orderly_ext [OF fetchFriends_def orderly_account_queries(5)])
  show "orderly (requestFriendship net now env user peer message)"
    by (rule orderly_world [where f = "CreateNewFriendship net now env user peer message", OF _ orderly_account_queries(10)])
      (auto simp: requestFriendship_def split: prod.split sum.split exn.split)
  show "orderly (processFriendshipRequest net now user request_id process)"
    by (rule orderly_ext, rule processFriendshipRequest_def)
      (cases "process_action process"; simp add: orderly_account_queries)
  show "orderly (verifyUserDevice net now user device)"
    by (rule orderly_world [where f = "VerifyUserDeviceRelation net now user device", OF _ orderly_account_queries(7)])
      (auto simp: verifyUserDevice_def split: prod.split sum.split exn.split)
  show "orderly (verifySessionIdentity net now user device)"
    by (rule orderly_world [where f = "VerifyUserDeviceRelation net now user device", OF _ orderly_account_queries(7)])
      (auto simp: verifySessionIdentity_def split: prod.split sum.split exn.split)
  show "orderly (revokeUserDevice lib net now env user device password)"
    by (rule orderly_ext, rule revokeUserDevice_def)
      (intro orderly_structure orderly_account_queries)
qed

end
