(* ===== verification/Keys.thy ===== *)
theory Keys
  imports Accounts
begin

text \<open>
  Devices and their public keys: \<^verbatim>\<open>src/src/repository/KeyRepository.cpp\<close> and \<^verbatim>\<open>src/src/service/KeyService.cpp\<close>.
  A device is registered with its identity key and a signed prekey; it uploads one-time prekeys, of which the server
  hands out each at most once, to its owner and the owner's friends.
\<close>

section \<open>Data\<close>

datatype DeviceStatus = device_active | device_revoked | device_pending

text \<open>The status \<open>None\<close>: \<^verbatim>\<open>returnStatus\<close> reaches its end without a \<^verbatim>\<open>return\<close>, which is undefined.\<close>

record Device =
  dv_device_id :: uuid
  dv_user_id :: uuid
  dv_device_name :: string
  dv_status :: "DeviceStatus option"
  dv_identity_public_key :: "byte list"
  dv_protocol_suite :: string

record DeviceKeyBundle =
  dk_device_id :: uuid
  dk_signed_preKey_id :: int
  dk_preKey_public :: "byte list"
  dk_preKey_signature :: "byte list"
  dk_is_current :: bool

record OneTimePrekey =
  op_device_id :: uuid
  op_prekey_id :: int
  op_public_key_hex :: string

datatype PrekeyClaimStatus = ClaimSuccess | NotFriends | DeviceUnavailable | NoPrekey

record PrekeyClaimResult =
  cl_status :: PrekeyClaimStatus
  cl_prekey :: "OneTimePrekey option"

section \<open>Reading columns\<close>

definition int_max :: int where "int_max = 2 ^ 31 - 1"

text \<open>\<^verbatim>\<open>std::from_chars\<close> for \<^verbatim>\<open>int\<close>, of 32 bits.\<close>

definition from_chars_int :: "string \<Rightarrow> errc + (int \<times> nat)" where
  "from_chars_int s =
     (case s of
        c # r \<Rightarrow>
          if c = CHR ''-'' then
            (case from_chars_unsigned (2 ^ 31) r of Inl e \<Rightarrow> Inl e | Inr (v, k) \<Rightarrow> Inr (- int v, Suc k))
          else (case from_chars_unsigned (2 ^ 31 - 1) s of Inl e \<Rightarrow> Inl e | Inr (v, k) \<Rightarrow> Inr (int v, k))
      | [] \<Rightarrow> Inl invalid_argument_errc)"

definition parseInt :: "string \<Rightarrow> int result" where
  "parseInt text =
     (case from_chars_int text of
        Inl _ \<Rightarrow> Inl (InvalidArgument ''Invalid integer or out of range'')
      | Inr (v, k) \<Rightarrow> if k \<noteq> length text then Inl (InvalidArgument ''Invalid integer or out of range'') else Inr v)"

text \<open>\<^verbatim>\<open>std::stoll\<close> of a number that PostgreSQL printed: no white space and no plus sign in front.\<close>

definition stoll :: "string \<Rightarrow> int result" where
  "stoll text =
     (case from_chars_int64 text of
        Inl invalid_argument_errc \<Rightarrow> Inl (InvalidArgument ''stoll'')
      | Inl result_out_of_range_errc \<Rightarrow> Inl (OutOfRange ''stoll'')
      | Inr (v, k) \<Rightarrow> Inr v)"

definition returnStatus :: "string \<Rightarrow> DeviceStatus option" where
  "returnStatus status =
     (if status = ''active'' then Some device_active
      else if status = ''revoked'' then Some device_revoked
      else if status = ''pending'' then Some device_pending else None)"

definition parseBytea :: "library \<Rightarrow> string \<Rightarrow> byte list result" where
  "parseBytea lib text =
     (case unescape_bytea lib (c_str text) of None \<Rightarrow> Inl (RuntimeError ''Failed to decode BYTEA'') | Some bs \<Rightarrow> Inr bs)"

type_synonym device_columns = "uuid \<times> uuid \<times> string option \<times> string \<times> string \<times> string"

definition device_row :: "pg_env \<Rightarrow> user_device \<Rightarrow> device_columns" where
  "device_row env ud = (ud_device_id ud, ud_user_id ud, ud_device_name ud, ud_status ud,
     bytea_out env (ud_identity_public_key ud), ud_protocol_suite ud)"

definition device_of :: "library \<Rightarrow> device_columns \<Rightarrow> Device result" where
  "device_of lib row =
     (case row of (device_id, user_id, device_name, status, key_text, suite) \<Rightarrow>
        ebind (parseBytea lib key_text) (\<lambda>key.
          Inr \<lparr>dv_device_id = device_id, dv_user_id = user_id,
               dv_device_name = (case device_name of None \<Rightarrow> [] | Some n \<Rightarrow> n), dv_status = returnStatus status,
               dv_identity_public_key = key, dv_protocol_suite = suite\<rparr>))"

section \<open>Finding devices\<close>

definition known_user :: "store \<Rightarrow> uuid \<Rightarrow> bool" where
  "known_user st u \<longleftrightarrow> (\<exists>r \<in> set (users st). us_id r = u)"

definition sql_find_device :: "pg_env \<Rightarrow> uuid \<Rightarrow> uuid \<Rightarrow> (store, device_columns list) query" where
  "sql_find_device env user_id device_id n st =
     Inr (map (device_row env) (filter (\<lambda>ud. ud_user_id ud = user_id \<and> ud_device_id ud = device_id \<and> ud_status ud = ''active'' \<and>
        known_user st (ud_user_id ud)) (user_devices st)), st)"

definition found_device :: "library \<Rightarrow> device_columns list \<Rightarrow> Device option result" where
  "found_device lib rows = (case rows of [] \<Rightarrow> Inr None | row # _ \<Rightarrow> ebind (device_of lib row) (\<lambda>d. Inr (Some d)))"

definition FindDeviceByDeviceId ::
  "library \<Rightarrow> (nat \<Rightarrow> network) \<Rightarrow> int \<Rightarrow> pg_env \<Rightarrow> uuid \<Rightarrow> uuid \<Rightarrow> store_world \<Rightarrow> Device option result \<times> store_world" where
  "FindDeviceByDeviceId lib net now env user_id device_id =
     with_lease net now (db_bind (execute net (Sql (sql_find_device env user_id device_id))) (\<lambda>rows. db_lift (found_device lib rows)))"

definition sql_devices_of :: "pg_env \<Rightarrow> uuid \<Rightarrow> (store, device_columns list) query" where
  "sql_devices_of env user_id n st =
     Inr (map (device_row env) (filter (\<lambda>ud. ud_user_id ud = user_id \<and> ud_status ud = ''active'' \<and> active_user st (ud_user_id ud))
        (user_devices st)), st)"

definition GetDevicesByUserId ::
  "library \<Rightarrow> (nat \<Rightarrow> network) \<Rightarrow> int \<Rightarrow> pg_env \<Rightarrow> uuid \<Rightarrow> store_world \<Rightarrow> Device list option result \<times> store_world" where
  "GetDevicesByUserId lib net now env user_id =
     with_lease net now (db_bind (execute net (Sql (sql_devices_of env user_id)))
       (\<lambda>rows. db_lift (if rows = [] then Inr None else ebind (read_rows (device_of lib) rows) (\<lambda>ds. Inr (Some ds)))))"

text \<open>\<^verbatim>\<open>$1 = $2 OR EXISTS (...)\<close>: the user itself or a friend, by the row from the requesting user.\<close>

definition self_or_friend :: "store \<Rightarrow> uuid \<Rightarrow> uuid \<Rightarrow> bool" where
  "self_or_friend st my_id friend_id \<longleftrightarrow> my_id = friend_id \<or> (my_id, friend_id) \<in> set (friend_relation st)"

definition sql_friend_devices :: "pg_env \<Rightarrow> uuid \<Rightarrow> uuid \<Rightarrow> (store, device_columns list) query" where
  "sql_friend_devices env my_id friend_id n st =
     Inr (map (device_row env) (sort_key (\<lambda>ud. (ud_created_at ud, ud_device_id ud))
        (filter (\<lambda>ud. ud_user_id ud = friend_id \<and> ud_status ud = ''active'' \<and> active_user st (ud_user_id ud) \<and>
                      active_user st my_id \<and> self_or_friend st my_id friend_id) (user_devices st))), st)"

definition GetUserDevicesByUserId ::
  "library \<Rightarrow> (nat \<Rightarrow> network) \<Rightarrow> int \<Rightarrow> pg_env \<Rightarrow> uuid \<Rightarrow> uuid \<Rightarrow> store_world \<Rightarrow> Device list result \<times> store_world" where
  "GetUserDevicesByUserId lib net now env my_id friend_id =
     with_lease net now (db_bind (execute net (Sql (sql_friend_devices env my_id friend_id)))
       (\<lambda>rows. db_lift (read_rows (device_of lib) rows)))"

section \<open>Registering a device\<close>

definition sql_insert_device ::
  "pg_env \<Rightarrow> uuid \<Rightarrow> string \<Rightarrow> string \<Rightarrow> string \<Rightarrow> (store, device_columns list) query" where
  "sql_insert_device env user_id device_name identity_hex suite n st =
     (case hex_in env identity_hex of
        None \<Rightarrow> Inl (''22023'', [])
      | Some key \<Rightarrow>
          let ud = \<lparr>ud_device_id = gen_random_uuid env n, ud_user_id = user_id, ud_status = ''active'',
                    ud_device_name = Some device_name, ud_identity_public_key = key, ud_protocol_suite = suite,
                    ud_created_at = current_timestamp env n\<rparr>
          in if \<exists>x \<in> set (user_devices st). ud_device_id x = ud_device_id ud then Inl (''23505'', ''user_devices_pkey'')
             else if \<not> known_user st user_id then Inl (''23503'', ''user_devices_user_id_fkey'')
             else Inr ([device_row env ud], st\<lparr>user_devices := user_devices st @ [ud]\<rparr>))"

definition sql_insert_bundle :: "pg_env \<Rightarrow> uuid \<Rightarrow> string \<Rightarrow> string \<Rightarrow> string \<Rightarrow> (store, unit) query" where
  "sql_insert_bundle env device_id prekey_id public_hex signature_hex n st =
     (case bigint_in env prekey_id of
        None \<Rightarrow> Inl (''22P02'', [])
      | Some k \<Rightarrow>
          (case (hex_in env public_hex, hex_in env signature_hex) of
             (Some pub, Some sig) \<Rightarrow>
               Inr ((), st\<lparr>key_bundles := key_bundles st @
                 [\<lparr>kb_device_id = device_id, kb_signed_prekey_id = k, kb_signed_prekey_public = pub,
                   kb_signed_prekey_signature = sig, kb_is_current = True, kb_expires_at = None\<rparr>]\<rparr>)
           | _ \<Rightarrow> Inl (''22023'', [])))"

record DeviceRegistrationInput =
  identity_public_key_hex :: string
  reg_device_name :: string
  protocol_suite :: string
  signed_prekey_id :: string
  signed_prekey_public_hex :: string
  signed_prekey_signature_hex :: string

definition RegisterNewDevice ::
  "library \<Rightarrow> (nat \<Rightarrow> network) \<Rightarrow> pg_env \<Rightarrow> uuid \<Rightarrow> DeviceRegistrationInput \<Rightarrow> (store, Device) db" where
  "RegisterNewDevice lib net env user_id input =
     db_bind (execute net (Sql (sql_insert_device env user_id (c_str (reg_device_name input))
               (c_str (identity_public_key_hex input)) (c_str (protocol_suite input))))) (\<lambda>rows.
     case rows of
       [] \<Rightarrow> db_throw (LogicError ''Cannot read a null database value'')
     | row # _ \<Rightarrow>
         db_bind (execute net (Sql (sql_insert_bundle env (fst row) (c_str (signed_prekey_id input))
                   (c_str (signed_prekey_public_hex input)) (c_str (signed_prekey_signature_hex input))))) (\<lambda>_.
         db_lift (device_of lib row)))"

definition repo_RegisterNewDevice ::
  "library \<Rightarrow> (nat \<Rightarrow> network) \<Rightarrow> int \<Rightarrow> pg_env \<Rightarrow> uuid \<Rightarrow> DeviceRegistrationInput \<Rightarrow> store_world \<Rightarrow> Device result \<times> store_world" where
  "repo_RegisterNewDevice lib net now env user_id input =
     with_lease net now (withTransaction net (RegisterNewDevice lib net env user_id input))"

section \<open>One-time prekeys\<close>

definition sql_insert_prekey :: "pg_env \<Rightarrow> uuid \<Rightarrow> int \<Rightarrow> string \<Rightarrow> (store, unit) query" where
  "sql_insert_prekey env device_id index prekey n st =
     (case hex_in env prekey of
        None \<Rightarrow> Inl (''22023'', [])
      | Some key \<Rightarrow>
          if \<exists>p \<in> set (one_time_prekeys st). pk_device_id p = device_id \<and> pk_prekey_id p = index
          then Inl (''23505'', ''device_one_time_prekeys_pkey'')
          else Inr ((), st\<lparr>one_time_prekeys := one_time_prekeys st @
                 [\<lparr>pk_device_id = device_id, pk_prekey_id = index, pk_public_key = key, pk_state = ''available''\<rparr>]\<rparr>))"

fun insert_prekeys :: "(nat \<Rightarrow> network) \<Rightarrow> pg_env \<Rightarrow> uuid \<Rightarrow> (int \<times> string) list \<Rightarrow> (store, bool) db" where
  "insert_prekeys net env device_id [] = db_return True"
| "insert_prekeys net env device_id ((index, prekey) # ks) =
     db_bind (execute net (Sql (sql_insert_prekey env device_id index (c_str prekey)))) (\<lambda>_. insert_prekeys net env device_id ks)"

definition upload_body :: "(nat \<Rightarrow> network) \<Rightarrow> pg_env \<Rightarrow> uuid \<Rightarrow> uuid \<Rightarrow> (int \<times> string) list \<Rightarrow> (store, bool) db" where
  "upload_body net env user_id device_id prekeys =
     db_bind (execute net (Sql (sql_own_device user_id device_id))) (\<lambda>device.
     if device = [] then db_return False else insert_prekeys net env device_id prekeys)"

definition createNewOnetimeKey ::
  "(nat \<Rightarrow> network) \<Rightarrow> int \<Rightarrow> pg_env \<Rightarrow> uuid \<Rightarrow> uuid \<Rightarrow> (int \<times> string) list \<Rightarrow> store_world \<Rightarrow> bool result \<times> store_world" where
  "createNewOnetimeKey net now env user_id device_id prekeys =
     with_lease net now (withTransaction net (upload_body net env user_id device_id prekeys))"

definition sql_target_device :: "uuid \<Rightarrow> uuid \<Rightarrow> uuid \<Rightarrow> (store, uuid list) query" where
  "sql_target_device my_id friend_id device_id n st =
     Inr (map ud_device_id (filter (\<lambda>ud. ud_user_id ud = friend_id \<and> ud_device_id ud = device_id \<and> ud_status ud = ''active'' \<and>
        active_user st (ud_user_id ud) \<and> active_user st my_id) (user_devices st)), st)"

text \<open>\<^verbatim>\<open>ORDER BY prekey_id LIMIT 1 FOR UPDATE SKIP LOCKED\<close>, then the update of the selected row.\<close>

definition claimable :: "pg_env \<Rightarrow> nat \<Rightarrow> uuid \<Rightarrow> one_time_prekey \<Rightarrow> bool" where
  "claimable env n device_id p \<longleftrightarrow>
     pk_device_id p = device_id \<and> pk_state p = ''available'' \<and> \<not> row_locked env n (pk_device_id p) (pk_prekey_id p)"

definition claimed_row :: "uuid \<Rightarrow> int \<Rightarrow> one_time_prekey \<Rightarrow> one_time_prekey" where
  "claimed_row device_id prekey_id p =
     (if pk_device_id p = device_id \<and> pk_prekey_id p = prekey_id \<and> pk_state p = ''available''
      then p\<lparr>pk_state := ''claimed''\<rparr> else p)"

definition sql_claim :: "pg_env \<Rightarrow> uuid \<Rightarrow> (store, (string \<times> string) list) query" where
  "sql_claim env device_id n st =
     (case sort_key pk_prekey_id (filter (claimable env n device_id) (one_time_prekeys st)) of
        [] \<Rightarrow> Inr ([], st)
      | p # _ \<Rightarrow>
          Inr (map (\<lambda>q. (bigint_text (pk_prekey_id q), encodeHex (pk_public_key q)))
                 (filter (\<lambda>q. pk_device_id q = device_id \<and> pk_prekey_id q = pk_prekey_id p \<and> pk_state q = ''available'')
                   (one_time_prekeys st)),
               st\<lparr>one_time_prekeys := map (claimed_row device_id (pk_prekey_id p)) (one_time_prekeys st)\<rparr>))"

definition claim_status :: "PrekeyClaimStatus \<Rightarrow> PrekeyClaimResult" where
  "claim_status s = \<lparr>cl_status = s, cl_prekey = None\<rparr>"

definition authorize_claim :: "(nat \<Rightarrow> network) \<Rightarrow> uuid \<Rightarrow> uuid \<Rightarrow> (store, bool) db" where
  "authorize_claim net my_id friend_id =
     (if my_id = friend_id then db_return True
      else db_bind (execute net (Sql (sql_friendship my_id friend_id))) (\<lambda>rows. db_return (rows \<noteq> [])))"

definition claim_body :: "(nat \<Rightarrow> network) \<Rightarrow> pg_env \<Rightarrow> uuid \<Rightarrow> uuid \<Rightarrow> uuid \<Rightarrow> (store, PrekeyClaimResult) db" where
  "claim_body net env my_id friend_id device_id =
     db_bind (authorize_claim net my_id friend_id) (\<lambda>friends.
     if \<not> friends then db_return (claim_status NotFriends)
     else db_bind (execute net (Sql (sql_target_device my_id friend_id device_id))) (\<lambda>device.
       if device = [] then db_return (claim_status DeviceUnavailable)
       else db_bind (execute net (Sql (sql_claim env device_id))) (\<lambda>rows.
         case rows of
           [] \<Rightarrow> db_return (claim_status NoPrekey)
         | (id_text, key_hex) # _ \<Rightarrow>
             db_bind (db_lift (stoll id_text)) (\<lambda>i.
             db_return \<lparr>cl_status = ClaimSuccess,
               cl_prekey = Some \<lparr>op_device_id = device_id, op_prekey_id = i, op_public_key_hex = key_hex\<rparr>\<rparr>))))"

definition getOneTimeKey ::
  "(nat \<Rightarrow> network) \<Rightarrow> int \<Rightarrow> pg_env \<Rightarrow> uuid \<Rightarrow> uuid \<Rightarrow> uuid \<Rightarrow> store_world \<Rightarrow> PrekeyClaimResult result \<times> store_world" where
  "getOneTimeKey net now env my_id friend_id device_id =
     with_lease net now (withTransaction net (claim_body net env my_id friend_id device_id))"

section \<open>Key bundles\<close>

type_synonym bundle_columns = "uuid \<times> string \<times> string \<times> string"

definition sql_key_bundle :: "pg_env \<Rightarrow> uuid \<Rightarrow> uuid \<Rightarrow> uuid \<Rightarrow> (store, bundle_columns list) query" where
  "sql_key_bundle env my_id friend_id device_id n st =
     Inr ([(kb_device_id kb, bigint_text (kb_signed_prekey_id kb), bytea_out env (kb_signed_prekey_public kb),
            bytea_out env (kb_signed_prekey_signature kb)).
            kb \<leftarrow> key_bundles st, ud \<leftarrow> user_devices st,
            ud_device_id ud = kb_device_id kb \<and> ud_user_id ud = friend_id \<and> ud_device_id ud = device_id \<and>
            ud_status ud = ''active'' \<and> active_user st (ud_user_id ud) \<and> active_user st my_id \<and> kb_is_current kb \<and>
            (case kb_expires_at kb of None \<Rightarrow> True | Some t \<Rightarrow> t > current_timestamp env n) \<and>
            self_or_friend st my_id friend_id], st)"

definition bundle_of :: "library \<Rightarrow> bundle_columns list \<Rightarrow> DeviceKeyBundle option result" where
  "bundle_of lib rows =
     (case rows of
        [] \<Rightarrow> Inr None
      | (device_id, id_text, public_text, signature_text) # _ \<Rightarrow>
          ebind (parseInt id_text) (\<lambda>i.
          ebind (parseBytea lib public_text) (\<lambda>pub.
          ebind (parseBytea lib signature_text) (\<lambda>sig.
            Inr (Some \<lparr>dk_device_id = device_id, dk_signed_preKey_id = i, dk_preKey_public = pub, dk_preKey_signature = sig,
                       dk_is_current = True\<rparr>)))))"

definition repo_getDeviceKeyBundle ::
  "library \<Rightarrow> (nat \<Rightarrow> network) \<Rightarrow> int \<Rightarrow> pg_env \<Rightarrow> uuid \<Rightarrow> uuid \<Rightarrow> uuid \<Rightarrow> store_world
     \<Rightarrow> DeviceKeyBundle option result \<times> store_world" where
  "repo_getDeviceKeyBundle lib net now env friend_id my_id device_id =
     with_lease net now (db_bind (execute net (Sql (sql_key_bundle env my_id friend_id device_id)))
       (\<lambda>rows. db_lift (bundle_of lib rows)))"


section \<open>The key service\<close>

definition verifyDeviceId ::
  "library \<Rightarrow> (nat \<Rightarrow> network) \<Rightarrow> int \<Rightarrow> pg_env \<Rightarrow> uuid \<Rightarrow> uuid \<Rightarrow> store_world \<Rightarrow> bool option result \<times> store_world" where
  "verifyDeviceId lib net now env user_id device_id w =
     (case FindDeviceByDeviceId lib net now env user_id device_id w of
        (Inl e, w') \<Rightarrow> (Inl e, w')
      | (Inr None, w') \<Rightarrow> (Inr None, w')
      | (Inr (Some d), w') \<Rightarrow> (Inr (Some (dv_status d = Some device_active)), w'))"

text \<open>\<open>None\<close>: the users are not friends.\<close>

definition fetchUserDevices ::
  "library \<Rightarrow> (nat \<Rightarrow> network) \<Rightarrow> int \<Rightarrow> pg_env \<Rightarrow> uuid \<Rightarrow> uuid \<Rightarrow> store_world \<Rightarrow> Device list option result \<times> store_world" where
  "fetchUserDevices lib net now env my_id friend_id w =
     (case (if my_id \<noteq> friend_id then VerifyFriendShip net now my_id friend_id w else (Inr True, w)) of
        (Inl e, w1) \<Rightarrow> (Inl e, w1)
      | (Inr False, w1) \<Rightarrow> (Inr None, w1)
      | (Inr True, w1) \<Rightarrow>
          (case GetUserDevicesByUserId lib net now env my_id friend_id w1 of
             (Inl e, w2) \<Rightarrow> (Inl e, w2)
           | (Inr ds, w2) \<Rightarrow> (Inr (Some ds), w2)))"

definition registerNewDevice ::
  "library \<Rightarrow> (nat \<Rightarrow> network) \<Rightarrow> int \<Rightarrow> pg_env \<Rightarrow> uuid \<Rightarrow> DeviceRegistrationInput \<Rightarrow> store_world \<Rightarrow> string result \<times> store_world" where
  "registerNewDevice lib net now env user_id input w =
     (case repo_RegisterNewDevice lib net now env user_id input w of
        (Inl e, w') \<Rightarrow> (Inl e, w')
      | (Inr d, w') \<Rightarrow> (Inr (uuid_to_string lib (dv_device_id d)), w'))"

definition is_hex_digit :: "char \<Rightarrow> bool" where
  "is_hex_digit c \<longleftrightarrow> hex_digit_value c \<noteq> None"

definition valid_prekey :: "int \<times> string \<Rightarrow> bool" where
  "valid_prekey k \<longleftrightarrow> \<not> (fst k < 0 \<or> length (snd k) \<noteq> 64 \<or> \<not> list_all is_hex_digit (snd k))"

definition uploadOneTimePrekeys ::
  "library \<Rightarrow> (nat \<Rightarrow> network) \<Rightarrow> int \<Rightarrow> pg_env \<Rightarrow> uuid \<Rightarrow> uuid \<Rightarrow> (int \<times> string) list \<Rightarrow> store_world \<Rightarrow> bool result \<times> store_world" where
  "uploadOneTimePrekeys lib net now env user_id device_id prekeys w =
     (if prekeys = [] \<or> length prekeys > 10 then (Inl (InvalidArgument ''Expected 1 to 10 one-time prekeys''), w)
      else if \<not> list_all valid_prekey prekeys then (Inl (InvalidArgument ''Invalid one-time prekey''), w)
      else case FindDeviceByDeviceId lib net now env user_id device_id w of
             (Inl e, w1) \<Rightarrow> (Inl e, w1)
           | (Inr None, w1) \<Rightarrow> (Inr False, w1)
           | (Inr (Some d), w1) \<Rightarrow>
               if dv_status d \<noteq> Some device_active then (Inr False, w1)
               else createNewOnetimeKey net now env user_id device_id prekeys w1)"

definition getOneTimePrekey ::
  "library \<Rightarrow> (nat \<Rightarrow> network) \<Rightarrow> int \<Rightarrow> pg_env \<Rightarrow> uuid \<Rightarrow> uuid \<Rightarrow> uuid \<Rightarrow> store_world \<Rightarrow> PrekeyClaimResult result \<times> store_world" where
  "getOneTimePrekey lib net now env my_id friend_id device_id w =
     (case (if my_id \<noteq> friend_id then VerifyFriendShip net now my_id friend_id w else (Inr True, w)) of
        (Inl e, w1) \<Rightarrow> (Inl e, w1)
      | (Inr False, w1) \<Rightarrow> (Inr (claim_status NotFriends), w1)
      | (Inr True, w1) \<Rightarrow>
          (case FindDeviceByDeviceId lib net now env friend_id device_id w1 of
             (Inl e, w2) \<Rightarrow> (Inl e, w2)
           | (Inr None, w2) \<Rightarrow> (Inr (claim_status DeviceUnavailable), w2)
           | (Inr (Some d), w2) \<Rightarrow>
               if dv_status d \<noteq> Some device_active then (Inr (claim_status DeviceUnavailable), w2)
               else getOneTimeKey net now env my_id friend_id device_id w2))"

definition getDeviceKeyBundle ::
  "library \<Rightarrow> (nat \<Rightarrow> network) \<Rightarrow> int \<Rightarrow> pg_env \<Rightarrow> uuid \<Rightarrow> uuid \<Rightarrow> uuid \<Rightarrow> store_world
     \<Rightarrow> DeviceKeyBundle option result \<times> store_world" where
  "getDeviceKeyBundle lib net now env friend_id my_id device_id w =
     repo_getDeviceKeyBundle lib net now env friend_id my_id device_id w"

section \<open>What the reading operations answer\<close>

lemma read_only_keys [simp, intro]:
  "read_only (sql_find_device env u d)" "read_only (sql_devices_of env u)" "read_only (sql_friend_devices env u v)"
  "read_only (sql_key_bundle env u v d)"
  by (auto simp: read_only_def sql_find_device_def sql_devices_of_def sql_friend_devices_def sql_key_bundle_def)

interpretation find_device: evolving "FindDeviceByDeviceId lib net now env user device"
  "read_result (sql_find_device env user device) (found_device lib)" for lib net now env user device
  unfolding FindDeviceByDeviceId_def by (rule read_evolving) simp

interpretation devices_of: evolving "GetDevicesByUserId lib net now env user"
  "read_result (sql_devices_of env user)
     (\<lambda>rows. if rows = [] then Inr None else ebind (read_rows (device_of lib) rows) (\<lambda>ds. Inr (Some ds)))" for lib net now env user
  unfolding GetDevicesByUserId_def by (rule read_evolving) simp

interpretation friend_devices: evolving "GetUserDevicesByUserId lib net now env user peer"
  "read_result (sql_friend_devices env user peer) (read_rows (device_of lib))" for lib net now env user peer
  unfolding GetUserDevicesByUserId_def by (rule read_evolving) simp

interpretation key_bundle: evolving "repo_getDeviceKeyBundle lib net now env peer user device"
  "read_result (sql_key_bundle env user peer device) (bundle_of lib)" for lib net now env user peer device
  unfolding repo_getDeviceKeyBundle_def by (rule read_evolving) simp

section \<open>What the writing operations do\<close>

text \<open>A new device with its key bundle.\<close>

definition register_effect :: "uuid \<Rightarrow> store \<Rightarrow> Device \<Rightarrow> store \<Rightarrow> bool" where
  "register_effect user st d st' \<longleftrightarrow>
     (\<exists>ud kb. (\<forall>x \<in> set (user_devices st). ud_device_id x \<noteq> ud_device_id ud) \<and> known_user st user \<and>
        ud_user_id ud = user \<and> ud_status ud = ''active'' \<and> kb_device_id kb = ud_device_id ud \<and> kb_is_current kb \<and>
        dv_device_id d = ud_device_id ud \<and> dv_user_id d = user \<and>
        st' = st\<lparr>user_devices := user_devices st @ [ud], key_bundles := key_bundles st @ [kb]\<rparr>)"

lemma RegisterNewDevice_safe [simp, intro]: "tx_safe (RegisterNewDevice lib net env user input)"
  unfolding RegisterNewDevice_def by (intro tx_safe_bind tx_safe_sql) (auto split: list.splits)

lemma RegisterNewDevice_runs:
  assumes "tx_runs (RegisterNewDevice lib net env user input) st d st'"
  shows "register_effect user st d st'"
proof -
  from tx_runs_sql_bind [OF assms [unfolded RegisterNewDevice_def]] obtain n rows u where
    q: "sql_insert_device env user (c_str (reg_device_name input)) (c_str (identity_public_key_hex input))
          (c_str (protocol_suite input)) n st = Inr (rows, u)"
    and t: "tx_runs (case rows of [] \<Rightarrow> db_throw (LogicError ''Cannot read a null database value'')
      | row # _ \<Rightarrow> db_bind (execute net (Sql (sql_insert_bundle env (fst row) (c_str (signed_prekey_id input))
          (c_str (signed_prekey_public_hex input)) (c_str (signed_prekey_signature_hex input)))))
          (\<lambda>_. db_lift (device_of lib row))) u d st'" by blast
  from q obtain ud where ud: "rows = [device_row env ud]" "u = st\<lparr>user_devices := user_devices st @ [ud]\<rparr>"
      "\<forall>x \<in> set (user_devices st). ud_device_id x \<noteq> ud_device_id ud" "known_user st user" "ud_user_id ud = user" "ud_status ud = ''active''"
    by (auto simp: sql_insert_device_def Let_def split: option.splits if_splits)
  from t ud(1) obtain m u2 where
    b: "sql_insert_bundle env (ud_device_id ud) (c_str (signed_prekey_id input)) (c_str (signed_prekey_public_hex input))
          (c_str (signed_prekey_signature_hex input)) m u = Inr ((), u2)"
    and d: "device_of lib (device_row env ud) = Inr d" "st' = u2"
    by (auto simp: device_row_def dest!: tx_runs_sql_bind)
  from b obtain k p g where b2: "u2 = u\<lparr>key_bundles := key_bundles u @
      [\<lparr>kb_device_id = ud_device_id ud, kb_signed_prekey_id = k, kb_signed_prekey_public = p,
        kb_signed_prekey_signature = g, kb_is_current = True, kb_expires_at = None\<rparr>]\<rparr>"
    by (auto simp: sql_insert_bundle_def split: option.splits)
  define kb where "kb = \<lparr>kb_device_id = ud_device_id ud, kb_signed_prekey_id = k, kb_signed_prekey_public = p,
    kb_signed_prekey_signature = g, kb_is_current = True, kb_expires_at = None\<rparr>"
  have kb: "kb_device_id kb = ud_device_id ud" "kb_is_current kb" "u2 = u\<lparr>key_bundles := key_bundles u @ [kb]\<rparr>"
    using b2 by (simp_all add: kb_def)
  from d(1) have "dv_device_id d = ud_device_id ud" "dv_user_id d = ud_user_id ud"
    by (auto simp: device_row_def device_of_def ebind_Inr_iff)
  with ud(2-) kb d(2) show ?thesis unfolding register_effect_def by auto
qed

lemma register_effect_ok:
  assumes ok: "store_ok st" and e: "register_effect user st d st'"
  shows "store_ok st' \<and> evolves st st'"
proof -
  from e obtain ud kb where new: "\<forall>x \<in> set (user_devices st). ud_device_id x \<noteq> ud_device_id ud"
      "st' = st\<lparr>user_devices := user_devices st @ [ud], key_bundles := key_bundles st @ [kb]\<rparr>"
    by (auto simp: register_effect_def)
  then have "envelopes_ok st'" using ok envelopes_ok_cong [of st' st] by (simp add: store_ok_def)
  moreover have "credentials_ok st'" using ok new by (fastforce simp: store_ok_def keys_ok_def credentials_ok_def)
  moreover have "evolves st st'" unfolding new(2) evolves_def by (auto intro!: table_grows_append)
  ultimately show ?thesis using ok new by (auto simp: store_ok_def keys_ok_def accounts_ok_def)
qed

interpretation register: evolving "repo_RegisterNewDevice lib net now env user input"
  "tx_result (\<lambda>st x st'. evolves st st' \<and> register_effect user st x st')" for lib net now env user input
  unfolding repo_RegisterNewDevice_def
  by (rule transaction_evolving, simp) (metis RegisterNewDevice_runs register_effect_ok)

text \<open>New one-time prekeys: all of them or none, for an active device of the active user.\<close>

definition upload_effect :: "pg_env \<Rightarrow> uuid \<Rightarrow> uuid \<Rightarrow> (int \<times> string) list \<Rightarrow> store \<Rightarrow> bool \<Rightarrow> store \<Rightarrow> bool" where
  "upload_effect env user device prekeys st r st' \<longleftrightarrow> r = usable_device st user device \<and>
     (if r then \<exists>new. map pk_prekey_id new = map fst prekeys \<and>
            map (\<lambda>p. Some (pk_public_key p)) new = map (\<lambda>k. hex_in env (c_str (snd k))) prekeys \<and>
            (\<forall>p \<in> set new. pk_device_id p = device \<and> pk_state p = ''available'') \<and>
            distinct (map (\<lambda>p. (pk_device_id p, pk_prekey_id p)) (one_time_prekeys st @ new)) \<and>
            st' = st\<lparr>one_time_prekeys := one_time_prekeys st @ new\<rparr>
      else st' = st)"

lemma insert_prekeys_safe [simp, intro]: "tx_safe (insert_prekeys net env device ks)"
  by (induction ks) (auto intro!: tx_safe_bind)

lemma upload_body_safe [simp, intro]: "tx_safe (upload_body net env user device ks)"
  unfolding upload_body_def by (intro tx_safe_bind tx_safe_sql) auto

lemma insert_prekeys_runs:
  assumes "tx_runs (insert_prekeys net env device ks) st r st'"
    and "distinct (map (\<lambda>p. (pk_device_id p, pk_prekey_id p)) (one_time_prekeys st))"
  shows "r \<and> (\<exists>new. map pk_prekey_id new = map fst ks \<and>
            map (\<lambda>p. Some (pk_public_key p)) new = map (\<lambda>k. hex_in env (c_str (snd k))) ks \<and>
            (\<forall>p \<in> set new. pk_device_id p = device \<and> pk_state p = ''available'') \<and>
            distinct (map (\<lambda>p. (pk_device_id p, pk_prekey_id p)) (one_time_prekeys st @ new)) \<and>
            st' = st\<lparr>one_time_prekeys := one_time_prekeys st @ new\<rparr>)"
  using assms
proof (induction ks arbitrary: st)
  case (Cons k ks)
  obtain i h where k: "k = (i, h)" by (cases k)
  from tx_runs_sql_bind [OF Cons.prems(1) [unfolded k insert_prekeys.simps]]
  obtain n u where q: "sql_insert_prekey env device i (c_str h) n st = Inr ((), u)"
    and t: "tx_runs (insert_prekeys net env device ks) u r st'" by auto
  from q obtain key where key: "hex_in env (c_str h) = Some key" "\<forall>x \<in> set (one_time_prekeys st). \<not> (pk_device_id x = device \<and> pk_prekey_id x = i)"
      "u = st\<lparr>one_time_prekeys := one_time_prekeys st @
        [\<lparr>pk_device_id = device, pk_prekey_id = i, pk_public_key = key, pk_state = ''available''\<rparr>]\<rparr>"
    by (auto simp: sql_insert_prekey_def split: option.splits if_splits)
  define p where "p = \<lparr>pk_device_id = device, pk_prekey_id = i, pk_public_key = key, pk_state = ''available''\<rparr>"
  have p: "pk_device_id p = device" "pk_prekey_id p = i" "pk_state p = ''available''" "hex_in env (c_str h) = Some (pk_public_key p)"
      "\<forall>x \<in> set (one_time_prekeys st). \<not> (pk_device_id x = device \<and> pk_prekey_id x = i)"
      "u = st\<lparr>one_time_prekeys := one_time_prekeys st @ [p]\<rparr>"
    using key by (simp_all add: p_def)
  have d: "distinct (map (\<lambda>p. (pk_device_id p, pk_prekey_id p)) (one_time_prekeys u))"
    using Cons.prems(2) p by auto
  from Cons.IH [OF t d] obtain new where new: "r" "map pk_prekey_id new = map fst ks"
      "map (\<lambda>p. Some (pk_public_key p)) new = map (\<lambda>k. hex_in env (c_str (snd k))) ks"
      "\<forall>p \<in> set new. pk_device_id p = device \<and> pk_state p = ''available''"
      "distinct (map (\<lambda>p. (pk_device_id p, pk_prekey_id p)) (one_time_prekeys u @ new))"
      "st' = u\<lparr>one_time_prekeys := one_time_prekeys u @ new\<rparr>" by blast
  with p k show ?case by (intro conjI exI [of _ "p # new"]) simp_all
qed simp

lemma upload_body_runs:
  assumes "store_ok st" "tx_runs (upload_body net env user device ks) st r st'"
  shows "upload_effect env user device ks st r st'"
proof -
  from tx_runs_sql_bind [OF assms(2) [unfolded upload_body_def]] obtain n ds u where
    d: "sql_own_device user device n st = Inr (ds, u)"
    and t: "tx_runs (if ds = [] then db_return False else insert_prekeys net env device ks) u r st'" by auto
  from own_device [OF d] t insert_prekeys_runs [of net env device ks st r st'] assms(1) show ?thesis
    by (auto simp: upload_effect_def store_ok_def keys_ok_def credentials_ok_def split: if_splits)
qed

lemma upload_effect_ok:
  assumes ok: "store_ok st" and e: "upload_effect env user device ks st r st'"
  shows "store_ok st' \<and> evolves st st'"
proof (cases r)
  case True
  with e obtain new where new: "distinct (map (\<lambda>p. (pk_device_id p, pk_prekey_id p)) (one_time_prekeys st @ new))"
      "st' = st\<lparr>one_time_prekeys := one_time_prekeys st @ new\<rparr>" by (auto simp: upload_effect_def)
  then have "envelopes_ok st'" using ok envelopes_ok_cong [of st' st] by (simp add: store_ok_def)
  moreover have "evolves st st'" unfolding new(2) evolves_def by (auto intro!: table_grows_append)
  ultimately show ?thesis using ok new by (auto simp: store_ok_def keys_ok_def accounts_ok_def credentials_ok_def)
qed (use assms in \<open>simp add: upload_effect_def\<close>)

interpretation upload: evolving "createNewOnetimeKey net now env user device ks"
  "tx_result (\<lambda>st x st'. evolves st st' \<and> upload_effect env user device ks st x st')" for net now env user device ks
  unfolding createNewOnetimeKey_def
  by (rule transaction_evolving, simp) (metis upload_body_runs upload_effect_ok)


text \<open>A claim: of an available prekey, for the device's owner or a friend, of an active device and active accounts.\<close>

definition may_claim :: "store \<Rightarrow> uuid \<Rightarrow> uuid \<Rightarrow> uuid \<Rightarrow> bool" where
  "may_claim st user peer device \<longleftrightarrow> self_or_friend st user peer \<and> usable_device st peer device \<and> active_user st user"

definition claim_effect :: "pg_env \<Rightarrow> uuid \<Rightarrow> uuid \<Rightarrow> uuid \<Rightarrow> store \<Rightarrow> PrekeyClaimResult \<Rightarrow> store \<Rightarrow> bool" where
  "claim_effect env user peer device st r st' \<longleftrightarrow>
     (if cl_status r = ClaimSuccess
      then may_claim st user peer device \<and>
        (\<exists>p \<in> set (one_time_prekeys st). pk_device_id p = device \<and> pk_state p = ''available'' \<and>
           cl_prekey r = Some \<lparr>op_device_id = device, op_prekey_id = pk_prekey_id p, op_public_key_hex = encodeHex (pk_public_key p)\<rparr> \<and>
           st' = st\<lparr>one_time_prekeys := map (claimed_row device (pk_prekey_id p)) (one_time_prekeys st)\<rparr>)
      else st' = st \<and> cl_prekey r = None \<and>
        (if cl_status r = NotFriends then \<not> self_or_friend st user peer
         else if cl_status r = DeviceUnavailable
         then self_or_friend st user peer \<and> \<not> (usable_device st peer device \<and> active_user st user)
         else may_claim st user peer device \<and> (\<exists>n. filter (claimable env n device) (one_time_prekeys st) = [])))"

lemma from_chars_bigint_text:
  "from_chars_int64 (bigint_text v) =
     (if v < - (2 ^ 63) \<or> v > 2 ^ 63 - 1 then Inl result_out_of_range_errc else Inr (v, length (bigint_text v)))"
proof (cases "v < 0")
  case True
  then show ?thesis by (simp add: from_chars_int64_def bigint_text_def del: power_numeral)
next
  case False
  then have t: "bigint_text v = to_string_nat (nat v)" by (simp add: bigint_text_def)
  obtain c r where cr: "to_string_nat (nat v) = c # r" by (cases "to_string_nat (nat v)") auto
  have "is_digit c" using to_string_nat_digits [of c "nat v"] cr by simp
  then have "c \<noteq> CHR ''-''" by (rule is_digit_not_minus)
  then have "from_chars_int64 (c # r) =
      (case from_chars_unsigned (2 ^ 63 - 1) (c # r) of Inl e \<Rightarrow> Inl e | Inr (v, k) \<Rightarrow> Inr (int v, k))"
    by (simp only: from_chars_int64_def list.case if_False)
  also have "\<dots> = (if nat v > 2 ^ 63 - 1 then Inl result_out_of_range_errc else Inr (v, length (c # r)))"
    using from_chars_to_string_nat [of "2 ^ 63 - 1" "nat v"] cr False by simp
  finally show ?thesis using False t cr by auto
qed

lemma stoll_bigint_text: "stoll (bigint_text v) = Inr w \<Longrightarrow> w = v"
  by (simp add: stoll_def from_chars_bigint_text split: if_splits)

lemma authorize_claim_safe [simp, intro]: "tx_safe (authorize_claim net user peer)"
  unfolding authorize_claim_def by (cases "user = peer") (auto intro!: tx_safe_bind)

lemma claim_body_safe [simp, intro]: "tx_safe (claim_body net env user peer device)"
  unfolding claim_body_def by (intro tx_safe_bind tx_safe_if authorize_claim_safe tx_safe_sql) (auto intro!: tx_safe_bind split: list.splits)

lemma authorize_claim_runs:
  "tx_runs (authorize_claim net user peer) st r st' \<Longrightarrow> st' = st \<and> r = self_or_friend st user peer"
  by (auto simp: authorize_claim_def sql_friendship_def self_or_friend_def filter_empty_conv split: if_splits dest!: tx_runs_sql_bind)
    blast

lemma target_device:
  "sql_target_device user peer device n st = Inr (ds, st') \<Longrightarrow>
     st' = st \<and> (ds = [] \<longleftrightarrow> \<not> (usable_device st peer device \<and> active_user st user))"
  by (auto simp: sql_target_device_def usable_device_def filter_empty_conv)

lemma claim_row:
  assumes k: "distinct (map (\<lambda>p. (pk_device_id p, pk_prekey_id p)) (one_time_prekeys st))"
    and q: "sql_claim env device n st = Inr (rows, st')"
  shows "(rows = [] \<and> st' = st \<and> filter (claimable env n device) (one_time_prekeys st) = []) \<or>
    (\<exists>p \<in> set (one_time_prekeys st). pk_device_id p = device \<and> pk_state p = ''available'' \<and>
       rows = [(bigint_text (pk_prekey_id p), encodeHex (pk_public_key p))] \<and>
       st' = st\<lparr>one_time_prekeys := map (claimed_row device (pk_prekey_id p)) (one_time_prekeys st)\<rparr>)"
proof (cases "sort_key pk_prekey_id (filter (claimable env n device) (one_time_prekeys st))")
  case Nil
  moreover have "length (filter (claimable env n device) (one_time_prekeys st)) = 0"
    using arg_cong [OF Nil, of length] by simp
  ultimately show ?thesis using q by (simp add: sql_claim_def)
next
  case (Cons p ps)
  then have "p \<in> set (filter (claimable env n device) (one_time_prekeys st))"
    by (metis list.set_intros(1) set_sort)
  then have p: "p \<in> set (one_time_prekeys st)" "pk_device_id p = device" "pk_state p = ''available''"
    by (auto simp: claimable_def)
  from filter_key [OF k p(1)] have "filter (\<lambda>q. pk_device_id q = device \<and> pk_prekey_id q = pk_prekey_id p) (one_time_prekeys st) = [p]"
    using p(2) by simp
  then have "filter (\<lambda>q. pk_device_id q = device \<and> pk_prekey_id q = pk_prekey_id p \<and> pk_state q = ''available'') (one_time_prekeys st) = [p]"
    using p(3) filter_filter [of "\<lambda>q. pk_state q = ''available''" "\<lambda>q. pk_device_id q = device \<and> pk_prekey_id q = pk_prekey_id p" "one_time_prekeys st"]
    by (simp add: conj_assoc)
  with q Cons p show ?thesis by (auto simp: sql_claim_def)
qed

lemma claim_body_runs:
  assumes ok: "store_ok st" and run: "tx_runs (claim_body net env user peer device) st r st'"
  shows "claim_effect env user peer device st r st'"
proof -
  have k: "distinct (map (\<lambda>p. (pk_device_id p, pk_prekey_id p)) (one_time_prekeys st))"
    using ok by (simp add: store_ok_def keys_ok_def credentials_ok_def)
  obtain fr u where "tx_runs (authorize_claim net user peer) st fr u"
    and t: "tx_runs (if \<not> fr then db_return (claim_status NotFriends)
     else db_bind (execute net (Sql (sql_target_device user peer device))) (\<lambda>ds.
       if ds = [] then db_return (claim_status DeviceUnavailable)
       else db_bind (execute net (Sql (sql_claim env device))) (\<lambda>rows.
         case rows of
           [] \<Rightarrow> db_return (claim_status NoPrekey)
         | (id_text, key_hex) # _ \<Rightarrow>
             db_bind (db_lift (stoll id_text)) (\<lambda>i.
             db_return \<lparr>cl_status = ClaimSuccess,
               cl_prekey = Some \<lparr>op_device_id = device, op_prekey_id = i, op_public_key_hex = key_hex\<rparr>\<rparr>)))) u r st'"
    using tx_runs_bind [OF run [unfolded claim_body_def] authorize_claim_safe] by blast
  with authorize_claim_runs [of net user peer st fr u] have r: "tx_runs (if \<not> self_or_friend st user peer then db_return (claim_status NotFriends)
     else db_bind (execute net (Sql (sql_target_device user peer device))) (\<lambda>ds.
       if ds = [] then db_return (claim_status DeviceUnavailable)
       else db_bind (execute net (Sql (sql_claim env device))) (\<lambda>rows.
         case rows of
           [] \<Rightarrow> db_return (claim_status NoPrekey)
         | (id_text, key_hex) # _ \<Rightarrow>
             db_bind (db_lift (stoll id_text)) (\<lambda>i.
             db_return \<lparr>cl_status = ClaimSuccess,
               cl_prekey = Some \<lparr>op_device_id = device, op_prekey_id = i, op_public_key_hex = key_hex\<rparr>\<rparr>)))) st r st'"
    by simp
  show ?thesis
  proof (cases "self_or_friend st user peer")
    case False
    with r show ?thesis by (simp add: claim_effect_def claim_status_def)
  next
    case friend: True
    from r friend obtain n ds u where d: "sql_target_device user peer device n st = Inr (ds, u)"
      and r2: "tx_runs (if ds = [] then db_return (claim_status DeviceUnavailable)
       else db_bind (execute net (Sql (sql_claim env device))) (\<lambda>rows.
         case rows of
           [] \<Rightarrow> db_return (claim_status NoPrekey)
         | (id_text, key_hex) # _ \<Rightarrow>
             db_bind (db_lift (stoll id_text)) (\<lambda>i.
             db_return \<lparr>cl_status = ClaimSuccess,
               cl_prekey = Some \<lparr>op_device_id = device, op_prekey_id = i, op_public_key_hex = key_hex\<rparr>\<rparr>))) u r st'"
      by (auto dest!: tx_runs_sql_bind)
    note d' = target_device [OF d]
    show ?thesis
    proof (cases "ds = []")
      case True
      with r2 d' friend show ?thesis by (simp add: claim_effect_def claim_status_def)
    next
      case False
      with r2 d' obtain m rows u2 where c: "sql_claim env device m st = Inr (rows, u2)"
        and r3: "tx_runs (case rows of
           [] \<Rightarrow> db_return (claim_status NoPrekey)
         | (id_text, key_hex) # _ \<Rightarrow>
             db_bind (db_lift (stoll id_text)) (\<lambda>i.
             db_return \<lparr>cl_status = ClaimSuccess,
               cl_prekey = Some \<lparr>op_device_id = device, op_prekey_id = i, op_public_key_hex = key_hex\<rparr>\<rparr>)) u2 r st'"
        by (auto dest!: tx_runs_sql_bind)
      from claim_row [OF k c] r3 d' False friend show ?thesis
        by (auto simp: claim_effect_def claim_status_def may_claim_def dest!: tx_runs_bind stoll_bigint_text)
          (rule bexI [rotated], assumption, simp)
    qed
  qed
qed

lemma claimed_row_simps [simp]:
  "pk_device_id (claimed_row d i p) = pk_device_id p" "pk_prekey_id (claimed_row d i p) = pk_prekey_id p"
  "prekey_step p (claimed_row d i p)"
  by (auto simp: claimed_row_def)

lemma claim_effect_ok:
  assumes ok: "store_ok st" and e: "claim_effect env user peer device st r st'"
  shows "store_ok st' \<and> evolves st st'"
proof (cases "cl_status r = ClaimSuccess")
  case True
  with e obtain i where new: "st' = st\<lparr>one_time_prekeys := map (claimed_row device i) (one_time_prekeys st)\<rparr>"
    by (auto simp: claim_effect_def)
  then have "envelopes_ok st'" using ok envelopes_ok_cong [of st' st] by (simp add: store_ok_def)
  moreover have "evolves st st'" unfolding new evolves_def by (auto intro!: table_grows_map simp del: prekey_step.simps)
  ultimately show ?thesis using ok new by (auto simp: store_ok_def keys_ok_def accounts_ok_def credentials_ok_def o_def)
qed (use assms in \<open>simp add: claim_effect_def\<close>)

interpretation claim: evolving "getOneTimeKey net now env user peer device"
  "tx_result (\<lambda>st x st'. evolves st st' \<and> claim_effect env user peer device st x st')" for net now env user peer device
  unfolding getOneTimeKey_def
  by (rule transaction_evolving, simp) (metis claim_body_runs claim_effect_ok)


section \<open>Every operation refines the preorder\<close>

lemma orderly_key_queries [orderly_calls]:
  "orderly (FindDeviceByDeviceId lib net now env user device)" "orderly (GetDevicesByUserId lib net now env user)"
  "orderly (GetUserDevicesByUserId lib net now env user peer)" "orderly (repo_getDeviceKeyBundle lib net now env peer user device)"
  "orderly (repo_RegisterNewDevice lib net now env user input)" "orderly (createNewOnetimeKey net now env user device ks)"
  "orderly (getOneTimeKey net now env user peer device)"
  by (rule find_device.orderly devices_of.orderly friend_devices.orderly key_bundle.orderly register.orderly upload.orderly
      claim.orderly)+

lemma orderly_key_services [orderly_calls]:
  "orderly (verifyDeviceId lib net now env user device)" "orderly (fetchUserDevices lib net now env user peer)"
  "orderly (registerNewDevice lib net now env user input)" "orderly (uploadOneTimePrekeys lib net now env user device ks)"
  "orderly (getOneTimePrekey lib net now env user peer device)" "orderly (getDeviceKeyBundle lib net now env peer user device)"
proof -
  show "orderly (verifyDeviceId lib net now env user device)"
    by (rule orderly_world [where f = "FindDeviceByDeviceId lib net now env user device", OF _ orderly_key_queries(1)])
      (auto simp: verifyDeviceId_def split: prod.split sum.split option.split)
  show "orderly (registerNewDevice lib net now env user input)"
    by (rule orderly_world [where f = "repo_RegisterNewDevice lib net now env user input", OF _ orderly_key_queries(5)])
      (auto simp: registerNewDevice_def split: prod.split sum.split)
  show "orderly (getDeviceKeyBundle lib net now env peer user device)"
    by (rule orderly_ext [OF getDeviceKeyBundle_def orderly_key_queries(4)])
  show "orderly (fetchUserDevices lib net now env user peer)"
    by (rule orderly_ext, rule fetchUserDevices_def)
      (intro orderly_structure orderly_account_queries orderly_key_queries)
  show "orderly (uploadOneTimePrekeys lib net now env user device ks)"
    by (rule orderly_ext, rule uploadOneTimePrekeys_def)
      (intro orderly_structure orderly_account_queries orderly_key_queries)
  show "orderly (getOneTimePrekey lib net now env user peer device)"
    by (rule orderly_ext, rule getOneTimePrekey_def)
      (intro orderly_structure orderly_account_queries orderly_key_queries)
qed

end
