(* ===== verification/Login.thy ===== *)
theory Login
  imports Keys Auth_Router
begin

text \<open>
  Signing in: \<^verbatim>\<open>LoginTicketRepository.cpp\<close>, \<^verbatim>\<open>RefreshTokenRepository.cpp\<close>, \<^verbatim>\<open>LoginTicketService.cpp\<close>,
  \<^verbatim>\<open>LoginService.cpp\<close> and \<^verbatim>\<open>Auth/RefreshTokenService.cpp\<close> under \<^verbatim>\<open>src/src/\<close>.  The password buys a login ticket
  for five minutes; the ticket is consumed once, for an active device of the user or for the registration of a new one, and
  yields an access token and a refresh token bound to that device.  Only hashes of tickets and refresh tokens are stored.

  The database's clock counts microseconds (\<open>current_timestamp env\<close> at a statement; the transaction's start time and
  the wall clock are not told apart), \<^verbatim>\<open>std::chrono::system_clock\<close> nanoseconds; times are before the year 2262, where
  its 64-bit counter ends.
\<close>

section \<open>Data\<close>

datatype LoginTicketStatus =
    TicketSuccess | InvalidTicket | AccountDisabled | TicketDeviceNotFound | DeviceNotOwned | TicketDeviceNotActive

record LoginTicketIdentity =
  li_user_id :: uuid
  li_device_id :: uuid

record LoginTicketResult =
  tr_status :: LoginTicketStatus
  tr_identity :: "LoginTicketIdentity option"

record CompletedLogin =
  cd_result :: LoginTicketResult
  cd_access_token :: string
  cd_refresh_token :: string

record RefreshTokenResult =
  rr_id :: uuid
  rr_user_id :: uuid
  rr_token_hash :: string
  rr_expires_at :: int
  rr_revoked_at :: "int option"
  rr_created_at :: int

datatype RefreshTokenStatus = RefreshInvalid | RefreshExpired

text \<open>\<^verbatim>\<open>TooManyRequests\<close>, \<^verbatim>\<open>InternalError\<close> and \<^verbatim>\<open>ServiceUnavailable\<close> of the enumeration are never produced.\<close>

datatype LoginError =
    LoginTooManyRequests | NoUserFound | InvalidCredentials | LoginInternalError | LoginServiceUnavailable | NotActiveUser
  | LoginSuccess

record LoginServiceResult =
  ls_login :: LoginError
  ls_login_ticket :: "string option"

definition ticket_status :: "LoginTicketStatus \<Rightarrow> LoginTicketResult" where
  "ticket_status s = \<lparr>tr_status = s, tr_identity = None\<rparr>"

section \<open>Refresh tokens in the database\<close>

definition second :: int where "second = 1000000"

definition parseTimePoint :: "string \<Rightarrow> int result" where
  "parseTimePoint text =
     (case from_chars_int64 text of
        Inr (v, k) \<Rightarrow> if k = length text then Inr (v * 1000000000) else Inl (RuntimeError ''Invalid database timestamp'')
      | Inl _ \<Rightarrow> Inl (RuntimeError ''Invalid database timestamp''))"

type_synonym token_columns = "uuid \<times> uuid \<times> string \<times> string \<times> string option \<times> string"

definition token_row :: "refresh_token \<Rightarrow> token_columns" where
  "token_row t = (rt_id t, rt_user_id t, rt_token_hash t, bigint_text (rt_expires_at t div second),
     (case rt_revoked_at t of None \<Rightarrow> None | Some r \<Rightarrow> Some (bigint_text (r div second))), bigint_text (rt_created_at t div second))"

text \<open>The joins with the active device and the active account.\<close>

definition bound_device :: "store \<Rightarrow> refresh_token \<Rightarrow> user_device \<Rightarrow> bool" where
  "bound_device st t ud \<longleftrightarrow> ud_device_id ud = rt_device_id t \<and> ud_user_id ud = rt_user_id t \<and> ud_status ud = ''active''"

definition sql_token :: "string \<Rightarrow> (store, token_columns list) query" where
  "sql_token hash n st =
     Inr (take 1 [token_row t. t \<leftarrow> refresh_tokens st, ud \<leftarrow> user_devices st, u \<leftarrow> users st,
            rt_token_hash t = hash \<and> bound_device st t ud \<and> us_id u = rt_user_id t \<and> us_is_active u], st)"

definition token_record :: "token_columns list \<Rightarrow> RefreshTokenResult option result" where
  "token_record rows =
     (case rows of
        [] \<Rightarrow> Inr None
      | (i, user_id, hash, expires, revoked, created) # _ \<Rightarrow>
          ebind (parseTimePoint expires) (\<lambda>e.
          ebind (case revoked of None \<Rightarrow> Inr None | Some t \<Rightarrow> ebind (parseTimePoint t) (\<lambda>r. Inr (Some r))) (\<lambda>r.
          ebind (parseTimePoint created) (\<lambda>c.
            Inr (Some \<lparr>rr_id = i, rr_user_id = user_id, rr_token_hash = hash, rr_expires_at = e, rr_revoked_at = r,
                       rr_created_at = c\<rparr>)))))"

definition getRefreshTokenRecord ::
  "(nat \<Rightarrow> network) \<Rightarrow> int \<Rightarrow> string \<Rightarrow> store_world \<Rightarrow> RefreshTokenResult option result \<times> store_world" where
  "getRefreshTokenRecord net now hash =
     with_lease net now (db_bind (execute net (Sql (sql_token (c_str hash)))) (\<lambda>rows. db_lift (token_record rows)))"

text \<open>
  The trigger \<^verbatim>\<open>refresh_tokens_validate_device\<close> runs before the row is inserted; its exception names no constraint.
\<close>

definition owned_active :: "store \<Rightarrow> uuid \<Rightarrow> uuid \<Rightarrow> bool" where
  "owned_active st user_id device_id \<longleftrightarrow>
     (\<exists>ud \<in> set (user_devices st). ud_device_id ud = device_id \<and> ud_user_id ud = user_id \<and> ud_status ud = ''active'')"

definition insert_token :: "refresh_token \<Rightarrow> store \<Rightarrow> (string \<times> string) + (uuid \<times> store)" where
  "insert_token t st =
     (if \<not> owned_active st (rt_user_id t) (rt_device_id t) then Inl (''23514'', [])
      else if \<not> not_blank (rt_token_hash t) then Inl (''23514'', ''refresh_tokens_hash_not_blank'')
      else if \<not> rt_expires_at t > rt_created_at t then Inl (''23514'', ''refresh_tokens_expiration_valid'')
      else if \<exists>x \<in> set (refresh_tokens st). rt_id x = rt_id t then Inl (''23505'', ''refresh_tokens_pkey'')
      else if \<exists>x \<in> set (refresh_tokens st). rt_token_hash x = rt_token_hash t
      then Inl (''23505'', ''refresh_tokens_token_hash_unique'')
      else if \<not> known_user st (rt_user_id t) then Inl (''23503'', ''refresh_tokens_user_id_fkey'')
      else Inr (rt_id t, st\<lparr>refresh_tokens := refresh_tokens st @ [t]\<rparr>))"

definition sql_insert_token :: "pg_env \<Rightarrow> uuid \<Rightarrow> uuid \<Rightarrow> string \<Rightarrow> (store, uuid list) query" where
  "sql_insert_token env user_id device_id hash n st =
     (case insert_token \<lparr>rt_id = gen_random_uuid env n, rt_user_id = user_id, rt_device_id = device_id, rt_token_hash = hash,
             rt_expires_at = current_timestamp env n + 7 * 24 * 3600 * second, rt_revoked_at = None,
             rt_created_at = current_timestamp env n\<rparr> st of
        Inl e \<Rightarrow> Inl e
      | Inr (i, st') \<Rightarrow> Inr ([i], st'))"

definition insertRefreshToken :: "(nat \<Rightarrow> network) \<Rightarrow> pg_env \<Rightarrow> uuid \<Rightarrow> uuid \<Rightarrow> string \<Rightarrow> (store, unit) db" where
  "insertRefreshToken net env user_id device_id hash =
     db_bind (execute net (Sql (sql_insert_token env user_id device_id (c_str hash)))) (\<lambda>rows.
     if length rows \<noteq> 1 then db_throw (RuntimeError ''Refresh token insert failed'') else db_return ())"

definition revoked_by_hash :: "int \<Rightarrow> string \<Rightarrow> refresh_token \<Rightarrow> refresh_token" where
  "revoked_by_hash now hash t =
     (if rt_token_hash t = hash \<and> rt_revoked_at t = None then t\<lparr>rt_revoked_at := Some now\<rparr> else t)"

definition sql_revoke_token :: "pg_env \<Rightarrow> string \<Rightarrow> (store, unit) query" where
  "sql_revoke_token env hash n st =
     Inr ((), st\<lparr>refresh_tokens := map (revoked_by_hash (current_timestamp env n) hash) (refresh_tokens st)\<rparr>)"

definition revokeRefreshToken ::
  "(nat \<Rightarrow> network) \<Rightarrow> int \<Rightarrow> pg_env \<Rightarrow> string \<Rightarrow> store_world \<Rightarrow> unit result \<times> store_world" where
  "revokeRefreshToken net now env hash =
     with_lease net now (db_bind (execute net (Sql (sql_revoke_token env (c_str hash)))) (\<lambda>_. db_lift (Inr ())))"

definition sql_delete_token :: "string \<Rightarrow> (store, unit) query" where
  "sql_delete_token hash n st =
     Inr ((), st\<lparr>refresh_tokens := filter (\<lambda>t. rt_token_hash t \<noteq> hash) (refresh_tokens st)\<rparr>)"

definition deleteRefreshToken :: "(nat \<Rightarrow> network) \<Rightarrow> int \<Rightarrow> string \<Rightarrow> store_world \<Rightarrow> unit result \<times> store_world" where
  "deleteRefreshToken net now hash =
     with_lease net now (db_bind (execute net (Sql (sql_delete_token (c_str hash)))) (\<lambda>_. db_lift (Inr ())))"

text \<open>\<^verbatim>\<open>EXTRACT(EPOCH FROM expires_at)::bigint\<close> rounds to the nearest second, halves away from zero.\<close>

definition epoch_rounded :: "int \<Rightarrow> int" where
  "epoch_rounded t = (if t < 0 then - ((- t + 500000) div second) else (t + 500000) div second)"

definition sql_rotate_old :: "pg_env \<Rightarrow> string \<Rightarrow> (store, (uuid \<times> string \<times> uuid) list) query" where
  "sql_rotate_old env hash n st =
     (let now = current_timestamp env n;
          old = (\<lambda>t. rt_token_hash t = hash \<and> rt_revoked_at t = None \<and> rt_expires_at t > now) in
      Inr (map (\<lambda>t. (rt_user_id t, bigint_text (epoch_rounded (rt_expires_at t)), rt_device_id t)) (filter old (refresh_tokens st)),
           st\<lparr>refresh_tokens := map (\<lambda>t. if old t then t\<lparr>rt_revoked_at := Some now\<rparr> else t) (refresh_tokens st)\<rparr>))"

text \<open>The parameter is read as \<^verbatim>\<open>double precision\<close>, which holds the seconds of a timestamp exactly.\<close>

definition sql_rotate_new :: "pg_env \<Rightarrow> uuid \<Rightarrow> string \<Rightarrow> string \<Rightarrow> uuid \<Rightarrow> (store, unit) query" where
  "sql_rotate_new env user_id hash expires device_id n st =
     (case bigint_in env expires of
        None \<Rightarrow> Inl (''22P02'', [])
      | Some s \<Rightarrow>
          (case insert_token \<lparr>rt_id = gen_random_uuid env n, rt_user_id = user_id, rt_device_id = device_id, rt_token_hash = hash,
                  rt_expires_at = s * second, rt_revoked_at = None, rt_created_at = current_timestamp env n\<rparr> st of
             Inl e \<Rightarrow> Inl e
           | Inr (_, st') \<Rightarrow> Inr ((), st')))"

definition rotate_body :: "(nat \<Rightarrow> network) \<Rightarrow> pg_env \<Rightarrow> string \<Rightarrow> string \<Rightarrow> (store, bool) db" where
  "rotate_body net env oldTokenHash newTokenHash =
     db_bind (execute net (Sql (sql_rotate_old env (c_str oldTokenHash)))) (\<lambda>rows.
     case rows of
       [] \<Rightarrow> db_return False
     | (user_id, expires, device_id) # _ \<Rightarrow>
         db_bind (execute net (Sql (sql_rotate_new env user_id (c_str newTokenHash) expires device_id))) (\<lambda>_. db_return True))"

definition rotate_token ::
  "(nat \<Rightarrow> network) \<Rightarrow> int \<Rightarrow> pg_env \<Rightarrow> string \<Rightarrow> string \<Rightarrow> store_world \<Rightarrow> bool result \<times> store_world" where
  "rotate_token net now env oldTokenHash newTokenHash =
     with_lease net now (withTransaction net (rotate_body net env oldTokenHash newTokenHash))"

text \<open>\<^verbatim>\<open>duration_cast<seconds>\<close> truncates towards zero; \<^verbatim>\<open>SELECT count(*)\<close> comes back as text.\<close>

definition whole_seconds :: "int \<Rightarrow> int" where
  "whole_seconds t = (if t < 0 then - ((- t) div 1000000000) else t div 1000000000)"

definition sql_delete_expired :: "pg_env \<Rightarrow> string \<Rightarrow> (store, string) query" where
  "sql_delete_expired env seconds n st =
     (case bigint_in env seconds of
        None \<Rightarrow> Inl (''22P02'', [])
      | Some s \<Rightarrow> Inr (to_string_nat (length (filter (\<lambda>t. rt_expires_at t < s * second) (refresh_tokens st))),
                      st\<lparr>refresh_tokens := filter (\<lambda>t. \<not> rt_expires_at t < s * second) (refresh_tokens st)\<rparr>))"

text \<open>\<^verbatim>\<open>std::stoull\<close> of the digits that PostgreSQL printed.\<close>

definition stoull :: "string \<Rightarrow> nat result" where
  "stoull text =
     (case from_chars_unsigned (2 ^ 64 - 1) text of
        Inl invalid_argument_errc \<Rightarrow> Inl (InvalidArgument ''stoull'')
      | Inl result_out_of_range_errc \<Rightarrow> Inl (OutOfRange ''stoull'')
      | Inr (v, k) \<Rightarrow> Inr v)"

definition repo_deleteExpiredBefore ::
  "(nat \<Rightarrow> network) \<Rightarrow> int \<Rightarrow> pg_env \<Rightarrow> int \<Rightarrow> store_world \<Rightarrow> nat result \<times> store_world" where
  "repo_deleteExpiredBefore net now env cutoff =
     with_lease net now (db_bind (execute net (Sql (sql_delete_expired env (bigint_text (whole_seconds cutoff)))))
       (\<lambda>t. db_lift (stoull t)))"

section \<open>Login tickets in the database\<close>

text \<open>\<^verbatim>\<open>CHECK (ticket_hash ~ '^[0-9a-f]{64}$')\<close>; the service tests tickets for the same shape.\<close>

definition validTicket :: "string \<Rightarrow> bool" where
  "validTicket ticket \<longleftrightarrow> length ticket = 64 \<and> list_all (\<lambda>c. c \<in> set ''0123456789abcdef'') ticket"

text \<open>\<^verbatim>\<open>FOR SHARE\<close>: the row cannot change before the transaction ends.\<close>

definition sql_account :: "uuid \<Rightarrow> (store, uuid list) query" where
  "sql_account user_id n st = Inr (map us_id (filter (\<lambda>u. us_id u = user_id \<and> us_is_active u) (users st)), st)"

definition sql_insert_ticket :: "pg_env \<Rightarrow> uuid \<Rightarrow> string \<Rightarrow> (store, string list) query" where
  "sql_insert_ticket env user_id hash n st =
     (if \<not> validTicket hash then Inl (''23514'', ''login_tickets_ticket_hash_check'')
      else if \<exists>t \<in> set (login_tickets st). lt_ticket_hash t = hash then Inl (''23505'', ''login_tickets_pkey'')
      else if \<not> known_user st user_id then Inl (''23503'', ''login_tickets_user_id_fkey'')
      else Inr ([hash], st\<lparr>login_tickets := login_tickets st @
             [\<lparr>lt_ticket_hash = hash, lt_user_id = user_id, lt_expires_at = current_timestamp env n + 5 * 60 * second,
               lt_consumed_at = None\<rparr>]\<rparr>))"

definition issue_body :: "(nat \<Rightarrow> network) \<Rightarrow> pg_env \<Rightarrow> uuid \<Rightarrow> string \<Rightarrow> (store, bool) db" where
  "issue_body net env user_id hash =
     db_bind (execute net (Sql (sql_account user_id))) (\<lambda>account.
     if account = [] then db_return False
     else db_bind (execute net (Sql (sql_insert_ticket env user_id (c_str hash)))) (\<lambda>inserted.
       if length inserted \<noteq> 1 then db_throw (RuntimeError ''Ticket insert failed'') else db_return True))"

definition repo_issue ::
  "(nat \<Rightarrow> network) \<Rightarrow> int \<Rightarrow> pg_env \<Rightarrow> uuid \<Rightarrow> string \<Rightarrow> store_world \<Rightarrow> bool result \<times> store_world" where
  "repo_issue net now env user_id hash = with_lease net now (withTransaction net (issue_body net env user_id hash))"

definition open_ticket :: "int \<Rightarrow> string \<Rightarrow> login_ticket \<Rightarrow> bool" where
  "open_ticket now hash t \<longleftrightarrow> lt_ticket_hash t = hash \<and> lt_consumed_at t = None \<and> lt_expires_at t > now"

definition sql_open_ticket :: "pg_env \<Rightarrow> string \<Rightarrow> (store, uuid list) query" where
  "sql_open_ticket env hash n st =
     Inr (map lt_user_id (filter (open_ticket (current_timestamp env n) hash) (login_tickets st)), st)"

definition consumed_row :: "int \<Rightarrow> string \<Rightarrow> login_ticket \<Rightarrow> login_ticket" where
  "consumed_row now hash t = (if open_ticket now hash t then t\<lparr>lt_consumed_at := Some now\<rparr> else t)"

definition sql_consume :: "pg_env \<Rightarrow> string \<Rightarrow> (store, string list) query" where
  "sql_consume env hash n st =
     (let now = current_timestamp env n in
      Inr (map lt_ticket_hash (filter (open_ticket now hash) (login_tickets st)),
           st\<lparr>login_tickets := map (consumed_row now hash) (login_tickets st)\<rparr>))"

text \<open>The device of the existing-device path; without one the device identifier is still nil.\<close>

definition check_device :: "(nat \<Rightarrow> network) \<Rightarrow> uuid \<Rightarrow> uuid option \<Rightarrow> (store, LoginTicketStatus + uuid) db" where
  "check_device net userId device_id =
     (case device_id of
        None \<Rightarrow> db_return (Inr nil_uuid)
      | Some d \<Rightarrow>
          db_bind (execute net (Sql (sql_lock_device d))) (\<lambda>device.
          db_return (case device of
             [] \<Rightarrow> Inl TicketDeviceNotFound
           | (owner, status) # _ \<Rightarrow>
               if owner \<noteq> userId then Inl DeviceNotOwned
               else if status \<noteq> ''active'' then Inl TicketDeviceNotActive else Inr d)))"

definition new_device ::
  "library \<Rightarrow> (nat \<Rightarrow> network) \<Rightarrow> pg_env \<Rightarrow> uuid \<Rightarrow> DeviceRegistrationInput option \<Rightarrow> uuid \<Rightarrow> (store, uuid) db" where
  "new_device lib net env userId registration targetDevice =
     (case registration of
        None \<Rightarrow> db_return targetDevice
      | Some input \<Rightarrow> db_bind (RegisterNewDevice lib net env userId input) (\<lambda>d. db_return (dv_device_id d)))"

text \<open>The rest of the callback once the device has been checked: consumption, registration, refresh token.\<close>

definition finish_login ::
  "library \<Rightarrow> (nat \<Rightarrow> network) \<Rightarrow> pg_env \<Rightarrow> string \<Rightarrow> string \<Rightarrow> DeviceRegistrationInput option \<Rightarrow> uuid \<Rightarrow> uuid
     \<Rightarrow> (store, LoginTicketResult) db" where
  "finish_login lib net env hash refresh_hash registration userId device =
     db_bind (execute net (Sql (sql_consume env (c_str hash)))) (\<lambda>consumed.
     if consumed = [] then db_return (ticket_status InvalidTicket)
     else db_bind (new_device lib net env userId registration device) (\<lambda>targetDevice.
       db_bind (insertRefreshToken net env userId targetDevice refresh_hash) (\<lambda>_.
       db_return \<lparr>tr_status = TicketSuccess,
         tr_identity = Some \<lparr>li_user_id = userId, li_device_id = targetDevice\<rparr>\<rparr>)))"

definition complete_body ::
  "library \<Rightarrow> (nat \<Rightarrow> network) \<Rightarrow> pg_env \<Rightarrow> string \<Rightarrow> string \<Rightarrow> uuid option \<Rightarrow> DeviceRegistrationInput option
     \<Rightarrow> (store, LoginTicketResult) db" where
  "complete_body lib net env hash refresh_hash device_id registration =
     db_bind (execute net (Sql (sql_open_ticket env (c_str hash)))) (\<lambda>ticket.
     case ticket of
       [] \<Rightarrow> db_return (ticket_status InvalidTicket)
     | userId # _ \<Rightarrow>
         db_bind (execute net (Sql (sql_account userId))) (\<lambda>account.
         if account = [] then db_return (ticket_status AccountDisabled)
         else db_bind (check_device net userId device_id) (\<lambda>target.
           case target of
             Inl status \<Rightarrow> db_return (ticket_status status)
           | Inr device \<Rightarrow> finish_login lib net env hash refresh_hash registration userId device)))"

definition repo_complete ::
  "library \<Rightarrow> (nat \<Rightarrow> network) \<Rightarrow> int \<Rightarrow> pg_env \<Rightarrow> string \<Rightarrow> string \<Rightarrow> uuid option \<Rightarrow> DeviceRegistrationInput option
     \<Rightarrow> store_world \<Rightarrow> LoginTicketResult result \<times> store_world" where
  "repo_complete lib net now env hash refresh_hash device_id registration w =
     (if (device_id = None) = (registration = None)
      then (Inl (InvalidArgument ''Choose exactly one login completion path''), w)
      else with_lease net now (withTransaction net (complete_body lib net env hash refresh_hash device_id registration)) w)"

section \<open>The refresh-token service\<close>

text \<open>The random bytes are those of draw \<open>k\<close>.\<close>

definition generateRefreshToken :: "library \<Rightarrow> nat \<Rightarrow> string" where
  "generateRefreshToken lib k = bin2base64_url lib (randombytes lib k)"

definition RefreshTokenHash :: "library \<Rightarrow> string \<Rightarrow> string result" where
  "RefreshTokenHash lib refreshToken_origin = generichash_hex lib refreshToken_origin"

definition validate_refresh ::
  "library \<Rightarrow> (nat \<Rightarrow> network) \<Rightarrow> int \<Rightarrow> pg_env \<Rightarrow> int \<Rightarrow> string \<Rightarrow> store_world
     \<Rightarrow> (RefreshTokenStatus + string) result \<times> store_world" where
  "validate_refresh lib net now env clock refreshToken_origin w =
     (case RefreshTokenHash lib refreshToken_origin of
        Inl e \<Rightarrow> (Inl e, w)
      | Inr hash \<Rightarrow>
          (case getRefreshTokenRecord net now hash w of
             (Inl e, w1) \<Rightarrow> (Inl e, w1)
           | (Inr None, w1) \<Rightarrow> (Inr (Inl RefreshInvalid), w1)
           | (Inr (Some r), w1) \<Rightarrow>
               if rr_revoked_at r \<noteq> None then (Inr (Inl RefreshExpired), w1)
               else if rr_expires_at r \<le> clock
               then (case revokeRefreshToken net now env hash w1 of
                       (Inl e, w2) \<Rightarrow> (Inl e, w2)
                     | (Inr _, w2) \<Rightarrow> (Inr (Inl RefreshExpired), w2))
               else (Inr (Inr (uuid_to_string lib (rr_user_id r))), w1)))"

text \<open>\<^verbatim>\<open>std::variant<std::string, bool>\<close>: it is not implemented and always \<^verbatim>\<open>false\<close>.\<close>

definition fleshRefreshToken :: "string \<Rightarrow> string + bool" where
  "fleshRefreshToken refreshToken_old = Inr False"

definition deleteExpiredBefore ::
  "(nat \<Rightarrow> network) \<Rightarrow> int \<Rightarrow> pg_env \<Rightarrow> int \<Rightarrow> store_world \<Rightarrow> nat result \<times> store_world" where
  "deleteExpiredBefore net now env cutoff w = repo_deleteExpiredBefore net now env cutoff w"

section \<open>The ticket service and the login service\<close>

definition hashTicket :: "library \<Rightarrow> string \<Rightarrow> string result" where
  "hashTicket lib ticket = RefreshTokenHash lib (''login-ticket-v1:'' @ ticket)"

definition issue_ticket ::
  "library \<Rightarrow> (nat \<Rightarrow> network) \<Rightarrow> int \<Rightarrow> pg_env \<Rightarrow> nat \<Rightarrow> uuid \<Rightarrow> store_world \<Rightarrow> string option result \<times> store_world" where
  "issue_ticket lib net now env k user_id w =
     (let ticket = encodeHex (randombytes lib k) in
      case hashTicket lib ticket of
        Inl e \<Rightarrow> (Inl e, w)
      | Inr hash \<Rightarrow>
          (case repo_issue net now env user_id hash w of
             (Inl e, w1) \<Rightarrow> (Inl e, w1)
           | (Inr b, w1) \<Rightarrow> (Inr (if b then Some ticket else None), w1)))"

definition refused_login :: "LoginTicketResult \<Rightarrow> CompletedLogin" where
  "refused_login r = \<lparr>cd_result = r, cd_access_token = [], cd_refresh_token = []\<rparr>"

text \<open>The access token is made after the transaction, for the user of the ticket's row; the JWT clock counts seconds.\<close>

definition complete_login ::
  "library \<Rightarrow> string \<Rightarrow> (nat \<Rightarrow> network) \<Rightarrow> int \<Rightarrow> pg_env \<Rightarrow> int \<Rightarrow> nat \<Rightarrow> string \<Rightarrow> uuid option \<Rightarrow> DeviceRegistrationInput option
     \<Rightarrow> store_world \<Rightarrow> CompletedLogin result \<times> store_world" where
  "complete_login lib secret net now env clock k ticket device input w =
     (if \<not> validTicket ticket then (Inr (refused_login (ticket_status InvalidTicket)), w)
      else
        let refreshToken = generateRefreshToken lib k in
        case (hashTicket lib ticket, RefreshTokenHash lib refreshToken) of
          (Inr hash, Inr refresh_hash) \<Rightarrow>
            (case repo_complete lib net now env hash refresh_hash device input w of
               (Inl e, w1) \<Rightarrow> (Inl e, w1)
             | (Inr result, w1) \<Rightarrow>
                 if tr_status result \<noteq> TicketSuccess then (Inr (refused_login result), w1)
                 else case tr_identity result of
                        None \<Rightarrow> (Inl (LogicError ''Missing login identity''), w1)
                      | Some i \<Rightarrow>
                          (Inr \<lparr>cd_result = result,
                                cd_access_token = generateAccessToken lib secret (clock div 1000000000) (uuid_to_string lib (li_user_id i)),
                                cd_refresh_token = refreshToken\<rparr>, w1))
        | (Inl e, _) \<Rightarrow> (Inl e, w)
        | (Inr _, Inl e) \<Rightarrow> (Inl e, w))"

definition verifyDevice ::
  "library \<Rightarrow> string \<Rightarrow> (nat \<Rightarrow> network) \<Rightarrow> int \<Rightarrow> pg_env \<Rightarrow> int \<Rightarrow> nat \<Rightarrow> string \<Rightarrow> uuid \<Rightarrow> store_world
     \<Rightarrow> CompletedLogin result \<times> store_world" where
  "verifyDevice lib secret net now env clock k ticket device w =
     (if device = nil_uuid then (Inr (refused_login (ticket_status TicketDeviceNotFound)), w)
      else complete_login lib secret net now env clock k ticket (Some device) None w)"

definition registerDevice ::
  "library \<Rightarrow> string \<Rightarrow> (nat \<Rightarrow> network) \<Rightarrow> int \<Rightarrow> pg_env \<Rightarrow> int \<Rightarrow> nat \<Rightarrow> string \<Rightarrow> DeviceRegistrationInput \<Rightarrow> store_world
     \<Rightarrow> CompletedLogin result \<times> store_world" where
  "registerDevice lib secret net now env clock k ticket input w =
     complete_login lib secret net now env clock k ticket None (Some input) w"

definition login_refused :: "LoginError \<Rightarrow> LoginServiceResult" where
  "login_refused e = \<lparr>ls_login = e, ls_login_ticket = None\<rparr>"

definition loginByEmail ::
  "library \<Rightarrow> (nat \<Rightarrow> network) \<Rightarrow> int \<Rightarrow> pg_env \<Rightarrow> nat \<Rightarrow> string \<Rightarrow> string \<Rightarrow> store_world
     \<Rightarrow> LoginServiceResult result \<times> store_world" where
  "loginByEmail lib net now env k email password w =
     (case FindLoginRecordByEmail net now env email w of
        (Inl e, w1) \<Rightarrow> (Inl e, w1)
      | (Inr None, w1) \<Rightarrow> (Inr (login_refused NoUserFound), w1)
      | (Inr (Some rec), w1) \<Rightarrow>
          if \<not> verifyPassword lib (pl_password_hash rec) password then (Inr (login_refused InvalidCredentials), w1)
          else if \<not> pl_is_active rec then (Inr (login_refused NotActiveUser), w1)
          else (case issue_ticket lib net now env k (pl_id rec) w1 of
                  (Inl e, w2) \<Rightarrow> (Inl e, w2)
                | (Inr None, w2) \<Rightarrow> (Inr (login_refused NotActiveUser), w2)
                | (Inr (Some ticket), w2) \<Rightarrow> (Inr \<lparr>ls_login = LoginSuccess, ls_login_ticket = Some ticket\<rparr>, w2)))"

section \<open>What the operations on refresh tokens do\<close>

lemma read_only_tokens [simp, intro]: "read_only (sql_token hash)"
  by (auto simp: read_only_def sql_token_def)

interpretation token_record: evolving "getRefreshTokenRecord net now hash" "read_result (sql_token (c_str hash)) token_record"
  for net now hash
  unfolding getRefreshTokenRecord_def by (rule read_evolving) simp

text \<open>Changes of the refresh tokens that keep their hashes distinct and revoked tokens revoked.\<close>

definition tokens_kept :: "store \<Rightarrow> refresh_token list \<Rightarrow> bool" where
  "tokens_kept st ts \<longleftrightarrow> distinct (map rt_token_hash ts) \<and>
     (\<forall>t \<in> set ts. \<exists>x \<in> set (refresh_tokens st). rt_device_id x = rt_device_id t \<and> rt_user_id x = rt_user_id t \<and>
        (rt_revoked_at x \<noteq> None \<longrightarrow> rt_revoked_at t \<noteq> None))"

definition tokens_effect :: "store \<Rightarrow> store \<Rightarrow> bool" where
  "tokens_effect st st' \<longleftrightarrow> (\<exists>ts. st' = st\<lparr>refresh_tokens := ts\<rparr> \<and> tokens_kept st ts)"

lemma tokens_kept_owner:
  assumes c: "credentials_ok st" and k: "tokens_kept st ts" and t: "t \<in> set ts"
  shows "\<exists>ud \<in> set (user_devices st). ud_device_id ud = rt_device_id t \<and> ud_user_id ud = rt_user_id t \<and>
      (ud_status ud = ''revoked'' \<longrightarrow> rt_revoked_at t \<noteq> None)"
proof -
  from k t obtain x where x: "x \<in> set (refresh_tokens st)" "rt_device_id x = rt_device_id t" "rt_user_id x = rt_user_id t"
      "rt_revoked_at x \<noteq> None \<longrightarrow> rt_revoked_at t \<noteq> None" by (auto simp: tokens_kept_def)
  from c x(1) obtain ud where "ud \<in> set (user_devices st)" "ud_device_id ud = rt_device_id x" "ud_user_id ud = rt_user_id x"
      "ud_status ud = ''revoked'' \<longrightarrow> rt_revoked_at x \<noteq> None" by (auto simp: credentials_ok_def)
  with x show ?thesis by auto
qed

lemma tokens_effect_ok:
  assumes ok: "store_ok st" and e: "tokens_effect st st'"
  shows "store_ok st' \<and> evolves st st'"
proof -
  obtain ts where ts: "st' = st\<lparr>refresh_tokens := ts\<rparr>" "tokens_kept st ts" using e by (auto simp: tokens_effect_def)
  have c: "credentials_ok st" using ok by (simp add: store_ok_def keys_ok_def)
  then have "credentials_ok st'"
    using ts tokens_kept_owner [OF c ts(2)] by (simp add: credentials_ok_def tokens_kept_def)
  moreover have "envelopes_ok st'" using ok envelopes_ok_cong [of st' st] ts(1) by (simp add: store_ok_def)
  ultimately show ?thesis
    using ok ts(1) by (simp add: store_ok_def keys_ok_def accounts_ok_def evolves_def)
qed

lemma tokens_effect_map:
  assumes "store_ok st" and f: "\<And>t. rt_token_hash (f t) = rt_token_hash t" "\<And>t. rt_device_id (f t) = rt_device_id t"
      "\<And>t. rt_user_id (f t) = rt_user_id t" "\<And>t. rt_revoked_at t \<noteq> None \<Longrightarrow> rt_revoked_at (f t) \<noteq> None"
  shows "tokens_effect st (st\<lparr>refresh_tokens := map f (refresh_tokens st)\<rparr>)"
proof -
  have "map rt_token_hash (map f (refresh_tokens st)) = map rt_token_hash (refresh_tokens st)" using f(1) by simp
  moreover have "distinct (map rt_token_hash (refresh_tokens st))"
    using assms(1) by (simp add: store_ok_def keys_ok_def credentials_ok_def)
  ultimately have "tokens_kept st (map f (refresh_tokens st))"
    unfolding tokens_kept_def set_map ball_simps using f(2-4) by (metis (no_types))
  then show ?thesis unfolding tokens_effect_def by blast
qed

lemma tokens_effect_filter: "store_ok st \<Longrightarrow> tokens_effect st (st\<lparr>refresh_tokens := filter P (refresh_tokens st)\<rparr>)"
  unfolding tokens_effect_def
  by (rule exI [of _ "filter P (refresh_tokens st)"])
    (auto simp: tokens_kept_def store_ok_def keys_ok_def credentials_ok_def distinct_map_filter)

lemma tokens_query_evolving:
  assumes "\<And>n st x st'. store_ok st \<Longrightarrow> q n st = Inr (x, st') \<Longrightarrow> tokens_effect st st'"
  shows "evolving (with_lease net now (db_bind (execute net (Sql q)) (\<lambda>x. db_lift (g x)))) (query_result q g)"
proof (intro evolving.intro query_store_service evolving_axioms.intro)
  show "store_ok st \<Longrightarrow> q n st = Inr (x, st') \<Longrightarrow> store_ok st'" for n st x st'
    using assms tokens_effect_ok by blast
  show "store_ok st \<Longrightarrow> query_result q g st r st' \<Longrightarrow> evolves st st'" for st r st'
    using assms tokens_effect_ok by (fastforce simp: query_result_def)
qed

interpretation revoke_token: evolving "revokeRefreshToken net now env hash"
  "query_result (sql_revoke_token env (c_str hash)) (\<lambda>_. Inr ())" for net now env hash
  unfolding revokeRefreshToken_def
  by (rule tokens_query_evolving) (auto simp: sql_revoke_token_def revoked_by_hash_def intro!: tokens_effect_map)

interpretation delete_token: evolving "deleteRefreshToken net now hash"
  "query_result (sql_delete_token (c_str hash)) (\<lambda>_. Inr ())" for net now hash
  unfolding deleteRefreshToken_def
  by (rule tokens_query_evolving) (auto simp: sql_delete_token_def intro!: tokens_effect_filter)

interpretation delete_expired: evolving "repo_deleteExpiredBefore net now env cutoff"
  "query_result (sql_delete_expired env (bigint_text (whole_seconds cutoff))) stoull" for net now env cutoff
  unfolding repo_deleteExpiredBefore_def
  by (rule tokens_query_evolving) (auto simp: sql_delete_expired_def split: option.splits intro!: tokens_effect_filter)

text \<open>A new token belongs to an active device of its user.\<close>

lemma insert_tokenD:
  "insert_token t st = Inr (i, st') \<Longrightarrow>
     i = rt_id t \<and> owned_active st (rt_user_id t) (rt_device_id t) \<and> rt_created_at t < rt_expires_at t \<and>
     (\<forall>x \<in> set (refresh_tokens st). rt_token_hash x \<noteq> rt_token_hash t) \<and> st' = st\<lparr>refresh_tokens := refresh_tokens st @ [t]\<rparr>"
  by (auto simp: insert_token_def split: if_splits)

lemma insert_token_ok:
  assumes ok: "store_ok st" and i: "insert_token t st = Inr (i, st')"
  shows "store_ok st' \<and> evolves st st'"
proof -
  note i' = insert_tokenD [OF i]
  from i' obtain ud where ud: "ud \<in> set (user_devices st)" "ud_device_id ud = rt_device_id t" "ud_user_id ud = rt_user_id t"
      "ud_status ud = ''active''" by (auto simp: owned_active_def)
  have "envelopes_ok st'" using ok envelopes_ok_cong [of st' st] i' by (simp add: store_ok_def)
  moreover have "credentials_ok st'"
    using ok i' ud by (auto simp: store_ok_def keys_ok_def credentials_ok_def)
  ultimately show ?thesis
    using ok i' by (simp add: store_ok_def keys_ok_def accounts_ok_def evolves_def)
qed

text \<open>The effect of the rotation.\<close>

lemma rotate_body_safe [simp, intro]: "tx_safe (rotate_body net env old new)"
  unfolding rotate_body_def by (intro tx_safe_bind tx_safe_sql) (auto intro!: tx_safe_bind split: list.splits)

lemma rotate_old_effect:
  "store_ok st \<Longrightarrow> sql_rotate_old env hash n st = Inr (rows, st') \<Longrightarrow> tokens_effect st st'"
  by (auto simp: sql_rotate_old_def Let_def intro!: tokens_effect_map)

lemma rotate_new_ok:
  "store_ok st \<Longrightarrow> sql_rotate_new env user hash expires device n st = Inr (u, st') \<Longrightarrow> store_ok st' \<and> evolves st st'"
  by (auto simp: sql_rotate_new_def split: option.splits sum.splits dest: insert_token_ok)

lemma rotate_body_ok:
  assumes ok: "store_ok st" and run: "tx_runs (rotate_body net env old new) st r st'"
  shows "store_ok st' \<and> evolves st st'"
proof -
  from tx_runs_sql_bind [OF run [unfolded rotate_body_def]] obtain n rows u where
    q: "sql_rotate_old env (c_str old) n st = Inr (rows, u)"
    and t: "tx_runs (case rows of
       [] \<Rightarrow> db_return False
     | (user_id, expires, device_id) # _ \<Rightarrow>
         db_bind (execute net (Sql (sql_rotate_new env user_id (c_str new) expires device_id))) (\<lambda>_. db_return True)) u r st'" by blast
  from tokens_effect_ok [OF ok rotate_old_effect [OF ok q]] have u: "store_ok u" "evolves st u" by simp_all
  show ?thesis
  proof (cases rows)
    case Nil
    with t u show ?thesis by simp
  next
    case (Cons row rest)
    obtain a b c where "row = (a, b, c)" by (cases row)
    with t Cons obtain m y where "sql_rotate_new env a (c_str new) b c m u = Inr (y, st')"
      by (auto dest!: tx_runs_sql_bind)
    from rotate_new_ok [OF u(1) this] u(2) show ?thesis by (blast intro: evolves_trans)
  qed
qed

interpretation rotate: evolving "rotate_token net now env old new" "tx_result (\<lambda>st x st'. evolves st st' \<and> True)"
  for net now env old new
  unfolding rotate_token_def by (rule transaction_evolving, simp) (metis rotate_body_ok)

section \<open>What the operations on tickets do\<close>

definition issue_effect :: "pg_env \<Rightarrow> uuid \<Rightarrow> string \<Rightarrow> store \<Rightarrow> bool \<Rightarrow> store \<Rightarrow> bool" where
  "issue_effect env user hash st r st' \<longleftrightarrow> r = active_user st user \<and>
     (if r then validTicket hash \<and> (\<forall>t \<in> set (login_tickets st). lt_ticket_hash t \<noteq> hash) \<and>
        (\<exists>n. st' = st\<lparr>login_tickets := login_tickets st @
               [\<lparr>lt_ticket_hash = hash, lt_user_id = user, lt_expires_at = current_timestamp env n + 5 * 60 * second,
                 lt_consumed_at = None\<rparr>]\<rparr>)
      else st' = st)"

lemma account_rows: "sql_account user n st = Inr (rows, st') \<Longrightarrow> st' = st \<and> (rows = [] \<longleftrightarrow> \<not> active_user st user)"
  by (auto simp: sql_account_def active_user_def filter_empty_conv)

lemma issue_body_safe [simp, intro]: "tx_safe (issue_body net env user hash)"
  unfolding issue_body_def by (intro tx_safe_bind tx_safe_sql tx_safe_if tx_safe_return tx_safe_throw)

lemma issue_body_runs:
  assumes "tx_runs (issue_body net env user hash) st r st'"
  shows "issue_effect env user (c_str hash) st r st'"
proof -
  from tx_runs_sql_bind [OF assms [unfolded issue_body_def]] obtain n rows u where
    q: "sql_account user n st = Inr (rows, u)"
    and t: "tx_runs (if rows = [] then db_return False
      else db_bind (execute net (Sql (sql_insert_ticket env user (c_str hash)))) (\<lambda>inserted.
        if length inserted \<noteq> 1 then db_throw (RuntimeError ''Ticket insert failed'') else db_return True)) u r st'" by blast
  from account_rows [OF q] t show ?thesis
    by (auto simp: issue_effect_def sql_insert_ticket_def split: if_splits dest!: tx_runs_sql_bind)
qed

lemma issue_effect_ok:
  assumes ok: "store_ok st" and e: "issue_effect env user hash st r st'"
  shows "store_ok st' \<and> evolves st st'"
proof (cases r)
  case True
  with e obtain n where n: "\<forall>x \<in> set (login_tickets st). lt_ticket_hash x \<noteq> hash"
      "st' = st\<lparr>login_tickets := login_tickets st @ [\<lparr>lt_ticket_hash = hash, lt_user_id = user,
         lt_expires_at = current_timestamp env n + 5 * 60 * second, lt_consumed_at = None\<rparr>]\<rparr>" by (auto simp: issue_effect_def)
  define t where "t = \<lparr>lt_ticket_hash = hash, lt_user_id = user,
    lt_expires_at = current_timestamp env n + 5 * 60 * second, lt_consumed_at = None\<rparr>"
  have new: "\<forall>x \<in> set (login_tickets st). lt_ticket_hash x \<noteq> lt_ticket_hash t"
      "st' = st\<lparr>login_tickets := login_tickets st @ [t]\<rparr>" using n by (simp_all add: t_def)
  then have "envelopes_ok st'" using ok envelopes_ok_cong [of st' st] by (simp add: store_ok_def)
  moreover have "evolves st st'" unfolding new(2) evolves_def by (auto intro!: table_grows_append)
  ultimately show ?thesis using ok new by (auto simp: store_ok_def keys_ok_def accounts_ok_def credentials_ok_def)
qed (use assms in \<open>simp add: issue_effect_def\<close>)

interpretation issue: evolving "repo_issue net now env user hash"
  "tx_result (\<lambda>st x st'. evolves st st' \<and> issue_effect env user (c_str hash) st x st')" for net now env user hash
  unfolding repo_issue_def by (rule transaction_evolving, simp) (metis issue_body_runs issue_effect_ok)

text \<open>
  A completed login: the ticket was open and is consumed; its user is active; the device is the user's active device or
  newly registered; one refresh token for it is stored.  A login that is refused leaves everything as it is.
\<close>

definition device_refusal :: "store \<Rightarrow> uuid \<Rightarrow> uuid option \<Rightarrow> LoginTicketStatus option" where
  "device_refusal st user device_id =
     (case device_id of
        None \<Rightarrow> None
      | Some d \<Rightarrow>
          if \<forall>ud \<in> set (user_devices st). ud_device_id ud \<noteq> d then Some TicketDeviceNotFound
          else if \<forall>ud \<in> set (user_devices st). ud_device_id ud = d \<longrightarrow> ud_user_id ud \<noteq> user then Some DeviceNotOwned
          else if \<not> owned_active st user d then Some TicketDeviceNotActive else None)"

definition login_device ::
  "uuid \<Rightarrow> uuid option \<Rightarrow> DeviceRegistrationInput option \<Rightarrow> store \<Rightarrow> uuid \<Rightarrow> store \<Rightarrow> bool" where
  "login_device user device_id registration st device st' \<longleftrightarrow>
     (case registration of
        None \<Rightarrow> st' = st \<and> device = (case device_id of None \<Rightarrow> nil_uuid | Some d \<Rightarrow> d)
      | Some _ \<Rightarrow> \<exists>d. register_effect user st d st' \<and> device = dv_device_id d)"

lemma login_device_ok:
  assumes "store_ok st" "login_device user device_id registration st device st'"
  shows "store_ok st' \<and> evolves st st'"
  using assms register_effect_ok by (auto simp: login_device_def split: option.splits)

definition login_completed ::
  "string \<Rightarrow> string \<Rightarrow> uuid option \<Rightarrow> DeviceRegistrationInput option \<Rightarrow> login_ticket \<Rightarrow> uuid \<Rightarrow> store \<Rightarrow> store \<Rightarrow> bool" where
  "login_completed hash refresh_hash device_id registration t device st st' \<longleftrightarrow>
     t \<in> set (login_tickets st) \<and> active_user st (lt_user_id t) \<and> device_refusal st (lt_user_id t) device_id = None \<and>
     (\<exists>now mid rt. open_ticket now hash t \<and>
        login_device (lt_user_id t) device_id registration
          (st\<lparr>login_tickets := map (consumed_row now hash) (login_tickets st)\<rparr>) device mid \<and>
        rt_user_id rt = lt_user_id t \<and> rt_device_id rt = device \<and> rt_token_hash rt = refresh_hash \<and> rt_revoked_at rt = None \<and>
        rt_expires_at rt = rt_created_at rt + 7 * 24 * 3600 * second \<and> owned_active mid (lt_user_id t) device \<and>
        (\<forall>x \<in> set (refresh_tokens mid). rt_token_hash x \<noteq> refresh_hash) \<and>
        st' = mid\<lparr>refresh_tokens := refresh_tokens mid @ [rt]\<rparr>)"

definition complete_effect ::
  "pg_env \<Rightarrow> string \<Rightarrow> string \<Rightarrow> uuid option \<Rightarrow> DeviceRegistrationInput option \<Rightarrow> store \<Rightarrow> LoginTicketResult \<Rightarrow> store \<Rightarrow> bool" where
  "complete_effect env hash refresh_hash device_id registration st r st' \<longleftrightarrow>
     (if tr_status r = TicketSuccess
      then \<exists>t device. tr_identity r = Some \<lparr>li_user_id = lt_user_id t, li_device_id = device\<rparr> \<and>
             login_completed hash refresh_hash device_id registration t device st st'
      else r = ticket_status (tr_status r) \<and>
        (if tr_status r = InvalidTicket
         then st' = st \<and> (\<exists>n. \<forall>t \<in> set (login_tickets st). \<not> open_ticket (current_timestamp env n) hash t)
         else st' = st \<and> (\<exists>t \<in> set (login_tickets st). \<exists>now. open_ticket now hash t \<and>
           (if tr_status r = AccountDisabled then \<not> active_user st (lt_user_id t)
            else active_user st (lt_user_id t) \<and> device_refusal st (lt_user_id t) device_id = Some (tr_status r)))))"

lemma check_device_safe [simp, intro]: "tx_safe (check_device net user device)"
  unfolding check_device_def by (cases device) (auto intro!: tx_safe_bind)

lemma check_device_runs:
  assumes k: "keys_ok st" and run: "tx_runs (check_device net user device) st x st'"
  shows "st' = st \<and> x = (case device_refusal st user device of None \<Rightarrow> Inr (case device of None \<Rightarrow> nil_uuid | Some d \<Rightarrow> d) | Some s \<Rightarrow> Inl s)"
proof (cases device)
  case None
  with run show ?thesis by (simp add: check_device_def device_refusal_def)
next
  case (Some d)
  have "distinct (map ud_device_id (user_devices st))" using k by (simp add: keys_ok_def)
  then show ?thesis
  proof (cases rule: filter_key_cases [where k = d])
    case None
    with run Some show ?thesis
      by (auto simp: check_device_def sql_lock_device_def device_refusal_def dest!: tx_runs_sql_bind)
  next
    case one: (Some ud)
    have r: "\<not> (\<forall>ud \<in> set (user_devices st). ud_device_id ud \<noteq> d)"
      "(\<forall>x \<in> set (user_devices st). ud_device_id x = d \<longrightarrow> ud_user_id x \<noteq> user) \<longleftrightarrow> ud_user_id ud \<noteq> user"
      "ud_user_id ud = user \<Longrightarrow> owned_active st user d \<longleftrightarrow> ud_status ud = ''active''"
      using one(2-4) unfolding owned_active_def by metis+
    from run Some have "st' = st \<and> x = (if ud_user_id ud \<noteq> user then Inl DeviceNotOwned
        else if ud_status ud \<noteq> ''active'' then Inl TicketDeviceNotActive else Inr d)"
      by (auto simp: check_device_def sql_lock_device_def one(1) dest!: tx_runs_sql_bind)
    with r Some show ?thesis by (simp add: device_refusal_def)
  qed
qed

lemma new_device_safe [simp, intro]: "tx_safe (new_device lib net env user registration target)"
  unfolding new_device_def by (cases registration) (auto intro!: tx_safe_bind)

lemma new_device_runs:
  "tx_runs (new_device lib net env user registration target) st x st' \<Longrightarrow>
     (case registration of
        None \<Rightarrow> st' = st \<and> x = target
      | Some _ \<Rightarrow> \<exists>d. register_effect user st d st' \<and> x = dv_device_id d)"
  by (auto simp: new_device_def split: option.splits dest!: tx_runs_bind RegisterNewDevice_runs)

lemma insertRefreshToken_safe [simp, intro]: "tx_safe (insertRefreshToken net env user device hash)"
  unfolding insertRefreshToken_def by (intro tx_safe_bind tx_safe_sql tx_safe_if tx_safe_return tx_safe_throw)

lemma insertRefreshToken_runs:
  assumes "tx_runs (insertRefreshToken net env user device hash) st x st'"
  shows "\<exists>rt. rt_user_id rt = user \<and> rt_device_id rt = device \<and> rt_token_hash rt = c_str hash \<and> rt_revoked_at rt = None \<and>
    rt_expires_at rt = rt_created_at rt + 7 * 24 * 3600 * second \<and> owned_active st user device \<and>
    (\<forall>x \<in> set (refresh_tokens st). rt_token_hash x \<noteq> c_str hash) \<and> insert_token rt st = Inr (rt_id rt, st')"
proof -
  from tx_runs_sql_bind [OF assms [unfolded insertRefreshToken_def]] obtain n rows u where
    q: "sql_insert_token env user device (c_str hash) n st = Inr (rows, u)"
    and t: "tx_runs (if length rows \<noteq> 1 then db_throw (RuntimeError ''Refresh token insert failed'') else db_return ()) u x st'" by blast
  define rt where "rt = \<lparr>rt_id = gen_random_uuid env n, rt_user_id = user, rt_device_id = device, rt_token_hash = c_str hash,
    rt_expires_at = current_timestamp env n + 7 * 24 * 3600 * second, rt_revoked_at = None, rt_created_at = current_timestamp env n\<rparr>"
  from q obtain i where i: "insert_token rt st = Inr (i, u)" "rows = [i]"
    by (auto simp: sql_insert_token_def rt_def split: sum.splits)
  with t insert_tokenD [OF i(1)] show ?thesis by (intro exI [of _ rt]) (auto simp: rt_def)
qed

lemma finish_login_safe [simp, intro]: "tx_safe (finish_login lib net env hash refresh_hash registration user device)"
  unfolding finish_login_def by (intro tx_safe_bind tx_safe_sql tx_safe_if tx_safe_return new_device_safe insertRefreshToken_safe)

lemma complete_body_safe [simp, intro]: "tx_safe (complete_body lib net env hash refresh_hash device registration)"
  unfolding complete_body_def
  by (intro tx_safe_bind tx_safe_sql) (auto intro!: tx_safe_bind split: list.splits sum.splits)

text \<open>At most one ticket is open, since the hash is the key.\<close>

lemma open_tickets:
  assumes d: "distinct (map lt_ticket_hash (login_tickets st))"
  shows "filter (open_ticket now hash) (login_tickets st) = [] \<and> (\<forall>t \<in> set (login_tickets st). \<not> open_ticket now hash t) \<or>
    (\<exists>t \<in> set (login_tickets st). filter (open_ticket now hash) (login_tickets st) = [t] \<and> open_ticket now hash t)"
proof -
  have f: "filter (open_ticket now hash) (login_tickets st) =
      filter (\<lambda>t. lt_consumed_at t = None \<and> lt_expires_at t > now) (filter (\<lambda>t. lt_ticket_hash t = hash) (login_tickets st))"
    by (auto simp: open_ticket_def intro!: filter_cong)
  from d show ?thesis
  proof (cases rule: filter_key_cases [where k = hash])
    case None
    then show ?thesis using f by (auto simp: open_ticket_def)
  next
    case (Some t)
    then show ?thesis
    proof (cases "open_ticket now hash t")
      case True
      with Some(1,2) f show ?thesis by (auto simp: open_ticket_def)
    next
      case False
      with Some have "\<forall>t \<in> set (login_tickets st). \<not> open_ticket now hash t" unfolding open_ticket_def by metis
      then show ?thesis by (auto simp: filter_empty_conv)
    qed
  qed
qed

lemma finish_login_runs:
  assumes k: "distinct (map lt_ticket_hash (login_tickets st))" and t: "t \<in> set (login_tickets st)" "lt_ticket_hash t = c_str hash"
    and a: "active_user st (lt_user_id t)" "device_refusal st (lt_user_id t) device_id = None"
    and run: "tx_runs (finish_login lib net env hash refresh_hash registration (lt_user_id t)
        (case device_id of None \<Rightarrow> nil_uuid | Some d \<Rightarrow> d)) st r st'"
  shows "r = ticket_status InvalidTicket \<and> st' = st \<and> (\<exists>n. \<forall>t \<in> set (login_tickets st). \<not> open_ticket (current_timestamp env n) (c_str hash) t) \<or>
    (\<exists>device. r = \<lparr>tr_status = TicketSuccess, tr_identity = Some \<lparr>li_user_id = lt_user_id t, li_device_id = device\<rparr>\<rparr> \<and>
       login_completed (c_str hash) (c_str refresh_hash) device_id registration t device st st')"
proof -
  from tx_runs_sql_bind [OF run [unfolded finish_login_def]] obtain n rows u where
    q: "sql_consume env (c_str hash) n st = Inr (rows, u)"
    and rest: "tx_runs (if rows = [] then db_return (ticket_status InvalidTicket)
     else db_bind (new_device lib net env (lt_user_id t) registration (case device_id of None \<Rightarrow> nil_uuid | Some d \<Rightarrow> d)) (\<lambda>targetDevice.
       db_bind (insertRefreshToken net env (lt_user_id t) targetDevice refresh_hash) (\<lambda>_.
       db_return \<lparr>tr_status = TicketSuccess,
         tr_identity = Some \<lparr>li_user_id = lt_user_id t, li_device_id = targetDevice\<rparr>\<rparr>))) u r st'" by blast
  define now where "now = current_timestamp env n"
  from q have q': "rows = map lt_ticket_hash (filter (open_ticket now (c_str hash)) (login_tickets st))"
      "u = st\<lparr>login_tickets := map (consumed_row now (c_str hash)) (login_tickets st)\<rparr>"
    by (auto simp: sql_consume_def Let_def now_def)
  show ?thesis
  proof (cases "rows = []")
    case True
    with q' have none: "\<forall>t \<in> set (login_tickets st). \<not> open_ticket now (c_str hash) t" by (simp add: filter_empty_conv)
    then have "map (consumed_row now (c_str hash)) (login_tickets st) = login_tickets st"
      by (intro map_idI) (simp add: consumed_row_def)
    with True q' rest none show ?thesis unfolding now_def by auto
  next
    case False
    with q' open_tickets [OF k, of now "c_str hash"] obtain t2 where t2: "t2 \<in> set (login_tickets st)" "open_ticket now (c_str hash) t2"
      by auto
    have "t2 = t" by (rule key_unique [OF k t2(1) t(1)]) (use t2(2) t(2) in \<open>simp add: open_ticket_def\<close>)
    with t2 have o: "open_ticket now (c_str hash) t" by simp
    from rest False obtain device mid where
      nd: "tx_runs (new_device lib net env (lt_user_id t) registration (case device_id of None \<Rightarrow> nil_uuid | Some d \<Rightarrow> d)) u device mid"
      and ir: "\<exists>x. tx_runs (insertRefreshToken net env (lt_user_id t) device refresh_hash) mid x st'"
      and r: "r = \<lparr>tr_status = TicketSuccess, tr_identity = Some \<lparr>li_user_id = lt_user_id t, li_device_id = device\<rparr>\<rparr>"
      by (auto dest!: tx_runs_bind)
    from ir insertRefreshToken_runs obtain rt where rt: "rt_user_id rt = lt_user_id t" "rt_device_id rt = device"
        "rt_token_hash rt = c_str refresh_hash" "rt_revoked_at rt = None"
        "rt_expires_at rt = rt_created_at rt + 7 * 24 * 3600 * second" "owned_active mid (lt_user_id t) device"
        "\<forall>x \<in> set (refresh_tokens mid). rt_token_hash x \<noteq> c_str refresh_hash" "insert_token rt mid = Inr (rt_id rt, st')" by blast
    have "login_completed (c_str hash) (c_str refresh_hash) device_id registration t device st st'"
      unfolding login_completed_def login_device_def
      using o t a rt insert_tokenD [OF rt(8)] new_device_runs [OF nd] q'(2)
      by (intro conjI exI [of _ now] exI [of _ mid] exI [of _ rt]) (simp_all split: option.splits)
    with r show ?thesis by blast
  qed
qed

lemma complete_body_runs:
  assumes ok: "store_ok st"
    and run: "tx_runs (complete_body lib net env hash refresh_hash device_id registration) st r st'"
  shows "complete_effect env (c_str hash) (c_str refresh_hash) device_id registration st r st'"
proof -
  have keys: "keys_ok st" and k: "distinct (map lt_ticket_hash (login_tickets st))"
    using ok by (simp_all add: store_ok_def keys_ok_def credentials_ok_def)
  from tx_runs_sql_bind [OF run [unfolded complete_body_def]] obtain n rows u where
    q: "sql_open_ticket env (c_str hash) n st = Inr (rows, u)"
    and rest: "tx_runs (case rows of
       [] \<Rightarrow> db_return (ticket_status InvalidTicket)
     | userId # _ \<Rightarrow>
         db_bind (execute net (Sql (sql_account userId))) (\<lambda>account.
         if account = [] then db_return (ticket_status AccountDisabled)
         else db_bind (check_device net userId device_id) (\<lambda>target.
           case target of
             Inl status \<Rightarrow> db_return (ticket_status status)
           | Inr device \<Rightarrow> finish_login lib net env hash refresh_hash registration userId device))) u r st'" by blast
  define now where "now = current_timestamp env n"
  have u: "u = st" "rows = map lt_user_id (filter (open_ticket now (c_str hash)) (login_tickets st))"
    using q by (auto simp: sql_open_ticket_def now_def)
  from open_tickets [OF k, of now "c_str hash"] show ?thesis
  proof (elim disjE conjE bexE)
    assume "filter (open_ticket now (c_str hash)) (login_tickets st) = []" "\<forall>t \<in> set (login_tickets st). \<not> open_ticket now (c_str hash) t"
    with u rest show ?thesis by (auto simp: complete_effect_def ticket_status_def now_def)
  next
    fix t assume t: "t \<in> set (login_tickets st)" "filter (open_ticket now (c_str hash)) (login_tickets st) = [t]" "open_ticket now (c_str hash) t"
    then have h: "lt_ticket_hash t = c_str hash" by (simp add: open_ticket_def)
    from rest u t(2) obtain m account v where acc: "sql_account (lt_user_id t) m st = Inr (account, v)"
      and rest2: "tx_runs (if account = [] then db_return (ticket_status AccountDisabled)
         else db_bind (check_device net (lt_user_id t) device_id) (\<lambda>target.
           case target of
             Inl status \<Rightarrow> db_return (ticket_status status)
           | Inr device \<Rightarrow> finish_login lib net env hash refresh_hash registration (lt_user_id t) device)) v r st'"
      by (auto dest!: tx_runs_sql_bind)
    note acc' = account_rows [OF acc]
    show ?thesis
    proof (cases "active_user st (lt_user_id t)")
      case False
      with acc' rest2 t show ?thesis by (auto simp: complete_effect_def ticket_status_def)
    next
      case act: True
      with acc' rest2 obtain x w where "tx_runs (check_device net (lt_user_id t) device_id) st x w"
        and rest3: "tx_runs (case x of Inl status \<Rightarrow> db_return (ticket_status status)
           | Inr device \<Rightarrow> finish_login lib net env hash refresh_hash registration (lt_user_id t) device) w r st'"
        by (auto dest!: tx_runs_bind)
      note c = check_device_runs [OF keys this(1)]
      show ?thesis
      proof (cases "device_refusal st (lt_user_id t) device_id")
        case (Some s)
        then have "s \<in> {TicketDeviceNotFound, DeviceNotOwned, TicketDeviceNotActive}"
          by (auto simp: device_refusal_def split: option.splits if_splits)
        with Some c rest3 t act show ?thesis by (auto simp: complete_effect_def ticket_status_def)
      next
        case None
        with c rest3 have "tx_runs (finish_login lib net env hash refresh_hash registration (lt_user_id t)
            (case device_id of None \<Rightarrow> nil_uuid | Some d \<Rightarrow> d)) st r st'" by simp
        from finish_login_runs [OF k t(1) h act None this] show ?thesis
          by (elim disjE conjE exE) (auto simp: complete_effect_def ticket_status_def)
      qed
    qed
  qed
qed

section \<open>Every operation refines the preorder\<close>

lemma consumed_row_simps [simp]:
  "lt_ticket_hash (consumed_row now h t) = lt_ticket_hash t" "lt_user_id (consumed_row now h t) = lt_user_id t"
  "ticket_step t (consumed_row now h t)"
  by (auto simp: consumed_row_def open_ticket_def)

lemma consume_ok:
  assumes "store_ok st"
  shows "store_ok (st\<lparr>login_tickets := map (consumed_row now hash) (login_tickets st)\<rparr>) \<and>
    evolves st (st\<lparr>login_tickets := map (consumed_row now hash) (login_tickets st)\<rparr>)"
  using assms envelopes_ok_cong [of "st\<lparr>login_tickets := map (consumed_row now hash) (login_tickets st)\<rparr>" st]
  by (auto simp: store_ok_def keys_ok_def accounts_ok_def credentials_ok_def o_def evolves_def simp del: ticket_step.simps
      intro!: table_grows_map)

lemma add_token_ok:
  assumes ok: "store_ok st" and rt: "owned_active st (rt_user_id rt) (rt_device_id rt)"
      "\<forall>x \<in> set (refresh_tokens st). rt_token_hash x \<noteq> rt_token_hash rt"
  shows "store_ok (st\<lparr>refresh_tokens := refresh_tokens st @ [rt]\<rparr>) \<and> evolves st (st\<lparr>refresh_tokens := refresh_tokens st @ [rt]\<rparr>)"
proof -
  let ?st = "st\<lparr>refresh_tokens := refresh_tokens st @ [rt]\<rparr>"
  from rt(1) obtain ud where ud: "ud \<in> set (user_devices st)" "ud_device_id ud = rt_device_id rt" "ud_user_id ud = rt_user_id rt"
      "ud_status ud = ''active''" by (auto simp: owned_active_def)
  have "envelopes_ok ?st" using ok envelopes_ok_cong [of ?st st] by (simp add: store_ok_def)
  moreover have "credentials_ok ?st" using ok rt(2) ud by (auto simp: store_ok_def keys_ok_def credentials_ok_def)
  ultimately show ?thesis using ok by (simp add: store_ok_def keys_ok_def accounts_ok_def evolves_def)
qed

lemma login_completed_ok:
  assumes ok: "store_ok st" and c: "login_completed hash refresh_hash device_id registration t device st st'"
  shows "store_ok st' \<and> evolves st st'"
proof -
  from c obtain now mid rt where
      m: "login_device (lt_user_id t) device_id registration
            (st\<lparr>login_tickets := map (consumed_row now hash) (login_tickets st)\<rparr>) device mid"
      and rt: "rt_user_id rt = lt_user_id t" "rt_device_id rt = device" "rt_token_hash rt = refresh_hash"
        "owned_active mid (lt_user_id t) device" "\<forall>x \<in> set (refresh_tokens mid). rt_token_hash x \<noteq> refresh_hash"
        "st' = mid\<lparr>refresh_tokens := refresh_tokens mid @ [rt]\<rparr>"
    unfolding login_completed_def by blast
  note c = consume_ok [OF ok, of now hash]
  from login_device_ok [OF conjunct1 [OF c] m] c have mid: "store_ok mid" "evolves st mid" by (blast intro: evolves_trans)+
  from add_token_ok [OF mid(1), of rt] rt have "store_ok st'" "evolves mid st'" by simp_all
  with mid show ?thesis using evolves_trans [of st mid st'] by simp
qed

lemma complete_effect_ok:
  assumes "store_ok st" "complete_effect env hash refresh_hash device_id registration st r st'"
  shows "store_ok st' \<and> evolves st st'"
  using assms login_completed_ok [OF assms(1)] by (auto simp: complete_effect_def split: if_splits)

lemma complete_evolving:
  "evolving (with_lease net now (withTransaction net (complete_body lib net env hash refresh_hash device_id registration)))
     (tx_result (\<lambda>st x st'. evolves st st' \<and> complete_effect env (c_str hash) (c_str refresh_hash) device_id registration st x st'))"
  by (rule transaction_evolving, simp) (metis complete_body_runs complete_effect_ok)

interpretation complete: evolving "repo_complete lib net now env hash refresh_hash device_id registration"
  "\<lambda>st r st'. if (device_id = None) = (registration = None) then r = Inl (InvalidArgument ''Choose exactly one login completion path'') \<and> st' = st
     else tx_result (\<lambda>st x st'. evolves st st' \<and> complete_effect env (c_str hash) (c_str refresh_hash) device_id registration st x st') st r st'"
  for lib net now env hash refresh_hash device_id registration
proof (cases "(device_id = None) = (registration = None)")
  case True
  then show "evolving (repo_complete lib net now env hash refresh_hash device_id registration)
      (\<lambda>st r st'. if (device_id = None) = (registration = None)
         then r = Inl (InvalidArgument ''Choose exactly one login completion path'') \<and> st' = st
         else tx_result (\<lambda>st x st'. evolves st st' \<and>
           complete_effect env (c_str hash) (c_str refresh_hash) device_id registration st x st') st r st')"
    by unfold_locales (auto simp: repo_complete_def)
next
  case False
  then have eq: "repo_complete lib net now env hash refresh_hash device_id registration =
      with_lease net now (withTransaction net (complete_body lib net env hash refresh_hash device_id registration))"
    by (auto simp: repo_complete_def fun_eq_iff)
  show "evolving (repo_complete lib net now env hash refresh_hash device_id registration)
      (\<lambda>st r st'. if (device_id = None) = (registration = None)
         then r = Inl (InvalidArgument ''Choose exactly one login completion path'') \<and> st' = st
         else tx_result (\<lambda>st x st'. evolves st st' \<and>
           complete_effect env (c_str hash) (c_str refresh_hash) device_id registration st x st') st r st')"
    unfolding if_not_P [OF False] eq by (rule complete_evolving)
qed

lemma orderly_login_queries [orderly_calls]:
  "orderly (getRefreshTokenRecord net now hash)" "orderly (revokeRefreshToken net now env hash)" "orderly (deleteRefreshToken net now hash)"
  "orderly (rotate_token net now env old new)" "orderly (repo_deleteExpiredBefore net now env cutoff)"
  "orderly (repo_issue net now env user hash)" "orderly (repo_complete lib net now env hash refresh_hash device registration)"
  by (rule token_record.orderly revoke_token.orderly delete_token.orderly rotate.orderly delete_expired.orderly issue.orderly
      complete.orderly)+

lemma orderly_login_services [orderly_calls]:
  "orderly (validate_refresh lib net now env clock token)" "orderly (deleteExpiredBefore net now env cutoff)"
  "orderly (issue_ticket lib net now env k user)" "orderly (complete_login lib secret net now env clock k ticket device registration)"
  "orderly (verifyDevice lib secret net now env clock k ticket dev)" "orderly (registerDevice lib secret net now env clock k ticket input)"
  "orderly (loginByEmail lib net now env k email password)"
proof -
  note calls = orderly_structure orderly_account_queries orderly_login_queries
  show "orderly (validate_refresh lib net now env clock token)"
    by (rule orderly_ext, rule validate_refresh_def) (intro calls)
  show "orderly (deleteExpiredBefore net now env cutoff)"
    by (rule orderly_ext, rule deleteExpiredBefore_def) (intro calls)
  show issue: "orderly (issue_ticket lib net now env k user)" for user
    by (rule orderly_ext, rule issue_ticket_def) (simp add: Let_def, intro calls)
  show complete: "orderly (complete_login lib secret net now env clock k ticket device registration)" for device registration
  proof (rule orderly_ext, rule complete_login_def, unfold Let_def, intro orderly_if orderly_return)
    show "orderly (\<lambda>w. case (hashTicket lib ticket, RefreshTokenHash lib (generateRefreshToken lib k)) of
          (Inr hash, Inr refresh_hash) \<Rightarrow>
            (case repo_complete lib net now env hash refresh_hash device registration w of
               (Inl e, w1) \<Rightarrow> (Inl e, w1)
             | (Inr result, w1) \<Rightarrow>
                 if tr_status result \<noteq> TicketSuccess then (Inr (refused_login result), w1)
                 else case tr_identity result of
                        None \<Rightarrow> (Inl (LogicError ''Missing login identity''), w1)
                      | Some i \<Rightarrow>
                          (Inr \<lparr>cd_result = result,
                                cd_access_token = generateAccessToken lib secret (clock div 1000000000) (uuid_to_string lib (li_user_id i)),
                                cd_refresh_token = generateRefreshToken lib k\<rparr>, w1))
        | (Inl e, _) \<Rightarrow> (Inl e, w)
        | (Inr _, Inl e) \<Rightarrow> (Inl e, w))"
    proof (cases "hashTicket lib ticket")
      case (Inr hash)
      then show ?thesis
        by (cases "RefreshTokenHash lib (generateRefreshToken lib k)") (simp_all, intro calls)
    qed simp
  qed
  show "orderly (verifyDevice lib secret net now env clock k ticket dev)"
    by (rule orderly_ext, rule verifyDevice_def) (intro calls complete)
  show "orderly (registerDevice lib secret net now env clock k ticket input)"
    by (rule orderly_ext, rule registerDevice_def) (intro calls complete)
  show "orderly (loginByEmail lib net now env k email password)"
    by (rule orderly_ext, rule loginByEmail_def) (intro calls issue)
qed


end
