(* ===== verification/Register.thy ===== *)
theory Register
  imports Login
begin

text \<open>
  Registration: \<^verbatim>\<open>src/src/service/RegisterService.cpp\<close>.  The patterns are regular expressions as in the source,
  matched by derivatives; the reference semantics is the language of a regular expression.  \<^verbatim>\<open>std::regex\<close> works on bytes in
  the C locale.
\<close>

section \<open>Regular expressions\<close>

text \<open>\<open>Both\<close> is a lookahead at the beginning of the pattern.\<close>

datatype rx = Never | Empty | Class "char \<Rightarrow> bool" | Alt rx rx | Seq rx rx | Star rx | Both rx rx

fun nullable :: "rx \<Rightarrow> bool" where
  "nullable Never = False"
| "nullable Empty = True"
| "nullable (Class P) = False"
| "nullable (Alt r s) = (nullable r \<or> nullable s)"
| "nullable (Seq r s) = (nullable r \<and> nullable s)"
| "nullable (Star r) = True"
| "nullable (Both r s) = (nullable r \<and> nullable s)"

fun deriv :: "char \<Rightarrow> rx \<Rightarrow> rx" where
  "deriv c Never = Never"
| "deriv c Empty = Never"
| "deriv c (Class P) = (if P c then Empty else Never)"
| "deriv c (Alt r s) = Alt (deriv c r) (deriv c s)"
| "deriv c (Seq r s) = (if nullable r then Alt (Seq (deriv c r) s) (deriv c s) else Seq (deriv c r) s)"
| "deriv c (Star r) = Seq (deriv c r) (Star r)"
| "deriv c (Both r s) = Both (deriv c r) (deriv c s)"

definition regex_match :: "rx \<Rightarrow> string \<Rightarrow> bool" where
  "regex_match r s = nullable (fold deriv s r)"

inductive in_lang :: "rx \<Rightarrow> string \<Rightarrow> bool" where
  empty: "in_lang Empty []"
| cls: "P c \<Longrightarrow> in_lang (Class P) [c]"
| left: "in_lang r s \<Longrightarrow> in_lang (Alt r r') s"
| right: "in_lang r' s \<Longrightarrow> in_lang (Alt r r') s"
| sq: "in_lang r s \<Longrightarrow> in_lang r' s' \<Longrightarrow> in_lang (Seq r r') (s @ s')"
| star_end: "in_lang (Star r) []"
| star_step: "in_lang r s \<Longrightarrow> in_lang (Star r) s' \<Longrightarrow> in_lang (Star r) (s @ s')"
| both: "in_lang r s \<Longrightarrow> in_lang r' s \<Longrightarrow> in_lang (Both r r') s"

inductive_simps in_lang_simps [simp]:
  "in_lang Never s" "in_lang Empty s" "in_lang (Class P) s" "in_lang (Alt r r') s" "in_lang (Both r r') s"

inductive_cases in_lang_Seq: "in_lang (Seq r r') s"

lemma in_lang_Seq_iff: "in_lang (Seq r r') s \<longleftrightarrow> (\<exists>a b. s = a @ b \<and> in_lang r a \<and> in_lang r' b)"
  by (rule iffI, erule in_lang_Seq, blast) (auto intro: in_lang.sq)

lemma nullable_lang: "nullable r \<longleftrightarrow> in_lang r []"
  by (induction r) (auto simp: in_lang_Seq_iff intro: in_lang.star_end)

lemma star_Cons: "in_lang (Star r) (c # s) \<longleftrightarrow> (\<exists>a b. s = a @ b \<and> in_lang r (c # a) \<and> in_lang (Star r) b)"
proof
  have "in_lang q t \<Longrightarrow> q = Star r \<Longrightarrow> t = c # s \<Longrightarrow> \<exists>a b. s = a @ b \<and> in_lang r (c # a) \<and> in_lang (Star r) b" for q t
    by (induction arbitrary: s rule: in_lang.induct) (auto simp: append_eq_Cons_conv)
  then show "in_lang (Star r) (c # s) \<Longrightarrow> \<exists>a b. s = a @ b \<and> in_lang r (c # a) \<and> in_lang (Star r) b" by blast
next
  assume "\<exists>a b. s = a @ b \<and> in_lang r (c # a) \<and> in_lang (Star r) b"
  then show "in_lang (Star r) (c # s)" using in_lang.star_step [of r "c # _"] by fastforce
qed

lemma deriv_lang: "in_lang (deriv c r) s \<longleftrightarrow> in_lang r (c # s)"
proof (induction r arbitrary: s)
  case (Seq r r')
  have "(\<exists>a b. c # s = a @ b \<and> in_lang r a \<and> in_lang r' b) \<longleftrightarrow>
      (in_lang r [] \<and> in_lang r' (c # s)) \<or> (\<exists>a b. s = a @ b \<and> in_lang r (c # a) \<and> in_lang r' b)"
    by (auto simp: Cons_eq_append_conv)
  then show ?case by (auto simp: in_lang_Seq_iff Seq.IH nullable_lang)
qed (auto simp: star_Cons in_lang_Seq_iff)

lemma regex_match_lang: "regex_match r s \<longleftrightarrow> in_lang r s"
proof -
  have "in_lang (fold deriv s r) [] \<longleftrightarrow> in_lang r s" for r
    by (induction s arbitrary: r) (simp_all add: deriv_lang)
  then show ?thesis by (simp add: regex_match_def nullable_lang)
qed

text \<open>Bounded and unbounded repetition.\<close>

definition plus_rx :: "rx \<Rightarrow> rx" where
  "plus_rx r = Seq r (Star r)"

fun repeat_rx :: "nat \<Rightarrow> nat \<Rightarrow> rx \<Rightarrow> rx" where
  "repeat_rx (Suc m) n r = Seq r (repeat_rx m (n - 1) r)"
| "repeat_rx 0 (Suc n) r = Alt Empty (Seq r (repeat_rx 0 n r))"
| "repeat_rx 0 0 r = Empty"

lemma star_class: "in_lang (Star (Class P)) s \<longleftrightarrow> list_all P s"
  by (induction s) (auto simp: star_Cons intro: in_lang.star_end)

lemma seq_class: "in_lang (Seq (Class P) r) s \<longleftrightarrow> (\<exists>c s'. s = c # s' \<and> P c \<and> in_lang r s')"
proof
  assume "\<exists>c s'. s = c # s' \<and> P c \<and> in_lang r s'"
  then obtain c s' where "s = c # s'" "P c" "in_lang r s'" by blast
  then show "in_lang (Seq (Class P) r) s" using in_lang.sq [OF in_lang.cls [of P c], of r s'] by simp
qed (auto simp: in_lang_Seq_iff)

lemma plus_class: "in_lang (plus_rx (Class P)) s \<longleftrightarrow> s \<noteq> [] \<and> list_all P s"
  by (cases s) (auto simp: plus_rx_def seq_class star_class)

lemma repeat_class: "m \<le> n \<Longrightarrow> in_lang (repeat_rx m n (Class P)) s \<longleftrightarrow> m \<le> length s \<and> length s \<le> n \<and> list_all P s"
proof (induction m n "Class P" arbitrary: s rule: repeat_rx.induct)
  case (1 m n)
  then show ?case by (cases s; cases n) (auto simp: seq_class)
next
  case (2 n)
  then show ?case by (cases s) (auto simp: seq_class)
qed auto

section \<open>The patterns\<close>

definition lower_char :: "char \<Rightarrow> bool" where "lower_char c \<longleftrightarrow> c \<in> set ''abcdefghijklmnopqrstuvwxyz''"

definition upper_char :: "char \<Rightarrow> bool" where "upper_char c \<longleftrightarrow> c \<in> set ''ABCDEFGHIJKLMNOPQRSTUVWXYZ''"

definition digit_char :: "char \<Rightarrow> bool" where "digit_char c \<longleftrightarrow> c \<in> set ''0123456789''"

definition alnum :: "char \<Rightarrow> bool" where "alnum c \<longleftrightarrow> lower_char c \<or> upper_char c \<or> digit_char c"

text \<open>\<^verbatim>\<open>\s\<close>, and \<^verbatim>\<open>.\<close>, which is not a line terminator.\<close>

definition space_char :: "char \<Rightarrow> bool" where
  "space_char c \<longleftrightarrow> c \<in> {CHR '' '', CHR 0x09, CHR 0x0A, CHR 0x0B, CHR 0x0C, CHR 0x0D}"

definition dot_char :: "char \<Rightarrow> bool" where "dot_char c \<longleftrightarrow> c \<notin> {CHR 0x0A, CHR 0x0D}"

definition mail_char :: "char \<Rightarrow> bool" where "mail_char c \<longleftrightarrow> alnum c \<or> c \<in> set ''_+&*-''"

definition host_char :: "char \<Rightarrow> bool" where "host_char c \<longleftrightarrow> alnum c \<or> c = CHR ''-''"

definition letter :: "char \<Rightarrow> bool" where "letter c \<longleftrightarrow> lower_char c \<or> upper_char c"

definition one_char :: "char \<Rightarrow> rx" where "one_char c = Class (\<lambda>x. x = c)"

definition EMAIL_PATTERN :: rx where
  "EMAIL_PATTERN =
     Seq (plus_rx (Class mail_char))
       (Seq (Star (Seq (one_char (CHR ''.'')) (plus_rx (Class mail_char))))
         (Seq (one_char (CHR ''@''))
           (Seq (plus_rx (Seq (plus_rx (Class host_char)) (one_char (CHR ''.''))))
             (repeat_rx 2 10 (Class letter)))))"

definition DISPLAY_NAME :: rx where
  "DISPLAY_NAME = repeat_rx 3 20 (Class (\<lambda>c. alnum c \<or> c = CHR ''_''))"

definition USERNAME_PATTERN :: rx where
  "USERNAME_PATTERN = repeat_rx 3 30 (Class (\<lambda>c. alnum c \<or> c = CHR ''_'' \<or> c = CHR ''.''))"

text \<open>\<^verbatim>\<open>(?=.*X)\<close>: some prefix matches, whatever follows.\<close>

definition lookahead :: "(char \<Rightarrow> bool) \<Rightarrow> rx" where
  "lookahead P = Seq (Seq (Star (Class dot_char)) (Class P)) (Star (Class (\<lambda>_. True)))"

definition PASSWORD_PATTERN :: rx where
  "PASSWORD_PATTERN =
     Both (lookahead lower_char) (Both (lookahead upper_char) (Both (lookahead digit_char)
       (Both (lookahead (\<lambda>c. \<not> (alnum c \<or> space_char c))) (repeat_rx 6 20 (Class (\<lambda>c. \<not> space_char c))))))"

section \<open>The service\<close>

datatype RegisterError =
    InvalidEmail | RegisterInvalidPassword | InvalidDisplayName | InvalidUsername | EmailExists | RegisterFailed | UsernameExists

definition checkEmail :: "string \<Rightarrow> bool" where
  "checkEmail email = regex_match EMAIL_PATTERN email"

definition checkDisplayName :: "string \<Rightarrow> bool" where
  "checkDisplayName display_name = regex_match DISPLAY_NAME display_name"

definition checkPassword :: "string \<Rightarrow> bool" where
  "checkPassword password = regex_match PASSWORD_PATTERN password"

definition checkUsername :: "string \<Rightarrow> bool" where
  "checkUsername username = regex_match USERNAME_PATTERN username"

definition passwordHash :: "library \<Rightarrow> string \<Rightarrow> string result" where
  "passwordHash lib password =
     (case pwhash_str lib password of None \<Rightarrow> Inl (RuntimeError ''Password hashing failed'') | Some h \<Rightarrow> Inr h)"

definition register_error :: "DatabaseError \<Rightarrow> RegisterError option" where
  "register_error e =
     (if db_kind e = Query \<and> db_code e = ''23505'' \<and> db_constraint e = Some ''password_credentials_login_email_unique''
      then Some EmailExists
      else if db_kind e = Query \<and> db_code e = ''23505'' \<and> db_constraint e = Some ''users_unique'' then Some UsernameExists
      else if db_kind e = Query \<and> db_code e = ''23514'' \<and> db_constraint e = Some ''users_check'' then Some InvalidUsername
      else None)"

text \<open>\<^verbatim>\<open>CreateNewUserByEmail\<close> always returns a user, so \<^verbatim>\<open>RegisterFailed\<close> is never the answer.\<close>

definition RegisterUserByEmail ::
  "library \<Rightarrow> (nat \<Rightarrow> network) \<Rightarrow> int \<Rightarrow> pg_env \<Rightarrow> string \<Rightarrow> string \<Rightarrow> string \<Rightarrow> string \<Rightarrow> store_world
     \<Rightarrow> (User + RegisterError) result \<times> store_world" where
  "RegisterUserByEmail lib net now env email password display_name username w =
     (if \<not> checkEmail email then (Inr (Inr InvalidEmail), w)
      else if \<not> checkPassword password then (Inr (Inr RegisterInvalidPassword), w)
      else if \<not> checkDisplayName display_name then (Inr (Inr InvalidDisplayName), w)
      else if \<not> checkUsername username then (Inr (Inr InvalidUsername), w)
      else case passwordHash lib password of
             Inl e \<Rightarrow> (Inl e, w)
           | Inr password_hash \<Rightarrow>
               (case CreateNewUserByEmail net now env email password_hash display_name username w of
                  (Inr user, w1) \<Rightarrow> (Inr (Inl user), w1)
                | (Inl (DbExn e), w1) \<Rightarrow>
                    (case register_error e of Some r \<Rightarrow> Inr (Inr r) | None \<Rightarrow> Inl (DbExn e), w1)
                | (Inl e, w1) \<Rightarrow> (Inl e, w1)))"

section \<open>What the patterns accept\<close>

lemma in_lang_lookahead:
  "in_lang (lookahead P) s \<longleftrightarrow> (\<exists>a c b. s = a @ c # b \<and> list_all dot_char a \<and> P c)"
proof
  show "in_lang (lookahead P) s \<Longrightarrow> \<exists>a c b. s = a @ c # b \<and> list_all dot_char a \<and> P c"
    unfolding lookahead_def in_lang_Seq_iff star_class in_lang_simps by (metis append_Cons append_Nil append_assoc)
next
  assume "\<exists>a c b. s = a @ c # b \<and> list_all dot_char a \<and> P c"
  then obtain a c b where "s = a @ c # b" "list_all dot_char a" "P c" by blast
  then show "in_lang (lookahead P) s"
    using in_lang.sq [OF in_lang.sq [OF star_class [of dot_char a, THEN iffD2] in_lang.cls [of P c]]
        star_class [of "\<lambda>_. True" b, THEN iffD2]]
    by (simp add: lookahead_def list.pred_True)
qed

lemma lookahead_line: "list_all dot_char s \<Longrightarrow> in_lang (lookahead P) s \<longleftrightarrow> (\<exists>c \<in> set s. P c)"
  unfolding in_lang_lookahead by (metis list_all_append split_list in_set_conv_decomp)

lemma checkPassword_iff:
  "checkPassword s \<longleftrightarrow> 6 \<le> length s \<and> length s \<le> 20 \<and> list_all (\<lambda>c. \<not> space_char c) s \<and>
     (\<exists>c \<in> set s. lower_char c) \<and> (\<exists>c \<in> set s. upper_char c) \<and> (\<exists>c \<in> set s. digit_char c) \<and> (\<exists>c \<in> set s. \<not> alnum c)"
proof (cases "list_all (\<lambda>c. \<not> space_char c) s")
  case True
  then have "list_all dot_char s" by (auto simp: list_all_iff space_char_def dot_char_def)
  note l = lookahead_line [OF this]
  have "(\<exists>c \<in> set s. \<not> (alnum c \<or> space_char c)) \<longleftrightarrow> (\<exists>c \<in> set s. \<not> alnum c)" using True by (auto simp: list_all_iff)
  with l True show ?thesis
    by (auto simp: checkPassword_def PASSWORD_PATTERN_def regex_match_lang repeat_class)
next
  case False
  then show ?thesis by (simp add: checkPassword_def PASSWORD_PATTERN_def regex_match_lang repeat_class)
qed

lemma checkUsername_iff:
  "checkUsername s \<longleftrightarrow> 3 \<le> length s \<and> length s \<le> 30 \<and> list_all (\<lambda>c. alnum c \<or> c = CHR ''_'' \<or> c = CHR ''.'') s"
  by (simp add: checkUsername_def USERNAME_PATTERN_def regex_match_lang repeat_class)

lemma checkDisplayName_iff:
  "checkDisplayName s \<longleftrightarrow> 3 \<le> length s \<and> length s \<le> 20 \<and> list_all (\<lambda>c. alnum c \<or> c = CHR ''_'') s"
  by (simp add: checkDisplayName_def DISPLAY_NAME_def regex_match_lang repeat_class)

section \<open>What a registration does\<close>

lemma orderly_register [orderly_calls]: "orderly (RegisterUserByEmail lib net now env email password display_name username)"
proof (rule orderly_ext, rule RegisterUserByEmail_def, intro orderly_if orderly_return)
  show "orderly (\<lambda>w. case passwordHash lib password of
             Inl e \<Rightarrow> (Inl e, w)
           | Inr password_hash \<Rightarrow>
               (case CreateNewUserByEmail net now env email password_hash display_name username w of
                  (Inr user, w1) \<Rightarrow> (Inr (Inl user), w1)
                | (Inl (DbExn e), w1) \<Rightarrow>
                    (case register_error e of Some r \<Rightarrow> Inr (Inr r) | None \<Rightarrow> Inl (DbExn e), w1)
                | (Inl e, w1) \<Rightarrow> (Inl e, w1)))"
  proof (cases "passwordHash lib password")
    case (Inr h)
    show ?thesis unfolding Inr sum.case
      by (rule orderly_world [where f = "CreateNewUserByEmail net now env email h display_name username", OF _ orderly_account_queries(8)])
        (auto split: prod.split sum.split exn.split)
  qed simp
qed

text \<open>A successful registration is the effect of the transaction, or its answer was lost and an error is reported.\<close>

lemma register_result:
  assumes w: "world_ok w" and r: "RegisterUserByEmail lib net now env email password display_name username w = (Inr (Inl user), w')"
  shows "\<exists>hash. pwhash_str lib password = Some hash \<and> checkEmail email \<and> checkPassword password \<and>
    checkDisplayName display_name \<and> checkUsername username \<and> world_ok w' \<and>
    account_effect env (c_str email) (c_str hash) (c_str display_name) (c_str username) (tables (snd w)) user (tables (snd w'))"
proof -
  from r obtain hash where h: "pwhash_str lib password = Some hash" "checkEmail email" "checkPassword password"
      "checkDisplayName display_name" "checkUsername username"
      "CreateNewUserByEmail net now env email hash display_name username w = (Inr user, w')"
    by (auto simp: RegisterUserByEmail_def passwordHash_def split: if_splits option.splits prod.splits sum.splits exn.splits)
  from create_account.serves [OF w h(6)] h show ?thesis by simp
qed


end
