(* ===== verification/History.thy ===== *)
theory History
  imports Register Demo_Library "HOL-Library.Code_Target_Nat"
begin

text \<open>
  Histories of the database: any sequence of the operations that the HTTP handlers, the WebSocket dispatcher and the
  token clean-up carry out on the tables, each with its own behaviour of the network, clock and random bytes.  Requests run on
  several threads, but each operation is a transaction or a single statement, so what others see is such a sequence.
  Every history refines the preorder of the theory \<open>Evolution\<close> and keeps the tables well-formed; the properties
  of accounts, devices, prekeys, tickets and friend requests over time follow.
\<close>

section \<open>Operations and histories\<close>

record call_context =
  cc_net :: "nat \<Rightarrow> network"
  cc_now :: int
  cc_env :: pg_env
  cc_clock :: int
  cc_draw :: nat

datatype db_call =
    CallRegister string string string string
  | CallLogin string string
  | CallVerifyDevice string uuid
  | CallRegisterDevice string DeviceRegistrationInput
  | CallValidate string
  | CallRevokeToken string
  | CallDeleteToken string
  | CallRotate string string
  | CallDeleteExpired int
  | CallFindUser string
  | CallRequestFriend uuid uuid string
  | CallFetchRequests uuid
  | CallProcessRequest uuid uuid string
  | CallFetchFriends uuid
  | CallRevokeDevice uuid uuid string
  | CallVerifyUserDevice uuid uuid
  | CallIdentity uuid uuid
  | CallVerifyDeviceId uuid uuid
  | CallFetchDevices uuid uuid
  | CallDevicesOf uuid
  | CallNewDevice uuid DeviceRegistrationInput
  | CallUpload uuid uuid "(int \<times> string) list"
  | CallClaim uuid uuid uuid
  | CallKeyBundle uuid uuid uuid
  | CallSend uuid uuid NewTextMessageRequest
  | CallSync uuid SyncEnvelopeRequest
  | CallAck uuid AckEnvelopeRequest

fun db_call_run :: "library \<Rightarrow> string \<Rightarrow> call_context \<Rightarrow> db_call \<Rightarrow> store_world \<Rightarrow> store_world" where
  "db_call_run lib secret c (CallRegister email password display_name username) w =
     snd (RegisterUserByEmail lib (cc_net c) (cc_now c) (cc_env c) email password display_name username w)"
| "db_call_run lib secret c (CallLogin email password) w =
     snd (loginByEmail lib (cc_net c) (cc_now c) (cc_env c) (cc_draw c) email password w)"
| "db_call_run lib secret c (CallVerifyDevice ticket dev) w =
     snd (verifyDevice lib secret (cc_net c) (cc_now c) (cc_env c) (cc_clock c) (cc_draw c) ticket dev w)"
| "db_call_run lib secret c (CallRegisterDevice ticket input) w =
     snd (registerDevice lib secret (cc_net c) (cc_now c) (cc_env c) (cc_clock c) (cc_draw c) ticket input w)"
| "db_call_run lib secret c (CallValidate token) w =
     snd (validate_refresh lib (cc_net c) (cc_now c) (cc_env c) (cc_clock c) token w)"
| "db_call_run lib secret c (CallRevokeToken hash) w = snd (revokeRefreshToken (cc_net c) (cc_now c) (cc_env c) hash w)"
| "db_call_run lib secret c (CallDeleteToken hash) w = snd (deleteRefreshToken (cc_net c) (cc_now c) hash w)"
| "db_call_run lib secret c (CallRotate old new) w = snd (rotate_token (cc_net c) (cc_now c) (cc_env c) old new w)"
| "db_call_run lib secret c (CallDeleteExpired cutoff) w =
     snd (deleteExpiredBefore (cc_net c) (cc_now c) (cc_env c) cutoff w)"
| "db_call_run lib secret c (CallFindUser name) w = snd (findUserByUserName (cc_net c) (cc_now c) name w)"
| "db_call_run lib secret c (CallRequestFriend user peer message) w =
     snd (requestFriendship (cc_net c) (cc_now c) (cc_env c) user peer message w)"
| "db_call_run lib secret c (CallFetchRequests user) w = snd (fetchFriendshipRequest (cc_net c) (cc_now c) user w)"
| "db_call_run lib secret c (CallProcessRequest user request_id action) w =
     snd (processFriendshipRequest (cc_net c) (cc_now c) user request_id action w)"
| "db_call_run lib secret c (CallFetchFriends user) w = snd (fetchFriends (cc_net c) (cc_now c) (cc_env c) user w)"
| "db_call_run lib secret c (CallRevokeDevice user dev password) w =
     snd (revokeUserDevice lib (cc_net c) (cc_now c) (cc_env c) user dev password w)"
| "db_call_run lib secret c (CallVerifyUserDevice user dev) w = snd (verifyUserDevice (cc_net c) (cc_now c) user dev w)"
| "db_call_run lib secret c (CallIdentity user dev) w = snd (verifySessionIdentity (cc_net c) (cc_now c) user dev w)"
| "db_call_run lib secret c (CallVerifyDeviceId user dev) w =
     snd (verifyDeviceId lib (cc_net c) (cc_now c) (cc_env c) user dev w)"
| "db_call_run lib secret c (CallFetchDevices user peer) w =
     snd (fetchUserDevices lib (cc_net c) (cc_now c) (cc_env c) user peer w)"
| "db_call_run lib secret c (CallDevicesOf user) w = snd (GetDevicesByUserId lib (cc_net c) (cc_now c) (cc_env c) user w)"
| "db_call_run lib secret c (CallNewDevice user input) w =
     snd (registerNewDevice lib (cc_net c) (cc_now c) (cc_env c) user input w)"
| "db_call_run lib secret c (CallUpload user dev prekeys) w =
     snd (uploadOneTimePrekeys lib (cc_net c) (cc_now c) (cc_env c) user dev prekeys w)"
| "db_call_run lib secret c (CallClaim user peer dev) w =
     snd (getOneTimePrekey lib (cc_net c) (cc_now c) (cc_env c) user peer dev w)"
| "db_call_run lib secret c (CallKeyBundle peer user dev) w =
     snd (getDeviceKeyBundle lib (cc_net c) (cc_now c) (cc_env c) peer user dev w)"
| "db_call_run lib secret c (CallSend user sender req) w =
     snd (newTextMessage (cc_net c) (cc_now c) (cc_env c) user sender req w)"
| "db_call_run lib secret c (CallSync user req) w = snd (syncEnvelopePage (cc_net c) (cc_now c) user req w)"
| "db_call_run lib secret c (CallAck user req) w = snd (chat_ackEnvelopes (cc_net c) (cc_now c) (cc_env c) user req w)"

definition history :: "library \<Rightarrow> string \<Rightarrow> (call_context \<times> db_call) list \<Rightarrow> store_world \<Rightarrow> store_world" where
  "history lib secret cs w = fold (\<lambda>(c, call). db_call_run lib secret c call) cs w"

lemma orderly_snd: "orderly f \<Longrightarrow> world_ok w \<Longrightarrow> world_ok (snd (f w)) \<and> evolves (tables (snd w)) (tables (snd (snd (f w))))"
  unfolding orderly_def by blast

lemma db_call_orderly:
  assumes "world_ok w"
  shows "world_ok (db_call_run lib secret c call w) \<and> evolves (tables (snd w)) (tables (snd (db_call_run lib secret c call w)))"
  by (cases call; simp; rule orderly_snd [OF _ assms]; rule orderly_calls)

lemma history_orderly:
  assumes "world_ok w"
  shows "world_ok (history lib secret cs w) \<and> evolves (tables (snd w)) (tables (snd (history lib secret cs w)))"
  using assms
proof (induction cs arbitrary: w)
  case (Cons x cs)
  obtain c call where x: "x = (c, call)" by (cases x)
  note d = db_call_orderly [OF Cons.prems, of lib secret c call]
  from Cons.IH [OF conjunct1 [OF d]] d show ?case unfolding history_def x by (auto intro: evolves_trans)
qed (simp add: history_def)

lemma history_ok: "world_ok w \<Longrightarrow> world_ok (history lib secret cs w)"
  using history_orderly by blast

text \<open>What a row says lasts: a predicate that survives the steps of its table.\<close>

lemma history_device:
  assumes w: "world_ok w" and ud: "ud \<in> set (user_devices (tables (snd w)))"
  obtains ud' where "ud' \<in> set (user_devices (tables (snd (history lib secret cs w))))" "device_step ud ud'"
proof -
  have "table_grows device_step (user_devices (tables (snd w))) (user_devices (tables (snd (history lib secret cs w))))"
    using history_orderly [OF w, of lib secret cs] by (simp add: evolves_def)
  from table_grows_mem [OF this ud] that show thesis by blast
qed

lemma history_ticket:
  assumes w: "world_ok w" and t: "t \<in> set (login_tickets (tables (snd w)))"
  obtains t' where "t' \<in> set (login_tickets (tables (snd (history lib secret cs w))))" "ticket_step t t'"
proof -
  have "table_grows ticket_step (login_tickets (tables (snd w))) (login_tickets (tables (snd (history lib secret cs w))))"
    using history_orderly [OF w, of lib secret cs] by (simp add: evolves_def)
  from table_grows_mem [OF this t] that show thesis by blast
qed

lemma history_prekey:
  assumes w: "world_ok w" and p: "p \<in> set (one_time_prekeys (tables (snd w)))"
  obtains p' where "p' \<in> set (one_time_prekeys (tables (snd (history lib secret cs w))))" "prekey_step p p'"
proof -
  have "table_grows prekey_step (one_time_prekeys (tables (snd w))) (one_time_prekeys (tables (snd (history lib secret cs w))))"
    using history_orderly [OF w, of lib secret cs] by (simp add: evolves_def)
  from table_grows_mem [OF this p] that show thesis by blast
qed

lemma history_request:
  assumes w: "world_ok w" and q: "q \<in> set (friend_requests (tables (snd w)))"
  obtains q' where "q' \<in> set (friend_requests (tables (snd (history lib secret cs w))))" "request_step q q'"
proof -
  have "table_grows request_step (friend_requests (tables (snd w))) (friend_requests (tables (snd (history lib secret cs w))))"
    using history_orderly [OF w, of lib secret cs] by (simp add: evolves_def)
  from table_grows_mem [OF this q] that show thesis by blast
qed

section \<open>Login tickets\<close>

lemma complete_effect_identity:
  assumes "complete_effect env hash refresh_hash device input st x st'"
  shows "tr_identity x = None \<longleftrightarrow> tr_status x \<noteq> TicketSuccess"
proof (cases "tr_status x = TicketSuccess")
  case False
  with assms have "x = ticket_status (tr_status x)" unfolding complete_effect_def by simp
  then have "tr_identity x = tr_identity (ticket_status (tr_status x))" by (rule arg_cong)
  with False show ?thesis by (simp add: ticket_status_def)
qed (use assms in \<open>auto simp: complete_effect_def\<close>)

text \<open>What a call of the ticket service does.\<close>

lemma complete_login_result:
  assumes w: "world_ok w" and c: "complete_login lib secret net now env clock k ticket device input w = (r, w1)"
    and one: "(device = None) \<noteq> (input = None)"
  shows "(\<exists>hash refresh_hash x.
      hashTicket lib ticket = Inr hash \<and> RefreshTokenHash lib (generateRefreshToken lib k) = Inr refresh_hash \<and>
      complete_effect env (c_str hash) (c_str refresh_hash) device input (tables (snd w)) x (tables (snd w1)) \<and>
      (r = Inl answer_lost \<or>
       r = Inr (case tr_identity x of
           None \<Rightarrow> refused_login x
         | Some i \<Rightarrow> \<lparr>cd_result = x,
             cd_access_token = generateAccessToken lib secret (clock div 1000000000) (uuid_to_string lib (li_user_id i)),
             cd_refresh_token = generateRefreshToken lib k\<rparr>))) \<or>
    (tables (snd w1) = tables (snd w) \<and> (r = Inr (refused_login (ticket_status InvalidTicket)) \<or> (\<exists>e. r = Inl e)))"
proof (cases "validTicket ticket")
  case False
  with c show ?thesis by (simp add: complete_login_def)
next
  case valid: True
  show ?thesis
  proof (cases "hashTicket lib ticket")
    case (Inl e)
    with c valid show ?thesis by (auto simp: complete_login_def Let_def)
  next
    case h: (Inr hash)
    show ?thesis
    proof (cases "RefreshTokenHash lib (generateRefreshToken lib k)")
      case (Inl e)
      with c valid h show ?thesis by (auto simp: complete_login_def Let_def)
    next
      case rh: (Inr refresh_hash)
      obtain r0 w0 where rc: "repo_complete lib net now env hash refresh_hash device input w = (r0, w0)"
        by (cases "repo_complete lib net now env hash refresh_hash device input w")
      from complete.serves [OF w rc] one have e: "tx_result (\<lambda>st x st'. evolves st st' \<and>
          complete_effect env (c_str hash) (c_str refresh_hash) device input st x st') (tables (snd w)) r0 (tables (snd w0))"
        by (simp only: if_not_P) simp
      from c valid h rh rc have w1: "w1 = w0" and r: "r = (case r0 of Inl e \<Rightarrow> Inl e | Inr x \<Rightarrow>
          if tr_status x \<noteq> TicketSuccess then Inr (refused_login x)
          else case tr_identity x of None \<Rightarrow> Inl (LogicError ''Missing login identity'')
             | Some i \<Rightarrow> Inr \<lparr>cd_result = x,
                 cd_access_token = generateAccessToken lib secret (clock div 1000000000) (uuid_to_string lib (li_user_id i)),
                 cd_refresh_token = generateRefreshToken lib k\<rparr>)"
        by (auto simp: complete_login_def Let_def split: sum.splits if_splits option.splits)
      show ?thesis
      proof (cases r0)
        case (Inl e')
        with e w1 r h rh show ?thesis by (auto simp: tx_result_def)
      next
        case (Inr x)
        with e w1 have x: "complete_effect env (c_str hash) (c_str refresh_hash) device input (tables (snd w)) x (tables (snd w1))" by simp
        note complete_effect_identity [OF this]
        with Inr r have "r = Inr (case tr_identity x of None \<Rightarrow> refused_login x
            | Some i \<Rightarrow> \<lparr>cd_result = x,
                cd_access_token = generateAccessToken lib secret (clock div 1000000000) (uuid_to_string lib (li_user_id i)),
                cd_refresh_token = generateRefreshToken lib k\<rparr>)"
          by (auto split: option.splits)
        with x h rh show ?thesis by blast
      qed
    qed
  qed
qed

lemma completed_consumes:
  assumes "login_completed hash refresh_hash device input t dev st st'"
  shows "\<exists>t' \<in> set (login_tickets st'). lt_ticket_hash t' = hash \<and> lt_consumed_at t' \<noteq> None"
proof -
  from assms obtain now mid where t: "t \<in> set (login_tickets st)" "open_ticket now hash t"
    and m: "login_device (lt_user_id t) device input (st\<lparr>login_tickets := map (consumed_row now hash) (login_tickets st)\<rparr>) dev mid"
    and st': "login_tickets st' = login_tickets mid"
    unfolding login_completed_def by auto
  from m have "login_tickets mid = map (consumed_row now hash) (login_tickets st)"
    by (auto simp: login_device_def register_effect_def split: option.splits)
  with t st' have "consumed_row now hash t \<in> set (login_tickets st')" by simp
  moreover have "lt_ticket_hash (consumed_row now hash t) = hash" "lt_consumed_at (consumed_row now hash t) \<noteq> None"
    using t(2) by (simp_all add: consumed_row_def open_ticket_def)
  ultimately show ?thesis by blast
qed

lemma consumed_not_open:
  assumes "store_ok st" "t \<in> set (login_tickets st)" "lt_ticket_hash t = hash" "lt_consumed_at t \<noteq> None" "x \<in> set (login_tickets st)"
  shows "\<not> open_ticket now hash x"
proof
  assume o: "open_ticket now hash x"
  have "distinct (map lt_ticket_hash (login_tickets st))" using assms(1) by (simp add: store_ok_def keys_ok_def credentials_ok_def)
  from key_unique [OF this assms(5,2)] o assms(3,4) show False by (simp add: open_ticket_def)
qed

lemma complete_consumed:
  assumes "store_ok st" "t \<in> set (login_tickets st)" "lt_ticket_hash t = hash" "lt_consumed_at t \<noteq> None"
    and "complete_effect env hash refresh_hash device input st x st'"
  shows "x = ticket_status InvalidTicket \<and> st' = st"
  using assms(5) consumed_not_open [OF assms(1-4)]
  by (auto simp: complete_effect_def login_completed_def split: if_splits)

text \<open>
  C3. A login ticket is used once: after it has completed a login, and whatever the server does in between, no second
  completion with it succeeds; the second one changes nothing and is answered as an invalid ticket, unless the
  infrastructure fails.
\<close>

theorem ticket_used_once:
  assumes "world_ok w" "(device = None) \<noteq> (input = None)" "(device' = None) \<noteq> (input' = None)"
    and "complete_login lib secret net now env clock k ticket device input w = (Inr done_login, w1)"
    and "tr_status (cd_result done_login) = TicketSuccess"
    and "complete_login lib secret net' now' env' clock' k' ticket device' input' (history lib secret cs w1) = (r, w2)"
  shows "tables (snd w2) = tables (snd (history lib secret cs w1)) \<and>
    (\<forall>x. r = Inr x \<longrightarrow> x = refused_login (ticket_status InvalidTicket))"
proof -
  from complete_login_result [OF assms(1,4,2)] assms(5) obtain hash refresh_hash x where
      h: "hashTicket lib ticket = Inr hash" and x: "complete_effect env (c_str hash) (c_str refresh_hash) device input (tables (snd w)) x (tables (snd w1))"
        "tr_status x = TicketSuccess"
    by (auto simp: refused_login_def ticket_status_def split: option.splits)
  then obtain t dev where "login_completed (c_str hash) (c_str refresh_hash) device input t dev (tables (snd w)) (tables (snd w1))"
    by (auto simp: complete_effect_def)
  from completed_consumes [OF this] obtain t1 where t1: "t1 \<in> set (login_tickets (tables (snd w1)))" "lt_ticket_hash t1 = c_str hash"
      "lt_consumed_at t1 \<noteq> None" by blast
  have w1: "world_ok w1" using orderlyD [OF orderly_login_services(4) assms(1,4)] by simp
  from history_ticket [OF w1 t1(1)] obtain t2 where t2: "t2 \<in> set (login_tickets (tables (snd (history lib secret cs w1))))"
      "ticket_step t1 t2" by blast
  have ok: "store_ok (tables (snd (history lib secret cs w1)))" using history_ok [OF w1] by (simp add: world_ok_def)
  have "lt_ticket_hash t2 = c_str hash" "lt_consumed_at t2 \<noteq> None" using t1 t2(2) by simp_all
  note invalid = complete_consumed [OF ok t2(1) this]
  from complete_login_result [OF history_ok [OF w1] assms(6,3)] h invalid show ?thesis
    by (auto simp: ticket_status_def dest!: invalid)
qed

text \<open>
  C4. Completing a login is atomic.  When it succeeds, exactly this happened: an open ticket of an active user was marked
  consumed, the user's active device was taken (or a new one registered for the user with its key bundle), and one refresh
  token for that user and device was stored; the tokens in the answer are those of that user.  When it is refused, nothing
  changed.  After an error nothing changed either, unless the answer to the commit was lost: then the whole completion may
  have happened.
\<close>

theorem login_completion_atomic:
  assumes "world_ok w" "(device = None) \<noteq> (input = None)"
    and "complete_login lib secret net now env clock k ticket device input w = (r, w1)"
  shows "case r of
      Inl e \<Rightarrow> tables (snd w1) = tables (snd w) \<or> (e = answer_lost \<and> (\<exists>hash refresh_hash t dev.
          hashTicket lib ticket = Inr hash \<and> login_completed (c_str hash) refresh_hash device input t dev (tables (snd w)) (tables (snd w1))))
    | Inr x \<Rightarrow>
        if tr_status (cd_result x) = TicketSuccess
        then \<exists>hash refresh_hash t dev. hashTicket lib ticket = Inr hash \<and>
          RefreshTokenHash lib (cd_refresh_token x) = Inr refresh_hash \<and>
          login_completed (c_str hash) (c_str refresh_hash) device input t dev (tables (snd w)) (tables (snd w1)) \<and>
          tr_identity (cd_result x) = Some \<lparr>li_user_id = lt_user_id t, li_device_id = dev\<rparr> \<and>
          cd_access_token x = generateAccessToken lib secret (clock div 1000000000) (uuid_to_string lib (lt_user_id t))
        else tables (snd w1) = tables (snd w) \<and> x = refused_login (ticket_status (tr_status (cd_result x)))"
  using complete_login_result [OF assms(1,3,2)]
proof (elim disjE exE conjE)
  fix hash refresh_hash x
  assume h: "hashTicket lib ticket = Inr hash" "RefreshTokenHash lib (generateRefreshToken lib k) = Inr refresh_hash"
    and e: "complete_effect env (c_str hash) (c_str refresh_hash) device input (tables (snd w)) x (tables (snd w1))"
    and r: "r = Inl answer_lost"
  have "tables (snd w1) = tables (snd w) \<or>
      (\<exists>t dev. login_completed (c_str hash) (c_str refresh_hash) device input t dev (tables (snd w)) (tables (snd w1)))"
    using e by (auto simp: complete_effect_def split: if_splits)
  with r h show ?thesis by auto
next
  fix hash refresh_hash x
  assume h: "hashTicket lib ticket = Inr hash" "RefreshTokenHash lib (generateRefreshToken lib k) = Inr refresh_hash"
    and e: "complete_effect env (c_str hash) (c_str refresh_hash) device input (tables (snd w)) x (tables (snd w1))"
    and r: "r = Inr (case tr_identity x of
         None \<Rightarrow> refused_login x
       | Some i \<Rightarrow> \<lparr>cd_result = x,
           cd_access_token = generateAccessToken lib secret (clock div 1000000000) (uuid_to_string lib (li_user_id i)),
           cd_refresh_token = generateRefreshToken lib k\<rparr>)"
  show ?thesis
  proof (cases "tr_status x = TicketSuccess")
    case True
    with e obtain t dev where t: "tr_identity x = Some \<lparr>li_user_id = lt_user_id t, li_device_id = dev\<rparr>"
        "login_completed (c_str hash) (c_str refresh_hash) device input t dev (tables (snd w)) (tables (snd w1))"
      by (auto simp: complete_effect_def)
    with r h True show ?thesis by auto
  next
    case False
    with e have "x = ticket_status (tr_status x)" "tables (snd w1) = tables (snd w)" "tr_identity x = None"
      using complete_effect_identity [OF e] by (auto simp: complete_effect_def split: if_splits)
    with r False show ?thesis by (simp add: refused_login_def)
  qed
next
  assume "tables (snd w1) = tables (snd w)" "r = Inr (refused_login (ticket_status InvalidTicket))"
  then show ?thesis by (simp add: refused_login_def ticket_status_def)
next
  fix e assume "tables (snd w1) = tables (snd w)" "r = Inl e"
  then show ?thesis by simp
qed

section \<open>Prekeys\<close>

text \<open>A call that reads leaves the tables alone.\<close>

lemma read_keeps_world:
  assumes "evolving f (read_result q g)" "world_ok w" "f w = (r, w1)"
  shows "world_ok w1 \<and> tables (snd w1) = tables (snd w)"
  using store_service.serves [OF evolving.axioms(1) [OF assms(1)] assms(2,3)] by (auto dest: read_result_same)

lemma claim_result:
  assumes w: "world_ok w" and c: "getOneTimePrekey lib net now env user peer dev w = (Inr x, w1)" and s: "cl_status x = ClaimSuccess"
  shows "world_ok w1 \<and> claim_effect env user peer dev (tables (snd w)) x (tables (snd w1))"
proof -
  obtain b wa where a: "(if user \<noteq> peer then VerifyFriendShip net now user peer w else (Inr True, w)) = (b, wa)" by (rule prod.exhaust)
  have wa: "world_ok wa \<and> tables (snd wa) = tables (snd w)"
  proof (cases "user = peer")
    case False
    with a have "VerifyFriendShip net now user peer w = (b, wa)" by simp
    from read_keeps_world [OF friendship.evolving_axioms w this] show ?thesis .
  qed (use a w in auto)
  obtain d wb where fd: "FindDeviceByDeviceId lib net now env peer dev wa = (d, wb)"
    by (cases "FindDeviceByDeviceId lib net now env peer dev wa")
  have wb: "world_ok wb \<and> tables (snd wb) = tables (snd w)"
    using read_keeps_world [OF find_device.evolving_axioms _ fd] wa by simp
  from c s a fd have "getOneTimeKey net now env user peer dev wb = (Inr x, w1)"
    unfolding getOneTimePrekey_def a
    by (auto simp: claim_status_def split: sum.splits bool.splits option.splits if_splits)
  from claim.serves [OF conjunct1 [OF wb] this] wb show ?thesis by simp
qed

lemma claim_effectD:
  assumes "store_ok st" "claim_effect env user peer dev st x st'" "cl_status x = ClaimSuccess"
  obtains p where "p \<in> set (one_time_prekeys st)" "pk_device_id p = dev" "pk_state p = ''available''" "may_claim st user peer dev"
    "cl_prekey x = Some \<lparr>op_device_id = dev, op_prekey_id = pk_prekey_id p, op_public_key_hex = encodeHex (pk_public_key p)\<rparr>"
    "st' = st\<lparr>one_time_prekeys := map (claimed_row dev (pk_prekey_id p)) (one_time_prekeys st)\<rparr>"
  using assms by (auto simp: claim_effect_def)

text \<open>
  C11. The server hands out each one-time prekey at most once, and only to the device's owner or a friend: of two
  claims for the same device that succeed, whatever happens between them, the second returns another prekey than the first.
\<close>

theorem prekey_claimed_once:
  assumes "world_ok w" "getOneTimePrekey lib net now env user peer dev w = (Inr x, w1)" "cl_status x = ClaimSuccess"
    and "getOneTimePrekey lib net' now' env' user' peer' dev (history lib secret cs w1) = (Inr y, w2)" "cl_status y = ClaimSuccess"
  shows "self_or_friend (tables (snd w)) user peer \<and>
    (\<exists>i j key key'. i \<noteq> j \<and> cl_prekey x = Some \<lparr>op_device_id = dev, op_prekey_id = i, op_public_key_hex = key\<rparr> \<and>
       cl_prekey y = Some \<lparr>op_device_id = dev, op_prekey_id = j, op_public_key_hex = key'\<rparr>)"
proof -
  from claim_result [OF assms(1-3)] have w1: "world_ok w1"
    and e1: "claim_effect env user peer dev (tables (snd w)) x (tables (snd w1))" by simp_all
  have ok0: "store_ok (tables (snd w))" using assms(1) by (simp add: world_ok_def)
  obtain p where p: "p \<in> set (one_time_prekeys (tables (snd w)))" "pk_device_id p = dev" "pk_state p = ''available''"
      "may_claim (tables (snd w)) user peer dev"
      "cl_prekey x = Some \<lparr>op_device_id = dev, op_prekey_id = pk_prekey_id p, op_public_key_hex = encodeHex (pk_public_key p)\<rparr>"
      "tables (snd w1) = (tables (snd w))\<lparr>one_time_prekeys := map (claimed_row dev (pk_prekey_id p)) (one_time_prekeys (tables (snd w)))\<rparr>"
    by (rule claim_effectD [OF ok0 e1 assms(3)])
  define p1 where "p1 = claimed_row dev (pk_prekey_id p) p"
  have p1: "p1 \<in> set (one_time_prekeys (tables (snd w1)))" "pk_device_id p1 = dev" "pk_prekey_id p1 = pk_prekey_id p" "pk_state p1 = ''claimed''"
    using p by (simp_all add: p1_def) (simp add: claimed_row_def)
  let ?w = "history lib secret cs w1"
  from history_prekey [OF w1 p1(1)] obtain p2 where p2: "p2 \<in> set (one_time_prekeys (tables (snd ?w)))" "prekey_step p1 p2" by blast
  have wok: "world_ok ?w" by (rule history_ok [OF w1])
  then have ok: "store_ok (tables (snd ?w))" by (simp add: world_ok_def)
  from claim_result [OF wok assms(4,5)] have e2: "claim_effect env' user' peer' dev (tables (snd ?w)) y (tables (snd w2))" by simp
  obtain q where q: "q \<in> set (one_time_prekeys (tables (snd ?w)))" "pk_device_id q = dev" "pk_state q = ''available''"
      "cl_prekey y = Some \<lparr>op_device_id = dev, op_prekey_id = pk_prekey_id q, op_public_key_hex = encodeHex (pk_public_key q)\<rparr>"
    by (rule claim_effectD [OF ok e2 assms(5)])
  have "distinct (map (\<lambda>p. (pk_device_id p, pk_prekey_id p)) (one_time_prekeys (tables (snd ?w))))"
    using ok by (simp add: store_ok_def keys_ok_def credentials_ok_def)
  note unique = key_unique [OF this q(1) p2(1)]
  have p2': "pk_device_id p2 = dev" "pk_prekey_id p2 = pk_prekey_id p" "pk_state p2 \<noteq> ''available''" using p2(2) p1 by auto
  have "pk_prekey_id p \<noteq> pk_prekey_id q"
  proof
    assume "pk_prekey_id p = pk_prekey_id q"
    with p2' q(2) have "q = p2" by (intro unique) simp
    with p2' q(3) show False by simp
  qed
  with p(4,5) q(4) show ?thesis unfolding may_claim_def by blast
qed

text \<open>With nothing refused or lost, a claim that is allowed and finds a prekey succeeds.\<close>

lemma stoll_in_range: "- (2 ^ 63) \<le> v \<Longrightarrow> v \<le> 2 ^ 63 - 1 \<Longrightarrow> stoll (bigint_text v) = Inr v"
  by (simp add: stoll_def from_chars_bigint_text)

lemma claim_body_total:
  assumes net: "\<And>n. net n = Delivered" and ok: "store_ok st"
    and ids: "\<forall>p \<in> set (one_time_prekeys st). - (2 ^ 63) \<le> pk_prekey_id p \<and> pk_prekey_id p \<le> 2 ^ 63 - 1"
  shows "tx_total (claim_body net env user peer dev) st"
proof -
  have k: "distinct (map (\<lambda>p. (pk_device_id p, pk_prekey_id p)) (one_time_prekeys st))"
    using ok by (simp add: store_ok_def keys_ok_def credentials_ok_def)
  have auth: "tx_total (authorize_claim net user peer) st"
    by (auto simp: authorize_claim_def sql_friendship_def intro!: tx_total_sql_bind [OF net])
  have claim: "tx_total (case rows of [] \<Rightarrow> db_return (claim_status NoPrekey)
      | (id_text, key_hex) # _ \<Rightarrow> db_bind (db_lift (stoll id_text)) (\<lambda>i. db_return \<lparr>cl_status = ClaimSuccess,
          cl_prekey = Some \<lparr>op_device_id = dev, op_prekey_id = i, op_public_key_hex = key_hex\<rparr>\<rparr>)) u"
    if c: "sql_claim env dev n st = Inr (rows, u)" for n rows u
    using claim_row [OF k c]
  proof (elim disjE conjE bexE)
    fix p assume "p \<in> set (one_time_prekeys st)" "rows = [(bigint_text (pk_prekey_id p), encodeHex (pk_public_key p))]"
    with ids stoll_in_range [of "pk_prekey_id p"] show ?thesis by (simp add: db_lift_def db_bind_return)
  qed simp
  have target: "tx_total (db_bind (execute net (Sql (sql_target_device user peer dev))) (\<lambda>device.
      if device = [] then db_return (claim_status DeviceUnavailable)
      else db_bind (execute net (Sql (sql_claim env dev))) (\<lambda>rows.
        case rows of [] \<Rightarrow> db_return (claim_status NoPrekey)
        | (id_text, key_hex) # _ \<Rightarrow> db_bind (db_lift (stoll id_text)) (\<lambda>i. db_return \<lparr>cl_status = ClaimSuccess,
            cl_prekey = Some \<lparr>op_device_id = dev, op_prekey_id = i, op_public_key_hex = key_hex\<rparr>\<rparr>)))) st"
  proof (rule tx_total_sql_bind [OF net])
    show "\<exists>x d'. sql_target_device user peer dev n st = Inr (x, d')" for n by (simp add: sql_target_device_def)
  next
    fix n device v assume "sql_target_device user peer dev n st = Inr (device, v)"
    then have v: "v = st" using target_device by blast
    have sc: "\<exists>x d'. sql_claim env dev n st = Inr (x, d')" for n by (simp add: sql_claim_def split: list.splits)
    show "tx_total (if device = [] then db_return (claim_status DeviceUnavailable)
      else db_bind (execute net (Sql (sql_claim env dev))) (\<lambda>rows.
        case rows of [] \<Rightarrow> db_return (claim_status NoPrekey)
        | (id_text, key_hex) # _ \<Rightarrow> db_bind (db_lift (stoll id_text)) (\<lambda>i. db_return \<lparr>cl_status = ClaimSuccess,
            cl_prekey = Some \<lparr>op_device_id = dev, op_prekey_id = i, op_public_key_hex = key_hex\<rparr>\<rparr>))) v"
    proof (cases "device = []")
      case False
      show ?thesis unfolding v if_not_P [OF False] by (rule tx_total_sql_bind, rule net, rule sc, erule claim)
    qed simp
  qed
  show ?thesis unfolding claim_body_def
    by (rule tx_total_bind [OF auth]) (use target in \<open>auto dest!: authorize_claim_runs\<close>)
qed

lemma query_returns:
  assumes "\<And>n. net n = Delivered" "world_ok w" "can_borrow (fst w)" "\<And>n. \<exists>x d. q n (tables (snd w)) = Inr (x, d)"
    and "with_lease net now (db_bind (execute net (Sql q)) (\<lambda>x. db_lift (g x))) w = (r, w1)"
  shows "(\<exists>n x. q n (tables (snd w)) = Inr x \<and> r = g (fst x)) \<and> can_borrow (fst w1)"
  using lease_query_total [where net = net and p = "fst w" and s = "snd w" and q = q and g = g and now = now, OF assms(1) _ assms(3,4)]
    lease_can_borrow [OF assms(3), of net now "db_bind (execute net (Sql q)) (\<lambda>x. db_lift (g x))" "snd w"] assms(2,5)
  by (auto simp: world_ok_def)

definition readable_keys :: "library \<Rightarrow> pg_env \<Rightarrow> bool" where
  "readable_keys lib env \<longleftrightarrow> (\<forall>key. unescape_bytea lib (c_str (bytea_out env key)) \<noteq> None)"

definition bigint_ids :: "store \<Rightarrow> bool" where
  "bigint_ids st \<longleftrightarrow> (\<forall>p \<in> set (one_time_prekeys st). - (2 ^ 63) \<le> pk_prekey_id p \<and> pk_prekey_id p \<le> 2 ^ 63 - 1)"

lemma found_active:
  assumes "readable_keys lib env" "usable_device st peer dev" "sql_find_device env peer dev n st = Inr x"
  shows "\<exists>d. found_device lib (fst x) = Inr (Some d) \<and> dv_status d = Some device_active"
proof -
  let ?P = "\<lambda>ud. ud_user_id ud = peer \<and> ud_device_id ud = dev \<and> ud_status ud = ''active'' \<and> known_user st (ud_user_id ud)"
  have "\<exists>ud \<in> set (user_devices st). ?P ud"
    using assms(2) unfolding usable_device_def active_user_def known_user_def by metis
  then obtain ud uds where f: "filter ?P (user_devices st) = ud # uds" by (cases "filter ?P (user_devices st)") (auto simp: filter_empty_conv)
  then have ud: "ud_status ud = ''active''" using Cons_eq_filterD [OF f [symmetric]] by auto
  obtain key where "unescape_bytea lib (c_str (bytea_out env (ud_identity_public_key ud))) = Some key"
    using assms(1) by (auto simp: readable_keys_def)
  with assms(3) f ud show ?thesis
    by (auto simp: sql_find_device_def found_device_def device_row_def device_of_def parseBytea_def returnStatus_def)
qed

lemma claim_succeeds:
  assumes net: "\<And>n. net n = Delivered" and w: "world_ok w" "can_borrow (fst w)" and lib: "readable_keys lib env"
    and ids: "bigint_ids (tables (snd w))" and may: "may_claim (tables (snd w)) user peer dev"
    and free: "\<And>n. \<exists>p \<in> set (one_time_prekeys (tables (snd w))). claimable env n dev p"
  shows "\<exists>x w1. getOneTimePrekey lib net now env user peer dev w = (Inr x, w1) \<and> cl_status x = ClaimSuccess \<and> can_borrow (fst w1)"
proof -
  obtain b wa where a: "(if user \<noteq> peer then VerifyFriendShip net now user peer w else (Inr True, w)) = (b, wa)" by (rule prod.exhaust)
  have wa: "world_ok wa \<and> tables (snd wa) = tables (snd w) \<and> can_borrow (fst wa) \<and> b = Inr True"
  proof (cases "user = peer")
    case False
    with a have v: "VerifyFriendShip net now user peer w = (b, wa)" by simp
    have q: "\<exists>x d. sql_friendship user peer n (tables (snd w)) = Inr (x, d)" for n by (simp add: sql_friendship_def)
    from query_returns [where net = net and w = w and q = "sql_friendship user peer", OF net w q v [unfolded VerifyFriendShip_def]]
    have "can_borrow (fst wa)" "b = Inr True"
      using may False by (auto simp: sql_friendship_def may_claim_def self_or_friend_def filter_empty_conv)
    with read_keeps_world [OF friendship.evolving_axioms w(1) v] show ?thesis by simp
  qed (use a w in auto)
  obtain d wb where fd: "FindDeviceByDeviceId lib net now env peer dev wa = (d, wb)"
    by (cases "FindDeviceByDeviceId lib net now env peer dev wa")
  have q: "\<exists>x d. sql_find_device env peer dev n (tables (snd wa)) = Inr (x, d)" for n by (simp add: sql_find_device_def)
  have "world_ok wa" "can_borrow (fst wa)" using wa by simp_all
  from query_returns [where net = net and w = wa and q = "sql_find_device env peer dev", OF net this q fd [unfolded FindDeviceByDeviceId_def]]
  obtain n x where x: "sql_find_device env peer dev n (tables (snd wa)) = Inr x" "d = found_device lib (fst x)" and wb: "can_borrow (fst wb)" by blast
  have "usable_device (tables (snd wa)) peer dev" using may wa by (simp add: may_claim_def)
  from found_active [OF lib this x(1)] x(2) obtain dd where dd: "d = Inr (Some dd)" "dv_status dd = Some device_active" by blast
  have wb2: "world_ok wb \<and> tables (snd wb) = tables (snd w)"
    using read_keeps_world [OF find_device.evolving_axioms _ fd] wa by simp
  then have ok: "store_ok (tables (snd wb))" "pool_clean (fst wb)" unfolding world_ok_def by blast+
  have "tx_total (claim_body net env user peer dev) (tables (snd wb))"
    by (rule claim_body_total [OF net ok(1)]) (use ids wb2 in \<open>simp add: bigint_ids_def\<close>)
  from lease_total [where net = net and p = "fst wb" and s = "snd wb", OF net ok(2) wb this, of now] obtain y wc where
    g: "getOneTimeKey net now env user peer dev wb = (Inr y, wc)" by (auto simp: getOneTimeKey_def)
  have "can_borrow (fst wc)"
    using lease_can_borrow [OF wb, of net now "withTransaction net (claim_body net env user peer dev)" "snd wb"] g
    by (simp add: getOneTimeKey_def)
  moreover have "cl_status y = ClaimSuccess"
  proof (rule ccontr)
    assume ns: "cl_status y \<noteq> ClaimSuccess"
    from claim.serves [OF conjunct1 [OF wb2] g] wb2 have e: "claim_effect env user peer dev (tables (snd w)) y (tables (snd wc))" by simp
    have "filter (claimable env n dev) (one_time_prekeys (tables (snd w))) \<noteq> []" for n using free [of n] by (auto simp: filter_empty_conv)
    with e ns may show False by (auto simp: claim_effect_def may_claim_def split: if_splits)
  qed
  moreover have "getOneTimePrekey lib net now env user peer dev w = (Inr y, wc)"
    unfolding getOneTimePrekey_def a using wa fd dd g by simp
  ultimately show ?thesis by blast
qed

section \<open>Friend requests\<close>

lemma process_result:
  assumes w: "world_ok w" and c: "processFriendshipRequest net now user rid process w = (r, w1)"
  shows "world_ok w1 \<and>
    (case process_action process of
       None \<Rightarrow> r = Inr InvalidAction \<and> tables (snd w1) = tables (snd w)
     | Some action \<Rightarrow> tx_result (\<lambda>st x st'. evolves st st' \<and> process_effect user rid action st x st') (tables (snd w)) r (tables (snd w1)))"
proof (cases "process_action process")
  case None
  with c w show ?thesis by (auto simp: processFriendshipRequest_def)
next
  case (Some action)
  with c have "repo_processFriendshipRequest net now user rid action w = (r, w1)" by (simp add: processFriendshipRequest_def)
  from process.serves [OF w this] Some show ?thesis by simp
qed

lemma process_decided:
  assumes "store_ok st" "q \<in> set (friend_requests st)" "fq_id q = rid" "fq_status q \<noteq> ''pending''"
    and "process_effect user rid action st x st'"
  shows "x \<noteq> ProcessSuccess \<and> st' = st"
proof -
  have "distinct (map fq_id (friend_requests st))" using assms(1) by (simp add: store_ok_def keys_ok_def accounts_ok_def)
  then have "\<And>q'. q' \<in> set (friend_requests st) \<Longrightarrow> fq_id q' = rid \<Longrightarrow> q' = q"
    using key_unique [of fq_id "friend_requests st"] assms(2,3) by blast
  with assms(4,5) show ?thesis by (auto simp: process_effect_def Let_def split: if_splits)
qed

text \<open>
  C16. A friend request is decided once, by a user who may decide it: its recipient accepts or rejects it, its requester
  cancels it.  Whatever happens afterwards, nobody changes the decision: the request keeps its state, no later call on it
  succeeds or changes anything, and after an acceptance the two users stay friends in both directions.
\<close>

theorem friend_request_decided_once:
  assumes "world_ok w" "processFriendshipRequest net now user rid process w = (Inr ProcessSuccess, w1)"
    and "processFriendshipRequest net' now' user' rid process' (history lib secret cs w1) = (r, w2)"
  shows "\<exists>q \<in> set (friend_requests (tables (snd w))). \<exists>action. fq_id q = rid \<and> fq_status q = ''pending'' \<and>
    process_action process = Some action \<and> user = (if action = Cancel then fq_requester_id q else fq_recipient_id q) \<and>
    r \<noteq> Inr ProcessSuccess \<and> tables (snd w2) = tables (snd (history lib secret cs w1)) \<and>
    (\<exists>q' \<in> set (friend_requests (tables (snd w2))). fq_id q' = rid \<and> fq_status q' = targetStatus action) \<and>
    (action = Accept \<longrightarrow> {(fq_requester_id q, fq_recipient_id q), (fq_recipient_id q, fq_requester_id q)}
       \<subseteq> set (friend_relation (tables (snd w2))))"
proof -
  let ?w = "history lib secret cs w1"
  from process_result [OF assms(1,2)] obtain action where a: "process_action process = Some action"
    and w1: "world_ok w1" and e: "process_effect user rid action (tables (snd w)) ProcessSuccess (tables (snd w1))"
    by (auto split: option.splits)
  from e obtain q where q: "q \<in> set (friend_requests (tables (snd w)))" "fq_id q = rid" "fq_status q = ''pending''"
      "user = (if action = Cancel then fq_requester_id q else fq_recipient_id q)" "tables (snd w1) = decide rid action q (tables (snd w))"
    by (auto simp: process_effect_def Let_def)
  define q1 where "q1 = decided_row rid (targetStatus action) q"
  have q1: "q1 \<in> set (friend_requests (tables (snd w1)))" "fq_id q1 = rid" "fq_status q1 = targetStatus action"
    using q by (simp_all add: q1_def decide_def) (simp add: decided_row_def)
  from history_request [OF w1 q1(1)] obtain q2 where q2: "q2 \<in> set (friend_requests (tables (snd ?w)))" "request_step q1 q2" by blast
  then have q2': "fq_id q2 = rid" "fq_status q2 = targetStatus action" using q1 targetStatus_final [of action] by auto
  have wok: "world_ok ?w" by (rule history_ok [OF w1])
  then have ok: "store_ok (tables (snd ?w))" by (simp add: world_ok_def)
  have later: "r \<noteq> Inr ProcessSuccess \<and> tables (snd w2) = tables (snd ?w)"
  proof (cases "process_action process'")
    case None
    with process_result [OF wok assms(3)] show ?thesis by simp
  next
    case (Some action')
    with process_result [OF wok assms(3)] have
      t: "tx_result (\<lambda>st x st'. evolves st st' \<and> process_effect user' rid action' st x st') (tables (snd ?w)) r (tables (snd w2))" by simp
    have "fq_status q2 \<noteq> ''pending''" using q2'(2) by simp
    from process_decided [OF ok q2(1) q2'(1) this] t show ?thesis by (auto simp: tx_result_def split: sum.splits)
  qed
  have "action = Accept \<longrightarrow> {(fq_requester_id q, fq_recipient_id q), (fq_recipient_id q, fq_requester_id q)}
       \<subseteq> set (friend_relation (tables (snd w1)))"
    unfolding q(5) decide_relation by simp
  moreover have "set (friend_relation (tables (snd w1))) \<subseteq> set (friend_relation (tables (snd ?w)))"
    using history_orderly [OF w1, of lib secret cs] by (simp add: evolves_def)
  ultimately show ?thesis
    using a q(1-4) q2 q2' later by (intro bexI [of _ q] exI [of _ action]) auto
qed

section \<open>Refresh tokens\<close>

lemma parseTimePoint_text: "parseTimePoint (bigint_text v) = Inr t \<Longrightarrow> t = v * 1000000000"
  by (auto simp: parseTimePoint_def from_chars_bigint_text split: if_splits)

lemma token_record_row:
  assumes "token_record (token_row t # rows) = Inr (Some x)"
  shows "rr_user_id x = rt_user_id t \<and> (rr_revoked_at x = None \<longleftrightarrow> rt_revoked_at t = None) \<and>
    rr_expires_at x = rt_expires_at t div second * 1000000000"
  using assms by (auto simp: token_record_def token_row_def ebind_Inr_iff dest!: parseTimePoint_text split: option.splits)

lemma sql_token_rows:
  assumes "sql_token hash n st = Inr (rows, st')"
  shows "st' = st \<and> (rows = [] \<or> (\<exists>t \<in> set (refresh_tokens st). rows = [token_row t] \<and> rt_token_hash t = hash \<and>
    owned_active st (rt_user_id t) (rt_device_id t) \<and> active_user st (rt_user_id t)))"
proof -
  let ?rows = "[token_row t. t \<leftarrow> refresh_tokens st, ud \<leftarrow> user_devices st, u \<leftarrow> users st,
      rt_token_hash t = hash \<and> bound_device st t ud \<and> us_id u = rt_user_id t \<and> us_is_active u]"
  have rows: "rows = take 1 ?rows" "st' = st" using assms by (auto simp: sql_token_def)
  show ?thesis
  proof (cases ?rows)
    case Nil
    with rows show ?thesis by simp
  next
    case (Cons r rs)
    then have "r \<in> set ?rows" by simp
    then have "\<exists>t \<in> set (refresh_tokens st). r = token_row t \<and> rt_token_hash t = hash \<and>
        owned_active st (rt_user_id t) (rt_device_id t) \<and> active_user st (rt_user_id t)"
      by (auto simp: bound_device_def owned_active_def active_user_def)
    with Cons rows show ?thesis by auto
  qed
qed

lemma accepted_token:
  assumes "world_ok w" "validate_refresh lib net now env clock token w = (Inr (Inr s), w1)"
  obtains hash t x where "RefreshTokenHash lib token = Inr hash" "t \<in> set (refresh_tokens (tables (snd w)))"
    "rt_token_hash t = c_str hash" "usable_device (tables (snd w)) (rt_user_id t) (rt_device_id t)"
    "token_record [token_row t] = Inr (Some x)" "rr_revoked_at x = None" "\<not> rr_expires_at x \<le> clock"
    "s = uuid_to_string lib (rr_user_id x)" "tables (snd w1) = tables (snd w)"
proof -
  from assms(2) obtain hash x where h: "RefreshTokenHash lib token = Inr hash" "getRefreshTokenRecord net now hash w = (Inr (Some x), w1)"
      "rr_revoked_at x = None" "\<not> rr_expires_at x \<le> clock" "s = uuid_to_string lib (rr_user_id x)"
    by (auto simp: validate_refresh_def split: sum.splits prod.splits option.splits if_splits)
  from token_record.serves [OF assms(1) h(2)] obtain n rows where
    q: "sql_token (c_str hash) n (tables (snd w)) = Inr (rows, tables (snd w))" "Inr (Some x) = token_record rows" "tables (snd w1) = tables (snd w)"
    by (auto elim!: read_resultE)
  have "rows \<noteq> []" using q(2) by (auto simp: token_record_def)
  with sql_token_rows [OF q(1)] obtain t where t: "t \<in> set (refresh_tokens (tables (snd w)))" "rows = [token_row t]" "rt_token_hash t = c_str hash"
      "owned_active (tables (snd w)) (rt_user_id t) (rt_device_id t)" "active_user (tables (snd w)) (rt_user_id t)" by blast
  have "usable_device (tables (snd w)) (rt_user_id t) (rt_device_id t)" using t(4,5) by (simp add: usable_device_def owned_active_def)
  from that [OF h(1) t(1,3) this _ h(3,4,5) q(3)] q(2) t(2) show thesis by simp
qed


section \<open>Revoked devices\<close>

lemma revoke_result:
  assumes w: "world_ok w" and c: "revokeUserDevice lib net now env user dev password w = (Inr (Inl b), w1)"
  shows "world_ok w1 \<and> revoke_effect user dev (tables (snd w)) RevokeSuccess (tables (snd w1))"
proof -
  obtain r wa where f: "FindLoginRecordByUserId net now user w = (r, wa)" by (cases "FindLoginRecordByUserId net now user w")
  have wa: "world_ok wa \<and> tables (snd wa) = tables (snd w)" by (rule read_keeps_world [OF login_by_user.evolving_axioms w f])
  from c f obtain x where "repo_revokeUserDevice net now env user dev wa = (Inr x, w1)" "revoke_answer x = Inl b"
    by (auto simp: revokeUserDevice_def split: sum.splits option.splits if_splits prod.splits)
  then have "repo_revokeUserDevice net now env user dev wa = (Inr RevokeSuccess, w1)" by (cases x) simp_all
  from revoke.serves [OF conjunct1 [OF wa] this] wa show ?thesis by simp
qed

text \<open>No user has the device in use.\<close>

definition retired :: "store \<Rightarrow> uuid \<Rightarrow> bool" where
  "retired st dev \<longleftrightarrow> (\<exists>ud \<in> set (user_devices st). ud_device_id ud = dev \<and> ud_status ud = ''revoked'')"

lemma revoke_retires: "revoke_effect user dev st RevokeSuccess st' \<Longrightarrow> retired st' dev"
proof -
  assume "revoke_effect user dev st RevokeSuccess st'"
  then obtain ud where "ud \<in> set (user_devices st)" "ud_device_id ud = dev" "ud_status ud = ''active''"
      "user_devices st' = map (revoked_row dev) (user_devices st)" by (auto simp: revoke_effect_def)
  then have "revoked_row dev ud \<in> set (user_devices st')" "ud_device_id (revoked_row dev ud) = dev"
      "ud_status (revoked_row dev ud) = ''revoked''" by (simp_all add: revoked_row_def)
  then show "retired st' dev" unfolding retired_def by blast
qed

lemma retired_lasts:
  assumes "world_ok w" "retired (tables (snd w)) dev"
  shows "retired (tables (snd (history lib secret cs w))) dev"
proof -
  from assms(2) obtain ud where ud: "ud \<in> set (user_devices (tables (snd w)))" "ud_device_id ud = dev" "ud_status ud = ''revoked''"
    by (auto simp: retired_def)
  from history_device [OF assms(1) ud(1)] obtain ud' where "ud' \<in> set (user_devices (tables (snd (history lib secret cs w))))"
      "device_step ud ud'" by blast
  with ud show ?thesis by (auto simp: retired_def)
qed

lemma retired_unusable: "store_ok st \<Longrightarrow> retired st dev \<Longrightarrow> \<not> owned_active st u dev \<and> \<not> usable_device st u dev"
  using key_unique [of ud_device_id "user_devices st"]
  by (fastforce simp: retired_def owned_active_def usable_device_def store_ok_def keys_ok_def)

lemma unusable_refused:
  assumes w: "world_ok w" and u: "\<And>v. \<not> usable_device (tables (snd w)) v dev" "\<And>v. \<not> owned_active (tables (snd w)) v dev"
  shows "fst (verifySessionIdentity net now user dev w) \<noteq> Inr IdentitySuccess"
    and "tm_status (fst (newTextMessage net now env user dev req w)) \<notin> {ChatSuccess, ChatDuplicate}"
    and "sy_device_id sreq = dev \<Longrightarrow> fst (syncEnvelopePage net now user sreq w) \<noteq> Inr (Some page)"
    and "ack_device_id areq = dev \<Longrightarrow> fst (chat_ackEnvelopes net now env user areq w) \<noteq> Inr (Some ids)"
    and "fst (getOneTimePrekey lib net now env user peer dev w) = Inr x \<Longrightarrow> cl_status x \<noteq> ClaimSuccess"
    and "fst (complete_login lib secret net now env clock k ticket (Some dev) None w) = Inr l \<Longrightarrow> tr_status (cd_result l) \<noteq> TicketSuccess"
    and "t \<in> set (refresh_tokens (tables (snd w))) \<Longrightarrow> rt_device_id t = dev \<Longrightarrow> RefreshTokenHash lib token = Inr hash \<Longrightarrow>
      rt_token_hash t = c_str hash \<Longrightarrow> fst (validate_refresh lib net now env clock token w) \<noteq> Inr (Inr s)"
proof -
  have ok: "pool_clean (fst w)" "store_ok (tables (snd w))" "keys_ok (tables (snd w))"
    using w by (simp_all add: world_ok_def store_ok_def)
  show "fst (verifySessionIdentity net now user dev w) \<noteq> Inr IdentitySuccess"
    using identity_checked [OF ok(1,3), of net now user dev] u(1) by (cases "verifySessionIdentity net now user dev w") auto
  show "tm_status (fst (newTextMessage net now env user dev req w)) \<notin> {ChatSuccess, ChatDuplicate}"
  proof -
    obtain a w' where n: "newTextMessage net now env user dev req w = (a, w')" by (cases "newTextMessage net now env user dev req w")
    have "\<not> may_send (tables (snd w)) user dev rcp" for rcp using u(1) by (simp add: may_send_def)
    with newTextMessage_answered [OF ok(1,2) n] answered_true [of env user dev req "tables (snd w)" a "tables (snd w')"] n
    show ?thesis by (auto simp: answer_true_def status_only_def Let_def split: if_splits)
  qed
  show "fst (syncEnvelopePage net now user sreq w) \<noteq> Inr (Some page)" if "sy_device_id sreq = dev"
    using sync_page.effects [OF w, where net = net and now = now and user = user and req = sreq] u(1) that
    by (cases "syncEnvelopePage net now user sreq w") auto
  show "fst (chat_ackEnvelopes net now env user areq w) \<noteq> Inr (Some ids)" if "ack_device_id areq = dev"
    using acknowledge.effects [OF w, where net = net and now = now and env = env and user = user and req = areq] u(1) that
    by (cases "chat_ackEnvelopes net now env user areq w") (auto simp: ack_effect_def)
  show "cl_status x \<noteq> ClaimSuccess" if "fst (getOneTimePrekey lib net now env user peer dev w) = Inr x"
  proof
    assume s: "cl_status x = ClaimSuccess"
    from that have "getOneTimePrekey lib net now env user peer dev w =
        (Inr x, snd (getOneTimePrekey lib net now env user peer dev w))" by (metis prod.collapse)
    from claim_result [OF w this s] s u(1) show False by (auto simp: claim_effect_def may_claim_def)
  qed
  show "tr_status (cd_result l) \<noteq> TicketSuccess"
    if "fst (complete_login lib secret net now env clock k ticket (Some dev) None w) = Inr l"
  proof
    assume s: "tr_status (cd_result l) = TicketSuccess"
    from that have c: "complete_login lib secret net now env clock k ticket (Some dev) None w =
        (Inr l, snd (complete_login lib secret net now env clock k ticket (Some dev) None w))" by (metis prod.collapse)
    from complete_login_result [OF w c] s obtain hash refresh_hash x st' where
      "complete_effect env hash refresh_hash (Some dev) None (tables (snd w)) x st'" "tr_status x = TicketSuccess"
      by (auto simp: refused_login_def ticket_status_def split: option.splits)
    then obtain t where "device_refusal (tables (snd w)) t (Some dev) = None" by (auto simp: complete_effect_def login_completed_def)
    with u(2) show False by (simp add: device_refusal_def split: if_splits)
  qed
  show "fst (validate_refresh lib net now env clock token w) \<noteq> Inr (Inr s)"
    if t: "t \<in> set (refresh_tokens (tables (snd w)))" "rt_device_id t = dev" "RefreshTokenHash lib token = Inr hash" "rt_token_hash t = c_str hash"
  proof
    assume "fst (validate_refresh lib net now env clock token w) = Inr (Inr s)"
    then have "validate_refresh lib net now env clock token w =
        (Inr (Inr s), snd (validate_refresh lib net now env clock token w))" by (metis prod.collapse)
    from accepted_token [OF w this] t(3) obtain t' where t': "t' \<in> set (refresh_tokens (tables (snd w)))" "rt_token_hash t' = c_str hash"
        "usable_device (tables (snd w)) (rt_user_id t') (rt_device_id t')" by (metis sum.inject(2))
    have "distinct (map rt_token_hash (refresh_tokens (tables (snd w))))" using ok(3) by (simp add: keys_ok_def credentials_ok_def)
    from key_unique [OF this t'(1) t(1)] t'(2) t(4) have "t' = t" by simp
    with t' t(2) u(1) show False by simp
  qed
qed

text \<open>
  C2. A device that its owner has revoked is shut out for good, whatever happens afterwards: no session is accepted for
  it, it sends no message, reads none and acknowledges none, nobody gets a prekey of it, no login completes on it, and
  none of its refresh tokens is accepted.
\<close>

theorem revoked_device_shut_out:
  assumes "world_ok w" "revokeUserDevice lib net now env owner dev password w = (Inr (Inl b), w1)" "w2 = history lib secret cs w1"
  shows "fst (verifySessionIdentity net' now' user dev w2) \<noteq> Inr IdentitySuccess \<and>
    tm_status (fst (newTextMessage net' now' env' user dev req w2)) \<notin> {ChatSuccess, ChatDuplicate} \<and>
    (sy_device_id sreq = dev \<longrightarrow> (\<forall>page. fst (syncEnvelopePage net' now' user sreq w2) \<noteq> Inr (Some page))) \<and>
    (ack_device_id areq = dev \<longrightarrow> (\<forall>ids. fst (chat_ackEnvelopes net' now' env' user areq w2) \<noteq> Inr (Some ids))) \<and>
    (\<forall>x. fst (getOneTimePrekey lib net' now' env' user peer dev w2) = Inr x \<longrightarrow> cl_status x \<noteq> ClaimSuccess) \<and>
    (\<forall>x. fst (complete_login lib secret net' now' env' clock k ticket (Some dev) None w2) = Inr x \<longrightarrow>
       tr_status (cd_result x) \<noteq> TicketSuccess) \<and>
    (\<forall>t \<in> set (refresh_tokens (tables (snd w2))). \<forall>token hash s. rt_device_id t = dev \<and> RefreshTokenHash lib token = Inr hash \<and>
       rt_token_hash t = c_str hash \<longrightarrow> fst (validate_refresh lib net' now' env' clock token w2) \<noteq> Inr (Inr s))"
proof -
  from revoke_result [OF assms(1,2)] have w1: "world_ok w1" "retired (tables (snd w1)) dev" by (auto dest: revoke_retires)
  then have w2: "world_ok w2" "retired (tables (snd w2)) dev" unfolding assms(3) by (simp_all add: history_ok retired_lasts)
  then have "\<not> owned_active (tables (snd w2)) v dev \<and> \<not> usable_device (tables (snd w2)) v dev" for v
    by (simp add: retired_unusable world_ok_def)
  then have u: "\<And>v. \<not> usable_device (tables (snd w2)) v dev" "\<And>v. \<not> owned_active (tables (snd w2)) v dev" by simp_all
  show ?thesis by (intro conjI impI allI ballI unusable_refused [OF w2(1) u]) auto
qed

section \<open>Registration and the first login\<close>

text \<open>\<^verbatim>\<open>crypto_pwhash_str_verify\<close> accepts what \<^verbatim>\<open>crypto_pwhash_str\<close> made, which is a C string.\<close>

definition password_law :: "library \<Rightarrow> bool" where
  "password_law lib \<longleftrightarrow> (\<forall>p h. pwhash_str lib p = Some h \<longrightarrow> pwhash_str_verify lib (c_str h) p)"

lemma c_str_idem [simp]: "c_str (c_str s) = c_str s"
  by (simp add: c_str_def takeWhile_idem)

lemma concat_map_none: "(\<And>x. x \<in> set xs \<Longrightarrow> f x = []) \<Longrightarrow> concat (map f xs) = []"
  by simp

lemma login_rows_of_new_account:
  assumes "account_effect env (c_str email) hash display_name username st user st'"
  shows "sql_login_by_email env email n st' = Inr ([(usr_id user, display_name, ''t'', hash, username)], st')"
proof -
  let ?u = "\<lparr>us_id = usr_id user, us_is_active = True, us_display_name = display_name, us_username = username\<rparr>"
  let ?p = "\<lparr>pc_user_id = usr_id user, pc_login_email = c_str email, pc_password_hash = hash\<rparr>"
  from assms have st': "users st' = users st @ [?u]" "password_credentials st' = password_credentials st @ [?p]"
    and fresh: "\<And>u. u \<in> set (users st) \<Longrightarrow> us_id u \<noteq> usr_id user"
      "\<And>p. p \<in> set (password_credentials st) \<Longrightarrow> sql_lower env (pc_login_email p) \<noteq> sql_lower env (c_str email)"
    by (auto simp: account_effect_def)
  have old: "concat (map (\<lambda>u. if us_id u = usr_id user then [(us_id u, us_display_name u, sql_bool (us_is_active u), hash, us_username u)] else [])
      (users st)) = []"
    by (rule concat_map_none) (simp add: fresh(1))
  have none: "concat (map (\<lambda>p. concat (map (\<lambda>u. if us_id u = pc_user_id p \<and> sql_lower env (pc_login_email p) = sql_lower env (c_str email)
        then [(us_id u, us_display_name u, sql_bool (us_is_active u), pc_password_hash p, us_username u)] else []) xs))
      (password_credentials st)) = []" for xs
    by (rule concat_map_none) (simp add: fresh(2))
  show ?thesis
    unfolding sql_login_by_email_def st' map_append [where xs = "password_credentials st"] concat_append none
    using old by (simp add: sql_bool_def)
qed

text \<open>
  Who registers can log in: right after a successful registration a login with the same address and password is
  never refused.  It answers with success and a ticket, whose hash is stored for the new user, or the infrastructure fails.
\<close>

theorem registered_user_logs_in:
  assumes "world_ok w" "password_law lib"
    and "RegisterUserByEmail lib net now env email password display_name username w = (Inr (Inl user), w1)"
    and "loginByEmail lib net' now' env k email password w1 = (Inr x, w2)"
  shows "\<exists>ticket hash. x = \<lparr>ls_login = LoginSuccess, ls_login_ticket = Some ticket\<rparr> \<and> hashTicket lib ticket = Inr hash \<and>
    (\<exists>t \<in> set (login_tickets (tables (snd w2))). lt_ticket_hash t = c_str hash \<and> lt_user_id t = usr_id user \<and> lt_consumed_at t = None)"
proof -
  from register_result [OF assms(1,3)] obtain hash where h: "pwhash_str lib password = Some hash" and w1: "world_ok w1"
    and a: "account_effect env (c_str email) (c_str hash) (c_str display_name) (c_str username) (tables (snd w)) user (tables (snd w1))" by blast
  obtain r wa where f: "FindLoginRecordByEmail net' now' env email w1 = (r, wa)" by (cases "FindLoginRecordByEmail net' now' env email w1")
  have wa: "world_ok wa" "tables (snd wa) = tables (snd w1)"
    using read_keeps_world [OF login_by_email.evolving_axioms w1 f] by simp_all
  from login_by_email.serves [OF w1 f] assms(4) f have r: "r = Inr (Some \<lparr>pl_id = usr_id user, pl_display_name = c_str display_name,
      pl_is_active = True, pl_password_hash = c_str hash, pl_username = c_str username\<rparr>)"
    by (auto simp: login_rows_of_new_account [OF a] loginByEmail_def elim!: read_resultE)
  have "verifyPassword lib (c_str hash) password" using assms(2) h by (simp add: verifyPassword_def password_law_def)
  with assms(4) f r obtain ticket where i: "issue_ticket lib net' now' env k (usr_id user) wa = (Inr ticket, w2)"
    and x: "x = (case ticket of None \<Rightarrow> login_refused NotActiveUser | Some t \<Rightarrow> \<lparr>ls_login = LoginSuccess, ls_login_ticket = Some t\<rparr>)"
    by (auto simp: loginByEmail_def split: prod.splits sum.splits option.splits)
  from i obtain th b where th: "hashTicket lib (encodeHex (randombytes lib k)) = Inr th" "repo_issue net' now' env (usr_id user) th wa = (Inr b, w2)"
      "ticket = (if b then Some (encodeHex (randombytes lib k)) else None)"
    by (auto simp: issue_ticket_def Let_def split: sum.splits prod.splits)
  have act: "active_user (tables (snd w1)) (usr_id user)" using a by (auto simp: account_effect_def active_user_def)
  from issue.serves [OF wa(1) th(2)] have e: "issue_effect env (usr_id user) (c_str th) (tables (snd wa)) b (tables (snd w2))" by simp
  with act wa(2) have b: b by (simp add: issue_effect_def)
  with e have "\<exists>t \<in> set (login_tickets (tables (snd w2))). lt_ticket_hash t = c_str th \<and> lt_user_id t = usr_id user \<and> lt_consumed_at t = None"
    by (auto simp: issue_effect_def)
  with b th x show ?thesis by auto
qed

section \<open>The refinement\<close>

section \<open>Sample worlds\<close>

definition sample_ticket :: string where "sample_ticket = replicate 64 (CHR ''a'')"

definition sample_accounts :: store where
  "sample_accounts = sample_store\<lparr>
     friend_requests := [\<lparr>fq_id = 5, fq_requester_id = 1, fq_recipient_id = 2, fq_status = ''pending'', fq_message = None, fq_created_at = 0\<rparr>],
     login_tickets := [\<lparr>lt_ticket_hash = sample_ticket, lt_user_id = 1, lt_expires_at = 1000, lt_consumed_at = None\<rparr>],
     one_time_prekeys := [\<lparr>pk_device_id = 22, pk_prekey_id = 4, pk_public_key = [1], pk_state = ''available''\<rparr>,
       \<lparr>pk_device_id = 22, pk_prekey_id = 3, pk_public_key = [2], pk_state = ''available''\<rparr>],
     refresh_tokens := [\<lparr>rt_id = 9, rt_user_id = 2, rt_device_id = 22, rt_token_hash = sample_ticket, rt_expires_at = 2000000,
       rt_revoked_at = None, rt_created_at = 0\<rparr>],
     password_credentials := [\<lparr>pc_user_id = 1, pc_login_email = ''ann@example.org'', pc_password_hash = ''$Passw0rd!''\<rparr>]\<rparr>"

definition sample_service :: store_world where
  "sample_service = (fst sample_chat, \<lparr>tables = sample_accounts, sent = 0\<rparr>)"

lemma sample_service_ok: "world_ok sample_service"
  using sample_chat_ok(1)
  by (simp add: world_ok_def sample_service_def sample_accounts_def sample_store_def store_ok_def keys_ok_def envelopes_ok_def
      pair_seqs_def accounts_ok_def credentials_ok_def symmetric_relation_def sample_user_def sample_device_def)

lemma sample_login_done:
  "\<exists>x w1. complete_login demo_lib ''s'' (\<lambda>_. Delivered) 0 sample_env 0 1 sample_ticket (Some 11) None sample_service = (Inr x, w1) \<and>
     tr_status (cd_result x) = TicketSuccess"
proof -
  let ?c = "complete_login demo_lib ''s'' (\<lambda>_. Delivered) 0 sample_env 0 1 sample_ticket (Some 11) None sample_service"
  have "case fst ?c of Inl _ \<Rightarrow> False | Inr x \<Rightarrow> tr_status (cd_result x) = TicketSuccess" by code_simp
  moreover obtain r w1 where c: "?c = (r, w1)" by (rule prod.exhaust)
  ultimately have "\<exists>x. r = Inr x \<and> tr_status (cd_result x) = TicketSuccess" by (auto split: sum.splits)
  with c show ?thesis by blast
qed

lemma sample_refresh_done:
  "\<exists>w1. validate_refresh demo_lib (\<lambda>_. Delivered) 0 sample_env 1000 sample_ticket sample_service = (Inr (Inr (uuid_to_string demo_lib 2)), w1)"
proof -
  let ?t = "\<lparr>rt_id = 9, rt_user_id = 2, rt_device_id = 22, rt_token_hash = sample_ticket, rt_expires_at = 2000000,
    rt_revoked_at = None, rt_created_at = 0\<rparr> :: refresh_token"
  have h: "RefreshTokenHash demo_lib sample_ticket = Inr sample_ticket" "c_str sample_ticket = sample_ticket" by code_simp+
  obtain r w1 where g: "getRefreshTokenRecord (\<lambda>_. Delivered) 0 sample_ticket sample_service = (r, w1)"
    by (rule prod.exhaust)
  have q: "sql_token sample_ticket n (tables (snd sample_service)) = Inr ([token_row ?t], tables (snd sample_service))" for n
    by (simp add: sql_token_def sample_service_def sample_accounts_def sample_store_def bound_device_def sample_user_def sample_device_def)
  have "can_borrow (fst sample_service)" using sample_chat_ok(3) by (simp add: sample_service_def)
  from query_returns [where net = "\<lambda>_. Delivered", OF refl sample_service_ok this _ g [unfolded getRefreshTokenRecord_def]] q h(2)
  have "r = token_record [token_row ?t]" by fastforce
  also have "\<dots> = Inr (Some \<lparr>rr_id = 9, rr_user_id = 2, rr_token_hash = sample_ticket, rr_expires_at = 2000000000, rr_revoked_at = None,
      rr_created_at = 0\<rparr>)"
    by (simp add: token_record_def token_row_def parseTimePoint_def from_chars_bigint_text second_def)
  finally show ?thesis using g h(1) by (simp add: validate_refresh_def)
qed

lemma sample_claims_done:
  "\<exists>x w1 y w2. getOneTimePrekey demo_lib (\<lambda>_. Delivered) 0 sample_env 1 2 22 sample_service = (Inr x, w1) \<and> cl_status x = ClaimSuccess \<and>
     getOneTimePrekey demo_lib (\<lambda>_. Delivered) 0 sample_env 1 2 22 w1 = (Inr y, w2) \<and> cl_status y = ClaimSuccess"
proof -
  have lib: "readable_keys demo_lib sample_env" by (simp add: readable_keys_def demo_lib_def)
  have may: "may_claim (tables (snd sample_service)) 1 2 22"
    by (auto simp: may_claim_def self_or_friend_def usable_device_def active_user_def sample_service_def sample_accounts_def
        sample_store_def sample_user_def sample_device_def)
  have ids: "bigint_ids (tables (snd sample_service))" "\<And>n. \<exists>p \<in> set (one_time_prekeys (tables (snd sample_service))). claimable sample_env n 22 p"
    by (auto simp: bigint_ids_def sample_service_def sample_accounts_def claimable_def sample_env_def)
  have b: "can_borrow (fst sample_service)" using sample_chat_ok(3) by (simp add: sample_service_def)
  obtain x w1 where c: "getOneTimePrekey demo_lib (\<lambda>_. Delivered) 0 sample_env 1 2 22 sample_service = (Inr x, w1)" "cl_status x = ClaimSuccess"
      "can_borrow (fst w1)"
    using claim_succeeds [where net = "\<lambda>_. Delivered", OF refl sample_service_ok b lib ids(1) may ids(2), of 0] by blast
  from claim_result [OF sample_service_ok c(1,2)] have w1: "world_ok w1"
    and e: "claim_effect sample_env 1 2 22 (tables (snd sample_service)) x (tables (snd w1))" by simp_all
  then have t: "\<exists>i \<in> {3, 4}. tables (snd w1) = sample_accounts\<lparr>one_time_prekeys := map (claimed_row 22 i) (one_time_prekeys sample_accounts)\<rparr>"
    using c(2) by (auto simp: claim_effect_def sample_service_def sample_accounts_def)
  then have "may_claim (tables (snd w1)) 1 2 22" using may
    by (auto simp: may_claim_def self_or_friend_def usable_device_def active_user_def sample_service_def)
  moreover have "bigint_ids (tables (snd w1))" "\<And>n. \<exists>p \<in> set (one_time_prekeys (tables (snd w1))). claimable sample_env n 22 p"
    using t by (auto simp: bigint_ids_def sample_accounts_def claimable_def sample_env_def claimed_row_def)
  ultimately obtain y w2 where "getOneTimePrekey demo_lib (\<lambda>_. Delivered) 0 sample_env 1 2 22 w1 = (Inr y, w2)" "cl_status y = ClaimSuccess"
    using claim_succeeds [where net = "\<lambda>_. Delivered", OF refl w1 c(3) lib, of 1 2 22 0] by blast
  with c show ?thesis by blast
qed

lemma sample_accept_done:
  "\<exists>w1. processFriendshipRequest (\<lambda>_. Delivered) 0 2 5 ''accepted'' sample_service = (Inr ProcessSuccess, w1)"
proof -
  have "fst (processFriendshipRequest (\<lambda>_. Delivered) 0 2 5 ''accepted'' sample_service) = Inr ProcessSuccess" by code_simp
  then show ?thesis by (metis prod.collapse)
qed

lemma sample_revocation_done:
  "\<exists>w1. revokeUserDevice demo_lib (\<lambda>_. Delivered) 0 sample_env 1 11 ''Passw0rd!'' sample_service = (Inr (Inl True), w1)"
proof -
  have "fst (revokeUserDevice demo_lib (\<lambda>_. Delivered) 0 sample_env 1 11 ''Passw0rd!'' sample_service) = Inr (Inl True)" by code_simp
  then show ?thesis by (metis prod.collapse)
qed

lemma sample_register_checks: "checkEmail ''a@b.cd''" "checkPassword ''Secr3t!''" "checkDisplayName ''cat''" "checkUsername ''cat''"
  by code_simp (simp_all add: checkPassword_iff checkDisplayName_iff checkUsername_iff alnum_def lower_char_def upper_char_def
      digit_char_def space_char_def)

lemma sample_registration_done:
  "\<exists>user w1 x w2. RegisterUserByEmail demo_lib (\<lambda>_. Delivered) 0 sample_env ''a@b.cd'' ''Secr3t!'' ''cat'' ''cat'' sample_service =
       (Inr (Inl user), w1) \<and>
     loginByEmail demo_lib (\<lambda>_. Delivered) 0 sample_env 1 ''a@b.cd'' ''Secr3t!'' w1 = (Inr x, w2)"
proof -
  have "case CreateNewUserByEmail (\<lambda>_. Delivered) 0 sample_env ''a@b.cd'' ''$Secr3t!'' ''cat'' ''cat'' sample_service of
      (Inl _, _) \<Rightarrow> False
    | (Inr user, w1) \<Rightarrow>
        (case loginByEmail demo_lib (\<lambda>_. Delivered) 0 sample_env 1 ''a@b.cd'' ''Secr3t!'' w1 of (Inl _, _) \<Rightarrow> False | (Inr _, _) \<Rightarrow> True)"
    by code_simp
  moreover have "passwordHash demo_lib ''Secr3t!'' = Inr ''$Secr3t!''" by (simp add: passwordHash_def demo_lib_def)
  ultimately show ?thesis
    by (auto simp: RegisterUserByEmail_def sample_register_checks split: prod.splits sum.splits)
qed

lemma demo_password_law: "password_law demo_lib"
proof -
  have "c_str (CHR ''$'' # p) = CHR ''$'' # p" if "CHR 0x00 \<notin> set p" for p
    using that takeWhile_eq_all_conv [of "\<lambda>c. c \<noteq> CHR 0x00" "CHR ''$'' # p"] by (auto simp: c_str_def)
  then show ?thesis by (simp add: password_law_def demo_lib_def)
qed

section \<open>Witnesses\<close>

definition sample_context :: call_context where
  "sample_context = \<lparr>cc_net = (\<lambda>_. Delivered), cc_now = 0, cc_env = sample_env, cc_clock = 0, cc_draw = 1\<rparr>"

text \<open>A history that tries the ticket again, looks a user up and sends a message.\<close>

abbreviation sample_calls :: "(call_context \<times> db_call) list" where
  "sample_calls \<equiv> [(sample_context, CallVerifyDevice sample_ticket 22), (sample_context, CallFindUser ''bob''),
     (sample_context, CallSend 1 11 sample_message)]"

theorem ticket_used_once_witness:
  "\<exists>x w1 r w2. complete_login demo_lib ''s'' (\<lambda>_. Delivered) 0 sample_env 0 1 sample_ticket (Some 11) None sample_service = (Inr x, w1) \<and>
     complete_login demo_lib ''s'' (\<lambda>_. Delivered) 0 sample_env 0 2 sample_ticket (Some 11) None
       (history demo_lib ''s'' sample_calls w1) = (r, w2) \<and>
     tables (snd w2) = tables (snd (history demo_lib ''s'' sample_calls w1)) \<and> r \<noteq> Inr x"
proof -
  obtain x w1 where c: "complete_login demo_lib ''s'' (\<lambda>_. Delivered) 0 sample_env 0 1 sample_ticket (Some 11) None sample_service = (Inr x, w1)"
      "tr_status (cd_result x) = TicketSuccess" using sample_login_done by blast
  obtain r w2 where d: "complete_login demo_lib ''s'' (\<lambda>_. Delivered) 0 sample_env 0 2 sample_ticket (Some 11) None
      (history demo_lib ''s'' sample_calls w1) = (r, w2)" by (rule prod.exhaust)
  from ticket_used_once [OF sample_service_ok _ _ c d] have
    e: "tables (snd w2) = tables (snd (history demo_lib ''s'' sample_calls w1))"
      "\<And>y. r = Inr y \<Longrightarrow> y = refused_login (ticket_status InvalidTicket)" by simp_all
  have "r \<noteq> Inr x" using e(2) c(2) by (auto simp: refused_login_def ticket_status_def)
  with c d e(1) show ?thesis by blast
qed

theorem login_completion_atomic_witness:
  "\<exists>x w1 hash t dev. complete_login demo_lib ''s'' (\<lambda>_. Delivered) 0 sample_env 0 1 sample_ticket (Some 11) None sample_service = (Inr x, w1) \<and>
     (\<exists>refresh_hash. login_completed hash refresh_hash (Some 11) None t dev sample_accounts (tables (snd w1)))"
proof -
  obtain x w1 where c: "complete_login demo_lib ''s'' (\<lambda>_. Delivered) 0 sample_env 0 1 sample_ticket (Some 11) None sample_service = (Inr x, w1)"
      "tr_status (cd_result x) = TicketSuccess" using sample_login_done by blast
  from login_completion_atomic [OF sample_service_ok _ c(1)] c(2) obtain hash refresh_hash t dev where
    "login_completed (c_str hash) (c_str refresh_hash) (Some 11) None t dev sample_accounts (tables (snd w1))"
    by (auto simp: sample_service_def)
  with c(1) show ?thesis by blast
qed

theorem prekey_claimed_once_witness:
  "\<exists>x w1 y w2. getOneTimePrekey demo_lib (\<lambda>_. Delivered) 0 sample_env 1 2 22 sample_service = (Inr x, w1) \<and>
     getOneTimePrekey demo_lib (\<lambda>_. Delivered) 0 sample_env 1 2 22 w1 = (Inr y, w2) \<and> cl_prekey x \<noteq> cl_prekey y"
proof -
  obtain x w1 y w2 where c: "getOneTimePrekey demo_lib (\<lambda>_. Delivered) 0 sample_env 1 2 22 sample_service = (Inr x, w1)"
      "cl_status x = ClaimSuccess" "getOneTimePrekey demo_lib (\<lambda>_. Delivered) 0 sample_env 1 2 22 w1 = (Inr y, w2)" "cl_status y = ClaimSuccess"
    using sample_claims_done by blast
  have "getOneTimePrekey demo_lib (\<lambda>_. Delivered) 0 sample_env 1 2 22 (history demo_lib ''s'' [] w1) = (Inr y, w2)"
    using c(3) by (simp add: history_def)
  from prekey_claimed_once [OF sample_service_ok c(1,2) this c(4)] have "cl_prekey x \<noteq> cl_prekey y" by auto
  with c show ?thesis by blast
qed

theorem friend_request_decided_once_witness:
  "\<exists>w1 r w2. processFriendshipRequest (\<lambda>_. Delivered) 0 2 5 ''accepted'' sample_service = (Inr ProcessSuccess, w1) \<and>
     processFriendshipRequest (\<lambda>_. Delivered) 0 2 5 ''rejected'' (history demo_lib ''s'' sample_calls w1) = (r, w2) \<and>
     r \<noteq> Inr ProcessSuccess \<and> (\<exists>q \<in> set (friend_requests (tables (snd w2))). fq_id q = 5)"
proof -
  obtain w1 where p: "processFriendshipRequest (\<lambda>_. Delivered) 0 2 5 ''accepted'' sample_service = (Inr ProcessSuccess, w1)"
    using sample_accept_done by blast
  obtain r w2 where d: "processFriendshipRequest (\<lambda>_. Delivered) 0 2 5 ''rejected'' (history demo_lib ''s'' sample_calls w1) = (r, w2)"
    by (rule prod.exhaust)
  from friend_request_decided_once [OF sample_service_ok p d] p d show ?thesis by blast
qed


theorem revoked_device_shut_out_witness:
  "\<exists>w1. revokeUserDevice demo_lib (\<lambda>_. Delivered) 0 sample_env 1 11 ''Passw0rd!'' sample_service = (Inr (Inl True), w1) \<and>
     fst (verifySessionIdentity (\<lambda>_. Delivered) 0 1 11 (history demo_lib ''s'' sample_calls w1)) \<noteq> Inr IdentitySuccess"
proof -
  obtain w1 where r: "revokeUserDevice demo_lib (\<lambda>_. Delivered) 0 sample_env 1 11 ''Passw0rd!'' sample_service = (Inr (Inl True), w1)"
    using sample_revocation_done by blast
  from revoked_device_shut_out [OF sample_service_ok r refl] have
    "fst (verifySessionIdentity (\<lambda>_. Delivered) 0 1 11 (history demo_lib ''s'' sample_calls w1)) \<noteq> Inr IdentitySuccess" by blast
  with r show ?thesis by blast
qed

theorem registered_user_logs_in_witness:
  "\<exists>user w1 x w2. RegisterUserByEmail demo_lib (\<lambda>_. Delivered) 0 sample_env ''a@b.cd'' ''Secr3t!'' ''cat'' ''cat'' sample_service =
       (Inr (Inl user), w1) \<and>
     loginByEmail demo_lib (\<lambda>_. Delivered) 0 sample_env 1 ''a@b.cd'' ''Secr3t!'' w1 = (Inr x, w2) \<and> ls_login x = LoginSuccess"
proof -
  obtain user w1 x w2 where r: "RegisterUserByEmail demo_lib (\<lambda>_. Delivered) 0 sample_env ''a@b.cd'' ''Secr3t!'' ''cat'' ''cat'' sample_service =
       (Inr (Inl user), w1)" and l: "loginByEmail demo_lib (\<lambda>_. Delivered) 0 sample_env 1 ''a@b.cd'' ''Secr3t!'' w1 = (Inr x, w2)"
    using sample_registration_done by blast
  from registered_user_logs_in [OF sample_service_ok demo_password_law r l] have "ls_login x = LoginSuccess" by auto
  with r l show ?thesis by blast
qed

end
