(* ===== verification/Handlers.thy ===== *)
theory Handlers
  imports History Ws_Pool Http_Response
begin

text \<open>
  The HTTP handlers: \<^verbatim>\<open>src/src/handler/UserHandler.cpp\<close>, \<^verbatim>\<open>RefreshTokenHandler.cpp\<close> and
  \<^verbatim>\<open>include/handler/LoginTicketResponse.h\<close>; the handlers for devices and keys are in \<open>Key_Handlers\<close>.  A handler
  is a function on the state it shares with the other threads: the database world and the pool of WebSocket workers.  What
  it asks the workers to do is recorded: the pushes it queues and the revocations it waits for.  A body is read as JSON
  and checked field by field; every exception that the source catches is a branch here, every other is the result.
\<close>

section \<open>State and environment\<close>

text \<open>
  What a request meets besides the state: the libraries, the secret of the access tokens, whether each WebSocket worker
  finishes its revocation before the deadline, the order in which
  a \<^verbatim>\<open>std::unordered_map\<close> of prekeys is iterated, and the answer of the query on the legacy table \<^verbatim>\<open>users\<close> with a column
  \<^verbatim>\<open>email\<close>, which the migrations under \<^verbatim>\<open>src/database/\<close> do not create.
\<close>

record handler_env = call_context +
  hc_lib :: library
  hc_secret :: string
  hc_revoke :: "nat \<Rightarrow> bool"
  hc_order :: "(int \<times> string) list \<Rightarrow> (int \<times> string) list"
  hc_legacy :: "string \<Rightarrow> store \<Rightarrow> (string \<times> string) + (uuid \<times> string) list"

record server_state =
  sv_world :: store_world
  sv_pool :: WebSocketPool
  sv_pushes :: "push_call list"
  sv_revocations :: "(uuid \<times> uuid \<times> nat) list"

type_synonym handler = "server_state Handler"
type_synonym protected_handler = "server_state Protected_Handler"
type_synonym reply = "HttpResponse result \<times> server_state"

text \<open>\<^verbatim>\<open>try { ok(call()) } catch { failed }\<close>.\<close>

definition serve ::
  "(store_world \<Rightarrow> 'r result \<times> store_world) \<Rightarrow> ('r \<Rightarrow> server_state \<Rightarrow> reply) \<Rightarrow> (exn \<Rightarrow> HttpResponse result) \<Rightarrow> server_state \<Rightarrow> reply" where
  "serve call ok failed s =
     (case call (sv_world s) of
        (Inl e, w) \<Rightarrow> (failed e, s\<lparr>sv_world := w\<rparr>)
      | (Inr x, w) \<Rightarrow>
          (case ok x (s\<lparr>sv_world := w\<rparr>) of
             (Inl e, s2) \<Rightarrow> (failed e, s2)
           | (Inr response, s2) \<Rightarrow> (Inr response, s2)))"

section \<open>Requests and responses\<close>

definition with_body :: "library \<Rightarrow> string \<Rightarrow> HttpRequest \<Rightarrow> (json \<Rightarrow> server_state \<Rightarrow> reply) \<Rightarrow> server_state \<Rightarrow> reply" where
  "with_body lib message req k s =
     (if req_body req = '''' then (ErrorResponseMaker lib Bad_Request ''missing_request_body'' ''Request body is required'', s)
      else case json_parse lib (req_body req) of
             Some (JObject m) \<Rightarrow> k (JObject m) s
           | _ \<Rightarrow> (ErrorResponseMaker lib Bad_Request ''invalid_json'' message, s))"

abbreviation object_message :: string where
  "object_message \<equiv> ''Request body must be a valid JSON object''"

text \<open>\<^verbatim>\<open>it == body.end() || !it->is_string()\<close>, and the text when it is not empty.\<close>

definition string_field :: "string \<Rightarrow> json \<Rightarrow> string option" where
  "string_field name body = (case json_find name body of Some (JString t) \<Rightarrow> Some t | _ \<Rightarrow> None)"

definition text_field :: "string \<Rightarrow> json \<Rightarrow> string option" where
  "text_field name body =
     (case string_field name body of Some t \<Rightarrow> if t = '''' then None else Some t | None \<Rightarrow> None)"

text \<open>The check of the 36-character form, and the generator's exception caught with it.\<close>

definition strict_uuid :: "library \<Rightarrow> string \<Rightarrow> uuid option" where
  "strict_uuid lib t = (if \<not> uuid_shape t then None else string_generator lib t)"

definition non_nil_uuid :: "library \<Rightarrow> string \<Rightarrow> uuid option" where
  "non_nil_uuid lib t = (case strict_uuid lib t of Some u \<Rightarrow> if u = nil_uuid then None else Some u | None \<Rightarrow> None)"

definition json_content :: "HttpResponse \<Rightarrow> HttpResponse" where
  "json_content r = set_header ''Content-Type'' ''application/json'' r"

definition plain_response :: "library \<Rightarrow> HttpStatus \<Rightarrow> json \<Rightarrow> HttpResponse result" where
  "plain_response lib status body =
     ebind (dump lib body) (\<lambda>text. Inr (empty_response\<lparr>rsp_status := status, rsp_body := text\<rparr>))"

definition json_response :: "library \<Rightarrow> HttpStatus \<Rightarrow> json \<Rightarrow> HttpResponse result" where
  "json_response lib status body = ebind (plain_response lib status body) (\<lambda>r. Inr (json_content r))"

definition uuid_text :: "library \<Rightarrow> uuid \<Rightarrow> json" where
  "uuid_text lib u = JString (uuid_to_string lib u)"

text \<open>\<^verbatim>\<open>error.code().starts_with("08")\<close>.\<close>

definition connection_lost :: "DatabaseError \<Rightarrow> bool" where
  "connection_lost e \<longleftrightarrow> db_kind e = Connection \<or> starts_with ''08'' (db_code e)"

definition transient :: "DatabaseError \<Rightarrow> bool" where
  "transient e \<longleftrightarrow> db_code e = ''40001'' \<or> db_code e = ''40P01''"

section \<open>Friends\<close>

definition user_json :: "library \<Rightarrow> User \<Rightarrow> json" where
  "user_json lib u = JObject [(''id'', uuid_text lib (usr_id u)), (''username'', JString (usr_username u)),
     (''display_name'', JString (usr_display_name u))]"

text \<open>\<^verbatim>\<open>catch (const DatabaseError&)\<close> only.\<close>

definition only_database :: "(DatabaseError \<Rightarrow> HttpResponse result) \<Rightarrow> exn \<Rightarrow> HttpResponse result" where
  "only_database f e = (case e of DbExn d \<Rightarrow> f d | _ \<Rightarrow> Inl e)"

definition FetchFriends_handler :: "handler_env \<Rightarrow> protected_handler" where
  "FetchFriends_handler h req my_uuid =
     serve (fetchFriends (cc_net h) (cc_now h) (cc_env h) my_uuid)
       (\<lambda>friends s. (json_response (hc_lib h) Ok (JObject [(''friends'', JArray (map (user_json (hc_lib h)) friends))]), s))
       (only_database (\<lambda>e.
          if db_kind e = Connection
          then ErrorResponseMaker (hc_lib h) Service_Unavailable ''database_unavailable'' ''Service temporarily unavailable''
          else ErrorResponseMaker (hc_lib h) Internal_Server_Error ''fetch_friends_failed'' ''Unable to fetch friends''))"

definition process_response :: "library \<Rightarrow> uuid \<Rightarrow> string \<Rightarrow> FriendRequestProcessResult \<Rightarrow> HttpResponse result" where
  "process_response lib request_id process result =
     (case result of
        RequestNotFound \<Rightarrow> ErrorResponseMaker lib Not_Found ''friend_request_not_found'' ''Friend request not found''
      | RequestForbidden \<Rightarrow>
          ErrorResponseMaker lib Forbidden ''friend_request_forbidden'' ''You cannot perform this action on this request''
      | RequestConflict \<Rightarrow>
          ErrorResponseMaker lib Conflict ''friend_request_already_processed'' ''Friend request has a different final status''
      | InvalidAction \<Rightarrow>
          ErrorResponseMaker lib Bad_Request ''invalid_process'' ''process must be accepted, rejected or cancelled''
      | _ \<Rightarrow> json_response lib Ok (JObject [(''request_id'', uuid_text lib request_id), (''status'', JString process),
               (''already_processed'', JBool (result = AlreadyProcessed))]))"

definition ProcessFriendshipRequest_handler :: "handler_env \<Rightarrow> protected_handler" where
  "ProcessFriendshipRequest_handler h req my_uuid =
     with_body (hc_lib h) object_message req (\<lambda>body s.
       case text_field ''request_id'' body of
         None \<Rightarrow> (ErrorResponseMaker (hc_lib h) Bad_Request ''invalid_request_id'' ''request_id must be a UUID string'', s)
       | Some idText \<Rightarrow>
           (case text_field ''process'' body of
              None \<Rightarrow>
                (ErrorResponseMaker (hc_lib h) Bad_Request ''invalid_process'' ''process must be accepted, rejected or cancelled'', s)
            | Some process \<Rightarrow>
                (case string_generator (hc_lib h) idText of
                   None \<Rightarrow> (ErrorResponseMaker (hc_lib h) Bad_Request ''invalid_request_id'' ''request_id must be a UUID string'', s)
                 | Some requestId \<Rightarrow>
                     serve (processFriendshipRequest (cc_net h) (cc_now h) my_uuid requestId process)
                       (\<lambda>result s. (process_response (hc_lib h) requestId process result, s))
                       (only_database (\<lambda>e.
                          if db_kind e = Connection
                          then ErrorResponseMaker (hc_lib h) Service_Unavailable ''database_unavailable'' ''Service temporarily unavailable''
                          else ErrorResponseMaker (hc_lib h) Internal_Server_Error ''process_friend_request_failed''
                                 ''Unable to process friend request'')) s)))"

section \<open>Registration and login\<close>

definition conversionInput :: "string \<Rightarrow> string" where
  "conversionInput input = rev (dropWhile (\<lambda>c. c = CHR '' '') (rev (dropWhile (\<lambda>c. c = CHR '' '') input)))"

definition register_response :: "library \<Rightarrow> User + RegisterError \<Rightarrow> HttpResponse result" where
  "register_response lib result =
     (case result of
        Inl user \<Rightarrow> plain_response lib Created (JObject [(''id'', uuid_text lib (usr_id user)),
          (''display_name'', JString (usr_display_name user)), (''username'', JString (usr_username user))])
      | Inr RegisterFailed \<Rightarrow> ErrorResponseMaker lib Internal_Server_Error ''register_failed'' ''Register failed''
      | Inr InvalidEmail \<Rightarrow> ErrorResponseMaker lib Bad_Request ''invalid_email'' ''Invalid email''
      | Inr RegisterInvalidPassword \<Rightarrow>
          ErrorResponseMaker lib Bad_Request ''invalid_password'' ''Password does not meet requirements''
      | Inr InvalidDisplayName \<Rightarrow> ErrorResponseMaker lib Bad_Request ''invalid_display_name'' ''Invalid display name''
      | Inr EmailExists \<Rightarrow> ErrorResponseMaker lib Conflict ''email_already_exists'' ''This email is already registered''
      | Inr UsernameExists \<Rightarrow> ErrorResponseMaker lib Conflict ''username_already_exists'' ''This username is already registered''
      | Inr InvalidUsername \<Rightarrow> ErrorResponseMaker lib Bad_Request ''invalid_user_name'' ''Invalid user name'')"

definition Register_handler :: "handler_env \<Rightarrow> handler" where
  "Register_handler h req =
     with_body (hc_lib h) object_message req (\<lambda>body s.
       case text_field ''email'' body of
         None \<Rightarrow> (ErrorResponseMaker (hc_lib h) Bad_Request ''missing_register_email'' ''Email must be a non-empty string'', s)
       | Some email \<Rightarrow>
      (case text_field ''password'' body of
         None \<Rightarrow> (ErrorResponseMaker (hc_lib h) Bad_Request ''missing_register_password'' ''Password must be a non-empty string'', s)
       | Some password \<Rightarrow>
      (case text_field ''display_name'' body of
         None \<Rightarrow>
           (ErrorResponseMaker (hc_lib h) Bad_Request ''missing_register_display_name'' ''Display name must be a non-empty string'', s)
       | Some display_name \<Rightarrow>
      (case text_field ''username'' body of
         None \<Rightarrow> (ErrorResponseMaker (hc_lib h) Bad_Request ''missing_register_username'' ''user name must be a non-empty string'', s)
       | Some username \<Rightarrow>
           serve (RegisterUserByEmail (hc_lib h) (cc_net h) (cc_now h) (cc_env h) (map tolower (conversionInput email))
                    (conversionInput password) (conversionInput display_name) (conversionInput username))
             (\<lambda>result s. (register_response (hc_lib h) result, s)) Inl s))))"

definition makeResult :: "library \<Rightarrow> HttpStatus \<Rightarrow> string \<Rightarrow> HttpResponse result" where
  "makeResult lib status code = json_response lib status (JObject [(''code'', JString code)])"

definition login_response :: "library \<Rightarrow> LoginServiceResult \<Rightarrow> HttpResponse result" where
  "login_response lib result =
     (case ls_login result of
        LoginSuccess \<Rightarrow>
          (case ls_login_ticket result of
             None \<Rightarrow> makeResult lib Internal_Server_Error ''internal_error''
           | Some ticket \<Rightarrow> json_response lib Ok (JObject [(''code'', JString ''login_success''), (''login_ticket'', JString ticket),
                               (''expires_in'', JInt 300)]))
      | NoUserFound \<Rightarrow> makeResult lib Unauthorized ''invalid_credentials''
      | InvalidCredentials \<Rightarrow> makeResult lib Unauthorized ''invalid_credentials''
      | NotActiveUser \<Rightarrow> makeResult lib Forbidden ''account_disabled''
      | LoginTooManyRequests \<Rightarrow> makeResult lib Service_Unavailable ''too_many_requests''
      | LoginServiceUnavailable \<Rightarrow> makeResult lib Service_Unavailable ''service_unavailable''
      | LoginInternalError \<Rightarrow> makeResult lib Internal_Server_Error ''internal_error'')"

definition login_failure :: "library \<Rightarrow> exn \<Rightarrow> HttpResponse result" where
  "login_failure lib e =
     (case e of
        DbExn d \<Rightarrow> if connection_lost d then makeResult lib Service_Unavailable ''service_unavailable''
                   else makeResult lib Internal_Server_Error ''internal_error''
      | _ \<Rightarrow> makeResult lib Internal_Server_Error ''internal_error'')"

definition LoginByEmail_handler :: "handler_env \<Rightarrow> handler" where
  "LoginByEmail_handler h req s =
     (if req_body req = '''' then (makeResult (hc_lib h) Bad_Request ''missing_request_body'', s)
      else case json_parse (hc_lib h) (req_body req) of
        None \<Rightarrow> (makeResult (hc_lib h) Bad_Request ''invalid_json'', s)
      | Some body \<Rightarrow>
          if \<not> is_object body then (makeResult (hc_lib h) Bad_Request ''invalid_json'', s)
          else
         (case text_field ''email'' body of
            None \<Rightarrow> (makeResult (hc_lib h) Bad_Request ''missing_register_email'', s)
          | Some email \<Rightarrow>
         (case text_field ''password'' body of
            None \<Rightarrow> (makeResult (hc_lib h) Bad_Request ''missing_register_password'', s)
          | Some password \<Rightarrow>
              serve (loginByEmail (hc_lib h) (cc_net h) (cc_now h) (cc_env h) (cc_draw h) (map tolower (conversionInput email))
                       (conversionInput password))
                (\<lambda>result s. (login_response (hc_lib h) result, s)) (login_failure (hc_lib h)) s)))"

section \<open>Looking users up\<close>

definition sql_legacy ::
  "(string \<Rightarrow> store \<Rightarrow> (string \<times> string) + (uuid \<times> string) list) \<Rightarrow> string \<Rightarrow> (store, (uuid \<times> string) list) query" where
  "sql_legacy legacy email n st = (case legacy (c_str email) st of Inl e \<Rightarrow> Inl e | Inr rows \<Rightarrow> Inr (rows, st))"

definition legacy_user :: "(uuid \<times> string) list \<Rightarrow> User option result" where
  "legacy_user rows =
     (case rows of
        [] \<Rightarrow> Inr None
      | (i, name) # _ \<Rightarrow> Inr (Some \<lparr>usr_id = i, usr_display_name = name, usr_username = ''''\<rparr>))"

definition findByEmail :: "handler_env \<Rightarrow> string \<Rightarrow> store_world \<Rightarrow> User option result \<times> store_world" where
  "findByEmail h email =
     with_lease (cc_net h) (cc_now h)
       (db_bind (execute (cc_net h) (Sql (sql_legacy (hc_legacy h) email))) (\<lambda>rows. db_lift (legacy_user rows)))"

definition findUserByEmail :: "handler_env \<Rightarrow> string \<Rightarrow> store_world \<Rightarrow> User option result \<times> store_world" where
  "findUserByEmail h email w = findByEmail h email w"

text \<open>A \<^verbatim>\<open>boost::uuids::uuid\<close> is a container of 16 bytes, and the JSON library prints it as an array.\<close>

definition uuid_array :: "uuid \<Rightarrow> json" where
  "uuid_array u = JArray (map (\<lambda>i. JUnsigned (unat u div 256 ^ (15 - i) mod 256)) [0..<16])"

definition getUser :: "handler_env \<Rightarrow> handler" where
  "getUser h req s =
     (case map_of (req_headers req) ''X-User-Email'' of
        None \<Rightarrow> (ErrorResponseMaker (hc_lib h) Bad_Request ''missing_user_email'' ''Missing X-User-Email header'', s)
      | Some email \<Rightarrow>
          if email = '''' then (ErrorResponseMaker (hc_lib h) Bad_Request ''missing_user_email'' ''Missing X-User-Email header'', s)
          else serve (findUserByEmail h email)
            (\<lambda>result s.
               (case result of
                  None \<Rightarrow> ErrorResponseMaker (hc_lib h) Not_Found ''user_not_found'' ''User not found''
                | Some user \<Rightarrow> json_response (hc_lib h) Ok (JObject [(''id'', uuid_array (usr_id user)),
                    (''display_name'', JString (usr_display_name user))]), s)) Inl s)"

text \<open>The JSON object built here is not sent.\<close>

definition verifyaccess :: "HttpResponse result" where
  "verifyaccess = Inr (empty_response\<lparr>rsp_status := Ok\<rparr>)"

definition found_user_response :: "library \<Rightarrow> uuid \<Rightarrow> User option \<Rightarrow> HttpResponse result" where
  "found_user_response lib my_uuid result =
     (case result of
        None \<Rightarrow> ErrorResponseMaker lib Not_Found ''user_not_found'' ''User not found''
      | Some user \<Rightarrow>
          if usr_id user = my_uuid then ErrorResponseMaker lib Bad_Request ''cannot_find_myself'' ''Can not Search for Myself''
          else plain_response lib Ok (JObject [(''id'', uuid_text lib (usr_id user)),
                 (''display_name'', JString (usr_display_name user)), (''username'', JString (usr_username user))]))"

definition FindUserByUsername_handler :: "handler_env \<Rightarrow> protected_handler" where
  "FindUserByUsername_handler h req my_uuid =
     with_body (hc_lib h) object_message req (\<lambda>body s.
       case text_field ''username'' body of
         None \<Rightarrow> (ErrorResponseMaker (hc_lib h) Bad_Request ''missing_username'' ''user name must be a non-empty string'', s)
       | Some username \<Rightarrow>
           serve (findUserByUserName (cc_net h) (cc_now h) username)
             (\<lambda>result s. (found_user_response (hc_lib h) my_uuid result, s)) Inl s)"

section \<open>Friend requests\<close>

definition request_json :: "library \<Rightarrow> FriendshipRequestRecord \<Rightarrow> json" where
  "request_json lib r = JObject [(''request_id'', uuid_text lib (fr_request_id r)), (''id'', uuid_text lib (fr_id r)),
     (''display_name'', JString (fr_display_name r)), (''username'', JString (fr_username r)), (''message'', JString (fr_message r))]"

definition request_push :: "library \<Rightarrow> FriendshipRequestRecord \<Rightarrow> json" where
  "request_push lib r = JObject [(''type'', JString ''friend.request.received''),
     (''unprocessed_requests'', JArray [request_json lib r])]"

definition requested_response ::
  "library \<Rightarrow> uuid \<Rightarrow> FriendshipRequestRecord option \<Rightarrow> server_state \<Rightarrow> reply" where
  "requested_response lib friend_uuid result s =
     (case result of
        None \<Rightarrow> (ErrorResponseMaker lib Conflict ''request_already_exists'' ''Friendship request already exists'', s)
      | Some r \<Rightarrow> (Inr (empty_response\<lparr>rsp_status := Ok\<rparr>),
                   s\<lparr>sv_pushes := sv_pushes s @ push_To_User friend_uuid (request_push lib r) (sv_pool s)\<rparr>))"

text \<open>The UUID is read outside the \<^verbatim>\<open>try\<close> block.\<close>

definition RequestFriendship_handler :: "handler_env \<Rightarrow> protected_handler" where
  "RequestFriendship_handler h req my_uuid =
     with_body (hc_lib h) object_message req (\<lambda>body s.
       case text_field ''friend_id'' body of
         None \<Rightarrow> (ErrorResponseMaker (hc_lib h) Bad_Request ''missing_friend_id'' ''Must has friend_id'', s)
       | Some text \<Rightarrow>
      (case read_uuid (hc_lib h) text of
         Inl e \<Rightarrow> (Inl e, s)
       | Inr friend_uuid \<Rightarrow>
           if friend_uuid = my_uuid
           then (ErrorResponseMaker (hc_lib h) Bad_Request ''cannot_request_friendship_myself'' ''Can not request Myself'', s)
           else
             let message = (case text_field ''message'' body of None \<Rightarrow> '''' | Some m \<Rightarrow> m) in
             serve (requestFriendship (cc_net h) (cc_now h) (cc_env h) my_uuid friend_uuid message)
               (requested_response (hc_lib h) friend_uuid)
               (\<lambda>_. ErrorResponseMaker (hc_lib h) Service_Unavailable ''request_friendship_failed'' ''Unable to send friend request'') s))"

definition unprocessed_response :: "library \<Rightarrow> FriendshipRequestRecord list option \<Rightarrow> HttpResponse result" where
  "unprocessed_response lib result =
     (case result of
        None \<Rightarrow> plain_response lib Ok (JObject [(''unprocessed_requests'', JString ''None'')])
      | Some rs \<Rightarrow> json_response lib Ok (JObject [(''unprocessed_requests'', JArray (map (request_json lib) rs))]))"

definition FetchUnprocessedFriendship_handler :: "handler_env \<Rightarrow> protected_handler" where
  "FetchUnprocessedFriendship_handler h req my_uuid =
     serve (fetchFriendshipRequest (cc_net h) (cc_now h) my_uuid)
       (\<lambda>result s. (unprocessed_response (hc_lib h) result, s))
       (\<lambda>_. ErrorResponseMaker (hc_lib h) Service_Unavailable ''fetch_new_request_failed'' ''Failed to fetch newly created request'')"

section \<open>Revoking a device\<close>

text \<open>\<^verbatim>\<open>successResponse\<close>: every worker is asked to close the sessions of the device before the answer is built.\<close>

definition successResponse :: "handler_env \<Rightarrow> uuid \<Rightarrow> uuid \<Rightarrow> bool \<Rightarrow> server_state \<Rightarrow> reply" where
  "successResponse h my_uuid device_id already s =
     (case pool_closeSession (hc_revoke h) (sv_pool s) of
        (closed, asked) \<Rightarrow>
          (json_response (hc_lib h) (if closed then Ok else Accepted)
             (JObject [(''device_id'', uuid_text (hc_lib h) device_id), (''status'', JString ''revoked''),
                (''already_revoked'', JBool already), (''websocket_closed'', JBool closed)]),
           s\<lparr>sv_revocations := sv_revocations s @ map (\<lambda>i. (my_uuid, device_id, i)) asked\<rparr>))"

definition revoke_response ::
  "handler_env \<Rightarrow> uuid \<Rightarrow> uuid \<Rightarrow> bool + UserServiceErrorCode \<Rightarrow> server_state \<Rightarrow> reply" where
  "revoke_response h my_uuid device_id result s =
     (case result of
        Inl True \<Rightarrow> successResponse h my_uuid device_id False s
      | Inl False \<Rightarrow> (Inl (LogicError ''Unexpected false revocation result''), s)
      | Inr RevokedDevice \<Rightarrow> successResponse h my_uuid device_id True s
      | Inr UserNotFound \<Rightarrow> (ErrorResponseMaker (hc_lib h) Not_Found ''user_not_found'' ''Password login record not found'', s)
      | Inr InvalidPassword \<Rightarrow> (ErrorResponseMaker (hc_lib h) Forbidden ''invalid_password'' ''Password verification failed'', s)
      | Inr ServiceNotYourDevice \<Rightarrow>
          (ErrorResponseMaker (hc_lib h) Forbidden ''device_not_owned'' ''Device does not belong to the authenticated user'', s)
      | Inr ServiceDeviceNotFound \<Rightarrow> (ErrorResponseMaker (hc_lib h) Not_Found ''device_not_found'' ''Device not found'', s)
      | Inr DeviceNotActive \<Rightarrow>
          (ErrorResponseMaker (hc_lib h) Conflict ''device_not_active'' ''Only active devices can be revoked'', s)
      | _ \<Rightarrow> (Inl (LogicError ''Unhandled revocation error''), s))"

text \<open>The errors of the two operations that a client may repeat with the same input.\<close>

definition repeatable_failure :: "library \<Rightarrow> string \<Rightarrow> string \<Rightarrow> string \<Rightarrow> string \<Rightarrow> exn \<Rightarrow> HttpResponse result" where
  "repeatable_failure lib lost retry code message e =
     (case e of
        DbExn d \<Rightarrow>
          if connection_lost d then ErrorResponseMaker lib Service_Unavailable ''database_unavailable'' lost
          else if transient d then ErrorResponseMaker lib Service_Unavailable ''retry_later'' retry
          else ErrorResponseMaker lib Internal_Server_Error code message
      | _ \<Rightarrow> ErrorResponseMaker lib Internal_Server_Error code message)"

definition RevokeDevice_handler :: "handler_env \<Rightarrow> protected_handler" where
  "RevokeDevice_handler h req my_uuid =
     with_body (hc_lib h) object_message req (\<lambda>body s.
       case text_field ''password'' body of
         None \<Rightarrow> (ErrorResponseMaker (hc_lib h) Bad_Request ''missing_password'' ''Password must be a non-empty string'', s)
       | Some userPassword \<Rightarrow>
      (case text_field ''deviceID'' body of
         None \<Rightarrow> (ErrorResponseMaker (hc_lib h) Bad_Request ''missing_deviceID'' ''deviceID must be a non-empty string'', s)
       | Some device_id_string \<Rightarrow>
      (case non_nil_uuid (hc_lib h) device_id_string of
         None \<Rightarrow> (ErrorResponseMaker (hc_lib h) Bad_Request ''invalid_deviceID'' ''deviceID must be a non-nil UUID string'', s)
       | Some device_id \<Rightarrow>
           serve (revokeUserDevice (hc_lib h) (cc_net h) (cc_now h) (cc_env h) my_uuid device_id userPassword)
             (revoke_response h my_uuid device_id)
             (repeatable_failure (hc_lib h) ''Retry revocation with the same deviceID'' ''Retry revocation with the same deviceID''
                ''revoke_device_failed'' ''Unable to revoke device'') s)))"

section \<open>Completing a login\<close>

definition loginTicketResponse :: "library \<Rightarrow> CompletedLogin \<Rightarrow> bool \<Rightarrow> HttpResponse result" where
  "loginTicketResponse lib login registered =
     (case tr_status (cd_result login) of
        InvalidTicket \<Rightarrow>
          ErrorResponseMaker lib Unauthorized ''invalid_login_ticket'' ''Login ticket is invalid, expired or already used''
      | AccountDisabled \<Rightarrow> ErrorResponseMaker lib Forbidden ''account_disabled'' ''Account is disabled''
      | TicketDeviceNotFound \<Rightarrow> ErrorResponseMaker lib Not_Found ''device_not_found'' ''Device is not registered''
      | DeviceNotOwned \<Rightarrow> ErrorResponseMaker lib Forbidden ''device_not_owned'' ''Device does not belong to this login''
      | TicketDeviceNotActive \<Rightarrow> ErrorResponseMaker lib Forbidden ''device_not_active'' ''Device is not active''
      | TicketSuccess \<Rightarrow>
          (case tr_identity (cd_result login) of
             None \<Rightarrow> Inl (LogicError ''Missing login identity'')
           | Some identity \<Rightarrow> json_response lib (if registered then Created else Ok)
               (JObject [(''id'', uuid_text lib (li_user_id identity)), (''device_id'', uuid_text lib (li_device_id identity)),
                  (''device_status'', JString ''active''), (''access_token'', JString (cd_access_token login)),
                  (''refresh_token'', JString (cd_refresh_token login))])))"

definition DeviceVerification_handler :: "handler_env \<Rightarrow> handler" where
  "DeviceVerification_handler h req =
     with_body (hc_lib h) ''Request body must be a JSON object'' req (\<lambda>body s.
       case text_field ''login_ticket'' body of
         None \<Rightarrow> (ErrorResponseMaker (hc_lib h) Unauthorized ''invalid_login_ticket'' ''Login ticket is required'', s)
       | Some ticket \<Rightarrow>
      (case string_field ''device_id'' body of
         None \<Rightarrow> (ErrorResponseMaker (hc_lib h) Bad_Request ''invalid_device_id'' ''Device must be a non-nil UUID'', s)
       | Some text \<Rightarrow>
      (case non_nil_uuid (hc_lib h) text of
         None \<Rightarrow> (ErrorResponseMaker (hc_lib h) Bad_Request ''invalid_device_id'' ''Device must be a non-nil UUID'', s)
       | Some deviceId \<Rightarrow>
           serve (verifyDevice (hc_lib h) (hc_secret h) (cc_net h) (cc_now h) (cc_env h) (cc_clock h) (cc_draw h) ticket deviceId)
             (\<lambda>login s. (loginTicketResponse (hc_lib h) login False, s))
             (repeatable_failure (hc_lib h) ''Login outcome uncertain; log in again'' ''Retry with the same ticket''
                ''verification_device_failed'' ''Unable to complete login'') s)))"

text \<open>\<^verbatim>\<open>RefreshTokenHandler::VerifyRefreshToken\<close> catches nothing.\<close>

definition refresh_response :: "handler_env \<Rightarrow> string \<Rightarrow> RefreshTokenStatus + string \<Rightarrow> HttpResponse result" where
  "refresh_response h refreshToken result =
     (case result of
        Inl RefreshInvalid \<Rightarrow> ErrorResponseMaker (hc_lib h) Unauthorized ''invalid_refreshToken'' ''Invalid refresh token''
      | Inl RefreshExpired \<Rightarrow> ErrorResponseMaker (hc_lib h) Unauthorized ''invalid_refreshToken'' ''Refresh token is expired''
      | Inr userId \<Rightarrow> plain_response (hc_lib h) Ok (JObject [(''refresh_token'', JString refreshToken),
          (''access_token'', JString (generateAccessToken (hc_lib h) (hc_secret h) (cc_clock h div 1000000000) userId)),
          (''id'', JString userId)]))"

definition VerifyRefreshToken :: "handler_env \<Rightarrow> handler" where
  "VerifyRefreshToken h req =
     with_body (hc_lib h) object_message req (\<lambda>body s.
       case text_field ''refreshToken'' body of
         None \<Rightarrow> (ErrorResponseMaker (hc_lib h) Bad_Request ''missing_refreshToken'' ''Missing refresh token'', s)
       | Some refreshToken \<Rightarrow>
           serve (validate_refresh (hc_lib h) (cc_net h) (cc_now h) (cc_env h) (cc_clock h) refreshToken)
             (\<lambda>result s. (refresh_response h refreshToken result, s)) Inl s)"


end
