(* ===== verification/Key_Handlers.thy ===== *)
theory Key_Handlers
  imports Handlers
begin

text \<open>
  The HTTP handlers of devices and keys: \<^verbatim>\<open>src/src/handler/ChatHandler.cpp\<close>.  The target of a request is the user
  that \<^verbatim>\<open>target_user_id\<close> or its older name \<^verbatim>\<open>friend_id\<close> names, else the authenticated user; the actor is always the
  authenticated user.  A check that fails is a value \<open>Inl\<close> with its response, so that checks are composed in the order of
  the source.
\<close>

section \<open>Checks\<close>

type_synonym 'a check = "HttpResponse result + 'a"

fun check_then :: "'a check \<Rightarrow> ('a \<Rightarrow> server_state \<Rightarrow> reply) \<Rightarrow> server_state \<Rightarrow> reply" where
  "check_then (Inl response) k s = (response, s)"
| "check_then (Inr x) k s = k x s"

definition bad_request :: "library \<Rightarrow> string \<Rightarrow> string \<Rightarrow> 'a check" where
  "bad_request lib code message = Inl (ErrorResponseMaker lib Bad_Request code message)"

definition invalid_target :: "library \<Rightarrow> HttpResponse result" where
  "invalid_target lib = ErrorResponseMaker lib Bad_Request ''invalid_target_user_id'' ''Target user must be a non-nil UUID string''"

text \<open>The conflict is answered inside the \<^verbatim>\<open>try\<close> block.\<close>

definition conflicting_target :: "library \<Rightarrow> HttpResponse result" where
  "conflicting_target lib =
     (case ErrorResponseMaker lib Bad_Request ''conflicting_target_user_id'' ''target_user_id and friend_id must agree'' of
        Inl e \<Rightarrow> invalid_target lib
      | Inr response \<Rightarrow> Inr response)"

fun target_fields :: "library \<Rightarrow> json \<Rightarrow> string list \<Rightarrow> bool \<times> uuid \<Rightarrow> uuid check" where
  "target_fields lib body [] (specified, target) = Inr target"
| "target_fields lib body (name # names) (specified, target) =
     (case json_find name body of
        None \<Rightarrow> target_fields lib body names (specified, target)
      | Some (JString text) \<Rightarrow>
          (case non_nil_uuid lib text of
             None \<Rightarrow> Inl (invalid_target lib)
           | Some i \<Rightarrow>
               if specified \<and> i \<noteq> target then Inl (conflicting_target lib)
               else target_fields lib body names (True, i))
      | Some _ \<Rightarrow> Inl (invalid_target lib))"

text \<open>The body with \<^verbatim>\<open>friend_id\<close> set to the target.\<close>

definition normalizeDeviceTarget :: "library \<Rightarrow> json \<Rightarrow> uuid \<Rightarrow> json check" where
  "normalizeDeviceTarget lib body actor =
     (case target_fields lib body [''target_user_id'', ''friend_id''] (False, actor) of
        Inl response \<Rightarrow> Inl response
      | Inr target \<Rightarrow> Inr (json_set ''friend_id'' (uuid_text lib target) body))"

definition isHexOfSize :: "string \<Rightarrow> nat \<Rightarrow> bool" where
  "isHexOfSize text byteCount \<longleftrightarrow> length text = byteCount * 2 \<and> list_all is_hex_digit text"

definition uuid_field :: "library \<Rightarrow> string \<Rightarrow> json \<Rightarrow> uuid check" where
  "uuid_field lib field body =
     (case string_field field body of
        None \<Rightarrow> bad_request lib (''invalid_'' @ field) (field @ '' must be a UUID string'')
      | Some text \<Rightarrow>
          (case strict_uuid lib text of
             None \<Rightarrow> bad_request lib (''invalid_'' @ field) (field @ '' must be a UUID string'')
           | Some i \<Rightarrow> Inr i))"

text \<open>The two fields that a request about one device of a user has.\<close>

definition target_device :: "library \<Rightarrow> json \<Rightarrow> uuid \<Rightarrow> (uuid \<times> uuid) check" where
  "target_device lib body actor =
     (case normalizeDeviceTarget lib body actor of
        Inl response \<Rightarrow> Inl response
      | Inr body \<Rightarrow>
          (case uuid_field lib ''friend_id'' body of
             Inl response \<Rightarrow> Inl response
           | Inr friendId \<Rightarrow>
               (case uuid_field lib ''device_id'' body of
                  Inl response \<Rightarrow> Inl response
                | Inr deviceId \<Rightarrow> Inr (friendId, deviceId))))"

definition key_failure :: "library \<Rightarrow> string \<Rightarrow> string \<Rightarrow> exn \<Rightarrow> HttpResponse result" where
  "key_failure lib code message e =
     (case e of
        DbExn d \<Rightarrow>
          if db_kind d = Connection
          then ErrorResponseMaker lib Service_Unavailable ''database_unavailable'' ''Service temporarily unavailable''
          else ErrorResponseMaker lib Internal_Server_Error code message
      | _ \<Rightarrow> ErrorResponseMaker lib Internal_Server_Error code message)"

section \<open>Registering a device\<close>

fun required_fields :: "library \<Rightarrow> json \<Rightarrow> string list \<Rightarrow> unit check" where
  "required_fields lib body [] = Inr ()"
| "required_fields lib body (field # names) =
     (case text_field field body of
        None \<Rightarrow> bad_request lib (''invalid_'' @ field) (field @ '' must be a non-empty string'')
      | Some _ \<Rightarrow> required_fields lib body names)"

text \<open>\<^verbatim>\<open>body.at(name).get_ref\<close>, for a field that has been checked.\<close>

definition text_at :: "string \<Rightarrow> json \<Rightarrow> string" where
  "text_at name body = (case string_field name body of Some t \<Rightarrow> t | None \<Rightarrow> '''')"

definition device_fields :: "string list" where
  "device_fields = [''identity_public_key_hex'', ''device_name'', ''protocol_suite'', ''signed_prekey_id'',
     ''signed_prekey_public_hex'', ''signed_prekey_signature_hex'']"

definition blank_text :: "string \<Rightarrow> bool" where
  "blank_text t \<longleftrightarrow> list_all (\<lambda>c. c \<in> {CHR '' '', CHR 0x09, CHR 0x0D, CHR 0x0A}) t"

definition bigint_string :: "string \<Rightarrow> bool" where
  "bigint_string t \<longleftrightarrow> list_all is_digit t \<and>
     (case from_chars_int64 t of Inl _ \<Rightarrow> False | Inr (v, n) \<Rightarrow> n = length t \<and> 0 \<le> v)"

definition check_registration :: "library \<Rightarrow> DeviceRegistrationInput \<Rightarrow> DeviceRegistrationInput check" where
  "check_registration lib input =
     (if blank_text (reg_device_name input) then bad_request lib ''invalid_device_name'' ''device_name must not be blank''
      else if blank_text (protocol_suite input)
      then bad_request lib ''invalid_protocol_suite'' ''protocol_suite must not be blank''
      else if \<not> isHexOfSize (identity_public_key_hex input) 32
      then bad_request lib ''invalid_identity_public_key_hex'' ''identity_public_key_hex must encode 32 bytes''
      else if \<not> isHexOfSize (signed_prekey_public_hex input) 32
      then bad_request lib ''invalid_signed_prekey_public_hex'' ''signed_prekey_public_hex must encode 32 bytes''
      else if \<not> isHexOfSize (signed_prekey_signature_hex input) 64
      then bad_request lib ''invalid_signed_prekey_signature_hex'' ''signed_prekey_signature_hex must encode 64 bytes''
      else if \<not> bigint_string (signed_prekey_id input)
      then bad_request lib ''invalid_signed_prekey_id'' ''signed_prekey_id must be a non-negative BIGINT decimal string''
      else Inr input)"

definition registration_input :: "library \<Rightarrow> json \<Rightarrow> DeviceRegistrationInput check" where
  "registration_input lib body =
     (case required_fields lib body device_fields of
        Inl response \<Rightarrow> Inl response
      | Inr _ \<Rightarrow> check_registration lib
          \<lparr>identity_public_key_hex = text_at ''identity_public_key_hex'' body, reg_device_name = text_at ''device_name'' body,
           protocol_suite = text_at ''protocol_suite'' body, signed_prekey_id = text_at ''signed_prekey_id'' body,
           signed_prekey_public_hex = text_at ''signed_prekey_public_hex'' body,
           signed_prekey_signature_hex = text_at ''signed_prekey_signature_hex'' body\<rparr>)"

definition registerNewDevice_handler :: "handler_env \<Rightarrow> handler" where
  "registerNewDevice_handler h req =
     with_body (hc_lib h) object_message req (\<lambda>body s.
       case text_field ''login_ticket'' body of
         None \<Rightarrow> (ErrorResponseMaker (hc_lib h) Unauthorized ''invalid_login_ticket'' ''Login ticket is required'', s)
       | Some ticket \<Rightarrow>
           check_then (registration_input (hc_lib h) body) (\<lambda>input.
             serve (registerDevice (hc_lib h) (hc_secret h) (cc_net h) (cc_now h) (cc_env h) (cc_clock h) (cc_draw h) ticket input)
               (\<lambda>login s. (loginTicketResponse (hc_lib h) login True, s))
               (key_failure (hc_lib h) ''register_device_failed'' ''Unable to register device'')) s)"

section \<open>Uploading prekeys\<close>

fun prekey_number :: "json \<Rightarrow> int option" where
  "prekey_number (JUnsigned n) = (if int n > int_max then None else Some (int n))"
| "prekey_number (JInt i) = (if i < 0 \<or> i > int_max then None else Some i)"
| "prekey_number _ = None"

definition hex_key :: "json \<Rightarrow> string option" where
  "hex_key entry =
     (case string_field ''public_key_hex'' entry of Some t \<Rightarrow> if isHexOfSize t 32 then Some t else None | None \<Rightarrow> None)"

text \<open>The map that is filled, in insertion order; \<^verbatim>\<open>emplace\<close> refuses a key that is there.\<close>

fun read_prekeys :: "library \<Rightarrow> json list \<Rightarrow> (int \<times> string) list \<Rightarrow> (int \<times> string) list check" where
  "read_prekeys lib [] prekeys = Inr prekeys"
| "read_prekeys lib (entry # batch) prekeys =
     (if \<not> is_object entry then bad_request lib ''invalid_prekey'' ''Each prekey must be an object''
      else case (case json_find ''prekey_id'' entry of Some j \<Rightarrow> prekey_number j | None \<Rightarrow> None) of
        None \<Rightarrow> bad_request lib ''invalid_prekey_id'' ''prekey_id must be an integer from 0 to 2147483647''
      | Some i \<Rightarrow>
          (case hex_key entry of
             None \<Rightarrow> bad_request lib ''invalid_public_key_hex'' ''public_key_hex must encode 32 bytes''
           | Some key \<Rightarrow>
               if i \<in> set (map fst prekeys)
               then bad_request lib ''duplicate_prekey_id'' ''prekey_id must be unique within the batch''
               else read_prekeys lib batch (prekeys @ [(i, key)])))"

definition prekey_batch :: "library \<Rightarrow> json \<Rightarrow> (int \<times> string) list check" where
  "prekey_batch lib body =
     (case json_find ''prekeys'' body of
        Some (JArray batch) \<Rightarrow>
          if batch = [] \<or> length batch > 10
          then bad_request lib ''invalid_prekeys'' ''prekeys must be an array containing 1 to 10 entries''
          else read_prekeys lib batch []
      | _ \<Rightarrow> bad_request lib ''invalid_prekeys'' ''prekeys must be an array containing 1 to 10 entries'')"

definition upload_response :: "library \<Rightarrow> string \<Rightarrow> (int \<times> string) list \<Rightarrow> bool \<Rightarrow> HttpResponse result" where
  "upload_response lib deviceText prekeys uploaded =
     (if \<not> uploaded
      then ErrorResponseMaker lib Forbidden ''device_unavailable'' ''Device must belong to the authenticated user and be active''
      else json_response lib Created
             (JObject [(''device_id'', JString deviceText), (''uploaded_count'', JUnsigned (length prekeys))]))"

definition upload_failure :: "library \<Rightarrow> exn \<Rightarrow> HttpResponse result" where
  "upload_failure lib e =
     (case e of
        DbExn d \<Rightarrow>
          if db_code d = ''23505''
          then ErrorResponseMaker lib Conflict ''prekey_already_exists'' ''A prekey ID already exists for this device''
          else key_failure lib ''upload_prekeys_failed'' ''Unable to upload one-time prekeys'' e
      | _ \<Rightarrow> key_failure lib ''upload_prekeys_failed'' ''Unable to upload one-time prekeys'' e)"

definition uploadOneTimePrekeys_handler :: "handler_env \<Rightarrow> protected_handler" where
  "uploadOneTimePrekeys_handler h req user_id =
     with_body (hc_lib h) object_message req (\<lambda>body.
       check_then (uuid_field (hc_lib h) ''device_id'' body) (\<lambda>deviceId.
       check_then (prekey_batch (hc_lib h) body) (\<lambda>prekeys.
         serve (uploadOneTimePrekeys (hc_lib h) (cc_net h) (cc_now h) (cc_env h) user_id deviceId (hc_order h prekeys))
           (\<lambda>uploaded s. (upload_response (hc_lib h) (text_at ''device_id'' body) prekeys uploaded, s))
           (upload_failure (hc_lib h)))))"

section \<open>Claiming a prekey\<close>

definition claim_response :: "library \<Rightarrow> uuid \<Rightarrow> uuid \<Rightarrow> PrekeyClaimResult \<Rightarrow> HttpResponse result" where
  "claim_response lib user_id friendId result =
     (case cl_status result of
        NotFriends \<Rightarrow> ErrorResponseMaker lib Forbidden ''not_friends'' ''Target user must be yourself or a friend''
      | DeviceUnavailable \<Rightarrow>
          ErrorResponseMaker lib Forbidden ''device_unavailable'' ''Target device must belong to the target user and be active''
      | NoPrekey \<Rightarrow> ErrorResponseMaker lib Not_Found ''prekey_unavailable'' ''No one-time prekey is currently available''
      | ClaimSuccess \<Rightarrow>
          (case cl_prekey result of
             None \<Rightarrow> Inl (RuntimeError ''Missing claimed prekey'')
           | Some prekey \<Rightarrow> json_response lib Ok (JObject [(''friend_id'', uuid_text lib friendId),
               (''target_user_id'', uuid_text lib friendId), (''is_own_device'', JBool (friendId = user_id)),
               (''device_id'', uuid_text lib (op_device_id prekey)), (''prekey_id'', JInt (op_prekey_id prekey)),
               (''public_key_hex'', JString (op_public_key_hex prekey))])))"

definition getOneTimePrekey_handler :: "handler_env \<Rightarrow> protected_handler" where
  "getOneTimePrekey_handler h req user_id =
     with_body (hc_lib h) object_message req (\<lambda>body.
       check_then (target_device (hc_lib h) body user_id) (\<lambda>(friendId, deviceId).
         serve (getOneTimePrekey (hc_lib h) (cc_net h) (cc_now h) (cc_env h) user_id friendId deviceId)
           (\<lambda>result s. (claim_response (hc_lib h) user_id friendId result, s))
           (key_failure (hc_lib h) ''claim_prekey_failed'' ''Unable to claim one-time prekey'')))"

section \<open>Devices and key bundles of a user\<close>

definition device_json :: "library \<Rightarrow> uuid \<Rightarrow> Device \<Rightarrow> json" where
  "device_json lib user_id d = JObject [(''device_id'', uuid_text lib (dv_device_id d)), (''user_id'', uuid_text lib (dv_user_id d)),
     (''is_own_device'', JBool (dv_user_id d = user_id)), (''device_name'', JString (dv_device_name d)),
     (''status'', JString ''active''), (''identity_public_key_hex'', JString (encodeHex (dv_identity_public_key d))),
     (''protocol_suite'', JString (dv_protocol_suite d))]"

definition devices_response :: "library \<Rightarrow> uuid \<Rightarrow> uuid \<Rightarrow> Device list option \<Rightarrow> HttpResponse result" where
  "devices_response lib user_id friendId result =
     (case result of
        None \<Rightarrow> ErrorResponseMaker lib Forbidden ''not_friends'' ''Target user must be yourself or a friend''
      | Some devices \<Rightarrow> json_response lib Ok (JObject [(''friend_id'', uuid_text lib friendId),
          (''target_user_id'', uuid_text lib friendId), (''is_own_device'', JBool (friendId = user_id)),
          (''devices'', JArray (map (device_json lib user_id) devices))]))"

definition fetchUserDevices_handler :: "handler_env \<Rightarrow> protected_handler" where
  "fetchUserDevices_handler h req user_id =
     with_body (hc_lib h) object_message req (\<lambda>body s.
       if req_path req = ''/friend_devices'' \<and> json_find ''friend_id'' body = None \<and> json_find ''target_user_id'' body = None
       then (ErrorResponseMaker (hc_lib h) Bad_Request ''invalid_friend_id'' ''friend_id must be a UUID string'', s)
       else check_then (normalizeDeviceTarget (hc_lib h) body user_id) (\<lambda>body.
         check_then (uuid_field (hc_lib h) ''friend_id'' body) (\<lambda>friendId.
           serve (fetchUserDevices (hc_lib h) (cc_net h) (cc_now h) (cc_env h) user_id friendId)
             (\<lambda>result s. (devices_response (hc_lib h) user_id friendId result, s))
             (key_failure (hc_lib h) ''fetch_user_devices_failed'' ''Unable to fetch user devices''))) s)"

definition bundle_response :: "library \<Rightarrow> uuid \<Rightarrow> uuid \<Rightarrow> DeviceKeyBundle option \<Rightarrow> HttpResponse result" where
  "bundle_response lib user_id friendId result =
     (case result of
        None \<Rightarrow> ErrorResponseMaker lib Not_Found ''key_bundle_unavailable'' ''Target device key bundle is unavailable''
      | Some b \<Rightarrow> json_response lib Ok (JObject [(''friend_id'', uuid_text lib friendId),
          (''target_user_id'', uuid_text lib friendId), (''is_own_device'', JBool (friendId = user_id)),
          (''device_id'', uuid_text lib (dk_device_id b)), (''signed_prekey_id'', JInt (dk_signed_preKey_id b)),
          (''signed_prekey_public_hex'', JString (encodeHex (dk_preKey_public b))),
          (''signed_prekey_signature_hex'', JString (encodeHex (dk_preKey_signature b))),
          (''is_current'', JBool (dk_is_current b))]))"

definition getDeviceKeyBundle_handler :: "handler_env \<Rightarrow> protected_handler" where
  "getDeviceKeyBundle_handler h req user_id =
     with_body (hc_lib h) object_message req (\<lambda>body.
       check_then (target_device (hc_lib h) body user_id) (\<lambda>(friendId, deviceId).
         serve (getDeviceKeyBundle (hc_lib h) (cc_net h) (cc_now h) (cc_env h) friendId user_id deviceId)
           (\<lambda>result s. (bundle_response (hc_lib h) user_id friendId result, s))
           (key_failure (hc_lib h) ''fetch_key_bundle_failed'' ''Unable to fetch device key bundle'')))"

end
