(* ===== verification/Routes.thy ===== *)
theory Routes
  imports Key_Handlers
begin

text \<open>
  The routes of the server, \<^verbatim>\<open>src/src/main.cpp\<close>: which handler answers which method and path, and which paths need an
  access token.  A request is a step of the server's state; a session of the server is a sequence of requests, each with
  its own behaviour of the network, the clock and the libraries.  Other threads change the database between two requests by
  the operations of the theory \<open>History\<close>.
\<close>

section \<open>The router of the program\<close>

text \<open>\<^verbatim>\<open>response.headers["Content-Type"] = "application/json"\<close> in a route's function.\<close>

definition with_json :: "reply \<Rightarrow> reply" where
  "with_json r = (case r of (Inl e, s) \<Rightarrow> (Inl e, s) | (Inr response, s) \<Rightarrow> (Inr (json_content response), s))"

definition main_router :: "handler_env \<Rightarrow> server_state Router" where
  "main_router h =
     (let r = \<lparr>routes = [], protected_routes = []\<rparr>;
          r = addProtectedRoute POST ''/revoke_device'' (RevokeDevice_handler h) r;
          r = addRoute POST ''/register_device'' (registerNewDevice_handler h) r;
          r = addProtectedRoute POST ''/upload_one_time_prekeys'' (uploadOneTimePrekeys_handler h) r;
          r = addProtectedRoute POST ''/get_one_time_prekey'' (getOneTimePrekey_handler h) r;
          r = addProtectedRoute POST ''/friend_devices'' (fetchUserDevices_handler h) r;
          r = addProtectedRoute POST ''/user_devices'' (fetchUserDevices_handler h) r;
          r = addProtectedRoute POST ''/get_device_key_bundle'' (getDeviceKeyBundle_handler h) r;
          r = addRoute GET ''/refresh_token'' (VerifyRefreshToken h) r;
          r = addRoute GET ''/user'' (getUser h) r;
          r = addProtectedRoute POST ''/verify_access_token'' (\<lambda>req u s. with_json (verifyaccess, s)) r;
          r = addProtectedRoute GET ''/find_user_by_username'' (\<lambda>req u s. with_json (FindUserByUsername_handler h req u s)) r;
          r = addProtectedRoute GET ''/fetch_unprocessed_friend_request''
                (\<lambda>req u s. with_json (FetchUnprocessedFriendship_handler h req u s)) r;
          r = addProtectedRoute POST ''/request_friendship'' (\<lambda>req u s. with_json (RequestFriendship_handler h req u s)) r;
          r = addRoute POST ''/register_by_email'' (\<lambda>req s. with_json (Register_handler h req s)) r;
          r = addRoute POST ''/login_by_email'' (\<lambda>req s. with_json (LoginByEmail_handler h req s)) r;
          r = addProtectedRoute POST ''/process_friendship_request'' (ProcessFriendshipRequest_handler h) r;
          r = addProtectedRoute GET ''/fetch_friends'' (\<lambda>req u s. with_json (FetchFriends_handler h req u s)) r;
          r = addRoute POST ''/device_verification'' (\<lambda>req s. with_json (DeviceVerification_handler h req s)) r
      in r)"

text \<open>The JWT clock counts seconds.\<close>

definition serve_request :: "handler_env \<Rightarrow> HttpRequest \<Rightarrow> server_state \<Rightarrow> reply" where
  "serve_request h req s = route (hc_lib h) (hc_secret h) (cc_clock h div 1000000000) (main_router h) req s"

text \<open>A session of the server: requests, and what the other threads do to the tables between them.\<close>

datatype server_step =
    Request handler_env HttpRequest
  | Others library string call_context db_call

fun server_step_run :: "server_step \<Rightarrow> server_state \<Rightarrow> server_state" where
  "server_step_run (Request h req) s = snd (serve_request h req s)"
| "server_step_run (Others lib secret c call) s = s\<lparr>sv_world := db_call_run lib secret c call (sv_world s)\<rparr>"

definition server_run :: "server_step list \<Rightarrow> server_state \<Rightarrow> server_state" where
  "server_run steps s = fold server_step_run steps s"

section \<open>Requests keep the tables well-formed\<close>

abbreviation server_ok :: "server_state \<Rightarrow> bool" where
  "server_ok s \<equiv> world_ok (sv_world s)"

abbreviation server_tables :: "server_state \<Rightarrow> store" where
  "server_tables s \<equiv> tables (snd (sv_world s))"

definition server_orderly :: "(server_state \<Rightarrow> 'r \<times> server_state) \<Rightarrow> bool" where
  "server_orderly f \<longleftrightarrow> (\<forall>s. server_ok s \<longrightarrow>
     server_ok (snd (f s)) \<and> evolves (server_tables s) (server_tables (snd (f s))))"

lemma server_orderlyD:
  "server_orderly f \<Longrightarrow> server_ok s \<Longrightarrow> server_ok (snd (f s)) \<and> evolves (server_tables s) (server_tables (snd (f s)))"
  by (simp add: server_orderly_def)

named_theorems served \<open>replies that leave the tables to the service called\<close>

lemma server_orderly_answer [served, simp]: "server_orderly (\<lambda>s. (r, s))"
  by (simp add: server_orderly_def)

lemma server_orderly_if [served]: "server_orderly f \<Longrightarrow> server_orderly g \<Longrightarrow> server_orderly (\<lambda>s. if c then f s else g s)"
  by (simp add: server_orderly_def)

lemma server_orderly_option [served]:
  "server_orderly f \<Longrightarrow> (\<And>y. server_orderly (g y)) \<Longrightarrow> server_orderly (\<lambda>s. case x of None \<Rightarrow> f s | Some y \<Rightarrow> g y s)"
  by (cases x) auto

lemma server_orderly_sum [served]:
  "(\<And>e. server_orderly (f e)) \<Longrightarrow> (\<And>y. server_orderly (g y)) \<Longrightarrow> server_orderly (\<lambda>s. case x of Inl e \<Rightarrow> f e s | Inr y \<Rightarrow> g y s)"
  by (cases x) auto

lemma server_orderly_check [served]: "(\<And>x. server_orderly (k x)) \<Longrightarrow> server_orderly (check_then c k)"
  by (cases c) (auto simp: server_orderly_def)

lemma server_orderly_body [served]: "(\<And>body. server_orderly (k body)) \<Longrightarrow> server_orderly (with_body lib message req k)"
  by (auto simp: server_orderly_def with_body_def split: option.split json.split)

lemma server_orderly_serve [served]:
  assumes call: "orderly call" and ok: "\<And>x s. sv_world (snd (ok x s)) = sv_world s"
  shows "server_orderly (serve call ok failed)"
  unfolding server_orderly_def
proof (intro allI impI)
  fix s
  assume s: "server_ok s"
  obtain r w where c: "call (sv_world s) = (r, w)" by (cases "call (sv_world s)")
  from orderlyD [OF call s c] have w: "world_ok w \<and> evolves (server_tables s) (tables (snd w))" .
  have "sv_world (snd (serve call ok failed s)) = w"
  proof (cases r)
    case (Inl e)
    with c show ?thesis by (simp add: serve_def)
  next
    case (Inr x)
    obtain answer s2 where o: "ok x (s\<lparr>sv_world := w\<rparr>) = (answer, s2)" by (cases "ok x (s\<lparr>sv_world := w\<rparr>)")
    with ok [of x "s\<lparr>sv_world := w\<rparr>"] have "sv_world s2 = w" by simp
    with Inr c o show ?thesis by (cases answer) (simp_all add: serve_def)
  qed
  with w show "server_ok (snd (serve call ok failed s)) \<and>
      evolves (server_tables s) (server_tables (snd (serve call ok failed s)))" by simp
qed

lemma server_orderly_json [served]: "server_orderly f \<Longrightarrow> server_orderly (\<lambda>s. with_json (f s))"
  by (auto simp: server_orderly_def with_json_def split: prod.split sum.split)

section \<open>The handlers\<close>

lemma keeps_world_responses [simp]:
  "sv_world (snd (requested_response lib friend r s)) = sv_world s"
  "sv_world (snd (revoke_response h user dev b s)) = sv_world s"
  by (auto simp: requested_response_def revoke_response_def successResponse_def
      split: option.split sum.split bool.split UserServiceErrorCode.split prod.split)

lemma orderly_legacy: "orderly (findUserByEmail h email)"
proof -
  have "read_only (sql_legacy (hc_legacy h) email)"
    by (auto simp: read_only_def sql_legacy_def split: sum.splits)
  then have "orderly (findByEmail h email)"
    unfolding findByEmail_def by (rule evolving.orderly [OF read_evolving])
  then show ?thesis by (rule orderly_ext [rotated]) (simp add: findUserByEmail_def)
qed

lemma handlers_orderly:
  "server_orderly (FetchFriends_handler h req u)" "server_orderly (ProcessFriendshipRequest_handler h req u)"
  "server_orderly (Register_handler h req)" "server_orderly (LoginByEmail_handler h req)"
  "server_orderly (getUser h req)" "server_orderly (FindUserByUsername_handler h req u)"
  "server_orderly (RequestFriendship_handler h req u)" "server_orderly (FetchUnprocessedFriendship_handler h req u)"
  "server_orderly (RevokeDevice_handler h req u)" "server_orderly (DeviceVerification_handler h req)"
  "server_orderly (VerifyRefreshToken h req)"
  unfolding FetchFriends_handler_def ProcessFriendshipRequest_handler_def Register_handler_def LoginByEmail_handler_def [abs_def]
    getUser_def [abs_def] FindUserByUsername_handler_def RequestFriendship_handler_def FetchUnprocessedFriendship_handler_def
    RevokeDevice_handler_def DeviceVerification_handler_def VerifyRefreshToken_def Let_def
  by (rule served orderly_calls orderly_legacy keeps_world_responses snd_conv | simp; fail)+

lemma key_handlers_orderly:
  "server_orderly (registerNewDevice_handler h req)" "server_orderly (uploadOneTimePrekeys_handler h req u)"
  "server_orderly (getOneTimePrekey_handler h req u)" "server_orderly (fetchUserDevices_handler h req u)"
  "server_orderly (getDeviceKeyBundle_handler h req u)"
  unfolding registerNewDevice_handler_def uploadOneTimePrekeys_handler_def getOneTimePrekey_handler_def
    fetchUserDevices_handler_def getDeviceKeyBundle_handler_def split_beta
  by (rule served orderly_calls | simp; fail)+

lemma orderly_route:
  assumes "\<And>m p f. (m, p, f) \<in> set (routes router) \<Longrightarrow> server_orderly (f req)"
    and "\<And>m p f u. (m, p, f) \<in> set (protected_routes router) \<Longrightarrow> server_orderly (f req u)"
  shows "server_orderly (route lib secret now router req)"
proof -
  have p: "server_orderly (protected_route lib secret now router req)"
  proof (cases "find (matches req) (protected_routes router)")
    case (Some x)
    then obtain m p f where x: "x = (m, p, f)" by (cases x)
    from Some x have "(m, p, f) \<in> set (protected_routes router)" by (auto simp: find_Some_iff)
    from assms(2) [OF this] Some x show ?thesis
      by (auto simp: server_orderly_def protected_route_def split: sum.split AuthError.split)
  qed (simp add: server_orderly_def protected_route_def)
  show ?thesis
  proof (cases "find (matches req) (routes router)")
    case (Some x)
    then obtain m p f where x: "x = (m, p, f)" by (cases x)
    from Some x have "(m, p, f) \<in> set (routes router)" by (auto simp: find_Some_iff)
    from assms(1) [OF this] Some x show ?thesis by (simp add: server_orderly_def route_def)
  qed (use p in \<open>simp add: server_orderly_def route_def\<close>)
qed

lemma serve_request_orderly: "server_orderly (serve_request h req)"
proof -
  have "server_orderly (route (hc_lib h) (hc_secret h) (cc_clock h div 1000000000) (main_router h) req)"
    by (rule orderly_route)
       (auto simp: main_router_def addRoute_def addProtectedRoute_def Let_def
         intro: handlers_orderly key_handlers_orderly server_orderly_json)
  then show ?thesis by (simp add: server_orderly_def serve_request_def)
qed

lemma server_step_orderly:
  "server_ok s \<Longrightarrow> server_ok (server_step_run x s) \<and> evolves (server_tables s) (server_tables (server_step_run x s))"
  by (cases x) (simp_all add: server_orderlyD [OF serve_request_orderly] db_call_orderly)

lemma server_run_orderly:
  "server_ok s \<Longrightarrow> server_ok (server_run steps s) \<and> evolves (server_tables s) (server_tables (server_run steps s))"
proof (induction steps arbitrary: s)
  case (Cons x steps)
  note d = server_step_orderly [OF Cons.prems, of x]
  from Cons.IH [OF conjunct1 [OF d]] d show ?case by (auto simp: server_run_def intro: evolves_trans)
qed (simp add: server_run_def)


end
