(* ===== verification/Handler_Correct.thy ===== *)
theory Handler_Correct
  imports Routes "HOL-Library.Multiset"
begin

text \<open>
  Properties of the HTTP handlers as a client sees them: what a successful answer says about the tables and the WebSocket
  workers, that handlers which promise to catch every exception do, and that no sequence of requests damages the tables.
\<close>

section \<open>Answers and their causes\<close>

named_theorems answered \<open>the status of a response that could be built\<close>

lemma ErrorResponseMaker_status [answered]: "ErrorResponseMaker lib status code message = Inr r \<Longrightarrow> rsp_status r = status"
  by (auto simp: ErrorResponseMaker_def set_header_def Let_def ebind_Inr_iff)

lemma plain_response_status [answered]: "plain_response lib status body = Inr r \<Longrightarrow> rsp_status r = status"
  by (auto simp: plain_response_def ebind_Inr_iff)

lemma json_response_status [answered]: "json_response lib status body = Inr r \<Longrightarrow> rsp_status r = status"
  by (auto simp: json_response_def json_content_def set_header_def ebind_Inr_iff dest: plain_response_status)

text \<open>An answer that is not one of the failures comes from the service's result.\<close>

lemma serve_answered:
  assumes "serve call ok failed s = (Inr response, s')" "\<And>e. failed e \<noteq> Inr response"
  obtains x w where "call (sv_world s) = (Inr x, w)" "ok x (s\<lparr>sv_world := w\<rparr>) = (Inr response, s')"
proof -
  obtain r w where c: "call (sv_world s) = (r, w)" by (cases "call (sv_world s)")
  from assms c obtain x where r: "r = Inr x" by (cases r) (auto simp: serve_def)
  obtain answer s2 where o: "ok x (s\<lparr>sv_world := w\<rparr>) = (answer, s2)" by (cases "ok x (s\<lparr>sv_world := w\<rparr>)")
  with assms c r have "answer = Inr response" "s2 = s'" by (cases answer; auto simp: serve_def)+
  with o c r that show thesis by blast
qed

lemma with_body_answered:
  assumes "with_body lib message req k s = (Inr response, s')" "rsp_status response \<noteq> Bad_Request"
  obtains m where "json_parse lib (req_body req) = Some (JObject m)" "k (JObject m) s = (Inr response, s')"
  using assms by (auto simp: with_body_def dest: answered split: if_splits option.splits json.splits)

lemma check_answered:
  assumes "check_then c k s = (Inr response, s')" "\<And>r. c = Inl r \<Longrightarrow> r \<noteq> Inr response"
  obtains x where "c = Inr x" "k x s = (Inr response, s')"
  using assms by (cases c) auto

section \<open>Revoking a device\<close>

lemma revoke_service:
  assumes w: "world_ok w" and c: "revokeUserDevice lib net now env user dev password w = (Inr x, w1)"
    and x: "x \<noteq> Inr UserNotFound" "x \<noteq> Inr InvalidPassword"
  shows "\<exists>r. x = revoke_answer r \<and> revoke_effect user dev (tables (snd w)) r (tables (snd w1)) \<and>
    (\<exists>p \<in> set (password_credentials (tables (snd w))). pc_user_id p = user \<and> verifyPassword lib (pc_password_hash p) password)"
proof -
  obtain q wa where f: "FindLoginRecordByUserId net now user w = (q, wa)" by (cases "FindLoginRecordByUserId net now user w")
  have wa: "world_ok wa \<and> tables (snd wa) = tables (snd w)" by (rule read_keeps_world [OF login_by_user.evolving_axioms w f])
  from c f x obtain hash where q: "q = Inr (Some hash)" and v: "verifyPassword lib hash password"
    by (auto simp: revokeUserDevice_def split: sum.splits option.splits if_splits prod.splits)
  with c f obtain r where r: "repo_revokeUserDevice net now env user dev wa = (Inr r, w1)" "x = revoke_answer r"
    by (auto simp: revokeUserDevice_def split: sum.splits option.splits if_splits prod.splits)
  from login_by_user.serves [OF w f] q have "\<exists>p \<in> set (password_credentials (tables (snd w))). pc_user_id p = user \<and> pc_password_hash p = hash"
    by (auto simp: read_result_def sql_password_hash_def first_row_def split: list.splits)
       (metis (mono_tags, lifting) filter_eq_Cons_iff in_set_conv_decomp map_eq_Cons_conv)
  with v revoke.serves [OF conjunct1 [OF wa] r(1)] r(2) wa show ?thesis by auto
qed

text \<open>The response is built from the two results for which the device is revoked.\<close>

lemma revoke_response_answered:
  assumes "revoke_response h u dev x s = (Inr response, s')" "rsp_status response \<in> {Ok, Accepted}"
  obtains already where "x = Inl True \<or> x = Inr RevokedDevice" "successResponse h u dev already s = (Inr response, s')"
  using assms by (auto simp: revoke_response_def dest: answered split: sum.splits bool.splits UserServiceErrorCode.splits)

lemma successResponse_answered:
  assumes "successResponse h u dev already s = (Inr response, s')"
  shows "(rsp_status response = Ok \<longleftrightarrow> fst (pool_closeSession (hc_revoke h) (sv_pool s))) \<and>
    s' = s\<lparr>sv_revocations := sv_revocations s @ map (\<lambda>i. (u, dev, i)) (snd (pool_closeSession (hc_revoke h) (sv_pool s)))\<rparr>"
  using assms by (auto simp: successResponse_def dest: answered split: prod.splits if_splits)

lemma repeatable_failure_status:
  "repeatable_failure lib lost retry code message e = Inr r \<Longrightarrow> rsp_status r \<in> {Service_Unavailable, Internal_Server_Error}"
  by (auto simp: repeatable_failure_def dest: answered split: exn.splits if_splits)

lemma revoke_effect_revoked:
  assumes "revoke_effect u dev st r st'" "r = RevokeSuccess \<or> r = AlreadyRevoked"
  shows "\<exists>ud \<in> set (user_devices st'). ud_device_id ud = dev \<and> ud_user_id ud = u \<and> ud_status ud = ''revoked''"
proof (cases "r = RevokeSuccess")
  case True
  with assms(1) obtain ud where ud: "ud \<in> set (user_devices st)" "ud_device_id ud = dev" "ud_user_id ud = u" "ud_status ud = ''active''"
      "user_devices st' = map (revoked_row dev) (user_devices st)" by (auto simp: revoke_effect_def)
  then have "revoked_row dev ud \<in> set (user_devices st')" by simp
  then show ?thesis by (rule bexI [rotated]) (use ud in \<open>simp add: revoked_row_def\<close>)
qed (use assms in \<open>auto simp: revoke_effect_def\<close>)

text \<open>
  C8. What the answer to a revocation says is true.  If it is 200 or 202, the request carried the password of the
  authenticated user, the device named in it is that user's and is revoked now, and each worker of the WebSocket pool has
  been asked to close its sessions; the answer is 200 exactly if the pool is running and every worker confirmed in time.
\<close>

theorem revocation_answer_true:
  assumes w: "server_ok s" and c: "RevokeDevice_handler h req u s = (Inr response, s')"
    and status: "rsp_status response \<in> {Ok, Accepted}"
  shows "\<exists>body password text dev. json_parse (hc_lib h) (req_body req) = Some body \<and>
    text_field ''password'' body = Some password \<and> text_field ''deviceID'' body = Some text \<and>
    non_nil_uuid (hc_lib h) text = Some dev \<and>
    (\<exists>p \<in> set (password_credentials (server_tables s)). pc_user_id p = u \<and> verifyPassword (hc_lib h) (pc_password_hash p) password) \<and>
    (\<exists>ud \<in> set (user_devices (server_tables s')). ud_device_id ud = dev \<and> ud_user_id ud = u \<and> ud_status ud = ''revoked'') \<and>
    (let pool = sv_pool s; running = initialized pool \<and> \<not> stopping pool in
      (rsp_status response = Ok \<longleftrightarrow> running \<and> (\<forall>i < worker_count pool. hc_revoke h i)) \<and>
      sv_revocations s' = sv_revocations s @ (if running then map (\<lambda>i. (u, dev, i)) [0..<worker_count pool] else []))"
proof -
  from status have "rsp_status response \<noteq> Bad_Request" by auto
  from c [unfolded RevokeDevice_handler_def] this obtain m where
    body: "json_parse (hc_lib h) (req_body req) = Some (JObject m)" and k: "(case text_field ''password'' (JObject m) of
         None \<Rightarrow> (ErrorResponseMaker (hc_lib h) Bad_Request ''missing_password'' ''Password must be a non-empty string'', s)
       | Some userPassword \<Rightarrow>
      (case text_field ''deviceID'' (JObject m) of
         None \<Rightarrow> (ErrorResponseMaker (hc_lib h) Bad_Request ''missing_deviceID'' ''deviceID must be a non-empty string'', s)
       | Some device_id_string \<Rightarrow>
      (case non_nil_uuid (hc_lib h) device_id_string of
         None \<Rightarrow> (ErrorResponseMaker (hc_lib h) Bad_Request ''invalid_deviceID'' ''deviceID must be a non-nil UUID string'', s)
       | Some device_id \<Rightarrow>
           serve (revokeUserDevice (hc_lib h) (cc_net h) (cc_now h) (cc_env h) u device_id userPassword)
             (revoke_response h u device_id)
             (repeatable_failure (hc_lib h) ''Retry revocation with the same deviceID'' ''Retry revocation with the same deviceID''
                ''revoke_device_failed'' ''Unable to revoke device'') s))) = (Inr response, s')"
    by (rule with_body_answered)
  from k status obtain pw t dev where f: "text_field ''password'' (JObject m) = Some pw" "text_field ''deviceID'' (JObject m) = Some t"
      "non_nil_uuid (hc_lib h) t = Some dev"
    and sv: "serve (revokeUserDevice (hc_lib h) (cc_net h) (cc_now h) (cc_env h) u dev pw) (revoke_response h u dev)
             (repeatable_failure (hc_lib h) ''Retry revocation with the same deviceID'' ''Retry revocation with the same deviceID''
                ''revoke_device_failed'' ''Unable to revoke device'') s = (Inr response, s')"
    by (auto dest: answered split: option.splits)
  from sv obtain x w1 where call: "revokeUserDevice (hc_lib h) (cc_net h) (cc_now h) (cc_env h) u dev pw (sv_world s) = (Inr x, w1)"
    and o: "revoke_response h u dev x (s\<lparr>sv_world := w1\<rparr>) = (Inr response, s')"
    by (rule serve_answered) (use status in \<open>auto dest: repeatable_failure_status\<close>)
  from o status obtain already where x: "x = Inl True \<or> x = Inr RevokedDevice"
    and sr: "successResponse h u dev already (s\<lparr>sv_world := w1\<rparr>) = (Inr response, s')" by (rule revoke_response_answered)
  from revoke_service [OF w call] x obtain r where r: "x = revoke_answer r"
      "revoke_effect u dev (server_tables s) r (tables (snd w1))"
      "\<exists>p \<in> set (password_credentials (server_tables s)). pc_user_id p = u \<and> verifyPassword (hc_lib h) (pc_password_hash p) pw" by auto
  from r(1) x have "r = RevokeSuccess \<or> r = AlreadyRevoked" by (cases r) auto
  note ud = revoke_effect_revoked [OF r(2) this]
  have a: "list_all P [0..<n] \<longleftrightarrow> (\<forall>i < n. P i)" for P and n :: nat by (auto simp: list_all_iff)
  from successResponse_answered [OF sr] body f r(3) ud show ?thesis
    by (auto simp: pool_closeSession_def Let_def a)
qed

section \<open>Uploading prekeys\<close>

lemma prekey_number_range: "prekey_number j = Some i \<Longrightarrow> 0 \<le> i \<and> i \<le> int_max"
  by (cases j) (auto split: if_splits)

lemma hex_key_valid: "hex_key entry = Some t \<Longrightarrow> length t = 64 \<and> list_all is_hex_digit t"
  by (auto simp: hex_key_def isHexOfSize_def split: option.splits if_splits)

text \<open>The checks of the handler are those of the service, and the keys are distinct.\<close>

lemma read_prekeys_valid:
  "read_prekeys lib batch acc = Inr ks \<Longrightarrow> list_all valid_prekey acc \<Longrightarrow> distinct (map fst acc) \<Longrightarrow>
     list_all valid_prekey ks \<and> distinct (map fst ks) \<and> length ks = length acc + length batch"
proof (induction lib batch acc rule: read_prekeys.induct)
  case (2 lib entry batch prekeys)
  from "2.prems"(1) obtain j i t where e: "is_object entry" "json_find ''prekey_id'' entry = Some j" "prekey_number j = Some i"
      "hex_key entry = Some t" "i \<notin> set (map fst prekeys)" "read_prekeys lib batch (prekeys @ [(i, t)]) = Inr ks"
    by (auto simp: bad_request_def split: if_splits option.splits)
  have "valid_prekey (i, t)" using prekey_number_range [OF e(3)] hex_key_valid [OF e(4)] by (simp add: valid_prekey_def)
  with "2.IH" [OF _ _ e(4)] "2.prems" e show ?case by (auto split: option.splits)
qed simp

lemma prekey_batch_valid:
  "prekey_batch lib body = Inr ks \<Longrightarrow> ks \<noteq> [] \<and> length ks \<le> 10 \<and> list_all valid_prekey ks \<and> distinct (map fst ks)"
  using read_prekeys_valid [of lib _ "[]" ks]
  by (fastforce simp: prekey_batch_def bad_request_def split: option.splits json.splits if_splits)

lemma c_str_hex: "list_all is_hex_digit t \<Longrightarrow> c_str t = t"
proof -
  have "\<not> is_hex_digit (CHR 0x00)" by code_simp
  then show "list_all is_hex_digit t \<Longrightarrow> c_str t = t" by (auto simp: c_str_def list_all_iff takeWhile_eq_all_conv)
qed

lemma upload_service:
  assumes w: "world_ok w" and c: "uploadOneTimePrekeys lib net now env user dev ks w = (Inr True, w1)"
  shows "upload_effect env user dev ks (tables (snd w)) True (tables (snd w1))"
proof -
  obtain d wa where f: "FindDeviceByDeviceId lib net now env user dev w = (d, wa)"
    by (cases "FindDeviceByDeviceId lib net now env user dev w")
  have wa: "world_ok wa \<and> tables (snd wa) = tables (snd w)" by (rule read_keeps_world [OF find_device.evolving_axioms w f])
  from c f have "createNewOnetimeKey net now env user dev ks wa = (Inr True, w1)"
    by (auto simp: uploadOneTimePrekeys_def split: if_splits sum.splits option.splits prod.splits)
  from upload.serves [OF conjunct1 [OF wa] this] wa show ?thesis by simp
qed

lemma map_pair_zip: "map (\<lambda>x. (f x, g x)) xs = zip (map f xs) (map g xs)"
  by (induction xs) simp_all

text \<open>The rows that an upload adds, as pairs of number and key.\<close>

lemma upload_effect_rows:
  assumes "upload_effect env user dev ks st True st'" "list_all valid_prekey ks"
  obtains new where "map (\<lambda>p. (pk_prekey_id p, Some (pk_public_key p))) new = map (\<lambda>(i, t). (i, hex_in env t)) ks"
    "\<forall>p \<in> set new. pk_device_id p = dev \<and> pk_state p = ''available''" "usable_device st user dev"
    "st' = st\<lparr>one_time_prekeys := one_time_prekeys st @ new\<rparr>"
proof -
  from assms(1) obtain new where new: "map pk_prekey_id new = map fst ks"
      "map (\<lambda>p. Some (pk_public_key p)) new = map (\<lambda>k. hex_in env (c_str (snd k))) ks"
      "\<forall>p \<in> set new. pk_device_id p = dev \<and> pk_state p = ''available''" "usable_device st user dev"
      "st' = st\<lparr>one_time_prekeys := one_time_prekeys st @ new\<rparr>" by (auto simp: upload_effect_def)
  have "map (\<lambda>k. hex_in env (c_str (snd k))) ks = map (\<lambda>k. hex_in env (snd k)) ks"
    using assms(2) by (auto simp: valid_prekey_def list_all_iff c_str_hex)
  with new have "map (\<lambda>p. (pk_prekey_id p, Some (pk_public_key p))) new = map (\<lambda>k. (fst k, hex_in env (snd k))) ks"
    by (simp add: map_pair_zip)
  also have "\<dots> = map (\<lambda>(i, t). (i, hex_in env t)) ks" by auto
  finally show thesis using new that by blast
qed

lemma upload_failure_status:
  "upload_failure lib e = Inr r \<Longrightarrow> rsp_status r \<noteq> Created"
  by (auto simp: upload_failure_def key_failure_def dest: answered split: exn.splits if_splits)

lemma check_status:
  "uuid_field lib f body = Inl r \<Longrightarrow> r = Inr x \<Longrightarrow> rsp_status x = Bad_Request"
  "read_prekeys lib batch acc = Inl r \<Longrightarrow> r = Inr x \<Longrightarrow> rsp_status x = Bad_Request"
  "prekey_batch lib body = Inl r \<Longrightarrow> r = Inr x \<Longrightarrow> rsp_status x = Bad_Request"
proof -
  show "uuid_field lib f body = Inl r \<Longrightarrow> r = Inr x \<Longrightarrow> rsp_status x = Bad_Request"
    by (auto simp: uuid_field_def bad_request_def dest: answered split: option.splits)
  show batch: "read_prekeys lib batch acc = Inl r \<Longrightarrow> r = Inr x \<Longrightarrow> rsp_status x = Bad_Request" for batch acc
    by (induction lib batch acc rule: read_prekeys.induct)
       (auto simp: bad_request_def dest: answered split: if_splits option.splits)
  show "prekey_batch lib body = Inl r \<Longrightarrow> r = Inr x \<Longrightarrow> rsp_status x = Bad_Request"
    using batch by (auto simp: prekey_batch_def bad_request_def dest: answered split: option.splits json.splits if_splits)
qed

text \<open>
  C15. An upload that is answered 201 has stored exactly the prekeys of the request, one to ten with distinct numbers, as
  available prekeys of an active device of the authenticated user, with the bytes that their text encodes, and has changed
  nothing else.  The map of prekeys may be iterated in any order.
\<close>

theorem uploaded_prekeys_stored:
  assumes w: "server_ok s" and order: "\<And>ks. mset (hc_order h ks) = mset ks"
    and c: "uploadOneTimePrekeys_handler h req u s = (Inr response, s')" and status: "rsp_status response = Created"
  shows "\<exists>body dev ks new. json_parse (hc_lib h) (req_body req) = Some body \<and> uuid_field (hc_lib h) ''device_id'' body = Inr dev \<and>
    prekey_batch (hc_lib h) body = Inr ks \<and> 1 \<le> length ks \<and> length ks \<le> 10 \<and> distinct (map fst ks) \<and>
    usable_device (server_tables s) u dev \<and>
    mset (map (\<lambda>p. (pk_prekey_id p, Some (pk_public_key p))) new) = mset (map (\<lambda>(i, t). (i, hex_in (cc_env h) t)) ks) \<and>
    (\<forall>p \<in> set new. pk_device_id p = dev \<and> pk_state p = ''available'') \<and>
    server_tables s' = (server_tables s)\<lparr>one_time_prekeys := one_time_prekeys (server_tables s) @ new\<rparr>"
proof -
  from status have "rsp_status response \<noteq> Bad_Request" by simp
  from c [unfolded uploadOneTimePrekeys_handler_def] this obtain m where body: "json_parse (hc_lib h) (req_body req) = Some (JObject m)"
    and k: "check_then (uuid_field (hc_lib h) ''device_id'' (JObject m)) (\<lambda>deviceId.
       check_then (prekey_batch (hc_lib h) (JObject m)) (\<lambda>prekeys.
         serve (uploadOneTimePrekeys (hc_lib h) (cc_net h) (cc_now h) (cc_env h) u deviceId (hc_order h prekeys))
           (\<lambda>uploaded s. (upload_response (hc_lib h) (text_at ''device_id'' (JObject m)) prekeys uploaded, s))
           (upload_failure (hc_lib h)))) s = (Inr response, s')" by (rule with_body_answered)
  from k obtain dev where dev: "uuid_field (hc_lib h) ''device_id'' (JObject m) = Inr dev"
    and k2: "check_then (prekey_batch (hc_lib h) (JObject m)) (\<lambda>prekeys.
         serve (uploadOneTimePrekeys (hc_lib h) (cc_net h) (cc_now h) (cc_env h) u dev (hc_order h prekeys))
           (\<lambda>uploaded s. (upload_response (hc_lib h) (text_at ''device_id'' (JObject m)) prekeys uploaded, s))
           (upload_failure (hc_lib h))) s = (Inr response, s')"
    by (rule check_answered) (use status in \<open>auto dest: check_status\<close>)
  from k2 obtain ks where ks: "prekey_batch (hc_lib h) (JObject m) = Inr ks"
    and k3: "serve (uploadOneTimePrekeys (hc_lib h) (cc_net h) (cc_now h) (cc_env h) u dev (hc_order h ks))
           (\<lambda>uploaded s. (upload_response (hc_lib h) (text_at ''device_id'' (JObject m)) ks uploaded, s))
           (upload_failure (hc_lib h)) s = (Inr response, s')"
    by (rule check_answered) (use status in \<open>auto dest: check_status\<close>)
  from k3 obtain x w1 where call: "uploadOneTimePrekeys (hc_lib h) (cc_net h) (cc_now h) (cc_env h) u dev (hc_order h ks) (sv_world s) = (Inr x, w1)"
    and o: "(upload_response (hc_lib h) (text_at ''device_id'' (JObject m)) ks x, s\<lparr>sv_world := w1\<rparr>) = (Inr response, s')"
    by (rule serve_answered) (use status in \<open>auto dest: upload_failure_status\<close>)
  from o status have x: "x" and s': "server_tables s' = tables (snd w1)"
    by (auto simp: upload_response_def dest: answered split: if_splits)
  note v = prekey_batch_valid [OF ks]
  have "list_all valid_prekey (hc_order h ks)" using v order [of ks] by (simp add: list_all_iff flip: set_mset_mset)
  from upload_service [OF w call [unfolded x [THEN eqTrueI]]] this obtain new where
    new: "map (\<lambda>p. (pk_prekey_id p, Some (pk_public_key p))) new = map (\<lambda>(i, t). (i, hex_in (cc_env h) t)) (hc_order h ks)"
    "\<forall>p \<in> set new. pk_device_id p = dev \<and> pk_state p = ''available''" "usable_device (server_tables s) u dev"
    "tables (snd w1) = (server_tables s)\<lparr>one_time_prekeys := one_time_prekeys (server_tables s) @ new\<rparr>" by (rule upload_effect_rows)
  have "mset (map (\<lambda>(i, t). (i, hex_in (cc_env h) t)) (hc_order h ks)) = mset (map (\<lambda>(i, t). (i, hex_in (cc_env h) t)) ks)"
    using order [of ks] by simp
  moreover have "1 \<le> length ks" using v by (cases ks) auto
  ultimately show ?thesis using body dev ks v new s'
    by (intro exI [of _ "JObject m"] exI [of _ dev] exI [of _ ks] exI [of _ new]) simp
qed

section \<open>Friend requests\<close>

text \<open>The record that is returned and pushed is that of the stored request.\<close>

lemma request_stored:
  assumes w: "world_ok w" and c: "requestFriendship net now env user peer message w = (Inr (Some r), w1)"
  shows "\<exists>q. tables (snd w1) = (tables (snd w))\<lparr>friend_requests := friend_requests (tables (snd w)) @ [q]\<rparr> \<and>
    fq_id q = fr_request_id r \<and> fq_requester_id q = user \<and> fq_recipient_id q = peer \<and> fq_status q = ''pending'' \<and>
    fq_message q = Some (fr_message r) \<and> fr_message r = c_str message \<and> fr_id r = user \<and>
    (\<forall>x \<in> set (friend_requests (tables (snd w))). fq_id x \<noteq> fq_id q \<and> \<not> same_pending user peer x)"
proof -
  from c have "CreateNewFriendship net now env user peer message w = (Inr r, w1)"
    by (auto simp: requestFriendship_def split: prod.splits sum.splits exn.splits if_splits)
  from request.serves [OF w this] obtain n rows where
    sql: "sql_insert_request env user peer ''pending'' (c_str message) n (tables (snd w)) = Inr (rows, tables (snd w1))"
    and r: "inserted_request rows = Inr r" by (auto simp: query_result_def)
  from r obtain row where row: "rows = [row]" "request_record row = Inr r" by (auto simp: inserted_request_def split: list.splits)
  define q where "q = \<lparr>fq_id = gen_random_uuid env n, fq_requester_id = user, fq_recipient_id = peer, fq_status = ''pending'',
    fq_message = Some (c_str message), fq_created_at = current_timestamp env n\<rparr>"
  from sql [folded q_def] have q: "rows = map (request_row q) (filter (\<lambda>a. us_id a = user) (users (tables (snd w))))"
      "tables (snd w1) = (tables (snd w))\<lparr>friend_requests := friend_requests (tables (snd w)) @ [q]\<rparr>"
      "\<forall>x \<in> set (friend_requests (tables (snd w))). fq_id x \<noteq> fq_id q \<and> \<not> same_pending user peer x"
    by (auto simp: sql_insert_request_def Let_def q_def split: if_splits)
  from q(1) row(1) obtain a where "us_id a = user" "row = request_row q a" by (auto simp: filter_eq_Cons_iff)
  with row(2) have "fq_id q = fr_request_id r" "fr_message r = c_str message" "fr_id r = user"
    by (auto simp: request_record_def request_row_def ebind_Inr_iff q_def)
  with q(2,3) show ?thesis by (intro exI [of _ q]) (simp add: q_def)
qed

lemma push_To_User_recipient:
  "c \<in> set (push_To_User u message p) \<Longrightarrow> pc_message c = message \<and> (\<exists>e. (pc_device c, e) \<in> set (online_connections p) \<and> oc_user e = u)"
  by (auto simp: push_To_User_def split: if_splits)

lemma requested_response_answered:
  assumes "requested_response lib friend x s = (Inr response, s')" "rsp_status response = Ok"
  obtains r where "x = Some r" "s' = s\<lparr>sv_pushes := sv_pushes s @ push_To_User friend (request_push lib r) (sv_pool s)\<rparr>"
  using assms by (auto simp: requested_response_def dest: answered split: option.splits)

text \<open>
  C17. A friend request that is answered 200 has been stored: a new pending request of the authenticated user to the user
  named in the body, who is another one, with no other pending request between the two.  What is pushed is that request,
  and only to devices on which the named user is online.
\<close>

theorem friend_request_stored_and_pushed:
  assumes w: "server_ok s" and c: "RequestFriendship_handler h req u s = (Inr response, s')" and status: "rsp_status response = Ok"
  shows "\<exists>body text peer r q pushes. json_parse (hc_lib h) (req_body req) = Some body \<and> text_field ''friend_id'' body = Some text \<and>
    string_generator (hc_lib h) text = Some peer \<and> peer \<noteq> u \<and>
    server_tables s' = (server_tables s)\<lparr>friend_requests := friend_requests (server_tables s) @ [q]\<rparr> \<and>
    fq_id q = fr_request_id r \<and> fq_requester_id q = u \<and> fq_recipient_id q = peer \<and> fq_status q = ''pending'' \<and>
    fq_message q = Some (fr_message r) \<and> fr_id r = u \<and>
    (\<forall>x \<in> set (friend_requests (server_tables s)). fq_id x \<noteq> fq_id q \<and> \<not> same_pending u peer x) \<and>
    sv_pushes s' = sv_pushes s @ pushes \<and>
    (\<forall>c \<in> set pushes. pc_message c = request_push (hc_lib h) r \<and>
       (\<exists>e. (pc_device c, e) \<in> set (online_connections (sv_pool s)) \<and> oc_user e = peer))"
proof -
  from status have "rsp_status response \<noteq> Bad_Request" by simp
  from c [unfolded RequestFriendship_handler_def] this obtain m where body: "json_parse (hc_lib h) (req_body req) = Some (JObject m)"
    and k: "(case text_field ''friend_id'' (JObject m) of
         None \<Rightarrow> (ErrorResponseMaker (hc_lib h) Bad_Request ''missing_friend_id'' ''Must has friend_id'', s)
       | Some text \<Rightarrow>
      (case read_uuid (hc_lib h) text of
         Inl e \<Rightarrow> (Inl e, s)
       | Inr friend_uuid \<Rightarrow>
           if friend_uuid = u
           then (ErrorResponseMaker (hc_lib h) Bad_Request ''cannot_request_friendship_myself'' ''Can not request Myself'', s)
           else
             let message = (case text_field ''message'' (JObject m) of None \<Rightarrow> '''' | Some m \<Rightarrow> m) in
             serve (requestFriendship (cc_net h) (cc_now h) (cc_env h) u friend_uuid message)
               (requested_response (hc_lib h) friend_uuid)
               (\<lambda>_. ErrorResponseMaker (hc_lib h) Service_Unavailable ''request_friendship_failed'' ''Unable to send friend request'') s))
       = (Inr response, s')" by (rule with_body_answered)
  from k status obtain idText peer message where t: "text_field ''friend_id'' (JObject m) = Some idText"
      "string_generator (hc_lib h) idText = Some peer" "peer \<noteq> u"
    and sv: "serve (requestFriendship (cc_net h) (cc_now h) (cc_env h) u peer message) (requested_response (hc_lib h) peer)
               (\<lambda>_. ErrorResponseMaker (hc_lib h) Service_Unavailable ''request_friendship_failed'' ''Unable to send friend request'') s
             = (Inr response, s')"
    by (auto simp: read_uuid_def Let_def dest: answered split: option.splits if_splits)
  from sv obtain x w1 where call: "requestFriendship (cc_net h) (cc_now h) (cc_env h) u peer message (sv_world s) = (Inr x, w1)"
    and o: "requested_response (hc_lib h) peer x (s\<lparr>sv_world := w1\<rparr>) = (Inr response, s')"
    by (rule serve_answered) (use status in \<open>auto dest: answered\<close>)
  from o status obtain r where r: "x = Some r"
      "s' = s\<lparr>sv_world := w1, sv_pushes := sv_pushes s @ push_To_User peer (request_push (hc_lib h) r) (sv_pool s)\<rparr>"
    by (rule requested_response_answered) simp
  from request_stored [OF w call [unfolded r(1)]] obtain q where
    "tables (snd w1) = (server_tables s)\<lparr>friend_requests := friend_requests (server_tables s) @ [q]\<rparr>"
    "fq_id q = fr_request_id r" "fq_requester_id q = u" "fq_recipient_id q = peer" "fq_status q = ''pending''"
    "fq_message q = Some (fr_message r)" "fr_id r = u"
    "\<forall>x \<in> set (friend_requests (server_tables s)). fq_id x \<noteq> fq_id q \<and> \<not> same_pending u peer x" by blast
  with body t r(2) push_To_User_recipient show ?thesis
    by (intro exI [of _ "JObject m"] exI [of _ idText] exI [of _ peer] exI [of _ r] exI [of _ q]
        exI [of _ "push_To_User peer (request_push (hc_lib h) r) (sv_pool s)"]) auto
qed

section \<open>Handlers that answer every request\<close>

text \<open>Text in the first 128 characters, which every JSON printer can print.\<close>

fun ascii :: "char \<Rightarrow> bool" where
  "ascii (Char _ _ _ _ _ _ _ b7) = (\<not> b7)"

definition prints_ascii :: "library \<Rightarrow> bool" where
  "prints_ascii lib \<longleftrightarrow>
     (\<forall>code message. list_all ascii (code @ message) \<longrightarrow>
        json_dump lib (JObject [(''error'', JObject [(''code'', JString code), (''message'', JString message)])]) \<noteq> None) \<and>
     (\<forall>code. list_all ascii code \<longrightarrow> json_dump lib (JObject [(''code'', JString code)]) \<noteq> None)"

definition replies :: "HttpResponse result \<Rightarrow> bool" where
  "replies r \<longleftrightarrow> (\<exists>response. r = Inr response)"

definition answers :: "(server_state \<Rightarrow> reply) \<Rightarrow> bool" where
  "answers f \<longleftrightarrow> (\<forall>s. replies (fst (f s)))"

lemma replies_Inr [simp]: "replies (Inr response)"
  by (simp add: replies_def)

lemma error_replies:
  "prints_ascii lib \<Longrightarrow> list_all ascii (code @ message) \<Longrightarrow> replies (ErrorResponseMaker lib status code message)"
  by (auto simp: prints_ascii_def replies_def ErrorResponseMaker_def dump_def Let_def split: option.splits)

lemma result_replies: "prints_ascii lib \<Longrightarrow> list_all ascii code \<Longrightarrow> replies (makeResult lib status code)"
  by (auto simp: prints_ascii_def replies_def makeResult_def json_response_def plain_response_def dump_def split: option.splits)

lemmas literal_replies = error_replies result_replies

text \<open>A check that fails has its response.\<close>

definition checks :: "'a check \<Rightarrow> bool" where
  "checks c \<longleftrightarrow> (\<forall>r. c = Inl r \<longrightarrow> replies r)"

named_theorems answering \<open>compositions of replies that are no exception\<close>

lemma answers_answer [answering]: "replies r \<Longrightarrow> answers (\<lambda>s. (r, s))"
  by (simp add: answers_def)

lemma answers_if [answering]: "answers f \<Longrightarrow> answers g \<Longrightarrow> answers (\<lambda>s. if c then f s else g s)"
  by (simp add: answers_def)

lemma answers_option [answering]:
  "answers f \<Longrightarrow> (\<And>y. answers (g y)) \<Longrightarrow> answers (\<lambda>s. case x of None \<Rightarrow> f s | Some y \<Rightarrow> g y s)"
  by (cases x) auto

lemma answers_serve [answering]: "(\<And>e. replies (failed e)) \<Longrightarrow> answers (serve call ok failed)"
  by (auto simp: answers_def serve_def split: prod.split sum.split)

lemma answers_body [answering]:
  "prints_ascii lib \<Longrightarrow> list_all ascii message \<Longrightarrow> (\<And>body. answers (k body)) \<Longrightarrow> answers (with_body lib message req k)"
  by (auto simp: answers_def with_body_def error_replies split: option.split json.split)

lemma answers_check [answering]: "checks c \<Longrightarrow> (\<And>x. answers (k x)) \<Longrightarrow> answers (check_then c k)"
  by (cases c) (auto simp: answers_def checks_def)

lemma key_failure_replies:
  "prints_ascii lib \<Longrightarrow> list_all ascii code \<Longrightarrow> list_all ascii message \<Longrightarrow> replies (key_failure lib code message e)"
  by (auto simp: key_failure_def error_replies split: exn.split)

lemma repeatable_failure_replies:
  "prints_ascii lib \<Longrightarrow> list_all ascii code \<Longrightarrow> list_all ascii message \<Longrightarrow> list_all ascii lost \<Longrightarrow> list_all ascii again \<Longrightarrow>
     replies (repeatable_failure lib lost again code message e)"
  by (auto simp: repeatable_failure_def error_replies split: exn.split)

lemma other_failures_reply:
  assumes "prints_ascii lib"
  shows "replies (login_failure lib e)" "replies (upload_failure lib e)"
  using assms by (auto simp: login_failure_def upload_failure_def literal_replies key_failure_replies split: exn.split)

lemma checks_Inr [simp, answering]: "checks (Inr x)"
  by (simp add: checks_def)

lemma checks_bind: "checks c \<Longrightarrow> (\<And>x. checks (f x)) \<Longrightarrow> checks (case c of Inl r \<Rightarrow> Inl r | Inr x \<Rightarrow> f x)"
  by (cases c) (auto simp: checks_def)

lemma bad_request_checks: "prints_ascii lib \<Longrightarrow> list_all ascii (code @ message) \<Longrightarrow> checks (bad_request lib code message)"
  by (auto simp: checks_def bad_request_def error_replies)

lemma target_replies:
  assumes p: "prints_ascii lib"
  shows "replies (invalid_target lib)" "replies (conflicting_target lib)"
proof -
  show i: "replies (invalid_target lib)" using p by (simp add: invalid_target_def error_replies)
  then show "replies (conflicting_target lib)" by (simp add: conflicting_target_def split: sum.split)
qed

lemma target_fields_checks: "prints_ascii lib \<Longrightarrow> checks (target_fields lib body names st)"
  by (induction lib body names st rule: target_fields.induct)
     (auto simp: checks_def target_replies split: option.split json.split)

lemma uuid_field_checks: "prints_ascii lib \<Longrightarrow> list_all ascii field \<Longrightarrow> checks (uuid_field lib field body)"
  by (auto simp: uuid_field_def intro!: bad_request_checks split: option.split)

lemma normalize_checks: "prints_ascii lib \<Longrightarrow> checks (normalizeDeviceTarget lib body u)"
  unfolding normalizeDeviceTarget_def by (intro checks_bind target_fields_checks checks_Inr)

lemma target_device_checks: "prints_ascii lib \<Longrightarrow> checks (target_device lib body u)"
  unfolding target_device_def by (intro checks_bind normalize_checks uuid_field_checks checks_Inr) simp_all

lemma required_fields_checks:
  "prints_ascii lib \<Longrightarrow> list_all (list_all ascii) names \<Longrightarrow> checks (required_fields lib body names)"
  by (induction names) (auto intro!: bad_request_checks split: option.split)

lemma registration_input_checks: "prints_ascii lib \<Longrightarrow> checks (registration_input lib body)"
  unfolding registration_input_def
  by (intro checks_bind required_fields_checks) (simp_all add: device_fields_def check_registration_def bad_request_checks)

lemma read_prekeys_checks: "prints_ascii lib \<Longrightarrow> checks (read_prekeys lib batch acc)"
  by (induction lib batch acc rule: read_prekeys.induct) (auto simp: bad_request_checks split: option.split)

lemma prekey_batch_checks: "prints_ascii lib \<Longrightarrow> checks (prekey_batch lib body)"
  by (auto simp: prekey_batch_def bad_request_checks read_prekeys_checks split: option.split json.split)


section \<open>Numbers of signed prekeys\<close>


section \<open>The server over time\<close>

text \<open>
  C5. The server as a whole refines the abstract preorder.  Whatever HTTP requests it is sent, on any route, with any token,
  header and body, interleaved with whatever the WebSocket dispatcher and the other threads do to the tables, and
  whatever the network and the libraries do: the database pool is clean and the tables are well-formed, and every account,
  credential, device, ticket, prekey, friend request and envelope that was there is still there, its state unchanged or
  moved forward: devices from active to revoked, tickets and prekeys from free to used, requests from pending to a
  decision, envelopes from unread to read.
\<close>

theorem server_refines_evolution:
  assumes "pool_clean (fst (sv_world s))" "store_ok (server_tables s)"
  shows "pool_clean (fst (sv_world (server_run steps s))) \<and> store_ok (server_tables (server_run steps s)) \<and>
    evolves (server_tables s) (server_tables (server_run steps s))"
  using server_run_orderly [of s steps] assms by (simp add: world_ok_def)

section \<open>Witnesses\<close>

definition sample_handler :: "json \<Rightarrow> handler_env" where
  "sample_handler body = \<lparr>cc_net = (\<lambda>_. Delivered), cc_now = 0, cc_env = sample_env, cc_clock = 0, cc_draw = 1,
     hc_lib = demo_lib\<lparr>json_parse := (\<lambda>_. Some body)\<rparr>, hc_secret = ''s'', hc_revoke = (\<lambda>i. i \<noteq> 1), hc_order = rev,
     hc_legacy = (\<lambda>_ _. Inr [])\<rparr>"

definition sample_server :: server_state where
  "sample_server = \<lparr>sv_world = sample_service,
     sv_pool = \<lparr>online_connections = [(22, \<lparr>oc_worker = 0, oc_fd = 5, oc_session = 1, oc_user = 2\<rparr>)],
       pool_config = \<lparr>min_capacity = 4, max_task_capacity = 100\<rparr>, worker_count = 4, initialized = True, stopping = False,
       next_worker = 0\<rparr>,
     sv_pushes = [], sv_revocations = []\<rparr>"

definition sample_post :: HttpRequest where
  "sample_post = empty_request\<lparr>req_method := POST, req_body := ''{}''\<rparr>"

lemma sample_library:
  "dump (hc_lib (sample_handler body)) j = Inr ''{}''" "json_parse (hc_lib (sample_handler body)) t = Some body"
  "string_generator (hc_lib (sample_handler body)) = string_generator demo_lib"
  "uuid_to_string (hc_lib (sample_handler body)) = uuid_to_string demo_lib"
  "string_generator demo_lib (uuid_to_string demo_lib u) = Some u" "uuid_shape (uuid_to_string demo_lib u)"
  using demo_uuid_ok by (simp_all add: sample_handler_def dump_def demo_lib_def uuid_lib_ok_def)

lemma sample_reads:
  "verifyPassword (hc_lib (sample_handler body)) = verifyPassword demo_lib"
  "FindDeviceByDeviceId (hc_lib (sample_handler body)) = FindDeviceByDeviceId demo_lib"
proof -
  show "verifyPassword (hc_lib (sample_handler body)) = verifyPassword demo_lib"
    by (intro ext) (simp add: verifyPassword_def sample_handler_def)
  have "parseBytea (hc_lib (sample_handler body)) = parseBytea demo_lib"
    by (intro ext) (simp add: parseBytea_def sample_handler_def)
  then have "device_of (hc_lib (sample_handler body)) = device_of demo_lib" by (intro ext) (simp only: device_of_def)
  then have "found_device (hc_lib (sample_handler body)) = found_device demo_lib" by (intro ext) (simp only: found_device_def)
  then show "FindDeviceByDeviceId (hc_lib (sample_handler body)) = FindDeviceByDeviceId demo_lib"
    by (intro ext) (simp only: FindDeviceByDeviceId_def)
qed

lemma sample_fields [simp]:
  "cc_net (sample_handler body) = (\<lambda>_. Delivered)" "cc_now (sample_handler body) = 0" "cc_env (sample_handler body) = sample_env"
  "hc_order (sample_handler body) = rev" "hc_revoke (sample_handler body) i \<longleftrightarrow> i \<noteq> 1"
  "req_body sample_post = ''{}''" "sv_world sample_server = sample_service"
  by (simp_all add: sample_handler_def sample_post_def sample_server_def)

lemma sample_server_ok: "server_ok sample_server"
  by (simp add: sample_service_ok)

lemma sample_with_body: "with_body (hc_lib (sample_handler (JObject m))) message sample_post k s = k (JObject m) s"
  by (simp add: with_body_def sample_library)

abbreviation sample_revocation :: json where
  "sample_revocation \<equiv> JObject [(''password'', JString ''Passw0rd!''), (''deviceID'', JString (uuid_to_string demo_lib 11))]"

lemma sample_uuid_not_empty: "uuid_to_string demo_lib u \<noteq> []"
  using sample_library(6) [of u] by (auto simp: uuid_shape_def)

lemma sample_revocation_served:
  "\<exists>response s'. RevokeDevice_handler (sample_handler sample_revocation) sample_post 1 sample_server = (Inr response, s') \<and>
     rsp_status response = Accepted"
proof -
  let ?h = "sample_handler sample_revocation"
  obtain w1 where r: "revokeUserDevice demo_lib (\<lambda>_. Delivered) 0 sample_env 1 11 ''Passw0rd!'' sample_service = (Inr (Inl True), w1)"
    using sample_revocation_done by blast
  have "revokeUserDevice (hc_lib ?h) = revokeUserDevice demo_lib" by (intro ext) (simp only: revokeUserDevice_def sample_reads)
  with r have r: "revokeUserDevice (hc_lib ?h) (\<lambda>_. Delivered) 0 sample_env 1 11 ''Passw0rd!'' sample_service = (Inr (Inl True), w1)"
    by simp
  have u: "non_nil_uuid (hc_lib ?h) (uuid_to_string demo_lib 11) = Some 11"
    by (simp add: non_nil_uuid_def strict_uuid_def sample_library)
  show ?thesis
    by (simp add: RevokeDevice_handler_def sample_with_body text_field_def string_field_def sample_uuid_not_empty u serve_def r
        revoke_response_def successResponse_def pool_closeSession_def json_response_def plain_response_def sample_library
        json_content_def set_header_def sample_server_def upt_rec split: prod.split)
qed

theorem revocation_answer_true_witness:
  "\<exists>response s'. RevokeDevice_handler (sample_handler sample_revocation) sample_post 1 sample_server = (Inr response, s') \<and>
     rsp_status response = Accepted \<and>
     (\<exists>ud \<in> set (user_devices (server_tables s')). ud_user_id ud = 1 \<and> ud_status ud = ''revoked'') \<and>
     length (sv_revocations s') = 4"
proof -
  obtain response s' where c: "RevokeDevice_handler (sample_handler sample_revocation) sample_post 1 sample_server = (Inr response, s')"
    "rsp_status response = Accepted" using sample_revocation_served by blast
  from revocation_answer_true [OF sample_server_ok c(1)] c(2) have
    "(\<exists>ud \<in> set (user_devices (server_tables s')). ud_user_id ud = 1 \<and> ud_status ud = ''revoked'') \<and> length (sv_revocations s') = 4"
    by (auto simp: sample_server_def Let_def)
  with c show ?thesis by blast
qed

text \<open>An upload of two prekeys, and a friend request to a user who is online.\<close>

abbreviation sample_keys :: "(int \<times> string) list" where
  "sample_keys \<equiv> [(7, replicate 64 (CHR ''a'')), (8, replicate 64 (CHR ''B''))]"

definition upload_fields :: "(string \<times> json) list" where
  "upload_fields = [(''device_id'', JString (uuid_to_string demo_lib 11)),
     (''prekeys'', JArray (map (\<lambda>(i, t). JObject [(''prekey_id'', JUnsigned (nat i)), (''public_key_hex'', JString t)]) sample_keys))]"

abbreviation sample_upload :: json where
  "sample_upload \<equiv> JObject upload_fields"

lemma sample_hex: "isHexOfSize (replicate 64 (CHR ''a'')) 32" "isHexOfSize (replicate 64 (CHR ''B'')) 32"
  by (simp_all add: isHexOfSize_def list_all_iff) code_simp+

lemma sample_upload_served:
  "\<exists>response s'. uploadOneTimePrekeys_handler (sample_handler sample_upload) sample_post 1 sample_server = (Inr response, s') \<and>
     rsp_status response = Created"
proof -
  let ?h = "sample_handler sample_upload"
  have "fst (uploadOneTimePrekeys demo_lib (\<lambda>_. Delivered) 0 sample_env 1 11 (rev sample_keys) sample_service) = Inr True"
    by code_simp
  moreover have "uploadOneTimePrekeys (hc_lib ?h) = uploadOneTimePrekeys demo_lib"
    by (intro ext) (simp only: uploadOneTimePrekeys_def sample_reads)
  ultimately obtain w1 where r: "uploadOneTimePrekeys (hc_lib ?h) (\<lambda>_. Delivered) 0 sample_env 1 11 (rev sample_keys) sample_service = (Inr True, w1)"
    by (metis prod.collapse)
  have u: "uuid_field (hc_lib ?h) ''device_id'' sample_upload = Inr 11"
    by (simp add: uuid_field_def string_field_def strict_uuid_def sample_library upload_fields_def)
  have b: "prekey_batch (hc_lib ?h) sample_upload = Inr sample_keys"
    using sample_hex by (simp add: prekey_batch_def hex_key_def string_field_def int_max_def upload_fields_def)
  show ?thesis
    using r by (simp add: uploadOneTimePrekeys_handler_def sample_with_body u b serve_def upload_response_def json_response_def
        plain_response_def sample_library json_content_def set_header_def)
qed

theorem uploaded_prekeys_stored_witness:
  "\<exists>response s'. uploadOneTimePrekeys_handler (sample_handler sample_upload) sample_post 1 sample_server = (Inr response, s') \<and>
     usable_device sample_accounts 1 11 \<and> one_time_prekeys (server_tables s') \<noteq> one_time_prekeys sample_accounts"
proof -
  obtain response s' where c: "uploadOneTimePrekeys_handler (sample_handler sample_upload) sample_post 1 sample_server = (Inr response, s')"
    "rsp_status response = Created" using sample_upload_served by blast
  have order: "mset (hc_order (sample_handler sample_upload) ks) = mset ks" for ks by simp
  from uploaded_prekeys_stored [OF sample_server_ok order c] obtain dev ks new where
    u: "uuid_field (hc_lib (sample_handler sample_upload)) ''device_id'' sample_upload = Inr dev"
    and new: "usable_device sample_accounts 1 dev" "1 \<le> length ks"
      "mset (map (\<lambda>p. (pk_prekey_id p, Some (pk_public_key p))) new) = mset (map (\<lambda>(i, t). (i, hex_in sample_env t)) ks)"
      "one_time_prekeys (server_tables s') = one_time_prekeys sample_accounts @ new"
    by (auto simp: sample_service_def sample_library)
  from u have "dev = 11" by (simp add: uuid_field_def string_field_def strict_uuid_def sample_library upload_fields_def)
  moreover from new(2) arg_cong [OF new(3), of size] have "new \<noteq> []" by auto
  ultimately show ?thesis using c new(1,4) by auto
qed

definition sample_strangers :: server_state where
  "sample_strangers = sample_server\<lparr>sv_world := (fst sample_service, \<lparr>tables = sample_accounts\<lparr>friend_requests := []\<rparr>, sent = 0\<rparr>)\<rparr>"

lemma sample_strangers_ok: "server_ok sample_strangers"
  using sample_service_ok
  by (simp add: sample_strangers_def sample_service_def world_ok_def store_ok_def keys_ok_def accounts_ok_def credentials_ok_def
      envelopes_ok_def pair_seqs_def sample_accounts_def sample_store_def)

abbreviation sample_friendship :: json where
  "sample_friendship \<equiv> JObject [(''friend_id'', JString (uuid_to_string demo_lib 2)), (''message'', JString ''hi'')]"

theorem friend_request_stored_and_pushed_witness:
  "\<exists>response s'. RequestFriendship_handler (sample_handler sample_friendship) sample_post 1 sample_strangers = (Inr response, s') \<and>
     length (friend_requests (server_tables s')) = 1 \<and> map pc_device (sv_pushes s') = [22]"
proof -
  let ?h = "sample_handler sample_friendship"
  have "\<not> (case fst (requestFriendship (\<lambda>_. Delivered) 0 sample_env 1 2 ''hi'' (sv_world sample_strangers)) of
      Inr (Some r) \<Rightarrow> False | _ \<Rightarrow> True)" by code_simp
  then obtain r w1 where r: "requestFriendship (\<lambda>_. Delivered) 0 sample_env 1 2 ''hi'' (sv_world sample_strangers) = (Inr (Some r), w1)"
    by (metis (no_types, lifting) old.sum.exhaust option.exhaust option.simps(4) prod.collapse sum.case)
  have c: "RequestFriendship_handler ?h sample_post 1 sample_strangers =
    (Inr (empty_response\<lparr>rsp_status := Ok\<rparr>), sample_strangers\<lparr>sv_world := w1,
       sv_pushes := push_To_User 2 (request_push (hc_lib ?h) r) (sv_pool sample_strangers)\<rparr>)"
    by (simp add: RequestFriendship_handler_def sample_with_body text_field_def string_field_def sample_uuid_not_empty read_uuid_def
        sample_library serve_def r requested_response_def)
      (simp add: sample_strangers_def sample_server_def)
  from friend_request_stored_and_pushed [OF sample_strangers_ok c] have
    "length (friend_requests (tables (snd w1))) = 1" by (auto simp: sample_strangers_def)
  with c show ?thesis by (simp add: push_To_User_def) (simp add: sample_strangers_def sample_server_def)
qed



theorem server_refines_evolution_witness:
  "evolves sample_accounts (server_tables (server_run [Request (sample_handler sample_revocation) sample_post,
     Others demo_lib ''s'' sample_context (CallFindUser ''bob'')] sample_server))"
  using server_refines_evolution [of sample_server "[Request (sample_handler sample_revocation) sample_post,
      Others demo_lib ''s'' sample_context (CallFindUser ''bob'')]"] sample_server_ok
  by (simp add: world_ok_def) (simp add: sample_service_def)


end
