(* ===== verification/Logger.thy ===== *)
theory Logger
  imports Prelude
begin

text \<open>
  The logger, \<^verbatim>\<open>src/include/common/Logger.h\<close>: levels, the list of fields whose values may be written, the quoting of
  strings and the line of one event.  The time stamp, the thread's name and the environment variable \<^verbatim>\<open>LOG_LEVEL\<close> are
  arguments.  A line is a JSON object on one line; the theorem says that it can be read back, whatever bytes the strings
  hold, and that no value of a field outside the list gets into it.
\<close>

section \<open>Levels\<close>

datatype Level = LogDebug | LogInfo | LogWarn | LogError | LogOff

fun level_rank :: "Level \<Rightarrow> nat" where
  "level_rank LogDebug = 0"
| "level_rank LogInfo = 1"
| "level_rank LogWarn = 2"
| "level_rank LogError = 3"
| "level_rank LogOff = 4"

text \<open>Levels are compared by their order in the enumeration.\<close>

instantiation Level :: linorder
begin

definition less_eq_Level :: "Level \<Rightarrow> Level \<Rightarrow> bool" where
  "a \<le> b \<longleftrightarrow> level_rank a \<le> level_rank b"

definition less_Level :: "Level \<Rightarrow> Level \<Rightarrow> bool" where
  "a < b \<longleftrightarrow> level_rank a < level_rank b"

instance
proof
  have inj: "level_rank a = level_rank b \<Longrightarrow> a = b" for a b by (cases a; cases b) simp_all
  fix a b c :: Level
  show "(a < b) = (a \<le> b \<and> \<not> b \<le> a)" by (auto simp: less_eq_Level_def less_Level_def)
  show "a \<le> a" by (simp add: less_eq_Level_def)
  show "a \<le> b \<Longrightarrow> b \<le> c \<Longrightarrow> a \<le> c" by (simp add: less_eq_Level_def)
  show "a \<le> b \<Longrightarrow> b \<le> a \<Longrightarrow> a = b" using inj by (simp add: less_eq_Level_def)
  show "a \<le> b \<or> b \<le> a" by (auto simp: less_eq_Level_def)
qed

end

definition threshold :: "string option \<Rightarrow> Level" where
  "threshold raw =
     (let value = (case raw of Some v \<Rightarrow> v | None \<Rightarrow> ''INFO'')
      in if value = ''DEBUG'' \<or> value = ''debug'' then LogDebug
         else if value = ''WARN'' \<or> value = ''warn'' then LogWarn
         else if value = ''ERROR'' \<or> value = ''error'' then LogError
         else if value = ''OFF'' \<or> value = ''off'' then LogOff
         else LogInfo)"

definition log_enabled :: "string option \<Rightarrow> Level \<Rightarrow> bool" where
  "log_enabled raw level \<longleftrightarrow>
     level \<noteq> LogOff \<and> threshold raw \<noteq> LogOff \<and> threshold raw \<le> level"

fun level_name :: "Level \<Rightarrow> string" where
  "level_name LogDebug = ''DEBUG''"
| "level_name LogInfo = ''INFO''"
| "level_name LogWarn = ''WARN''"
| "level_name LogError = ''ERROR''"
| "level_name LogOff = ''OFF''"

section \<open>Quoting\<close>

abbreviation quote_mark :: char where "quote_mark \<equiv> CHR 0x22"
abbreviation backslash :: char where "backslash \<equiv> CHR 0x5C"

definition hex_char :: "nat \<Rightarrow> char" where
  "hex_char d = ''0123456789abcdef'' ! d"

definition quote_char :: "char \<Rightarrow> string" where
  "quote_char c =
     (if c = quote_mark \<or> c = backslash then [backslash, c]
      else if of_char c < (32 :: nat) \<or> of_char c \<ge> (127 :: nat)
      then [backslash] @ ''u00'' @ [hex_char (of_char c div 16), hex_char (of_char c mod 16)]
      else [c])"

text \<open>At most 192 characters of a text are written.\<close>

definition quote :: "string \<Rightarrow> string" where
  "quote text = [quote_mark] @ concat (map quote_char (take 192 text)) @ (if 192 < length text then ''...'' else '''') @ [quote_mark]"

section \<open>One line\<close>

datatype field_value = FieldText string | FieldSigned int | FieldUnsigned nat | FieldBool bool

definition allowed_keys :: "string list" where
  "allowed_keys = [''operation'', ''operation_id'', ''elapsed_us'', ''outcome'', ''status'', ''code'', ''kind'', ''worker_id'',
     ''session_id'', ''fd'', ''count'', ''rows'', ''bytes'', ''attempt'', ''opcode'', ''port'', ''success'', ''reason'', ''pending'',
     ''method'']"

definition allowed :: "string \<Rightarrow> bool" where
  "allowed key \<longleftrightarrow> key \<in> set allowed_keys"

fun value_text :: "field_value \<Rightarrow> string" where
  "value_text (FieldText t) = quote t"
| "value_text (FieldBool b) = (if b then ''true'' else ''false'')"
| "value_text (FieldSigned i) = (if i < 0 then CHR ''-'' # to_string_nat (nat (- i)) else to_string_nat (nat i))"
| "value_text (FieldUnsigned n) = to_string_nat n"

definition field_text :: "string \<times> field_value \<Rightarrow> string" where
  "field_text f = quote (fst f) @ '':'' @ (if allowed (fst f) then value_text (snd f) else quote ''[REDACTED]'')"

fun fields_text :: "(string \<times> field_value) list \<Rightarrow> string" where
  "fields_text [] = ''''"
| "fields_text [f] = field_text f"
| "fields_text (f # g # fs) = field_text f @ '','' @ fields_text (g # fs)"

definition key_text :: "string \<Rightarrow> string" where
  "key_text k = [quote_mark] @ k @ [quote_mark] @ '':''"

definition write_line ::
  "string option \<Rightarrow> string \<Rightarrow> string \<Rightarrow> Level \<Rightarrow> string \<Rightarrow> string \<Rightarrow> (string \<times> field_value) list \<Rightarrow> string option" where
  "write_line raw time thread level component event fs =
     (if \<not> log_enabled raw level then None
      else Some (''{'' @ key_text ''timestamp'' @ [quote_mark] @ time @ [quote_mark] @ '','' @ key_text ''level'' @ quote (level_name level)
        @ '','' @ key_text ''thread_id'' @ [quote_mark] @ thread @ [quote_mark]
        @ '','' @ key_text ''component'' @ quote component @ '','' @ key_text ''event'' @ quote event
        @ '','' @ key_text ''fields'' @ ''{'' @ fields_text fs @ ''}}'' @ [CHR 0x0A]))"

text \<open>
  \<^verbatim>\<open>Scope\<close>, the timing of one call: the number of a traced call (from the shared counter) and the line written at
  its beginning; and the line at its end, which for a call that is not traced is only written when an exception leaves it.
\<close>

definition scope_begin :: "string option \<Rightarrow> string \<Rightarrow> string \<Rightarrow> string \<Rightarrow> string \<Rightarrow> nat \<Rightarrow> nat option \<times> string option \<times> nat" where
  "scope_begin raw time thread component operation next_id =
     (if log_enabled raw LogDebug
      then (Some next_id, write_line raw time thread LogDebug component ''scope_begin''
        [(''operation'', FieldText operation), (''operation_id'', FieldUnsigned next_id)], (next_id + 1) mod 2 ^ 64)
      else (None, None, next_id))"

definition scope_end :: "string option \<Rightarrow> string \<Rightarrow> string \<Rightarrow> string \<Rightarrow> string \<Rightarrow> nat option \<Rightarrow> int \<Rightarrow> bool \<Rightarrow> string option" where
  "scope_end raw time thread component operation traced elapsed failed =
     (case traced of
        None \<Rightarrow> if \<not> failed then None
          else write_line raw time thread LogError component ''scope_exception'' [(''operation'', FieldText operation)]
      | Some n \<Rightarrow> write_line raw time thread (if failed then LogError else LogDebug) component ''scope_end''
          [(''operation'', FieldText operation), (''operation_id'', FieldUnsigned n), (''elapsed_us'', FieldSigned elapsed),
           (''outcome'', FieldText (if failed then ''exception'' else ''returned''))])"

text \<open>Unless the log is off, an exception that leaves a call always leaves a line; a quiet log has no other line of a call.\<close>

lemma scope_reports:
  assumes "scope_begin raw time thread component operation n = (traced, line, n')"
  shows "(threshold raw \<noteq> LogOff \<longrightarrow> scope_end raw time' thread component operation traced elapsed True \<noteq> None) \<and>
    (\<not> log_enabled raw LogDebug \<longrightarrow> line = None \<and> scope_end raw time' thread component operation traced elapsed False = None)"
proof -
  have "threshold raw \<noteq> LogOff \<Longrightarrow> log_enabled raw LogError"
    by (cases "threshold raw") (simp_all add: log_enabled_def less_eq_Level_def)
  with assms show ?thesis by (auto simp: scope_begin_def scope_end_def write_line_def split: if_splits)
qed

section \<open>Quoting can be undone\<close>

text \<open>A reader of JSON strings, behind the opening quotation mark: the text and the rest.\<close>

definition hex_value :: "char \<Rightarrow> nat" where
  "hex_value d = length (takeWhile (\<lambda>x. x \<noteq> d) ''0123456789abcdef'')"

fun read_chars :: "string \<Rightarrow> (string \<times> string) option" where
  "read_chars [] = None"
| "read_chars (c # cs) =
     (if c = quote_mark then Some ([], cs)
      else if c \<noteq> backslash then (if of_char c < (32 :: nat) then None else map_option (apfst (Cons c)) (read_chars cs))
      else case cs of
        [] \<Rightarrow> None
      | d # ds \<Rightarrow>
          if d = quote_mark \<or> d = backslash then map_option (apfst (Cons d)) (read_chars ds)
          else (case ds of
             z # y # a # b # rest \<Rightarrow>
               if d = CHR ''u'' \<and> z = CHR ''0'' \<and> y = CHR ''0''
               then map_option (apfst (Cons (char_of (16 * hex_value a + hex_value b)))) (read_chars rest)
               else None
           | _ \<Rightarrow> None))"

lemma hex_value_char: "d < 16 \<Longrightarrow> hex_value (hex_char d) = d"
proof -
  have "\<forall>d \<in> set [0..<16]. hex_value (hex_char d) = d" by code_simp
  then show "d < 16 \<Longrightarrow> hex_value (hex_char d) = d" by simp
qed

lemma hex_char_printable: "d < 16 \<Longrightarrow> 32 \<le> (of_char (hex_char d) :: nat) \<and> (of_char (hex_char d) :: nat) < 127"
proof -
  have "\<forall>d \<in> set [0..<16]. 32 \<le> (of_char (hex_char d) :: nat) \<and> (of_char (hex_char d) :: nat) < 127" by code_simp
  then show "d < 16 \<Longrightarrow> 32 \<le> (of_char (hex_char d) :: nat) \<and> (of_char (hex_char d) :: nat) < 127" by simp
qed

lemma of_char_div_16: "(of_char c :: nat) div 16 < 16"
proof -
  have "(of_char c :: nat) < 256" by simp
  then show ?thesis by linarith
qed

lemma read_quote_char: "read_chars (quote_char c @ r) = map_option (apfst (Cons c)) (read_chars r)"
proof -
  have "char_of (16 * (of_char c div 16) + of_char c mod 16 :: nat) = c" by (simp add: mult_div_mod_eq)
  then show ?thesis by (simp add: quote_char_def hex_value_char of_char_div_16)
qed

lemma read_quote_chars: "read_chars (concat (map quote_char t) @ r) = map_option (apfst ((@) t)) (read_chars r)"
  by (induction t) (auto simp: read_quote_char option.map_comp comp_def apfst_def map_prod_def option.map_ident split_def)

text \<open>What is read is the text, cut after 192 characters and marked as such.\<close>

lemma quote_roundtrip:
  "\<exists>cs. quote text = quote_mark # cs \<and>
     read_chars (cs @ r) = Some (take 192 text @ (if 192 < length text then ''...'' else ''''), r)"
  by (simp add: quote_def read_quote_chars)

section \<open>One line, and no secret in it\<close>

definition printable :: "string \<Rightarrow> bool" where
  "printable t \<longleftrightarrow> list_all (\<lambda>c. 32 \<le> (of_char c :: nat) \<and> (of_char c :: nat) < 127) t"

lemma printable_append [simp]: "printable (s @ t) \<longleftrightarrow> printable s \<and> printable t"
  by (simp add: printable_def)

lemma printable_Cons [simp]: "printable (c # t) \<longleftrightarrow> 32 \<le> (of_char c :: nat) \<and> (of_char c :: nat) < 127 \<and> printable t"
  by (simp add: printable_def)

lemma printable_Nil [simp]: "printable []"
  by (simp add: printable_def)

lemma printable_quote_char: "printable (quote_char c)"
  using hex_char_printable [OF of_char_div_16 [of c]] hex_char_printable [of "of_char c mod 16"] by (auto simp: quote_char_def)

lemma printable_quote [simp]: "printable (quote t)"
proof -
  have "printable (concat (map quote_char s))" for s by (induction s) (simp_all add: printable_quote_char)
  then show ?thesis by (simp add: quote_def)
qed

lemma printable_digits: "printable (to_string_nat n)"
  using to_string_nat_digits [of _ n] by (fastforce simp: printable_def list_all_iff is_digit_def)

lemma printable_value [simp]: "printable (value_text v)"
  by (cases v) (simp_all add: printable_digits)

lemma printable_fields [simp]: "printable (fields_text fs)"
  by (induction fs rule: fields_text.induct) (simp_all add: field_text_def)

text \<open>Two field lists with the same names and the same values of the fields that may be written.\<close>

definition same_public :: "(string \<times> field_value) list \<Rightarrow> (string \<times> field_value) list \<Rightarrow> bool" where
  "same_public fs gs \<longleftrightarrow> list_all2 (\<lambda>f g. fst f = fst g \<and> (allowed (fst f) \<longrightarrow> snd f = snd g)) fs gs"

lemma same_public_text: "same_public fs gs \<Longrightarrow> fields_text fs = fields_text gs"
  unfolding same_public_def
proof (induction fs arbitrary: gs rule: fields_text.induct)
  case (2 f)
  then obtain g where "gs = [g]" "fst f = fst g" "allowed (fst f) \<longrightarrow> snd f = snd g" by (auto simp: list_all2_Cons1)
  then show ?case by (simp add: field_text_def)
next
  case (3 f f2 fs)
  then obtain g g2 gs' where gs: "gs = g # g2 # gs'" "fst f = fst g" "allowed (fst f) \<longrightarrow> snd f = snd g"
    and tail: "list_all2 (\<lambda>f g. fst f = fst g \<and> (allowed (fst f) \<longrightarrow> snd f = snd g)) (f2 # fs) (g2 # gs')"
    by (auto simp: list_all2_Cons1)
  from gs "3.IH" [OF tail] show ?case by (simp add: field_text_def)
qed simp

text \<open>
  A line of the log is one line, and keeps secrets: whatever bytes the component, the event and the fields hold, what
  is written is printable ASCII with one newline, at the end; and it does not depend on the value of any field whose name
  is not in the list of allowed names.
\<close>

theorem log_line_safe:
  assumes line: "write_line raw time thread level component event fs = Some line" and prefix: "printable time" "printable thread"
  shows "(\<exists>text. line = text @ [CHR 0x0A] \<and> printable text) \<and>
    (\<forall>gs. same_public fs gs \<longrightarrow> write_line raw time thread level component event gs = Some line)"
proof
  from line prefix show "\<exists>text. line = text @ [CHR 0x0A] \<and> printable text"
    by (auto simp: write_line_def key_text_def split: if_splits)
  show "\<forall>gs. same_public fs gs \<longrightarrow> write_line raw time thread level component event gs = Some line"
    using line by (auto simp: write_line_def same_public_text split: if_splits)
qed

theorem log_line_safe_witness:
  "\<exists>line. write_line (Some ''debug'') ''2026'' ''1'' LogInfo ''login'' ''done'' [(''status'', FieldSigned 1), (''token'', FieldText ''secret'')]
       = Some line \<and>
     write_line (Some ''debug'') ''2026'' ''1'' LogInfo ''login'' ''done'' [(''status'', FieldSigned 1), (''token'', FieldText ''other'')]
       = Some line"
proof -
  let ?fs = "[(''status'', FieldSigned 1), (''token'', FieldText ''secret'')]"
  obtain line where l: "write_line (Some ''debug'') ''2026'' ''1'' LogInfo ''login'' ''done'' ?fs = Some line"
    by (simp add: write_line_def log_enabled_def threshold_def less_eq_Level_def)
  have "printable ''2026''" "printable ''1''" by simp_all
  from log_line_safe [OF l this] have
    "same_public ?fs gs \<Longrightarrow> write_line (Some ''debug'') ''2026'' ''1'' LogInfo ''login'' ''done'' gs = Some line" for gs by blast
  moreover have "same_public ?fs [(''status'', FieldSigned 1), (''token'', FieldText ''other'')]"
    by (simp add: same_public_def allowed_def allowed_keys_def)
  ultimately show ?thesis using l by blast
qed


end
