(* ===== verification/Http_Threads.thy ===== *)
theory Http_Threads
  imports Prelude Threads
begin

text \<open>
  The listening server and the pool of HTTP threads: \<^verbatim>\<open>src/src/server/TcpServer.cpp\<close> and
  \<^verbatim>\<open>src/src/server/ThreadPool.cpp\<close>.  The operating system is a parameter: each call takes the outcomes of its system
  calls.  Each critical section of the pool's mutex is one operation; threads are their interleavings.  Between two of them
  a thread serves a connection, which is the HTTP session's business.

  A thread that has taken a descriptor is in one of five states: it has not registered the descriptor yet; it serves it; it
  has handed it to the WebSocket pool but still has it registered; it has unregistered it and is about to close it; or it
  waits.  The lists \<open>taken_in\<close>, \<open>closed_fds\<close>, \<open>forwarded_fds\<close> and \<open>shut_down\<close> only record what happened.
\<close>

section \<open>The listening socket\<close>

datatype accept_errno = Try_again | Interrupted | Other_errno

datatype poll_outcome = Poll_timeout | Poll_failed accept_errno | Poll_events bool bool

datatype accept_outcome = Accepted_fd int | Accept_failed accept_errno

record TcpServer =
  server_fd :: "int option"
  server_ip :: string
  server_port :: int

text \<open>The outcomes of \<^verbatim>\<open>socket\<close>, \<^verbatim>\<open>fcntl\<close>, \<^verbatim>\<open>setsockopt\<close>, \<^verbatim>\<open>inet_pton\<close>, \<^verbatim>\<open>bind\<close> and \<^verbatim>\<open>listen\<close>.\<close>

record listen_outcomes =
  lo_socket :: "int option"
  lo_nonblocking :: bool
  lo_reuse :: bool
  lo_address :: bool
  lo_bind :: bool
  lo_listen :: bool

definition createSocket :: "listen_outcomes \<Rightarrow> TcpServer \<Rightarrow> unit result \<times> TcpServer" where
  "createSocket os t =
     (let t = t\<lparr>server_fd := lo_socket os\<rparr>
      in if lo_socket os = None then (Inl (RuntimeError ''Failed to create socket''), t)
         else if \<not> lo_nonblocking os then (Inl (SystemError ''nonblocking listener''), t)
         else if \<not> lo_reuse os then (Inl (SystemError ''SO_REUSEADDR''), t)
         else (Inr (), t))"

definition port_text :: "int \<Rightarrow> string" where
  "port_text n = (if n < 0 then CHR ''-'' # to_string_nat (nat (- n)) else to_string_nat (nat n))"

definition bindSocket :: "listen_outcomes \<Rightarrow> TcpServer \<Rightarrow> unit result" where
  "bindSocket os t =
     (if \<not> lo_address os then Inl (RuntimeError ''Invalid IP address'')
      else if \<not> lo_bind os
      then Inl (SystemError (''Failed to bind socket '' @ server_ip t @ '':'' @ port_text (server_port t)))
      else Inr ())"

definition listenSocket :: "listen_outcomes \<Rightarrow> TcpServer \<Rightarrow> unit result" where
  "listenSocket os t = (if \<not> lo_listen os then Inl (RuntimeError ''Failed to listen'') else Inr ())"

definition server_start :: "listen_outcomes \<Rightarrow> TcpServer \<Rightarrow> unit result \<times> TcpServer" where
  "server_start os t =
     (case createSocket os t of
        (Inl e, t) \<Rightarrow> (Inl e, t)
      | (Inr _, t) \<Rightarrow>
          (case bindSocket os t of
             Inl e \<Rightarrow> (Inl e, t)
           | Inr _ \<Rightarrow> (listenSocket os t, t)))"

definition server_stop :: "TcpServer \<Rightarrow> TcpServer" where
  "server_stop t = t\<lparr>server_fd := None\<rparr>"

text \<open>
  \<^verbatim>\<open>acceptConnection\<close>: no descriptor is not an error.  The two booleans of \<open>Poll_events\<close> are an error condition and
  \<^verbatim>\<open>POLLIN\<close>; \<open>timeouts\<close> is whether both timeouts could be set, else the new descriptor is closed.
\<close>

definition acceptConnection :: "poll_outcome \<Rightarrow> accept_outcome \<Rightarrow> bool \<Rightarrow> int option result" where
  "acceptConnection ready accepted timeouts =
     (case ready of
        Poll_timeout \<Rightarrow> Inr None
      | Poll_failed e \<Rightarrow> if e = Interrupted then Inr None else Inl (SystemError ''poll listener'')
      | Poll_events failed readable \<Rightarrow>
          if failed then Inl (RuntimeError ''Listener unavailable'')
          else if \<not> readable then Inr None
          else case accepted of
            Accept_failed e \<Rightarrow> if e \<in> {Try_again, Interrupted} then Inr None else Inl (SystemError ''accept'')
          | Accepted_fd fd \<Rightarrow> if timeouts then Inr (Some fd) else Inl (SystemError ''client socket timeout''))"

section \<open>The pool of HTTP threads\<close>

record ThreadPoolConfig =
  tp_min_capacity :: int
  tp_max_capacity :: int

datatype http_thread = Idle | Taken int | Serving int | Handed_over int | Leaving int | Gone

record ThreadPool =
  tp_config :: ThreadPoolConfig
  task_queue :: "int list"
  http_threads :: "http_thread list"
  active_fds :: "int set"
  tp_initialized :: bool
  is_running :: bool
  tp_stopping :: bool
  taken_in :: "int list"
  closed_fds :: "int list"
  forwarded_fds :: "int list"
  shut_down :: "int set"

definition ThreadPool_of :: "ThreadPoolConfig \<Rightarrow> ThreadPool" where
  "ThreadPool_of config = \<lparr>tp_config = config, task_queue = [], http_threads = [], active_fds = {}, tp_initialized = False,
     is_running = False, tp_stopping = True, taken_in = [], closed_fds = [], forwarded_fds = [], shut_down = {}\<rparr>"

definition requestStop :: "ThreadPool \<Rightarrow> ThreadPool" where
  "requestStop p = p\<lparr>tp_stopping := True, closed_fds := closed_fds p @ task_queue p, task_queue := [],
     shut_down := shut_down p \<union> active_fds p\<rparr>"

text \<open>\<^verbatim>\<open>init\<close>: \<open>created\<close> is how many threads can be created; if fewer than asked, the pool is closed again.\<close>

definition threads_init :: "nat \<Rightarrow> ThreadPool \<Rightarrow> bool result \<times> ThreadPool" where
  "threads_init created p =
     (if tp_initialized p then (Inr False, p)
      else if tp_min_capacity (tp_config p) \<le> 0 \<or> tp_max_capacity (tp_config p) \<le> 0
      then (Inl (InvalidArgument ''Worker count and queue capacity must be positive''), p)
      else
        let wanted = nat (tp_min_capacity (tp_config p)); p = p\<lparr>tp_stopping := False, tp_initialized := True\<rparr>
        in if created < wanted then (Inr False, requestStop p)
           else (Inr True, p\<lparr>http_threads := replicate wanted Idle\<rparr>))"

definition running_start :: "ThreadPool \<Rightarrow> unit result \<times> ThreadPool" where
  "running_start p =
     (if \<not> tp_initialized p \<or> tp_stopping p \<or> is_running p then (Inl (LogicError ''Thread pool is not ready to run''), p)
      else (Inr (), p\<lparr>is_running := True\<rparr>))"

definition running_end :: "ThreadPool \<Rightarrow> ThreadPool" where
  "running_end p = requestStop (p\<lparr>is_running := False\<rparr>)"

text \<open>What the accepting loop does with a new descriptor: leave the loop, reject it, or queue it.\<close>

definition take_connection :: "int \<Rightarrow> ThreadPool \<Rightarrow> bool \<times> ThreadPool" where
  "take_connection fd p =
     (let p = p\<lparr>taken_in := taken_in p @ [fd]\<rparr>
      in if tp_stopping p then (False, p\<lparr>closed_fds := closed_fds p @ [fd]\<rparr>)
         else if int (length (task_queue p)) \<ge> tp_max_capacity (tp_config p) then (True, p\<lparr>closed_fds := closed_fds p @ [fd]\<rparr>)
         else (True, p\<lparr>task_queue := task_queue p @ [fd]\<rparr>))"

text \<open>
  One pass of the loop of \<^verbatim>\<open>running\<close>: whether it goes on.  \<open>asked\<close> is the answer of the function that asks for a
  stop, which may throw.
\<close>

definition running_pass :: "bool result \<Rightarrow> int option result \<Rightarrow> ThreadPool \<Rightarrow> bool result \<times> ThreadPool" where
  "running_pass asked accepted p =
     (case asked of
        Inl e \<Rightarrow> (Inl e, running_end p)
      | Inr stopRequested \<Rightarrow>
          if stopRequested \<or> tp_stopping p then (Inr False, running_end p)
          else case accepted of
            Inl e \<Rightarrow> (Inl e, running_end p)
          | Inr None \<Rightarrow> (Inr True, p)
          | Inr (Some fd) \<Rightarrow>
              (case take_connection fd p of (True, p) \<Rightarrow> (Inr True, p) | (False, p) \<Rightarrow> (Inr False, running_end p)))"

text \<open>The steps of \<^verbatim>\<open>worker\<close>; \<open>None\<close> while the condition that a thread waits for does not hold.\<close>

definition worker_take :: "nat \<Rightarrow> ThreadPool \<Rightarrow> ThreadPool option" where
  "worker_take i p =
     (if \<not> (tp_stopping p \<or> task_queue p \<noteq> []) then None
      else if tp_stopping p then Some (p\<lparr>http_threads := (http_threads p)[i := Gone]\<rparr>)
      else Some (p\<lparr>http_threads := (http_threads p)[i := Taken (hd (task_queue p))], task_queue := tl (task_queue p)\<rparr>))"

definition worker_register :: "nat \<Rightarrow> int \<Rightarrow> ThreadPool \<Rightarrow> ThreadPool" where
  "worker_register i fd p =
     (if tp_stopping p then p\<lparr>http_threads := (http_threads p)[i := Idle], closed_fds := closed_fds p @ [fd]\<rparr>
      else p\<lparr>http_threads := (http_threads p)[i := Serving fd], active_fds := insert fd (active_fds p)\<rparr>)"

text \<open>The connection is moved to the WebSocket pool, which owns it or closes it from then on.\<close>

definition worker_forward :: "nat \<Rightarrow> int \<Rightarrow> ThreadPool \<Rightarrow> ThreadPool" where
  "worker_forward i fd p = p\<lparr>http_threads := (http_threads p)[i := Handed_over fd], forwarded_fds := forwarded_fds p @ [fd]\<rparr>"

definition worker_unregister :: "nat \<Rightarrow> int \<Rightarrow> http_thread \<Rightarrow> ThreadPool \<Rightarrow> ThreadPool" where
  "worker_unregister i fd th p = p\<lparr>http_threads := (http_threads p)[i := th], active_fds := active_fds p - {fd}\<rparr>"

definition worker_close :: "nat \<Rightarrow> int \<Rightarrow> ThreadPool \<Rightarrow> ThreadPool" where
  "worker_close i fd p = p\<lparr>http_threads := (http_threads p)[i := Idle], closed_fds := closed_fds p @ [fd]\<rparr>"

definition threads_joined :: "ThreadPool \<Rightarrow> bool" where
  "threads_joined p \<longleftrightarrow> (\<forall>th \<in> set (http_threads p). th = Gone)"

text \<open>\<^verbatim>\<open>close\<close> asks for the stop and returns when every thread has been joined.\<close>

definition threads_close :: "ThreadPool \<Rightarrow> ThreadPool option" where
  "threads_close p =
     (let p = requestStop p in if threads_joined p then Some (p\<lparr>http_threads := []\<rparr>) else None)"

section \<open>Runs\<close>

text \<open>One step of one thread of the pool, and one step of the pool: a thread, the accepting loop or the owner.\<close>

inductive http_thread_step :: "ThreadPool \<Rightarrow> ThreadPool \<Rightarrow> bool" where
  takes_fd: "i < length (http_threads p) \<Longrightarrow> http_threads p ! i = Idle \<Longrightarrow> worker_take i p = Some p' \<Longrightarrow> http_thread_step p p'"
| registers: "i < length (http_threads p) \<Longrightarrow> http_threads p ! i = Taken fd \<Longrightarrow> http_thread_step p (worker_register i fd p)"
| forwards: "i < length (http_threads p) \<Longrightarrow> http_threads p ! i = Serving fd \<Longrightarrow> http_thread_step p (worker_forward i fd p)"
| forgets: "i < length (http_threads p) \<Longrightarrow> http_threads p ! i = Handed_over fd \<Longrightarrow>
    http_thread_step p (worker_unregister i fd Idle p)"
| unregisters: "i < length (http_threads p) \<Longrightarrow> http_threads p ! i = Serving fd \<Longrightarrow>
    http_thread_step p (worker_unregister i fd (Leaving fd) p)"
| closes: "i < length (http_threads p) \<Longrightarrow> http_threads p ! i = Leaving fd \<Longrightarrow> http_thread_step p (worker_close i fd p)"

inductive http_pool_step :: "ThreadPool \<Rightarrow> ThreadPool \<Rightarrow> bool" where
  thread: "http_thread_step p p' \<Longrightarrow> http_pool_step p p'"
| initialise: "http_pool_step p (snd (threads_init created p))"
| starts: "http_pool_step p (snd (running_start p))"
| passes: "is_running p \<Longrightarrow> http_pool_step p (snd (running_pass asked accepted p))"
| stops: "http_pool_step p (requestStop p)"
| joined: "threads_close p = Some p' \<Longrightarrow> http_pool_step p p'"


section \<open>The invariant\<close>

text \<open>What a thread holds: a connection that it handed over belongs to the WebSocket pool, registered or not.\<close>

fun held :: "http_thread \<Rightarrow> int list" where
  "held (Taken fd) = [fd]"
| "held (Serving fd) = [fd]"
| "held (Leaving fd) = [fd]"
| "held _ = []"

definition held_fds :: "ThreadPool \<Rightarrow> int list" where
  "held_fds p = concat (map held (http_threads p))"

text \<open>
  Every accepted connection is queued, held by one thread, closed or handed over; the queue is bounded; a stopped pool
  queues nothing; a pool that was not initialised has no threads and is stopped.
\<close>

definition threads_inv :: "ThreadPool \<Rightarrow> bool" where
  "threads_inv p \<longleftrightarrow>
     mset (taken_in p) = mset (task_queue p) + mset (held_fds p) + mset (closed_fds p) + mset (forwarded_fds p) \<and>
     int (length (task_queue p)) \<le> max 0 (tp_max_capacity (tp_config p)) \<and>
     int (length (http_threads p)) \<le> max 0 (tp_min_capacity (tp_config p)) \<and>
     (tp_stopping p \<longrightarrow> task_queue p = []) \<and>
     (\<not> tp_initialized p \<longrightarrow> http_threads p = [] \<and> tp_stopping p)"

lemma held_fds_update:
  "i < length (http_threads p) \<Longrightarrow>
   mset (concat (map held ((http_threads p)[i := th]))) + mset (held (http_threads p ! i)) = mset (held_fds p) + mset (held th)"
  unfolding held_fds_def by (rule mset_concat_update)

lemma http_thread_step_inv:
  assumes "http_thread_step p p'" "threads_inv p"
  shows "threads_inv p'"
  using assms
proof (cases rule: http_thread_step.cases)
  case (takes_fd i)
  note r = held_fds_update [OF takes_fd(1)]
  from takes_fd assms(2) r [of Gone] r [of "Taken (hd (task_queue p))"] show ?thesis
    by (cases "task_queue p") (auto simp: worker_take_def threads_inv_def held_fds_def split: if_splits)
next
  case (registers i fd)
  with assms(2) held_fds_update [OF registers(2), of Idle] held_fds_update [OF registers(2), of "Serving fd"] show ?thesis
    by (auto simp: worker_register_def threads_inv_def held_fds_def)
next
  case (forwards i fd)
  with assms(2) held_fds_update [OF forwards(2), of "Handed_over fd"] show ?thesis
    by (auto simp: worker_forward_def threads_inv_def held_fds_def)
next
  case (forgets i fd)
  with assms(2) held_fds_update [OF forgets(2), of Idle] show ?thesis
    by (auto simp: worker_unregister_def threads_inv_def held_fds_def)
next
  case (unregisters i fd)
  with assms(2) held_fds_update [OF unregisters(2), of "Leaving fd"] show ?thesis
    by (auto simp: worker_unregister_def threads_inv_def held_fds_def)
next
  case (closes i fd)
  with assms(2) held_fds_update [OF closes(2), of Idle] show ?thesis
    by (auto simp: worker_close_def threads_inv_def held_fds_def)
qed

lemma requestStop_inv: "threads_inv p \<Longrightarrow> threads_inv (requestStop p)"
  by (auto simp: threads_inv_def requestStop_def held_fds_def)

lemma running_end_inv: "threads_inv p \<Longrightarrow> threads_inv (running_end p)"
  unfolding running_end_def by (rule requestStop_inv) (auto simp: threads_inv_def held_fds_def)

lemma take_connection_inv: "threads_inv p \<Longrightarrow> threads_inv (snd (take_connection fd p))"
  by (auto simp: threads_inv_def take_connection_def held_fds_def Let_def)

lemma running_pass_inv:
  assumes "threads_inv p"
  shows "threads_inv (snd (running_pass q a p))"
proof (cases "q \<noteq> Inr False \<or> tp_stopping p \<or> (\<exists>e. a = Inl e) \<or> a = Inr None")
  case True
  with assms show ?thesis by (auto simp: running_pass_def running_end_inv split: sum.splits)
next
  case False
  then obtain fd where "a = Inr (Some fd)" by (cases a) auto
  with False take_connection_inv [OF assms, of fd] show ?thesis
    by (cases "take_connection fd p") (auto simp: running_pass_def running_end_inv split: bool.splits)
qed

lemma threads_init_inv: "threads_inv p \<Longrightarrow> threads_inv (snd (threads_init n p))"
proof -
  assume inv: "threads_inv p"
  have "threads_inv (requestStop (p\<lparr>tp_stopping := False, tp_initialized := True\<rparr>))"
    using inv by (intro requestStop_inv) (auto simp: threads_inv_def held_fds_def)
  moreover have "concat (map held (replicate k Idle)) = []" for k by (induction k) simp_all
  ultimately show ?thesis using inv
    by (auto simp: threads_init_def Let_def threads_inv_def held_fds_def)
qed

lemma held_Gone: "\<forall>th \<in> set ths. th = Gone \<Longrightarrow> concat (map held ths) = []"
  by (induction ths) auto

lemma threads_close_inv: "threads_close p = Some p' \<Longrightarrow> threads_inv p \<Longrightarrow> threads_inv p'"
  using requestStop_inv [of p]
  by (auto simp: threads_close_def Let_def threads_joined_def threads_inv_def held_fds_def held_Gone split: if_splits)

lemma http_pool_step_inv: "http_pool_step p p' \<Longrightarrow> threads_inv p \<Longrightarrow> threads_inv p'"
  by (induction rule: http_pool_step.induct)
    (auto intro: http_thread_step_inv threads_init_inv running_pass_inv requestStop_inv threads_close_inv
      simp: running_start_def, simp_all add: threads_inv_def held_fds_def)

lemma http_pool_steps_inv: "http_pool_step\<^sup>*\<^sup>* p p' \<Longrightarrow> threads_inv p \<Longrightarrow> threads_inv p'"
  by (induction rule: rtranclp_induct) (auto intro: http_pool_step_inv)

lemma ThreadPool_of_inv: "threads_inv (ThreadPool_of config)"
  by (simp add: ThreadPool_of_def threads_inv_def held_fds_def)

section \<open>Closing\<close>

fun fd_steps :: "http_thread \<Rightarrow> nat" where
  "fd_steps Idle = 1"
| "fd_steps (Taken fd) = 2"
| "fd_steps (Serving fd) = 3"
| "fd_steps (Handed_over fd) = 2"
| "fd_steps (Leaving fd) = 2"
| "fd_steps Gone = 0"

definition http_steps_left :: "ThreadPool \<Rightarrow> nat" where
  "http_steps_left p = (\<Sum>th\<leftarrow>http_threads p. fd_steps th)"

lemma http_steps_left_le: "http_steps_left p \<le> 3 * length (http_threads p)"
proof -
  have "fd_steps th \<le> 3" for th by (cases th) auto
  then show ?thesis unfolding http_steps_left_def by (rule sum_list_le)
qed

lemma put_left:
  "i < length (http_threads p) \<Longrightarrow> fd_steps th < fd_steps (http_threads p ! i) \<Longrightarrow>
   (\<Sum>th\<leftarrow>(http_threads p)[i := th]. fd_steps th) < http_steps_left p"
  using sum_list_put [of i "http_threads p" fd_steps th] by (simp add: http_steps_left_def)

lemma http_thread_step_stopping:
  assumes "http_thread_step p p'" "tp_stopping p"
  shows "tp_stopping p' \<and> http_steps_left p' < http_steps_left p"
  using assms
proof (cases rule: http_thread_step.cases)
  case (takes_fd i)
  with assms(2) put_left [OF takes_fd(1), of Gone] show ?thesis
    by (auto simp: worker_take_def http_steps_left_def)
next
  case (registers i fd)
  with assms(2) put_left [OF registers(2), of Idle] show ?thesis by (auto simp: worker_register_def http_steps_left_def)
next
  case (forwards i fd)
  with assms(2) put_left [OF forwards(2), of "Handed_over fd"] show ?thesis by (auto simp: worker_forward_def http_steps_left_def)
next
  case (forgets i fd)
  with assms(2) put_left [OF forgets(2), of Idle] show ?thesis by (auto simp: worker_unregister_def http_steps_left_def)
next
  case (unregisters i fd)
  with assms(2) put_left [OF unregisters(2), of "Leaving fd"] show ?thesis by (auto simp: worker_unregister_def http_steps_left_def)
next
  case (closes i fd)
  with assms(2) put_left [OF closes(2), of Idle] show ?thesis by (auto simp: worker_close_def http_steps_left_def)
qed

lemma http_thread_progress:
  assumes "tp_stopping p" "\<not> threads_joined p"
  shows "\<exists>p'. http_thread_step p p'"
proof -
  from assms(2) obtain i where i: "i < length (http_threads p)" "http_threads p ! i \<noteq> Gone"
    by (auto simp: threads_joined_def in_set_conv_nth)
  show ?thesis
  proof (cases "http_threads p ! i")
    case Idle
    have "\<exists>p'. worker_take i p = Some p'" using assms(1) by (simp add: worker_take_def)
    with Idle i show ?thesis by (blast intro: takes_fd)
  qed (use i in \<open>auto intro: registers forwards forgets closes\<close>)
qed

interpretation stopped: terminating http_thread_step tp_stopping http_steps_left threads_joined
  by unfold_locales (auto dest: http_thread_step_stopping http_thread_progress)

lemma http_thread_steps_inv: "(http_thread_step ^^ k) p p' \<Longrightarrow> threads_inv p \<Longrightarrow> threads_inv p'"
  by (induction k arbitrary: p') (auto intro: http_thread_step_inv)

lemma threads_joined_stop: "tp_stopping p \<Longrightarrow> threads_joined p \<Longrightarrow> threads_close p \<noteq> None"
  by (simp add: threads_close_def threads_joined_def requestStop_def)

text \<open>
  C26. Stopping the HTTP threads loses no connection.  In every run of the pool, from the moment it has been stopped, its
  threads make at most three steps each; until all of them have left, one of them can make a step; and then \<^verbatim>\<open>close\<close>
  returns, nothing is queued, and every connection that was ever accepted has been closed or handed to the WebSocket
  pool, each exactly once.  Throughout, the queue holds at most the configured number of connections.
\<close>

theorem http_pool_drains:
  assumes "http_pool_step\<^sup>*\<^sup>* (ThreadPool_of config) p" "tp_stopping p" "(http_thread_step ^^ k) p p'"
  shows "k \<le> 3 * length (http_threads p) \<and> int (length (task_queue p)) \<le> max 0 (tp_max_capacity (tp_config p)) \<and>
    (if threads_joined p'
     then threads_close p' \<noteq> None \<and> task_queue p' = [] \<and>
       mset (taken_in p') = mset (closed_fds p') + mset (forwarded_fds p')
     else \<exists>p''. http_thread_step p' p'')"
proof -
  have inv: "threads_inv p" using http_pool_steps_inv [OF assms(1) ThreadPool_of_inv] .
  note s = stopped.steps [OF assms(2,3)]
  have "mset (taken_in p') = mset (closed_fds p') + mset (forwarded_fds p') \<and> task_queue p' = []" if "threads_joined p'"
    using that s http_thread_steps_inv [OF assms(3) inv] by (auto simp: threads_inv_def threads_joined_def held_fds_def held_Gone)
  moreover have "\<exists>p''. http_thread_step p' p''" if "\<not> threads_joined p'" using http_thread_progress that s by blast
  moreover have "k \<le> 3 * length (http_threads p)" using s http_steps_left_le [of p] by linarith
  moreover have "int (length (task_queue p)) \<le> max 0 (tp_max_capacity (tp_config p))" using inv by (simp add: threads_inv_def)
  ultimately show ?thesis using s threads_joined_stop [of p'] by simp
qed

text \<open>
  A pool of one thread serves connection 5, has 6 queued, and is stopped: three steps later the thread has left and both
  are closed.
\<close>

definition served_pool :: "int list \<Rightarrow> http_thread \<Rightarrow> int set \<Rightarrow> bool \<Rightarrow> int list \<Rightarrow> int list \<Rightarrow> int set \<Rightarrow> ThreadPool" where
  "served_pool queued th active stopping taken closed down = \<lparr>tp_config = \<lparr>tp_min_capacity = 1, tp_max_capacity = 2\<rparr>,
     task_queue = queued, http_threads = [th], active_fds = active, tp_initialized = True, is_running = True,
     tp_stopping = stopping, taken_in = taken, closed_fds = closed, forwarded_fds = [], shut_down = down\<rparr>"

lemma served_pool_runs:
  "http_pool_step\<^sup>*\<^sup>* (ThreadPool_of \<lparr>tp_min_capacity = 1, tp_max_capacity = 2\<rparr>)
     (served_pool [] (Serving 5) {5} True [5, 6] [6] {5})"
proof -
  define p0 where "p0 = ThreadPool_of \<lparr>tp_min_capacity = 1, tp_max_capacity = 2\<rparr>"
  let ?p1 = "snd (running_start (snd (threads_init 1 p0)))"
  have p1: "?p1 = served_pool [] Idle {} False [] [] {}"
    by (simp add: p0_def ThreadPool_of_def threads_init_def running_start_def served_pool_def)
  have a: "http_pool_step p0 (snd (threads_init 1 p0))" by (rule initialise)
  have b: "http_pool_step (snd (threads_init 1 p0)) (served_pool [] Idle {} False [] [] {})" using starts p1 by metis
  have c: "http_pool_step (served_pool [] Idle {} False [] [] {}) (served_pool [5] Idle {} False [5] [] {})"
    using passes [of "served_pool [] Idle {} False [] [] {}" "Inr False" "Inr (Some 5)"]
    by (simp add: served_pool_def running_pass_def take_connection_def)
  have d: "http_pool_step (served_pool [5] Idle {} False [5] [] {}) (served_pool [] (Taken 5) {} False [5] [] {})"
    by (intro thread takes_fd [of 0]) (simp_all add: served_pool_def worker_take_def)
  have e: "http_pool_step (served_pool [] (Taken 5) {} False [5] [] {}) (served_pool [] (Serving 5) {5} False [5] [] {})"
    using registers [of 0 "served_pool [] (Taken 5) {} False [5] [] {}" 5]
    by (intro thread) (simp add: served_pool_def worker_register_def)
  have f: "http_pool_step (served_pool [] (Serving 5) {5} False [5] [] {}) (served_pool [6] (Serving 5) {5} False [5, 6] [] {})"
    using passes [of "served_pool [] (Serving 5) {5} False [5] [] {}" "Inr False" "Inr (Some 6)"]
    by (simp add: served_pool_def running_pass_def take_connection_def)
  have g: "http_pool_step (served_pool [6] (Serving 5) {5} False [5, 6] [] {}) (served_pool [] (Serving 5) {5} True [5, 6] [6] {5})"
    using stops [of "served_pool [6] (Serving 5) {5} False [5, 6] [] {}"] by (simp add: served_pool_def requestStop_def)
  from a b c d e f g show ?thesis unfolding p0_def by (meson converse_rtranclp_into_rtranclp rtranclp.rtrancl_refl)
qed

lemma served_pool_stops:
  "(http_thread_step ^^ 3) (served_pool [] (Serving 5) {5} True [5, 6] [6] {5}) (served_pool [] Gone {} True [5, 6] [6, 5] {5})"
proof -
  have a: "http_thread_step (served_pool [] (Serving 5) {5} True [5, 6] [6] {5}) (served_pool [] (Leaving 5) {} True [5, 6] [6] {5})"
    using unregisters [of 0 "served_pool [] (Serving 5) {5} True [5, 6] [6] {5}" 5]
    by (simp add: served_pool_def worker_unregister_def)
  have b: "http_thread_step (served_pool [] (Leaving 5) {} True [5, 6] [6] {5}) (served_pool [] Idle {} True [5, 6] [6, 5] {5})"
    using closes [of 0 "served_pool [] (Leaving 5) {} True [5, 6] [6] {5}" 5] by (simp add: served_pool_def worker_close_def)
  have c: "http_thread_step (served_pool [] Idle {} True [5, 6] [6, 5] {5}) (served_pool [] Gone {} True [5, 6] [6, 5] {5})"
    by (rule takes_fd [of 0]) (simp_all add: served_pool_def worker_take_def)
  from a b c show ?thesis by (auto simp: numeral_3_eq_3)
qed

theorem http_pool_drains_witness:
  "\<exists>p p'. http_pool_step\<^sup>*\<^sup>* (ThreadPool_of \<lparr>tp_min_capacity = 1, tp_max_capacity = 2\<rparr>) p \<and> tp_stopping p \<and>
     (http_thread_step ^^ 3) p p' \<and> threads_joined p' \<and>
     mset (taken_in p') = mset (closed_fds p') + mset (forwarded_fds p') \<and> closed_fds p' = [6, 5]"
  using http_pool_drains [OF served_pool_runs _ served_pool_stops] served_pool_runs served_pool_stops
  by (intro exI [of _ "served_pool [] (Serving 5) {5} True [5, 6] [6] {5}"]
        exI [of _ "served_pool [] Gone {} True [5, 6] [6, 5] {5}"] conjI)
    (simp_all add: served_pool_def threads_joined_def)

text \<open>
  A thread that has handed its connection over still has the descriptor's number registered.  When the WebSocket pool
  closes the descriptor before the thread unregisters it, the same number can be accepted and registered again by
  another thread, whose registration the first thread then removes: a stop no longer interrupts that connection.
\<close>

lemma late_unregister:
  assumes "i < length (http_threads p)" "http_threads p ! i = Handed_over fd" "j < length (http_threads p)" "j \<noteq> i"
    "http_threads p ! j = Taken fd" "\<not> tp_stopping p"
  shows "let q = requestStop (worker_unregister i fd Idle (worker_register j fd p))
    in http_threads q ! j = Serving fd \<and> (fd \<in> shut_down q \<longleftrightarrow> fd \<in> shut_down p)"
  using assms by (auto simp: worker_register_def worker_unregister_def requestStop_def)

end
