(* ===== verification/Server_Process.thy ===== *)
theory Server_Process
  imports Db_Pool Service_Pool Ws_Pool Http_Threads
begin

text \<open>
  The process: what \<^verbatim>\<open>src/src/main.cpp\<close> starts, in which order, and how it ends.  Its local objects that own
  threads or descriptors are one record; an object that a failure prevents from being constructed is in the record as
  constructed and not started, which owns nothing.  The environment is a parameter: the outcomes of the system calls and
  the two environment variables.  The routes that \<^verbatim>\<open>main\<close> registers are in the theory of the routes.
\<close>

section \<open>Start\<close>

record main_env =
  signals_blocked :: bool
  sodium_ready :: bool
  env_database_url :: "string option"
  env_jwt_secret :: "string option"
  maintenance_starts :: bool
  listening :: listen_outcomes
  http_created :: nat
  ws_constructed :: bool

record ('d, 't) server_process =
  databases :: "'d DatabasePool"
  business :: "'t ServiceThreadPool"
  websockets :: WebSocketPool
  listener :: TcpServer
  http_pool :: ThreadPool

definition database_config :: DatabasePoolConfig where
  "database_config = \<lparr>min_connections = 4, max_connections = 8, acquire_time = 5000, idle_time = 60000, check_interval = 100\<rparr>"

definition DatabasePool_new :: "'d DatabasePool" where
  "DatabasePool_new = \<lparr>config_of = database_config, DatabaseURL = [], idle_queue = [], total_connections = 0,
     is_running = False, initialized = False\<rparr>"

definition main_objects :: "('d, 't) server_process result" where
  "main_objects =
     (case ServiceThreadPool_of 2 of
        Inl e \<Rightarrow> Inl e
      | Inr b \<Rightarrow> Inr \<lparr>databases = DatabasePool_new, business = b,
          websockets = WebSocketPool_of \<lparr>min_capacity = 4, max_task_capacity = 100\<rparr>,
          listener = \<lparr>server_fd = None, server_ip = ''0.0.0.0'', server_port = 8081\<rparr>,
          http_pool = ThreadPool_of \<lparr>tp_min_capacity = 4, tp_max_capacity = 8\<rparr>\<rparr>)"

definition missing :: "string option \<Rightarrow> bool" where
  "missing v \<longleftrightarrow> v = None \<or> v = Some []"

text \<open>What comes before the routes: signals, libsodium, the database pool, the secret of the tokens.\<close>

definition main_configure ::
  "(nat \<Rightarrow> network) \<Rightarrow> int \<Rightarrow> main_env \<Rightarrow> 'd server \<Rightarrow> ('d, 't) server_process
     \<Rightarrow> unit result \<times> ('d, 't) server_process \<times> 'd server" where
  "main_configure net now env s p =
     (if \<not> signals_blocked env then (Inl (SystemError ''signalfd''), p, s)
      else if \<not> sodium_ready env then (Inl (RuntimeError ''Failed to initialize libsodium''), p, s)
      else if missing (env_database_url env)
      then (Inl (RuntimeError ''DATABASE_URL environment variable is not set or is empty''), p, s)
      else case dbpool_init net now (maintenance_starts env) (the (env_database_url env)) database_config (databases p) s of
        (Inl e, d, s) \<Rightarrow> (Inl e, p\<lparr>databases := d\<rparr>, s)
      | (Inr False, d, s) \<Rightarrow> (Inl (RuntimeError ''Concurrent pool initialization failed''), p\<lparr>databases := d\<rparr>, s)
      | (Inr True, d, s) \<Rightarrow>
          if missing (env_jwt_secret env) then (Inl (RuntimeError ''JWT_SECRET is not set or is empty''), p\<lparr>databases := d\<rparr>, s)
          else (Inr (), p\<lparr>databases := d\<rparr>, s))"

text \<open>What comes behind the routes, up to the call of \<^verbatim>\<open>running\<close>.\<close>

definition main_launch :: "main_env \<Rightarrow> ('d, 't) server_process \<Rightarrow> unit result \<times> ('d, 't) server_process" where
  "main_launch env p =
     (case server_start (listening env) (listener p) of
        (Inl e, l) \<Rightarrow> (Inl e, p\<lparr>listener := l\<rparr>)
      | (Inr _, l) \<Rightarrow>
          let p = p\<lparr>listener := l, business := pool_start (business p)\<rparr>
          in case threads_init (http_created env) (http_pool p) of
               (Inl e, h) \<Rightarrow> (Inl e, p\<lparr>http_pool := h\<rparr>)
             | (Inr False, h) \<Rightarrow> (Inl (RuntimeError ''Thread pool initialization failed''), p\<lparr>http_pool := h\<rparr>)
             | (Inr True, h) \<Rightarrow>
                 let p = p\<lparr>http_pool := h\<rparr>
                 in case pool_init (ws_constructed env) (websockets p) of
                      (Inl e, w) \<Rightarrow> (Inl e, p\<lparr>websockets := w\<rparr>)
                    | (Inr False, w) \<Rightarrow> (Inl (RuntimeError ''websocket pool initialization failed''), p\<lparr>websockets := w\<rparr>)
                    | (Inr True, w) \<Rightarrow> (Inr (), p\<lparr>websockets := w\<rparr>))"

definition main_start ::
  "(nat \<Rightarrow> network) \<Rightarrow> int \<Rightarrow> main_env \<Rightarrow> 'd server \<Rightarrow> ('d, 't) server_process
     \<Rightarrow> unit result \<times> ('d, 't) server_process \<times> 'd server" where
  "main_start net now env s p =
     (case main_configure net now env s p of
        (Inl e, p, s) \<Rightarrow> (Inl e, p, s)
      | (Inr _, p, s) \<Rightarrow> (case main_launch env p of (r, p) \<Rightarrow> (r, p, s)))"

section \<open>End\<close>

text \<open>
  \<^verbatim>\<open>main\<close> returns a code, or the destructor of a thread that is neither joined nor detached ends the process.
  \<open>None\<close> means that a \<^verbatim>\<open>close\<close> is still waiting, for a thread or for a leased connection.
\<close>

datatype process_end = Returned nat | Aborted

text \<open>What follows a normal return of \<^verbatim>\<open>running\<close>.\<close>

definition main_finish :: "('d, 't) server_process \<Rightarrow> (process_end \<times> ('d, 't) server_process) option" where
  "main_finish p =
     (case threads_close (http_pool p) of
        None \<Rightarrow> None
      | Some h \<Rightarrow>
          if \<not> all_joined (pool_stop (business p)) then None
          else let d = dbpool_close (databases p)
            in if \<not> pool_closed d then None
               else Some (Returned 0, \<lparr>databases = d, business = pool_join (pool_stop (business p)),
                 websockets = pool_close (websockets p), listener = server_stop (listener p), http_pool = h\<rparr>))"

text \<open>
  What follows an exception: the objects are destroyed in the reverse order of their construction, each by its
  destructor.  Only the pool of business threads has none of its own.
\<close>

definition main_unwind :: "('d, 't) server_process \<Rightarrow> (process_end \<times> ('d, 't) server_process) option" where
  "main_unwind p =
     (case threads_close (http_pool p) of
        None \<Rightarrow> None
      | Some h \<Rightarrow>
          let p = p\<lparr>http_pool := h, listener := server_stop (listener p), websockets := pool_close (websockets p)\<rparr>
          in if threads (business p) \<noteq> [] then Some (Aborted, p)
             else let d = dbpool_close (databases p)
               in if \<not> pool_closed d then None else Some (Returned 1, p\<lparr>databases := d\<rparr>))"

section \<open>A server that is ready\<close>

definition server_ready :: "('d, 't) server_process \<Rightarrow> bool" where
  "server_ready p \<longleftrightarrow>
     DatabasePool.is_running (databases p) \<and> pool_clean (databases p) \<and> length (idle_queue (databases p)) = 4 \<and>
     server_fd (listener p) \<noteq> None \<and> threads (business p) = [Waiting, Waiting] \<and> \<not> stop (business p) \<and>
     http_threads (http_pool p) = replicate 4 Idle \<and> tp_initialized (http_pool p) \<and> \<not> tp_stopping (http_pool p) \<and> \<not> ThreadPool.is_running (http_pool p) \<and>
     WebSocketPool.initialized (websockets p) \<and> worker_count (websockets p) = 4"

lemma server_start_listens: "server_start os t = (Inr u, t') \<Longrightarrow> server_fd t' = lo_socket os \<and> lo_socket os \<noteq> None"
  by (auto simp: server_start_def createSocket_def bindSocket_def listenSocket_def Let_def split: if_splits prod.splits sum.splits)

lemma database_ready:
  "dbpool_init net now b url database_config DatabasePool_new s = (Inr True, d, s') \<Longrightarrow>
   DatabasePool.is_running d \<and> pool_clean d \<and> length (idle_queue d) = 4"
  by (auto simp: dbpool_init_def database_config_def DatabasePool_new_def pool_clean_def Let_def
      split: if_splits prod.splits sum.splits dest!: connect_many_ready)

lemma http_ready:
  "threads_init k (ThreadPool_of \<lparr>tp_min_capacity = 4, tp_max_capacity = m\<rparr>) = (Inr True, h) \<Longrightarrow>
   http_threads h = replicate 4 Idle \<and> tp_initialized h \<and> \<not> tp_stopping h \<and> \<not> ThreadPool.is_running h"
  by (auto simp: threads_init_def ThreadPool_of_def Let_def split: if_splits)

lemma websockets_ready:
  "pool_init b (WebSocketPool_of \<lparr>min_capacity = 4, max_task_capacity = m\<rparr>) = (Inr True, w) \<Longrightarrow>
   WebSocketPool.initialized w \<and> worker_count w = 4"
  by (auto simp: pool_init_def WebSocketPool_of_def split: if_splits)

lemma business_ready:
  "ServiceThreadPool_of 2 = Inr b \<Longrightarrow> threads (pool_start b) = [Waiting, Waiting] \<and> \<not> stop (pool_start b)"
  by (auto simp: ServiceThreadPool_of_def pool_start_def numeral_2_eq_2)

lemma main_start_ready:
  assumes "main_objects = Inr p0" "main_start net now env s p0 = (Inr u, p, s')"
  shows "server_ready p"
  using assms
  by (auto simp: main_objects_def main_start_def main_configure_def main_launch_def server_ready_def Let_def split: if_splits sum.splits bool.splits prod.splits
      dest!: server_start_listens database_ready http_ready websockets_ready business_ready)

section \<open>The end\<close>

text \<open>While the server serves, its business threads work and tasks arrive; nothing stops or joins them.\<close>

definition business_serves :: "'t ServiceThreadPool \<Rightarrow> 't ServiceThreadPool \<Rightarrow> bool" where
  "business_serves b b' \<longleftrightarrow> thread_step b b' \<or> (\<exists>t. b' = snd (receiveTask t b))"

lemma business_serves_threads: "business_serves\<^sup>*\<^sup>* b b' \<Longrightarrow> length (threads b') = length (threads b)"
proof (induction rule: rtranclp_induct)
  case (step x y)
  from thread_step_keeps [of x y] step(2,3) show ?case by (auto simp: business_serves_def receiveTask_def)
qed simp

lemma main_unwind_business:
  assumes "threads (business p) \<noteq> []"
  shows "main_unwind p = (if threads_close (http_pool p) = None then None
    else Some (Aborted, p\<lparr>http_pool := the (threads_close (http_pool p)), listener := server_stop (listener p),
      websockets := pool_close (websockets p)\<rparr>))"
  using assms by (auto simp: main_unwind_def Let_def split: option.splits)

text \<open>The function by which \<^verbatim>\<open>running\<close> asks for a stop reads the descriptor of the blocked signals.\<close>

datatype signal_read = Signal_received | Signal_errno accept_errno | Signal_short

definition signal_requested :: "signal_read \<Rightarrow> bool result" where
  "signal_requested r =
     (if r = Signal_received then Inr True
      else if r \<in> {Signal_errno Try_again, Signal_errno Interrupted} then Inr False
      else Inl (RuntimeError ''Failed to read stop signal''))"

text \<open>
  C40. One failing \<^verbatim>\<open>accept\<close> aborts the process.  When the server is ready and serving, and a call of \<^verbatim>\<open>accept\<close> fails
  with any error but \<^verbatim>\<open>EAGAIN\<close> and \<^verbatim>\<open>EINTR\<close> (a client that gave up, or no free descriptor), the accepting loop leaves with
  the exception and stops the HTTP threads.  These come to their end, and then the process is aborted by the destructor
  of the business threads, which nothing has joined: \<^verbatim>\<open>main\<close> never returns its exit code 1, and whatever state \<open>d\<close> the
  database pool is in then, it is not closed.
\<close>

theorem accept_failure_aborts:
  assumes start: "main_objects = Inr p0" "main_start net now env s p0 = (Inr (), p, s')"
    and serves: "http_pool_step\<^sup>*\<^sup>* (http_pool p) h" "\<not> tp_stopping h" "business_serves\<^sup>*\<^sup>* (business p) b"
  shows "\<exists>e h'. running_pass (signal_requested (Signal_errno Try_again)) (acceptConnection (Poll_events False True) (Accept_failed Other_errno) timeouts) h = (Inl e, h') \<and>
    (\<exists>w. http_thread_step\<^sup>*\<^sup>* h' w \<and> main_unwind (p\<lparr>databases := d, business := b, http_pool := w\<rparr>) \<noteq> None) \<and>
    (\<forall>w r q. http_thread_step\<^sup>*\<^sup>* h' w \<longrightarrow> main_unwind (p\<lparr>databases := d, business := b, http_pool := w\<rparr>) = Some (r, q) \<longrightarrow>
       r = Aborted \<and> databases q = d)"
proof -
  define h' where "h' = running_end h"
  have pass: "running_pass (signal_requested (Signal_errno Try_again)) (acceptConnection (Poll_events False True) (Accept_failed Other_errno) timeouts) h =
      (Inl (SystemError ''accept''), h')"
    using serves(2) by (simp add: running_pass_def signal_requested_def acceptConnection_def h'_def)
  have b: "threads b \<noteq> []"
    using business_serves_threads [OF serves(3)] main_start_ready [OF start] by (auto simp: server_ready_def)
  have "tp_stopping h'" by (simp add: h'_def running_end_def requestStop_def)
  from stopped.ends [OF this] obtain w where w: "http_thread_step\<^sup>*\<^sup>* h' w" "threads_joined w" by blast
  have "main_unwind (p\<lparr>databases := d, business := b, http_pool := w\<rparr>) \<noteq> None"
    using w(2) b by (simp add: main_unwind_business threads_close_def threads_joined_def requestStop_def)
  moreover have "r = Aborted \<and> databases q = d"
    if "main_unwind (p\<lparr>databases := d, business := b, http_pool := v\<rparr>) = Some (r, q)" for v r q
    using that b by (auto simp: main_unwind_business split: if_splits)
  ultimately show ?thesis using pass w(1) by blast
qed

definition sample_env :: main_env where
  "sample_env = \<lparr>signals_blocked = True, sodium_ready = True, env_database_url = Some ''db'', env_jwt_secret = Some ''key'',
    maintenance_starts = True, listening = \<lparr>lo_socket = Some 3, lo_nonblocking = True, lo_reuse = True, lo_address = True,
    lo_bind = True, lo_listen = True\<rparr>, http_created = 4, ws_constructed = True\<rparr>"

lemma sample_start:
  "\<exists>(p0 :: (int, int) server_process) p s'. main_objects = Inr p0 \<and>
     main_start (\<lambda>_. Delivered) 0 sample_env \<lparr>tables = 7, sent = 0\<rparr> p0 = (Inr (), p, s')"
  by (simp add: main_objects_def ServiceThreadPool_of_def main_start_def main_configure_def main_launch_def sample_env_def missing_def dbpool_init_def
      DatabasePool_new_def database_config_def eval_nat_numeral DatabaseConnection_of_def server_start_def createSocket_def
      bindSocket_def listenSocket_def threads_init_def ThreadPool_of_def pool_init_def WebSocketPool_of_def Let_def)

theorem accept_failure_aborts_witness:
  "\<exists>(p :: (int, int) server_process) h w q. server_ready p \<and> running_start (http_pool p) = (Inr (), h) \<and>
     http_thread_step\<^sup>*\<^sup>* (running_end h) w \<and> main_unwind (p\<lparr>http_pool := w\<rparr>) = Some (Aborted, q)"
proof -
  from sample_start obtain p0 p :: "(int, int) server_process" and s' where s: "main_objects = Inr p0"
    "main_start (\<lambda>_. Delivered) 0 sample_env \<lparr>tables = 7, sent = 0\<rparr> p0 = (Inr (), p, s')" by blast
  define h where "h = (http_pool p)\<lparr>ThreadPool.is_running := True\<rparr>"
  note ready = main_start_ready [OF s]
  then have h: "running_start (http_pool p) = (Inr (), h)" and live: "\<not> tp_stopping h"
    by (auto simp: running_start_def server_ready_def h_def)
  have "http_pool_step\<^sup>*\<^sup>* (http_pool p) h" using starts [of "http_pool p"] h by auto
  note fails = accept_failure_aborts [OF s this live rtranclp.rtrancl_refl, of True "databases p"]
  have same: "p\<lparr>databases := databases p, business := business p, http_pool := w\<rparr> = p\<lparr>http_pool := w\<rparr>" for w by simp
  from fails [unfolded same]
  obtain e h' w where pass: "running_pass (signal_requested (Signal_errno Try_again)) (acceptConnection (Poll_events False True) (Accept_failed Other_errno) True) h = (Inl e, h')"
    and w: "http_thread_step\<^sup>*\<^sup>* h' w" "main_unwind (p\<lparr>http_pool := w\<rparr>) \<noteq> None"
    and ends: "\<forall>w r q. http_thread_step\<^sup>*\<^sup>* h' w \<longrightarrow> main_unwind (p\<lparr>http_pool := w\<rparr>) = Some (r, q) \<longrightarrow>
      r = Aborted \<and> databases q = databases p" by (elim exE conjE) (rule that, assumption+)
  from w(2) obtain r q where q: "main_unwind (p\<lparr>http_pool := w\<rparr>) = Some (r, q)" by (cases "main_unwind (p\<lparr>http_pool := w\<rparr>)") auto
  from ends [rule_format, OF w(1) q] have r: "r = Aborted" ..
  from pass live have "h' = running_end h" by (simp add: running_pass_def signal_requested_def acceptConnection_def)
  with w(1) q r have "http_thread_step\<^sup>*\<^sup>* (running_end h) w" "main_unwind (p\<lparr>http_pool := w\<rparr>) = Some (Aborted, q)" by simp_all
  with ready h show ?thesis by blast
qed

end
