(* ===== verification/Ws_Wakeup.thy ===== *)
theory Ws_Wakeup
  imports Ws_Worker Threads
begin

text \<open>
  The life of a WebSocket worker around its event handlers (\<^verbatim>\<open>src/src/websocket/WebsocketWorker.cpp\<close>): its
  descriptors, from the constructor to the destructor, and the way other threads hand it work.  A producer puts an item
  into a queue under the mutex and then writes to an event descriptor; the worker reads the descriptor and then swaps the
  queue out.  The same protocol carries new connections (\<^verbatim>\<open>transferSession\<close>, \<^verbatim>\<open>handleWakeup\<close>) and tasks
  (\<^verbatim>\<open>transferTask\<close>, \<^verbatim>\<open>handleTask\<close>), so it is stated once, over items of any type.
\<close>

section \<open>Descriptors\<close>

record worker_outcomes =
  co_epoll :: "int option"
  co_event :: "int option"
  co_business :: "int option"
  co_timer :: "int option"
  co_add_event :: bool
  co_add_business :: bool
  co_settime :: bool
  co_add_timer :: bool
  co_thread :: bool

record worker_fds =
  epoll_fd :: int
  event_fd :: int
  business_fd :: int
  timer_fd :: int

text \<open>
  The constructor: its result, the descriptors it opened and those it closed again, in order.
\<close>

definition worker_construct :: "worker_outcomes \<Rightarrow> worker_fds result \<times> int list \<times> int list" where
  "worker_construct os =
     (case co_epoll os of None \<Rightarrow> (Inl (SystemError ''Failed to create epoll''), [], []) | Some ep \<Rightarrow>
      case co_event os of None \<Rightarrow> (Inl (SystemError ''Failed to create eventfd''), [ep], [ep]) | Some ev \<Rightarrow>
      case co_business os of None \<Rightarrow> (Inl (SystemError ''Failed to create business eventfd''), [ep, ev], [ev, ep]) | Some b \<Rightarrow>
      case co_timer os of None \<Rightarrow> (Inl (SystemError ''Failed to create timer''), [ep, ev, b], [b, ev, ep]) | Some t \<Rightarrow>
      let opened = [ep, ev, b, t] in
      if \<not> co_add_event os then (Inl (SystemError ''Failed to register eventfd''), opened, [b, ev, ep, t])
      else if \<not> co_add_business os then (Inl (SystemError ''Failed to register business eventfd''), opened, [b, ev, ep, t])
      else if \<not> co_settime os then (Inl (SystemError ''Failed to configure heartbeat timerfd''), opened, [t, b, ev, ep])
      else if \<not> co_add_timer os then (Inl (SystemError ''Failed to register heartbeat timerfd''), opened, [b, ev, ep, t])
      else if \<not> co_thread os then (Inl (SystemError ''thread''), opened, [t, b, ev, ep])
      else (Inr \<lparr>epoll_fd = ep, event_fd = ev, business_fd = b, timer_fd = t\<rparr>, opened, []))"

text \<open>The destructor, behind the join of the thread: the descriptors it closes.\<close>

definition worker_destroy :: "worker_fds \<Rightarrow> int list" where
  "worker_destroy w = filter (\<lambda>fd. fd \<noteq> -1) [business_fd w, event_fd w, epoll_fd w, timer_fd w]"

text \<open>A worker leaks no descriptor and closes none twice, however its construction ends.\<close>

lemma worker_descriptors_balanced:
  assumes "worker_construct os = (r, opened, closed)" "-1 \<notin> set opened"
  shows "mset opened = mset closed + (case r of Inl _ \<Rightarrow> {#} | Inr w \<Rightarrow> mset (worker_destroy w))"
  using assms
  by (auto simp: worker_construct_def worker_destroy_def Let_def split: option.splits if_splits)

section \<open>New connections\<close>

text \<open>What \<^verbatim>\<open>read\<close> on an event descriptor may answer, and the loop around it; \<open>None\<close> while it is interrupted.\<close>

datatype read_outcome = Count_read | Nothing_to_read | Read_interrupted | Read_failed

fun read_counter :: "string \<Rightarrow> read_outcome list \<Rightarrow> unit result option" where
  "read_counter what [] = None"
| "read_counter what (r # rs) =
     (case r of
        Count_read \<Rightarrow> Some (Inr ())
      | Read_interrupted \<Rightarrow> read_counter what rs
      | Nothing_to_read \<Rightarrow> Some (Inr ())
      | Read_failed \<Rightarrow> Some (Inl (SystemError what)))"

text \<open>
  Every pending connection is tried, whatever exception the ones before it ended with; \<open>oks\<close> are the outcomes of the
  system calls for each and \<open>None\<close> is a handshake that is still blocked in \<^verbatim>\<open>send\<close>.
\<close>

fun accept_pending :: "config \<Rightarrow> (uuid \<Rightarrow> uuid \<Rightarrow> IdentityState result) \<Rightarrow> (PendingWebsocket \<Rightarrow> bool \<times> bool) \<Rightarrow> time
    \<Rightarrow> PendingWebsocket list \<Rightarrow> nat \<Rightarrow> wp \<Rightarrow> (wp \<times> nat) option" where
  "accept_pending cfg ver oks now [] sid wp = Some (wp, sid)"
| "accept_pending cfg ver oks now (s # ss) sid wp =
     (case acceptingSessions cfg ver (fst (oks s)) (snd (oks s)) now s sid wp of
        None \<Rightarrow> None
      | Some (e, wp', sid') \<Rightarrow> accept_pending cfg ver oks now ss sid' wp')"

definition handleWakeup :: "config \<Rightarrow> (uuid \<Rightarrow> uuid \<Rightarrow> IdentityState result) \<Rightarrow> (PendingWebsocket \<Rightarrow> bool \<times> bool) \<Rightarrow> time
    \<Rightarrow> read_outcome list \<Rightarrow> nat \<Rightarrow> wp \<Rightarrow> (exn option \<times> wp \<times> nat) option" where
  "handleWakeup cfg ver oks now reads sid wp =
     (case read_counter ''Failed to read WebSocket worker eventfd'' reads of
        None \<Rightarrow> None
      | Some (Inl e) \<Rightarrow> Some (Some e, wp, sid)
      | Some (Inr _) \<Rightarrow>
          (let (w, p) = wp in
           map_option (\<lambda>(wp', sid'). (None, wp', sid'))
             (accept_pending cfg ver oks now (pending_session_queue w) sid (w\<lparr>pending_session_queue := []\<rparr>, p))))"

lemma accept_pending_steps:
  "accept_pending cfg ver oks now ss sid wp = Some (wp', sid') \<Longrightarrow> worker_step\<^sup>*\<^sup>* wp wp'"
proof (induction ss arbitrary: sid wp)
  case (Cons s ss)
  then obtain e wp1 sid1 where a: "acceptingSessions cfg ver (fst (oks s)) (snd (oks s)) now s sid wp = Some (e, wp1, sid1)"
    and r: "accept_pending cfg ver oks now ss sid1 wp1 = Some (wp', sid')" by (auto split: option.splits)
  from accept_event [OF a] Cons.IH [OF r] show ?case by (rule converse_rtranclp_into_rtranclp)
qed simp

section \<open>Wake-ups\<close>

text \<open>
  A mailbox: the queue under the mutex, the counter of the event descriptor, how many producers have queued an item and
  not yet written, and where the worker is: in \<^verbatim>\<open>epoll_wait\<close>, between the read and the swap, or with the items that
  it swapped out.  \<open>mb_sent\<close> and \<open>mb_handled\<close> only record what happened.
\<close>

datatype 'a reader = Waiting_event | Drained | Handling "'a list"

record 'a mailbox =
  mb_queue :: "'a list"
  mb_counter :: nat
  mb_writers :: nat
  mb_reader :: "'a reader"
  mb_sent :: "'a list"
  mb_handled :: "'a list"

definition mailbox_new :: "'a mailbox" where
  "mailbox_new = \<lparr>mb_queue = [], mb_counter = 0, mb_writers = 0, mb_reader = Waiting_event, mb_sent = [], mb_handled = []\<rparr>"

definition mb_push :: "'a \<Rightarrow> 'a mailbox \<Rightarrow> 'a mailbox" where
  "mb_push x m = m\<lparr>mb_queue := mb_queue m @ [x], mb_writers := mb_writers m + 1, mb_sent := mb_sent m @ [x]\<rparr>"

text \<open>\<^verbatim>\<open>write\<close> of 1: at the largest value, \<open>2 ^ 64 - 2\<close>, it answers \<^verbatim>\<open>EAGAIN\<close>, which the code takes for success.\<close>

definition eventfd_write :: "nat \<Rightarrow> nat" where
  "eventfd_write n = (if n < 2 ^ 64 - 2 then n + 1 else n)"

definition wakeup :: "'a mailbox \<Rightarrow> 'a mailbox" where
  "wakeup m = m\<lparr>mb_counter := eventfd_write (mb_counter m), mb_writers := mb_writers m - 1\<rparr>"

definition mb_read :: "'a mailbox \<Rightarrow> 'a mailbox" where
  "mb_read m = m\<lparr>mb_counter := 0, mb_reader := Drained\<rparr>"

definition mb_swap :: "'a mailbox \<Rightarrow> 'a mailbox" where
  "mb_swap m = m\<lparr>mb_queue := [], mb_reader := Handling (mb_queue m)\<rparr>"

definition mb_handle :: "'a \<Rightarrow> 'a list \<Rightarrow> 'a mailbox \<Rightarrow> 'a mailbox" where
  "mb_handle x xs m = m\<lparr>mb_reader := Handling xs, mb_handled := mb_handled m @ [x]\<rparr>"

text \<open>What happens without anything new being sent, and what happens at all.\<close>

inductive mailbox_work :: "'a mailbox \<Rightarrow> 'a mailbox \<Rightarrow> bool" where
  writes: "0 < mb_writers m \<Longrightarrow> mailbox_work m (wakeup m)"
| reads: "mb_reader m = Waiting_event \<Longrightarrow> 0 < mb_counter m \<Longrightarrow> mailbox_work m (mb_read m)"
| swaps: "mb_reader m = Drained \<Longrightarrow> mailbox_work m (mb_swap m)"
| handles: "mb_reader m = Handling (x # xs) \<Longrightarrow> mailbox_work m (mb_handle x xs m)"
| returns: "mb_reader m = Handling [] \<Longrightarrow> mailbox_work m (m\<lparr>mb_reader := Waiting_event\<rparr>)"

definition mailbox_step :: "'a mailbox \<Rightarrow> 'a mailbox \<Rightarrow> bool" where
  "mailbox_step m m' \<longleftrightarrow> mailbox_work m m' \<or> (\<exists>x. m' = mb_push x m)"

fun in_hand :: "'a reader \<Rightarrow> 'a list" where
  "in_hand (Handling xs) = xs"
| "in_hand _ = []"

definition mailbox_inv :: "'a mailbox \<Rightarrow> bool" where
  "mailbox_inv m \<longleftrightarrow>
     mb_sent m = mb_handled m @ in_hand (mb_reader m) @ mb_queue m \<and>
     (mb_queue m \<noteq> [] \<longrightarrow> 0 < mb_counter m \<or> 0 < mb_writers m \<or> mb_reader m = Drained)"

fun reader_left :: "'a reader \<Rightarrow> nat" where
  "reader_left Waiting_event = 0"
| "reader_left Drained = 2"
| "reader_left (Handling xs) = 1 + length xs"

definition mailbox_left :: "'a mailbox \<Rightarrow> nat" where
  "mailbox_left m = 4 * mb_writers m + (if 0 < mb_counter m then 3 else 0) + reader_left (mb_reader m) + length (mb_queue m)"

lemmas mailbox_defs = wakeup_def eventfd_write_def mb_read_def mb_swap_def mb_handle_def

lemma mailbox_work_inv: "mailbox_work m m' \<Longrightarrow> mailbox_inv m \<Longrightarrow> mailbox_inv m'"
  by (induction rule: mailbox_work.induct) (auto simp: mailbox_inv_def mailbox_defs)

lemma mailbox_work_left: "mailbox_work m m' \<Longrightarrow> mailbox_left m' < mailbox_left m"
  by (induction rule: mailbox_work.induct) (auto simp: mailbox_left_def mailbox_defs)

lemma mailbox_work_sent: "mailbox_work m m' \<Longrightarrow> mb_sent m' = mb_sent m"
  by (induction rule: mailbox_work.induct) (auto simp: mailbox_defs)

lemma mailbox_step_inv: "mailbox_step m m' \<Longrightarrow> mailbox_inv m \<Longrightarrow> mailbox_inv m'"
  unfolding mailbox_step_def by (auto intro: mailbox_work_inv) (auto simp: mailbox_inv_def mb_push_def)

lemma mailbox_steps_inv: "mailbox_step\<^sup>*\<^sup>* m m' \<Longrightarrow> mailbox_inv m \<Longrightarrow> mailbox_inv m'"
  by (induction rule: rtranclp_induct) (auto intro: mailbox_step_inv)

lemma mailbox_at_rest:
  assumes "mailbox_inv m" "\<nexists>m'. mailbox_work m m'"
  shows "mb_handled m = mb_sent m \<and> mb_queue m = []"
proof -
  have w: "mb_writers m = 0" using assms(2) writes by blast
  have "mb_reader m = Waiting_event" using assms(2)
    by (cases "mb_reader m"; cases "in_hand (mb_reader m)") (auto intro: swaps handles returns)
  moreover from this assms(2) reads have "mb_counter m = 0" by blast
  ultimately show ?thesis using assms(1) w by (auto simp: mailbox_inv_def)
qed

interpretation delivery: terminating mailbox_work "\<lambda>m. mailbox_inv m \<and> mb_sent m = sent" mailbox_left
    "\<lambda>m. mb_handled m = mb_sent m \<and> mb_queue m = []" for sent :: "'a list"
  by unfold_locales (use mailbox_work_left mailbox_work_inv mailbox_work_sent mailbox_at_rest in blast)+

text \<open>
  C27. No wake-up is lost, and nothing is handled twice or out of order.  Whatever the interleaving of the producers and
  the worker was, what has been handled is the beginning of what was sent, in order; and if nothing more is sent, then
  after finitely many steps, at most \<open>mailbox_left\<close>, nobody can make a step, and at that moment everything that was ever
  sent has been handled and the queue is empty.
\<close>

theorem no_wakeup_lost:
  assumes "mailbox_step\<^sup>*\<^sup>* mailbox_new m" "(mailbox_work ^^ k) m m'"
  shows "k \<le> mailbox_left m \<and> (\<exists>rest. mb_sent m = mb_handled m' @ rest) \<and>
    ((\<nexists>m''. mailbox_work m' m'') \<longrightarrow> mb_handled m' = mb_sent m \<and> mb_queue m' = [])"
proof -
  have m: "mailbox_inv m \<and> mb_sent m = mb_sent m" using mailbox_steps_inv [OF assms(1)] by (simp add: mailbox_inv_def mailbox_new_def)
  from delivery.steps [OF m assms(2)] have s: "mailbox_inv m'" "mb_sent m' = mb_sent m" by auto
  then have "\<exists>rest. mb_sent m = mb_handled m' @ rest" by (auto simp: mailbox_inv_def)
  with s(2) delivery.bounded [OF m assms(2)] delivery.at_rest [OF m assms(2)] show ?thesis by simp
qed

text \<open>Witness: a second item is sent between the worker's read and its swap, and announced after both were handled.\<close>

definition sample_mailbox :: "nat \<Rightarrow> nat \<Rightarrow> nat list \<Rightarrow> nat reader \<Rightarrow> nat list \<Rightarrow> nat list \<Rightarrow> nat mailbox" where
  "sample_mailbox c n q r sent handled =
     \<lparr>mb_queue = q, mb_counter = c, mb_writers = n, mb_reader = r, mb_sent = sent, mb_handled = handled\<rparr>"

lemma sample_mailbox_sends: "mailbox_step\<^sup>*\<^sup>* mailbox_new (sample_mailbox 0 1 [7, 8] Drained [7, 8] [])"
proof -
  have a: "mailbox_step mailbox_new (sample_mailbox 0 1 [7] Waiting_event [7] [])"
    by (auto simp: mailbox_step_def mailbox_new_def mb_push_def sample_mailbox_def)
  have b: "mailbox_step (sample_mailbox 0 1 [7] Waiting_event [7] []) (sample_mailbox 1 0 [7] Waiting_event [7] [])"
    using writes [of "sample_mailbox 0 1 [7] Waiting_event [7] []"]
    by (simp add: mailbox_step_def wakeup_def eventfd_write_def sample_mailbox_def)
  have c: "mailbox_step (sample_mailbox 1 0 [7] Waiting_event [7] []) (sample_mailbox 0 0 [7] Drained [7] [])"
    using reads [of "sample_mailbox 1 0 [7] Waiting_event [7] []"] by (simp add: mailbox_step_def mb_read_def sample_mailbox_def)
  have d: "mailbox_step (sample_mailbox 0 0 [7] Drained [7] []) (sample_mailbox 0 1 [7, 8] Drained [7, 8] [])"
    by (auto simp: mailbox_step_def mb_push_def sample_mailbox_def)
  from a b c d show ?thesis by (meson converse_rtranclp_into_rtranclp rtranclp.rtrancl_refl)
qed

lemma sample_mailbox_works:
  "(mailbox_work ^^ 5) (sample_mailbox 0 1 [x, y] Drained [x, y] []) (sample_mailbox 1 0 [] Waiting_event [x, y] [x, y])"
proof -
  have a: "mailbox_work (sample_mailbox 0 1 [x, y] Drained [x, y] []) (sample_mailbox 0 1 [] (Handling [x, y]) [x, y] [])"
    using swaps [of "sample_mailbox 0 1 [x, y] Drained [x, y] []"] by (simp add: mb_swap_def sample_mailbox_def)
  have b: "mailbox_work (sample_mailbox 0 1 [] (Handling (z # zs)) [x, y] vs) (sample_mailbox 0 1 [] (Handling zs) [x, y] (vs @ [z]))" for z zs vs
    using handles [of "sample_mailbox 0 1 [] (Handling (z # zs)) [x, y] vs"] by (simp add: mb_handle_def sample_mailbox_def)
  have c: "mailbox_work (sample_mailbox 0 1 [] (Handling []) [x, y] [x, y]) (sample_mailbox 0 1 [] Waiting_event [x, y] [x, y])"
    using returns [of "sample_mailbox 0 1 [] (Handling []) [x, y] [x, y]"] by (simp add: sample_mailbox_def)
  have d: "mailbox_work (sample_mailbox 0 1 [] Waiting_event [x, y] [x, y]) (sample_mailbox 1 0 [] Waiting_event [x, y] [x, y])"
    using writes [of "sample_mailbox 0 1 [] Waiting_event [x, y] [x, y]"] by (simp add: wakeup_def eventfd_write_def sample_mailbox_def)
  from b [of x "[y]" "[]"] b [of y "[]" "[x]"] a c d show ?thesis
    by (simp add: eval_nat_numeral relcompp_apply) blast
qed

lemma sample_mailbox_rests:
  "(mailbox_work ^^ 3) (sample_mailbox 1 0 [] Waiting_event [7, 8] [7, 8]) (sample_mailbox 0 0 [] Waiting_event [7, 8] [7, 8])"
proof -
  have a: "mailbox_work (sample_mailbox 1 0 [] Waiting_event [7, 8] [7, 8]) (sample_mailbox 0 0 [] Drained [7, 8] [7, 8])"
    using reads [of "sample_mailbox 1 0 [] Waiting_event [7, 8] [7, 8]"] by (simp add: mb_read_def sample_mailbox_def)
  have b: "mailbox_work (sample_mailbox 0 0 [] Drained [7, 8] [7, 8]) (sample_mailbox 0 0 [] (Handling []) [7, 8] [7, 8])"
    using swaps [of "sample_mailbox 0 0 [] Drained [7, 8] [7, 8]"] by (simp add: mb_swap_def sample_mailbox_def)
  have c: "mailbox_work (sample_mailbox 0 0 [] (Handling []) [7, 8] [7, 8]) (sample_mailbox 0 0 [] Waiting_event [7, 8] [7, 8])"
    using returns [of "sample_mailbox 0 0 [] (Handling []) [7, 8] [7, 8]"] by (simp add: sample_mailbox_def)
  from a b c show ?thesis by (auto simp: numeral_3_eq_3)
qed

theorem no_wakeup_lost_witness:
  "\<exists>m m'. mailbox_step\<^sup>*\<^sup>* mailbox_new m \<and> mb_queue m = [7, 8 :: nat] \<and> (mailbox_work ^^ 8) m m' \<and>
     mb_handled m' = [7, 8] \<and> mb_queue m' = []"
proof -
  let ?m = "sample_mailbox 0 1 [7, 8] Drained [7, 8] []"
  let ?r = "sample_mailbox 0 0 [] Waiting_event [7, 8] [7, 8]"
  have "(mailbox_work ^^ (5 + 3)) ?m ?r"
    unfolding relpowp_add using sample_mailbox_works sample_mailbox_rests by (rule relcomppI)
  then have run: "(mailbox_work ^^ 8) ?m ?r" by simp
  have "\<nexists>m''. mailbox_work ?r m''" by (auto simp: sample_mailbox_def elim: mailbox_work.cases)
  with no_wakeup_lost [OF sample_mailbox_sends run] have "mb_handled ?r = mb_sent ?m" "mb_queue ?r = []" by auto
  with sample_mailbox_sends run show ?thesis by (intro exI [of _ ?m] exI [of _ ?r]) (simp add: sample_mailbox_def)
qed

end
